(* ===== verification/Mango_Prelude.thy ===== *)
theory Mango_Prelude
  imports Main "HOL-Library.Word"
begin

text \<open>
  Shared foundations of the development: the program's error values
  (\<^verbatim>\<open>programs/mango-v4/src/error.rs\<close>), the result type every fallible operation
  returns, machine integers with the program's overflow behaviour (the workspace is
  built with \<^verbatim>\<open>overflow-checks = true\<close>, so an overflow is a panic, not a
  wrap-around), two-element arrays indexed by a bit, and the generic lemmas on results
  and lists that the component proofs use.
\<close>

unbundle bit_operations_syntax

section \<open>Collections of facts\<close>

named_theorems res_simps \<open>evaluation of the result monad\<close>
named_theorems int_simps \<open>evaluation of checked machine arithmetic\<close>

section \<open>Errors and results\<close>

text \<open>The error codes of the program (\<^verbatim>\<open>error.rs\<close>), in the order of the source.\<close>

datatype (plugins only: size) MangoError =
    SomeError
  | NotImplementedError
  | MathError
  | UnexpectedOracle
  | UnknownOracleType
  | InvalidFlashLoanTargetCpiProgram
  | HealthMustBePositive
  | HealthMustBePositiveOrIncrease
  | HealthMustBeNegative
  | IsBankrupt
  | IsNotBankrupt
  | NoFreeTokenPositionIndex
  | NoFreeSerum3OpenOrdersIndex
  | NoFreePerpPositionIndex
  | Serum3OpenOrdersExistAlready
  | InsufficentBankVaultFunds
  | BeingLiquidated
  | InvalidBank
  | ProfitabilityMismatch
  | CannotSettleWithSelf
  | PerpPositionDoesNotExist
  | MaxSettleAmountMustBeGreaterThanZero
  | HasOpenPerpOrders
  | OracleConfidence
  | OracleStale
  | SettlementAmountMustBePositive
  | BankBorrowLimitReached
  | BankNetBorrowsLimitReached
  | TokenPositionDoesNotExist
  | DepositsIntoLiquidatingMustRecover
  | TokenInReduceOnlyMode
  | MarketInReduceOnlyMode
  | GroupIsHalted
  | PerpHasBaseLots
  | HasOpenOrUnsettledSerum3Orders
  | HasLiquidatableTokenPosition
  | HasLiquidatablePerpBasePosition
  | HasLiquidatablePositivePerpPnl
  | AccountIsFrozen
  | InitAssetWeightCantBeNegative
  | HasOpenPerpTakerFills
  | DepositLimit
  | IxIsDisabled
  | NoLiquidatablePerpBasePosition
  | PerpOrderIdNotFound
  | HealthRegionBadInnerInstruction
  | TokenInForceClose
  | InvalidHealthAccountCount
  | WouldSelfTrade
  | TokenConditionalSwapPriceNotInRange
  | TokenConditionalSwapExpired
  | TokenConditionalSwapNotStarted
  | TokenConditionalSwapAlreadyStarted
  | TokenConditionalSwapNotSet
  | TokenConditionalSwapMinBuyTokenNotReached
  | TokenConditionalSwapCantPayIncentive
  | TokenConditionalSwapTakerPriceTooLow
  | TokenConditionalSwapIndexIdMismatch
  | TokenConditionalSwapTooSmallForStartIncentive
  | TokenConditionalSwapTypeNotStartable
  | HealthAccountBankNotWritable
  | Serum3PriceBandExceeded
  | BankDepositLimit
  | DelegateWithdrawOnlyToOwnerAta
  | DelegateWithdrawMustClosePosition
  | DelegateWithdrawSmall
  | InvalidCLMMOracle
  | InvalidFeedForCLMMOracle
  | MissingFeedForCLMMOracle
  | TokenAssetLiquidationDisabled
  | BorrowsRequireHealthAccountBank
  | InvalidSequenceNumber
  | InvalidHealth
  | QueueIsFull
  | SequenceNumberTooLow
  | MissingIntentSignature
  | MissingContinuumSignature
  | InvalidContinuumSignature
  | ContinuumKeyMissing
  | UnsupportedQueueEventType
  | InvalidQueueParams
  | IntentGroupMismatch
  | IntentAccountMismatch
  | IntentMarketMismatch
  | OrderIntentHashMismatch
  | OrderIntentExpired
  | QueuedOrderIntentExpired

text \<open>
  How an instruction can fail: a coded program error, a failed \<^verbatim>\<open>require\<close> of
  Anchor without a code of the program, an error of the Solana runtime, a Rust panic
  (failed assertion, overflow, unwrap of nothing, index out of range). \<open>OutOfFuel\<close> is
  not an outcome of the program: it marks a loop whose bound was exhausted, and the
  lemmas about each loop show that it does not occur.
\<close>

datatype error =
    MangoErr MangoError
  | RequireViolated
  | RuntimeError
  | Panic
  | OutOfFuel

type_synonym 'a res = "error + 'a"

definition rbind :: "'a res \<Rightarrow> ('a \<Rightarrow> 'b res) \<Rightarrow> 'b res" where
  "rbind m f = (case m of Inl e \<Rightarrow> Inl e | Inr x \<Rightarrow> f x)"

definition require :: "bool \<Rightarrow> error \<Rightarrow> unit res" where
  "require b e = (if b then Inr () else Inl e)"

definition unwrap :: "'a option \<Rightarrow> 'a res" where
  "unwrap x = (case x of None \<Rightarrow> Inl Panic | Some y \<Rightarrow> Inr y)"

definition ok_or :: "'a option \<Rightarrow> error \<Rightarrow> 'a res" where
  "ok_or x e = (case x of None \<Rightarrow> Inl e | Some y \<Rightarrow> Inr y)"

lemma rbind_Inl [simp, res_simps]: "rbind (Inl e) f = Inl e"
  by (simp add: rbind_def)

lemma rbind_Inr [simp, res_simps]: "rbind (Inr x) f = f x"
  by (simp add: rbind_def)

lemma rbind_eq_Inr: "rbind m f = Inr y \<longleftrightarrow> (\<exists>x. m = Inr x \<and> f x = Inr y)"
  by (cases m) auto

lemma rbind_eq_Inl: "rbind m f = Inl e \<longleftrightarrow> m = Inl e \<or> (\<exists>x. m = Inr x \<and> f x = Inl e)"
  by (cases m) auto

lemma rbind_assoc: "rbind (rbind m f) g = rbind m (\<lambda>x. rbind (f x) g)"
  by (cases m) auto

lemma rbind_cong [fundef_cong]:
  "m = m' \<Longrightarrow> (\<And>x. m' = Inr x \<Longrightarrow> f x = f' x) \<Longrightarrow> rbind m f = rbind m' f'"
  by (cases m') auto

lemma rbind_InrE:
  assumes "rbind m f = Inr y"
  obtains x where "m = Inr x" "f x = Inr y"
  using assms by (cases m) auto

lemma require_simps [simp, res_simps]:
  "require True e = Inr ()" "require False e = Inl e"
  by (simp_all add: require_def)

lemma require_eq_Inr [simp]: "require b e = Inr u \<longleftrightarrow> b"
  by (simp add: require_def)

lemma require_eq_Inl: "require b e = Inl e' \<longleftrightarrow> \<not> b \<and> e' = e"
  by (auto simp: require_def)

lemma unwrap_simps [simp, res_simps]:
  "unwrap None = Inl Panic" "unwrap (Some x) = Inr x"
  by (simp_all add: unwrap_def)

lemma unwrap_eq_Inr: "unwrap m = Inr x \<longleftrightarrow> m = Some x"
  by (cases m) auto

lemma ok_or_simps [simp, res_simps]:
  "ok_or None e = Inl e" "ok_or (Some x) e = Inr x"
  by (simp_all add: ok_or_def)

lemma ok_or_eq_Inr: "ok_or m e = Inr x \<longleftrightarrow> m = Some x"
  by (cases m) auto

lemmas res_eq_simps = rbind_eq_Inr unwrap_eq_Inr ok_or_eq_Inr

section \<open>Division\<close>

lemma div_bounds: "0 < p \<Longrightarrow> r div p * p \<le> r" "0 < p \<Longrightarrow> r < (r div p + 1) * p" for p r :: int
  using pos_mod_sign [of p r] pos_mod_bound [of p r] div_mult_mod_eq [of r p] by (simp add: distrib_right; linarith)+

section \<open>Machine integers\<close>

text \<open>
  Signed integers are \<^typ>\<open>int\<close> and unsigned ones \<^typ>\<open>nat\<close>, with the width
  checked after each operation that can leave it. Values that the program handles
  bitwise (the 128-bit tree keys and their 64-bit halves) are words.
\<close>

type_synonym i64 = int
type_synonym u8 = nat
type_synonym u16 = nat
type_synonym u32 = nat
type_synonym u64 = nat
type_synonym u128 = "128 word"
type_synonym pubkey = "8 word list"

definition i64_MIN :: int where "i64_MIN = - 9223372036854775808"
definition i64_MAX :: int where "i64_MAX = 9223372036854775807"
definition u16_MAX :: nat where "u16_MAX = 65535"
definition u32_MAX :: nat where "u32_MAX = 4294967295"
definition u64_MAX :: nat where "u64_MAX = 18446744073709551615"

definition in_i64 :: "int \<Rightarrow> bool" where
  "in_i64 x \<longleftrightarrow> i64_MIN \<le> x \<and> x \<le> i64_MAX"

text \<open>The value of an \<^verbatim>\<open>i64\<close> (resp. unsigned) expression, or the overflow panic.\<close>

definition chk_i64 :: "int \<Rightarrow> int res" where
  "chk_i64 x = (if in_i64 x then Inr x else Inl Panic)"

definition chk_u64 :: "nat \<Rightarrow> nat res" where
  "chk_u64 n = (if n \<le> u64_MAX then Inr n else Inl Panic)"

definition chk_u32 :: "nat \<Rightarrow> nat res" where
  "chk_u32 n = (if n \<le> u32_MAX then Inr n else Inl Panic)"

definition sub_unsigned :: "nat \<Rightarrow> nat \<Rightarrow> nat res" where
  "sub_unsigned a b = (if b \<le> a then Inr (a - b) else Inl Panic)"

definition sat_i64 :: "int \<Rightarrow> int" where
  "sat_i64 x = max i64_MIN (min i64_MAX x)"

definition sat_u64 :: "nat \<Rightarrow> nat" where
  "sat_u64 n = min u64_MAX n"

text \<open>Rust's \<^verbatim>\<open>/\<close> on \<^verbatim>\<open>i64\<close> truncates towards zero and panics on zero and on
  \<^verbatim>\<open>i64::MIN / -1\<close>.\<close>

definition div_i64 :: "int \<Rightarrow> int \<Rightarrow> int res" where
  "div_i64 a b =
     (if b = 0 then Inl Panic else chk_i64 (sgn a * sgn b * (\<bar>a\<bar> div \<bar>b\<bar>)))"

lemma chk_i64_eq_Inr [simp]: "chk_i64 x = Inr y \<longleftrightarrow> y = x \<and> in_i64 x"
  by (auto simp: chk_i64_def)

lemma chk_i64_in [simp]: "in_i64 x \<Longrightarrow> chk_i64 x = Inr x"
  by (simp add: chk_i64_def)

lemma chk_u64_eq_Inr [simp]: "chk_u64 x = Inr y \<longleftrightarrow> y = x \<and> x \<le> u64_MAX"
  by (auto simp: chk_u64_def)

lemma chk_u64_in [simp]: "x \<le> u64_MAX \<Longrightarrow> chk_u64 x = Inr x"
  by (simp add: chk_u64_def)

lemma chk_u32_eq_Inr [simp]: "chk_u32 x = Inr y \<longleftrightarrow> y = x \<and> x \<le> u32_MAX"
  by (auto simp: chk_u32_def)

lemma chk_u32_in [simp]: "x \<le> u32_MAX \<Longrightarrow> chk_u32 x = Inr x"
  by (simp add: chk_u32_def)

lemma sub_unsigned_eq_Inr [simp]: "sub_unsigned a b = Inr y \<longleftrightarrow> b \<le> a \<and> y = a - b"
  by (auto simp: sub_unsigned_def)

lemma in_i64_sat [simp]: "in_i64 (sat_i64 x)"
  by (auto simp: in_i64_def sat_i64_def i64_MIN_def i64_MAX_def)

lemma sat_i64_id: "in_i64 x \<Longrightarrow> sat_i64 x = x"
  by (auto simp: in_i64_def sat_i64_def)

lemma in_i64_bounds: "in_i64 x \<longleftrightarrow> - (2 ^ 63) \<le> x \<and> x < 2 ^ 63"
  by (auto simp: in_i64_def i64_MIN_def i64_MAX_def)

lemma in_i64_between: "in_i64 a \<Longrightarrow> in_i64 b \<Longrightarrow> a \<le> x \<Longrightarrow> x \<le> b \<Longrightarrow> in_i64 x"
  by (simp add: in_i64_def)

text \<open>On nonnegative operands the truncating division is the mathematical one.\<close>

lemma div_i64_pos: "0 \<le> a \<Longrightarrow> in_i64 a \<Longrightarrow> 0 < b \<Longrightarrow> div_i64 a b = Inr (a div b)"
proof -
  assume a: "0 \<le> a" "in_i64 a" and b: "0 < b"
  have eq: "sgn a * sgn b * (\<bar>a\<bar> div \<bar>b\<bar>) = a div b"
    using a b by (cases "a = 0") (simp_all add: sgn_if)
  have "0 \<le> a div b" using a b by (simp add: pos_imp_zdiv_nonneg_iff)
  moreover have "a div b \<le> a" using a b
    by (cases "a = 0") (use zdiv_mono2 [of a 1 b] in auto)
  ultimately have "in_i64 (a div b)" using a by (auto simp: in_i64_def i64_MIN_def)
  with b show ?thesis unfolding div_i64_def eq by simp
qed

text \<open>Comparing two numbers written in base \<open>m\<close>.\<close>

lemma base_less_iff:
  fixes p q s t m :: int
  assumes "0 \<le> s" "s < m" "0 \<le> t" "t < m"
  shows "p * m + s < q * m + t \<longleftrightarrow> p < q \<or> p = q \<and> s < t"
proof -
  have lt: "x * m + u < y * m + v" if "x < y" "0 \<le> v" "u < m" for x y u v
  proof -
    have "(x + 1) * m \<le> y * m" using that assms by (intro mult_right_mono) auto
    with that show ?thesis by (simp add: algebra_simps)
  qed
  show ?thesis
    using lt [of p q t s] lt [of q p s t] assms by (cases p q rule: linorder_cases) auto
qed

lemmas int_consts = i64_MIN_def i64_MAX_def u16_MAX_def u32_MAX_def u64_MAX_def

section \<open>Two-element arrays indexed by a bit\<close>

definition sel2 :: "bool \<Rightarrow> 'a \<times> 'a \<Rightarrow> 'a" where
  "sel2 b p = (if b then snd p else fst p)"

definition upd2 :: "bool \<Rightarrow> 'a \<Rightarrow> 'a \<times> 'a \<Rightarrow> 'a \<times> 'a" where
  "upd2 b x p = (if b then (fst p, x) else (x, snd p))"

lemma sel2_simps [simp]: "sel2 False (x, y) = x" "sel2 True (x, y) = y"
  by (simp_all add: sel2_def)

lemma upd2_simps [simp]: "upd2 False z (x, y) = (z, y)" "upd2 True z (x, y) = (x, z)"
  by (simp_all add: upd2_def)

lemma sel2_upd2 [simp]: "sel2 b (upd2 b x p) = x" "sel2 (\<not> b) (upd2 b x p) = sel2 (\<not> b) p"
  "sel2 b (upd2 (\<not> b) x p) = sel2 b p"
  by (simp_all add: sel2_def upd2_def)

section \<open>Lists\<close>

lemma nth_update_mem:
  "h \<in> A \<Longrightarrow> i \<notin> A \<Longrightarrow> xs[h := x] ! i = xs ! i"
  "h \<notin> A \<Longrightarrow> i \<in> A \<Longrightarrow> xs[h := x] ! i = xs ! i"
  by (metis nth_list_update_neq)+

text \<open>The slots of a ring buffer are distinct.\<close>

lemma ring_index: "h < n \<Longrightarrow> i < n \<Longrightarrow> j < n \<Longrightarrow> (h + i) mod n = (h + j) mod n \<longleftrightarrow> i = j" for h :: nat
  by (auto simp: mod_if split: if_splits)

section \<open>Loops over iterators\<close>

text \<open>
  A Rust \<^verbatim>\<open>for\<close> loop over an iterator: \<open>nxt\<close> advances the iterator and gives the next
  element, if there is one; the body gets the element and the loop's variables and either
  continues with new values for them (\<open>Inl\<close>) or leaves the loop with a result (\<open>Inr\<close>).
  \<open>for_list\<close> is the same loop over the list of elements.
\<close>

fun for_loop ::
  "nat \<Rightarrow> ('it \<Rightarrow> ('it \<times> 'x option) res) \<Rightarrow> ('x \<Rightarrow> 's \<Rightarrow> ('s + 'r) res) \<Rightarrow> 'it \<Rightarrow> 's \<Rightarrow> ('s + 'r) res" where
  "for_loop 0 nxt body it s = Inl OutOfFuel"
| "for_loop (Suc fuel) nxt body it s =
     rbind (nxt it) (\<lambda>(it', x). case x of
       None \<Rightarrow> Inr (Inl s)
     | Some y \<Rightarrow> rbind (body y s) (\<lambda>r. case r of
         Inl s' \<Rightarrow> for_loop fuel nxt body it' s'
       | Inr v \<Rightarrow> Inr (Inr v)))"

fun for_list :: "('x \<Rightarrow> 's \<Rightarrow> ('s + 'r) res) \<Rightarrow> 'x list \<Rightarrow> 's \<Rightarrow> ('s + 'r) res" where
  "for_list body [] s = Inr (Inl s)"
| "for_list body (x # xs) s =
     rbind (body x s) (\<lambda>r. case r of Inl s' \<Rightarrow> for_list body xs s' | Inr v \<Rightarrow> Inr (Inr v))"

text \<open>The contract of an iterator: \<open>rest it xs\<close> says that \<open>xs\<close> is what it will still yield.\<close>

locale yields =
  fixes nxt :: "'it \<Rightarrow> ('it \<times> 'x option) res" and rest :: "'it \<Rightarrow> 'x list \<Rightarrow> bool"
  assumes next_done: "rest it [] \<Longrightarrow> \<exists>it'. nxt it = Inr (it', None)"
    and next_elem: "rest it (x # xs) \<Longrightarrow> \<exists>it'. nxt it = Inr (it', Some x) \<and> rest it' xs"
begin

lemma for_loop_eq: "rest it xs \<Longrightarrow> length xs < fuel \<Longrightarrow> for_loop fuel nxt body it s = for_list body xs s"
proof (induction xs arbitrary: it fuel s)
  case Nil
  then obtain f where f: "fuel = Suc f" by (cases fuel) auto
  obtain it' where "nxt it = Inr (it', None)" using next_done [OF Nil(1)] by blast
  then show ?case by (simp add: f)
next
  case (Cons x xs)
  then obtain f where f: "fuel = Suc f" by (cases fuel) auto
  obtain it' where "nxt it = Inr (it', Some x)" "rest it' xs" using next_elem [OF Cons.prems(1)] by blast
  with Cons f show ?case by (auto intro!: rbind_cong split: sum.split)
qed

end

end
