(* ===== verification/Order_Types.thy ===== *)
theory Order_Types
  imports Mango_Prelude
begin

text \<open>
  The enumerations of \<^verbatim>\<open>state/orderbook/order_type.rs\<close> with their conversions from the
  stored bytes, the side-dependent price comparisons that the matching engine is
  parametrised by, and the packed encoding of a side and an order tree.
\<close>

section \<open>Order types\<close>

datatype PlaceOrderType = PLimit | PImmediateOrCancel | PPostOnly | PMarket | PPostOnlySlide

datatype PostOrderType = Limit | PostOnly | PostOnlySlide

datatype SelfTradeBehavior = DecrementTake | CancelProvide | AbortTransaction

datatype Side = Bid | Ask

datatype BookSideOrderTree = Fixed | OraclePegged

datatype SideAndOrderTree = BidFixed | AskFixed | BidOraclePegged | AskOraclePegged

fun to_post_order_type :: "PlaceOrderType \<Rightarrow> PostOrderType res" where
  "to_post_order_type PMarket = Inl (MangoErr SomeError)"
| "to_post_order_type PImmediateOrCancel = Inl (MangoErr SomeError)"
| "to_post_order_type PLimit = Inr Limit"
| "to_post_order_type PPostOnly = Inr PostOnly"
| "to_post_order_type PPostOnlySlide = Inr PostOnlySlide"

section \<open>Decoding the stored bytes\<close>

definition side_try_from :: "u8 \<Rightarrow> Side option" where
  "side_try_from b = (if b = 0 then Some Bid else if b = 1 then Some Ask else None)"

definition place_order_type_try_from :: "u8 \<Rightarrow> PlaceOrderType option" where
  "place_order_type_try_from b =
     (if b = 0 then Some PLimit else if b = 1 then Some PImmediateOrCancel
      else if b = 2 then Some PPostOnly else if b = 3 then Some PMarket
      else if b = 4 then Some PPostOnlySlide else None)"

definition self_trade_behavior_try_from :: "u8 \<Rightarrow> SelfTradeBehavior option" where
  "self_trade_behavior_try_from b =
     (if b = 0 then Some DecrementTake else if b = 1 then Some CancelProvide
      else if b = 2 then Some AbortTransaction else None)"

section \<open>Sides\<close>

fun invert_side :: "Side \<Rightarrow> Side" where
  "invert_side Bid = Ask"
| "invert_side Ask = Bid"

fun is_price_data_better :: "Side \<Rightarrow> 64 word \<Rightarrow> 64 word \<Rightarrow> bool" where
  "is_price_data_better Bid lhs rhs \<longleftrightarrow> lhs > rhs"
| "is_price_data_better Ask lhs rhs \<longleftrightarrow> lhs < rhs"

fun is_price_better :: "Side \<Rightarrow> i64 \<Rightarrow> i64 \<Rightarrow> bool" where
  "is_price_better Bid lhs rhs \<longleftrightarrow> lhs > rhs"
| "is_price_better Ask lhs rhs \<longleftrightarrow> lhs < rhs"

fun is_price_within_limit :: "Side \<Rightarrow> i64 \<Rightarrow> i64 \<Rightarrow> bool" where
  "is_price_within_limit Bid price limit \<longleftrightarrow> price \<le> limit"
| "is_price_within_limit Ask price limit \<longleftrightarrow> price \<ge> limit"

fun side_and_order_tree_new :: "Side \<Rightarrow> BookSideOrderTree \<Rightarrow> SideAndOrderTree" where
  "side_and_order_tree_new Bid Fixed = BidFixed"
| "side_and_order_tree_new Ask Fixed = AskFixed"
| "side_and_order_tree_new Bid OraclePegged = BidOraclePegged"
| "side_and_order_tree_new Ask OraclePegged = AskOraclePegged"

fun sat_side :: "SideAndOrderTree \<Rightarrow> Side" where
  "sat_side BidFixed = Bid"
| "sat_side BidOraclePegged = Bid"
| "sat_side AskFixed = Ask"
| "sat_side AskOraclePegged = Ask"

fun sat_order_tree :: "SideAndOrderTree \<Rightarrow> BookSideOrderTree" where
  "sat_order_tree BidFixed = Fixed"
| "sat_order_tree AskFixed = Fixed"
| "sat_order_tree BidOraclePegged = OraclePegged"
| "sat_order_tree AskOraclePegged = OraclePegged"

section \<open>Facts\<close>

lemma invert_side_invert [simp]: "invert_side (invert_side s) = s"
  by (cases s) simp_all

lemma invert_side_neq [simp]: "invert_side s \<noteq> s" "s \<noteq> invert_side s"
  by (cases s; simp)+

lemma sat_side_new [simp]: "sat_side (side_and_order_tree_new s t) = s"
  by (cases s; cases t) simp_all

lemma sat_order_tree_new [simp]: "sat_order_tree (side_and_order_tree_new s t) = t"
  by (cases s; cases t) simp_all

text \<open>A price is acceptable for a limit order exactly when the limit is not a strictly better
  price for the other side.\<close>

lemma within_limit_iff_not_better:
  "is_price_within_limit s price limit \<longleftrightarrow> \<not> is_price_better (invert_side s) limit price"
  by (cases s) auto

lemma is_price_better_irrefl [simp]: "\<not> is_price_better s p p"
  by (cases s) auto

lemma is_price_better_trans:
  "is_price_better s a b \<Longrightarrow> is_price_better s b c \<Longrightarrow> is_price_better s a c"
  by (cases s) auto

end
