(* ===== verification/Queue_Fifo.thy ===== *)
theory Queue_Fifo
  imports Order_Types
begin

text \<open>
  The FIFO queue of signed perp operations (\<^verbatim>\<open>state/queue_fifo.rs\<close>) and the signed intents
  (\<^verbatim>\<open>state/order_intent.rs\<close>): the data, the ring buffer's index arithmetic, decoding of the
  stored bytes, and the hashes that are signed. The lemmas give the view of the queue as
  a list of events with increasing sequence numbers above the last executed one.

  Hashing (\<^verbatim>\<open>hashv\<close>), the byte image of a plain-data struct (\<^verbatim>\<open>bytes_of\<close>) and the Borsh
  serialization of the intents belong to other crates; they are the fields of the
  parameter \<open>codec\<close>.
\<close>

section \<open>Data\<close>

type_synonym bytes = "8 word list"

definition FIFO_QUEUE_CAPACITY :: nat where
  "FIFO_QUEUE_CAPACITY = 64"

record SignatureBlob =
  sig_bytes :: bytes
  is_present :: u8

record CompactOrderParams =
  cp_max_base_lots :: i64
  cp_max_quote_lots :: i64
  cp_price_lots :: i64
  cp_client_order_id :: u64
  cp_market_index :: u16
  cp_tif_offset :: u16
  cp_side :: u8
  cp_order_type :: u8
  cp_self_trade_behavior :: u8
  cp_reduce_only :: u8
  cp_limit :: u8

record QueueFifoEvent =
  seq_no :: u64
  submitted_slot :: u64
  ev_user :: pubkey
  ev_continuum :: pubkey
  event_type :: u8
  ev_params :: CompactOrderParams
  user_signature :: SignatureBlob
  continuum_signature :: SignatureBlob

record QueueFifoHeader =
  qf_head :: u32
  qf_count :: u32
  last_executed_seq :: u64
  max_lag_slots :: u32

record QueueFifo =
  qf_header :: QueueFifoHeader
  entries :: "QueueFifoEvent list"

datatype QueueEventType =
    PerpPlaceOrder
  | PerpCancelOrder
  | OpenbookV2PlaceOrder
  | OpenbookV2CancelOrder
  | OpenbookV2PlaceTakeOrder
  | PerpModifyOrder

datatype PerpQueueAction = PlaceOrder | CancelOrder | ModifyOrder

datatype OpenbookQueueAction = ObPlaceOrder | ObCancelOrder | ObPlaceTakeOrder

section \<open>Index arithmetic\<close>

definition qf_is_full :: "QueueFifo \<Rightarrow> bool" where
  "qf_is_full q \<longleftrightarrow> qf_count (qf_header q) \<ge> FIFO_QUEUE_CAPACITY"

definition tail_index :: "QueueFifo \<Rightarrow> nat option res" where
  "tail_index q =
     (if qf_count (qf_header q) = 0 then Inr None
      else rbind (chk_u32 (qf_head (qf_header q) + qf_count (qf_header q))) (\<lambda>s.
             Inr (Some ((s - 1) mod FIFO_QUEUE_CAPACITY))))"

definition tail_seq :: "QueueFifo \<Rightarrow> u64 res" where
  "tail_seq q =
     rbind (tail_index q) (\<lambda>i. case i of
       None \<Rightarrow> Inr (last_executed_seq (qf_header q))
     | Some index \<Rightarrow> if index < length (entries q) then Inr (seq_no (entries q ! index)) else Inl Panic)"

definition next_index :: "QueueFifo \<Rightarrow> nat res" where
  "next_index q =
     rbind (chk_u32 (qf_head (qf_header q) + qf_count (qf_header q))) (\<lambda>s.
       Inr (s mod FIFO_QUEUE_CAPACITY))"

text \<open>The writes at the end of both enqueue instructions.\<close>

definition qf_push :: "QueueFifo \<Rightarrow> QueueFifoEvent \<Rightarrow> QueueFifo res" where
  "qf_push q event =
     rbind (next_index q) (\<lambda>index.
       if index < length (entries q) then
         Inr (q\<lparr>entries := (entries q)[index := event],
                qf_header := (qf_header q)\<lparr>qf_count := min u32_MAX (qf_count (qf_header q) + 1)\<rparr>\<rparr>)
       else Inl Panic)"

text \<open>Moving past the head, as the cranks do (\<^verbatim>\<open>advance_head\<close>).\<close>

definition advance_head :: "QueueFifoHeader \<Rightarrow> QueueFifoHeader res" where
  "advance_head h =
     rbind (chk_u32 (qf_head h + 1)) (\<lambda>s.
       Inr (h\<lparr>qf_head := s mod FIFO_QUEUE_CAPACITY, qf_count := qf_count h - 1\<rparr>))"

section \<open>Decoding\<close>

definition queue_event_type_try_from :: "u8 \<Rightarrow> QueueEventType option" where
  "queue_event_type_try_from b =
     (if b = 0 then Some PerpPlaceOrder else if b = 1 then Some PerpCancelOrder
      else if b = 2 then Some OpenbookV2PlaceOrder else if b = 3 then Some OpenbookV2CancelOrder
      else if b = 4 then Some OpenbookV2PlaceTakeOrder else if b = 5 then Some PerpModifyOrder
      else None)"

fun queue_event_type_as_u8 :: "QueueEventType \<Rightarrow> u8" where
  "queue_event_type_as_u8 PerpPlaceOrder = 0"
| "queue_event_type_as_u8 PerpCancelOrder = 1"
| "queue_event_type_as_u8 OpenbookV2PlaceOrder = 2"
| "queue_event_type_as_u8 OpenbookV2CancelOrder = 3"
| "queue_event_type_as_u8 OpenbookV2PlaceTakeOrder = 4"
| "queue_event_type_as_u8 PerpModifyOrder = 5"

definition queue_event_type :: "QueueFifoEvent \<Rightarrow> QueueEventType res" where
  "queue_event_type e = ok_or (queue_event_type_try_from (event_type e)) (MangoErr UnsupportedQueueEventType)"

fun to_perp_action :: "QueueEventType \<Rightarrow> PerpQueueAction option" where
  "to_perp_action PerpPlaceOrder = Some PlaceOrder"
| "to_perp_action PerpCancelOrder = Some CancelOrder"
| "to_perp_action PerpModifyOrder = Some ModifyOrder"
| "to_perp_action _ = None"

fun to_openbook_action :: "QueueEventType \<Rightarrow> OpenbookQueueAction option" where
  "to_openbook_action OpenbookV2PlaceOrder = Some ObPlaceOrder"
| "to_openbook_action OpenbookV2CancelOrder = Some ObCancelOrder"
| "to_openbook_action OpenbookV2PlaceTakeOrder = Some ObPlaceTakeOrder"
| "to_openbook_action _ = None"

definition cp_side_of :: "CompactOrderParams \<Rightarrow> Side res" where
  "cp_side_of p = ok_or (side_try_from (cp_side p)) (MangoErr InvalidQueueParams)"

definition cp_place_order_type :: "CompactOrderParams \<Rightarrow> PlaceOrderType res" where
  "cp_place_order_type p = ok_or (place_order_type_try_from (cp_order_type p)) (MangoErr InvalidQueueParams)"

definition cp_self_trade_behavior_of :: "CompactOrderParams \<Rightarrow> SelfTradeBehavior res" where
  "cp_self_trade_behavior_of p =
     ok_or (self_trade_behavior_try_from (cp_self_trade_behavior p)) (MangoErr InvalidQueueParams)"

definition cp_is_reduce_only :: "CompactOrderParams \<Rightarrow> bool" where
  "cp_is_reduce_only p \<longleftrightarrow> cp_reduce_only p \<noteq> 0"

section \<open>Intents and hashes\<close>

record OrderIntent =
  oi_version :: u8
  oi_group :: pubkey
  oi_account :: pubkey
  oi_owner :: pubkey
  oi_perp_market :: pubkey
  oi_event_type :: QueueEventType
  oi_params :: CompactOrderParams
  oi_expiry_ts :: u64

record QueuedOrderIntent =
  qi_version :: u8
  order_intent_hash :: bytes
  qi_seq_no :: u64
  qi_expiry_ts :: u64

record codec =
  hashv :: "bytes list \<Rightarrow> bytes"
  bytes_of :: "CompactOrderParams \<Rightarrow> bytes"
  borsh_order_intent :: "OrderIntent \<Rightarrow> bytes option"
  borsh_queued_intent :: "QueuedOrderIntent \<Rightarrow> bytes option"

text \<open>\<^verbatim>\<open>u64::to_le_bytes\<close>.\<close>

fun le_bytes :: "nat \<Rightarrow> nat \<Rightarrow> bytes" where
  "le_bytes 0 x = []"
| "le_bytes (Suc n) x = word_of_nat (x mod 256) # le_bytes n (x div 256)"

definition signature_flags :: "QueueFifoEvent \<Rightarrow> bytes" where
  "signature_flags e =
     [word_of_nat (is_present (user_signature e)), word_of_nat (is_present (continuum_signature e))]"

definition event_intent_hash :: "codec \<Rightarrow> QueueFifoEvent \<Rightarrow> bytes" where
  "event_intent_hash cd e =
     hashv cd [ev_user e, ev_continuum e, [word_of_nat (event_type e)], signature_flags e,
               bytes_of cd (ev_params e)]"

definition event_payload_hash :: "codec \<Rightarrow> QueueFifoEvent \<Rightarrow> bytes" where
  "event_payload_hash cd e =
     hashv cd [le_bytes 8 (seq_no e), ev_user e, ev_continuum e, [word_of_nat (event_type e)],
               signature_flags e, bytes_of cd (ev_params e)]"

definition order_intent_message_bytes :: "codec \<Rightarrow> OrderIntent \<Rightarrow> bytes res" where
  "order_intent_message_bytes cd oi = ok_or (borsh_order_intent cd oi) (MangoErr SomeError)"

definition order_intent_hash_of :: "codec \<Rightarrow> OrderIntent \<Rightarrow> bytes res" where
  "order_intent_hash_of cd oi =
     rbind (order_intent_message_bytes cd oi) (\<lambda>bs. Inr (hashv cd [bs]))"

definition queued_intent_message_bytes :: "codec \<Rightarrow> QueuedOrderIntent \<Rightarrow> bytes res" where
  "queued_intent_message_bytes cd qi = ok_or (borsh_queued_intent cd qi) (MangoErr SomeError)"

section \<open>The queue as a list\<close>

definition qf_ring :: "QueueFifo \<Rightarrow> bool" where
  "qf_ring q \<longleftrightarrow>
     length (entries q) = FIFO_QUEUE_CAPACITY \<and> qf_head (qf_header q) < FIFO_QUEUE_CAPACITY \<and>
     qf_count (qf_header q) \<le> FIFO_QUEUE_CAPACITY"

definition qf_events :: "QueueFifo \<Rightarrow> QueueFifoEvent list" where
  "qf_events q =
     map (\<lambda>i. entries q ! ((qf_head (qf_header q) + i) mod FIFO_QUEUE_CAPACITY)) [0..<qf_count (qf_header q)]"

text \<open>The invariant the instructions keep: pending sequence numbers increase and lie above the
  last executed one.\<close>

definition queue_fifo_ok :: "QueueFifo \<Rightarrow> bool" where
  "queue_fifo_ok q \<longleftrightarrow>
     qf_ring q \<and> sorted_wrt (<) (last_executed_seq (qf_header q) # map seq_no (qf_events q))"

lemma qf_events_length [simp]: "length (qf_events q) = qf_count (qf_header q)"
  by (simp add: qf_events_def)

lemma qf_events_last_seq [simp]:
  "qf_events (q\<lparr>qf_header := (qf_header q)\<lparr>last_executed_seq := s\<rparr>\<rparr>) = qf_events q"
  "qf_ring (q\<lparr>qf_header := (qf_header q)\<lparr>last_executed_seq := s\<rparr>\<rparr>) = qf_ring q"
  by (simp_all add: qf_events_def qf_ring_def)

lemma qf_ring_sum: "qf_ring q \<Longrightarrow> qf_head (qf_header q) + qf_count (qf_header q) \<le> u32_MAX"
  by (simp add: qf_ring_def FIFO_QUEUE_CAPACITY_def u32_MAX_def)

text \<open>The sequence number a new event has to exceed.\<close>

lemma tail_seq_eq:
  assumes "qf_ring q"
  shows "tail_seq q = Inr (last (last_executed_seq (qf_header q) # map seq_no (qf_events q)))"
proof (cases "qf_count (qf_header q)")
  case 0
  then show ?thesis by (simp add: tail_seq_def tail_index_def qf_events_def)
next
  case (Suc n)
  have "(qf_head (qf_header q) + n) mod FIFO_QUEUE_CAPACITY < length (entries q)"
    using assms by (simp add: qf_ring_def FIFO_QUEUE_CAPACITY_def)
  with Suc qf_ring_sum [OF assms] show ?thesis by (simp add: tail_seq_def tail_index_def qf_events_def)
qed

lemma qf_push_events:
  assumes ring: "qf_ring q" and room: "\<not> qf_is_full q"
  shows "\<exists>q'. qf_push q e = Inr q' \<and> qf_ring q' \<and> qf_events q' = qf_events q @ [e] \<and>
           last_executed_seq (qf_header q') = last_executed_seq (qf_header q) \<and>
           max_lag_slots (qf_header q') = max_lag_slots (qf_header q)"
proof -
  let ?h = "qf_header q" and ?n = FIFO_QUEUE_CAPACITY
  let ?slot = "(qf_head ?h + qf_count ?h) mod ?n"
  let ?q = "q\<lparr>entries := (entries q)[?slot := e], qf_header := ?h\<lparr>qf_count := qf_count ?h + 1\<rparr>\<rparr>"
  have n: "length (entries q) = ?n" "qf_head ?h < ?n" "qf_count ?h < ?n"
    using ring room by (auto simp: qf_ring_def qf_is_full_def)
  have slot: "?slot < ?n" using n by (intro mod_less_divisor) simp
  have "min u32_MAX (qf_count ?h + 1) = qf_count ?h + 1"
    using n by (simp add: FIFO_QUEUE_CAPACITY_def u32_MAX_def)
  then have run: "qf_push q e = Inr ?q"
    using qf_ring_sum [OF ring] slot n by (simp add: qf_push_def next_index_def)
  have "(entries q)[?slot := e] ! ((qf_head ?h + i) mod ?n) = entries q ! ((qf_head ?h + i) mod ?n)"
    if "i < qf_count ?h" for i
  proof -
    have "(qf_head ?h + i) mod ?n \<noteq> ?slot" using ring_index [of "qf_head ?h" ?n i "qf_count ?h"] n that by simp
    then show ?thesis by (metis nth_list_update_neq)
  qed
  with slot n have "qf_events ?q = qf_events q @ [e]" by (simp add: qf_events_def)
  moreover have "qf_ring ?q" using ring n by (simp add: qf_ring_def)
  ultimately show ?thesis using run by auto
qed

lemma advance_head_events:
  assumes ring: "qf_ring q" and ne: "qf_events q = e # es"
  shows "\<exists>h'. advance_head (qf_header q) = Inr h' \<and> qf_ring (q\<lparr>qf_header := h'\<rparr>) \<and>
           qf_events (q\<lparr>qf_header := h'\<rparr>) = es \<and> last_executed_seq h' = last_executed_seq (qf_header q) \<and>
           max_lag_slots h' = max_lag_slots (qf_header q)"
proof -
  let ?h = "qf_header q" and ?n = FIFO_QUEUE_CAPACITY
  let ?h' = "?h\<lparr>qf_head := (qf_head ?h + 1) mod ?n, qf_count := qf_count ?h - 1\<rparr>"
  let ?q = "q\<lparr>qf_header := ?h'\<rparr>"
  have n: "length (entries q) = ?n" "qf_head ?h < ?n" "qf_count ?h \<le> ?n" using ring by (auto simp: qf_ring_def)
  have c: "qf_count ?h = Suc (length es)" using ne qf_events_length [of q] by simp
  have "qf_events ?q = tl (qf_events q)"
  proof (rule nth_equalityI)
    show "length (qf_events ?q) = length (tl (qf_events q))" by simp
    fix i assume "i < length (qf_events ?q)"
    then have i: "i < length es" using c by simp
    have "((qf_head ?h + 1) mod ?n + i) mod ?n = (qf_head ?h + Suc i) mod ?n" by (simp add: mod_simps)
    then show "qf_events ?q ! i = tl (qf_events q) ! i"
      using i c by (simp add: qf_events_def nth_tl del: upt_Suc)
  qed
  moreover have "qf_ring ?q" using ring n by (auto simp: qf_ring_def FIFO_QUEUE_CAPACITY_def)
  moreover have "advance_head ?h = Inr ?h'"
    using n by (simp add: advance_head_def FIFO_QUEUE_CAPACITY_def u32_MAX_def)
  ultimately show ?thesis using ne by auto
qed

lemma head_event: "qf_ring q \<Longrightarrow> qf_events q = e # es \<Longrightarrow> entries q ! qf_head (qf_header q) = e"
  using qf_events_length [of q]
  by (auto simp: qf_events_def qf_ring_def upt_conv_Cons simp del: upt_Suc qf_events_length)

end
