(* ===== verification/Ed25519.thy ===== *)
theory Ed25519
  imports Queue_Fifo
begin

text \<open>
  The search for Ed25519 signatures among the instructions of a transaction
  (\<^verbatim>\<open>instructions/ed25519_helpers.rs\<close>).

  The instructions of the transaction are read through \<^verbatim>\<open>load_instruction_at_checked\<close> of the
  Solana crate, which is an argument (\<open>sysvar\<close>), as is the address of the Ed25519 program. What
  the search relies on is stated by \<open>sysvar_reads\<close> (the instructions are read in order, with
  \<^verbatim>\<open>InvalidArgument\<close> behind the last one) and \<open>signatures_checked\<close> (the Ed25519 program has
  checked each signature that an Ed25519 instruction describes, or the transaction would have
  failed). The lemmas show that the searches return, that they compute the first match
  over the list of instructions, and that what they return are signatures that have been
  checked, of the given key over the given message.
\<close>

section \<open>Data\<close>

text \<open>Whether the data of a loaded instruction starts at an even address is up to the allocator;
  \<^verbatim>\<open>bytemuck::try_from_bytes\<close> fails when it does not.\<close>

record Instruction =
  program_id :: pubkey
  ix_data :: bytes
  ix_data_aligned :: bool

datatype ProgramError = InvalidArgument | OtherProgramError

record instructions_sysvar =
  ed25519_program_id :: pubkey
  load_instruction_at_checked :: "nat \<Rightarrow> ProgramError + Instruction"

definition SIGNATURE_OFFSETS_SERIALIZED_SIZE :: nat where
  "SIGNATURE_OFFSETS_SERIALIZED_SIZE = 14"

definition SIGNATURE_OFFSETS_START :: nat where
  "SIGNATURE_OFFSETS_START = 2"

definition SIGNATURE_SERIALIZED_SIZE :: nat where
  "SIGNATURE_SERIALIZED_SIZE = 64"

definition PUBKEY_SERIALIZED_SIZE :: nat where
  "PUBKEY_SERIALIZED_SIZE = 32"

lemmas ed25519_sizes = SIGNATURE_OFFSETS_SERIALIZED_SIZE_def SIGNATURE_OFFSETS_START_def SIGNATURE_SERIALIZED_SIZE_def PUBKEY_SERIALIZED_SIZE_def

record Ed25519SignatureOffsets =
  signature_offset :: u16
  signature_instruction_index :: u16
  public_key_offset :: u16
  public_key_instruction_index :: u16
  message_data_offset :: u16
  message_data_size :: u16
  message_instruction_index :: u16

section \<open>One instruction\<close>

text \<open>A slice \<^verbatim>\<open>bs[off..off+n]\<close>, and a little-endian \<^verbatim>\<open>u16\<close> in it.\<close>

definition slice :: "nat \<Rightarrow> nat \<Rightarrow> bytes \<Rightarrow> bytes" where
  "slice off n bs = take n (drop off bs)"

definition u16_at :: "bytes \<Rightarrow> nat \<Rightarrow> u16" where
  "u16_at bs i = unat (bs ! i) + 256 * unat (bs ! (i + 1))"

definition offsets_of_bytes :: "bytes \<Rightarrow> Ed25519SignatureOffsets" where
  "offsets_of_bytes bs =
     \<lparr>signature_offset = u16_at bs 0, signature_instruction_index = u16_at bs 2, public_key_offset = u16_at bs 4,
      public_key_instruction_index = u16_at bs 6, message_data_offset = u16_at bs 8, message_data_size = u16_at bs 10,
      message_instruction_index = u16_at bs 12\<rparr>"

definition signature_offsets :: "Instruction \<Rightarrow> nat \<Rightarrow> Ed25519SignatureOffsets" where
  "signature_offsets ix sig_index =
     offsets_of_bytes (slice (SIGNATURE_OFFSETS_START + sig_index * SIGNATURE_OFFSETS_SERIALIZED_SIZE)
                         SIGNATURE_OFFSETS_SERIALIZED_SIZE (ix_data ix))"

text \<open>The body of the loop over the signatures of an instruction: \<^verbatim>\<open>continue\<close> is \<open>None\<close>.\<close>

definition offsets_match :: "Instruction \<Rightarrow> Ed25519SignatureOffsets \<Rightarrow> pubkey \<Rightarrow> bytes \<Rightarrow> bytes option" where
  "offsets_match ix offsets expected_pubkey expected_message =
     (let n = length (ix_data ix); pk_offset = public_key_offset offsets;
          msg_offset = message_data_offset offsets; msg_size = message_data_size offsets;
          sig_offset = signature_offset offsets in
      if signature_instruction_index offsets \<noteq> u16_MAX \<or> public_key_instruction_index offsets \<noteq> u16_MAX \<or>
         message_instruction_index offsets \<noteq> u16_MAX then None
      else if pk_offset + PUBKEY_SERIALIZED_SIZE > n \<or> sig_offset + SIGNATURE_SERIALIZED_SIZE > n \<or> msg_offset + msg_size > n then None
      else if slice pk_offset PUBKEY_SERIALIZED_SIZE (ix_data ix) \<noteq> expected_pubkey then None
      else if msg_size \<noteq> length expected_message then None
      else if slice msg_offset msg_size (ix_data ix) \<noteq> expected_message then None
      else Some (slice sig_offset SIGNATURE_SERIALIZED_SIZE (ix_data ix)))"

fun match_signatures :: "Instruction \<Rightarrow> pubkey \<Rightarrow> bytes \<Rightarrow> nat list \<Rightarrow> bytes option res" where
  "match_signatures ix expected_pubkey expected_message [] = Inr None"
| "match_signatures ix expected_pubkey expected_message (sig_index # rest) =
     rbind (require (ix_data_aligned ix) (MangoErr SomeError)) (\<lambda>_.
     case offsets_match ix (signature_offsets ix sig_index) expected_pubkey expected_message of
       Some signature \<Rightarrow> Inr (Some signature)
     | None \<Rightarrow> match_signatures ix expected_pubkey expected_message rest)"

definition ed25519_instruction_matches ::
  "instructions_sysvar \<Rightarrow> Instruction \<Rightarrow> pubkey \<Rightarrow> bytes \<Rightarrow> bytes option res" where
  "ed25519_instruction_matches sysvar ix expected_pubkey expected_message =
     (if program_id ix \<noteq> ed25519_program_id sysvar \<or> length (ix_data ix) < SIGNATURE_OFFSETS_START then Inr None
      else
        let num_signatures = unat (ix_data ix ! 0);
            required_prefix = SIGNATURE_OFFSETS_START + num_signatures * SIGNATURE_OFFSETS_SERIALIZED_SIZE in
        if num_signatures = 0 \<or> length (ix_data ix) < required_prefix then Inr None
        else match_signatures ix expected_pubkey expected_message [0..<num_signatures])"

section \<open>The searches\<close>

text \<open>The loops run until an instruction matches or loading fails, so nothing in them bounds the
  number of iterations: \<open>None\<close> would be a search that does not return.\<close>

partial_function (option) find_ed25519_loop ::
  "instructions_sysvar \<Rightarrow> pubkey \<Rightarrow> bytes \<Rightarrow> nat \<Rightarrow> bytes option res option" where
  "find_ed25519_loop sysvar expected_pubkey expected_message index =
     (case load_instruction_at_checked sysvar index of
        Inr ix \<Rightarrow>
          (case ed25519_instruction_matches sysvar ix expected_pubkey expected_message of
             Inl e \<Rightarrow> Some (Inl e)
           | Inr (Some signature) \<Rightarrow> Some (Inr (Some signature))
           | Inr None \<Rightarrow> find_ed25519_loop sysvar expected_pubkey expected_message (index + 1))
      | Inl InvalidArgument \<Rightarrow> Some (Inr None)
      | Inl OtherProgramError \<Rightarrow> Some (Inl RuntimeError))"

text \<open>Remember a match unless there already is one.\<close>

definition or_match :: "instructions_sysvar \<Rightarrow> Instruction \<Rightarrow> pubkey \<Rightarrow> bytes \<Rightarrow> bytes option \<Rightarrow> bytes option res" where
  "or_match sysvar ix expected_pubkey expected_message found =
     (if found = None then ed25519_instruction_matches sysvar ix expected_pubkey expected_message else Inr found)"

partial_function (option) find_two_loop ::
  "instructions_sysvar \<Rightarrow> pubkey \<Rightarrow> bytes \<Rightarrow> pubkey \<Rightarrow> bytes \<Rightarrow> nat \<Rightarrow> bytes option \<Rightarrow> bytes option \<Rightarrow>
     (bytes option \<times> bytes option) res option" where
  "find_two_loop sysvar first_pubkey first_message second_pubkey second_message index first_signature second_signature =
     (case load_instruction_at_checked sysvar index of
        Inr ix \<Rightarrow>
          (case or_match sysvar ix first_pubkey first_message first_signature of
             Inl e \<Rightarrow> Some (Inl e)
           | Inr first' \<Rightarrow>
               (case or_match sysvar ix second_pubkey second_message second_signature of
                  Inl e \<Rightarrow> Some (Inl e)
                | Inr second' \<Rightarrow>
                    if first' \<noteq> None \<and> second' \<noteq> None then Some (Inr (first', second'))
                    else find_two_loop sysvar first_pubkey first_message second_pubkey second_message (index + 1) first' second'))
      | Inl InvalidArgument \<Rightarrow> Some (Inr (first_signature, second_signature))
      | Inl OtherProgramError \<Rightarrow> Some (Inl RuntimeError))"

text \<open>A search that does not return runs into the compute limit of the runtime.\<close>

definition find_ed25519_signature :: "instructions_sysvar \<Rightarrow> pubkey \<Rightarrow> bytes \<Rightarrow> bytes option res" where
  "find_ed25519_signature sysvar expected_pubkey expected_message =
     (case find_ed25519_loop sysvar expected_pubkey expected_message 0 of None \<Rightarrow> Inl RuntimeError | Some r \<Rightarrow> r)"

definition find_two_ed25519_signatures ::
  "instructions_sysvar \<Rightarrow> pubkey \<Rightarrow> bytes \<Rightarrow> pubkey \<Rightarrow> bytes \<Rightarrow> (bytes option \<times> bytes option) res" where
  "find_two_ed25519_signatures sysvar first_pubkey first_message second_pubkey second_message =
     (case find_two_loop sysvar first_pubkey first_message second_pubkey second_message 0 None None of
        None \<Rightarrow> Inl RuntimeError | Some r \<Rightarrow> r)"

declare find_ed25519_loop.simps [code] find_two_loop.simps [code]

section \<open>The searches return\<close>

text \<open>A transaction with the instructions \<open>ixs\<close>.\<close>

definition sysvar_reads :: "instructions_sysvar \<Rightarrow> Instruction list \<Rightarrow> bool" where
  "sysvar_reads sysvar ixs \<longleftrightarrow>
     (\<forall>i < length ixs. load_instruction_at_checked sysvar i = Inr (ixs ! i)) \<and>
     load_instruction_at_checked sysvar (length ixs) = Inl InvalidArgument"

fun first_match :: "instructions_sysvar \<Rightarrow> pubkey \<Rightarrow> bytes \<Rightarrow> Instruction list \<Rightarrow> bytes option res" where
  "first_match sysvar pk msg [] = Inr None"
| "first_match sysvar pk msg (ix # ixs) =
     rbind (ed25519_instruction_matches sysvar ix pk msg) (\<lambda>m. case m of
       Some signature \<Rightarrow> Inr (Some signature)
     | None \<Rightarrow> first_match sysvar pk msg ixs)"

lemma find_ed25519_loop_eq:
  assumes "sysvar_reads sysvar ixs" "i \<le> length ixs"
  shows "find_ed25519_loop sysvar pk msg i = Some (first_match sysvar pk msg (drop i ixs))"
  using assms(2)
proof (induction "length ixs - i" arbitrary: i)
  case 0
  then show ?case using assms(1) by (subst find_ed25519_loop.simps) (simp add: sysvar_reads_def)
next
  case (Suc n)
  then have i: "i < length ixs" "load_instruction_at_checked sysvar i = Inr (ixs ! i)"
    and d: "drop i ixs = ixs ! i # drop (Suc i) ixs"
    using assms(1) by (auto simp: sysvar_reads_def Cons_nth_drop_Suc)
  have "find_ed25519_loop sysvar pk msg (Suc i) = Some (first_match sysvar pk msg (drop (Suc i) ixs))"
    using Suc i by simp
  then show ?case
    unfolding d by (subst find_ed25519_loop.simps) (simp add: i rbind_def split: sum.split option.split)
qed

fun two_matches ::
  "instructions_sysvar \<Rightarrow> pubkey \<Rightarrow> bytes \<Rightarrow> pubkey \<Rightarrow> bytes \<Rightarrow> bytes option \<Rightarrow> bytes option \<Rightarrow> Instruction list \<Rightarrow>
     (bytes option \<times> bytes option) res" where
  "two_matches sysvar pk1 msg1 pk2 msg2 f s [] = Inr (f, s)"
| "two_matches sysvar pk1 msg1 pk2 msg2 f s (ix # ixs) =
     rbind (or_match sysvar ix pk1 msg1 f) (\<lambda>f'. rbind (or_match sysvar ix pk2 msg2 s) (\<lambda>s'.
       if f' \<noteq> None \<and> s' \<noteq> None then Inr (f', s') else two_matches sysvar pk1 msg1 pk2 msg2 f' s' ixs))"

lemma find_two_loop_eq:
  assumes "sysvar_reads sysvar ixs" "i \<le> length ixs"
  shows "find_two_loop sysvar pk1 msg1 pk2 msg2 i f s = Some (two_matches sysvar pk1 msg1 pk2 msg2 f s (drop i ixs))"
  using assms(2)
proof (induction "length ixs - i" arbitrary: i f s)
  case 0
  then show ?case using assms(1) by (subst find_two_loop.simps) (simp add: sysvar_reads_def)
next
  case (Suc n)
  then have i: "i < length ixs" "load_instruction_at_checked sysvar i = Inr (ixs ! i)"
    and d: "drop i ixs = ixs ! i # drop (Suc i) ixs"
    using assms(1) by (auto simp: sysvar_reads_def Cons_nth_drop_Suc)
  have "find_two_loop sysvar pk1 msg1 pk2 msg2 (Suc i) f s = Some (two_matches sysvar pk1 msg1 pk2 msg2 f s (drop (Suc i) ixs))" for f s
    using Suc i by simp
  then show ?case
    unfolding d by (subst find_two_loop.simps) (simp add: i rbind_def split: sum.split)
qed

lemma find_ed25519_signature_eq:
  "sysvar_reads sysvar ixs \<Longrightarrow> find_ed25519_signature sysvar pk msg = first_match sysvar pk msg ixs"
  using find_ed25519_loop_eq [of sysvar ixs 0] by (simp add: find_ed25519_signature_def)

lemma find_two_ed25519_signatures_eq:
  "sysvar_reads sysvar ixs \<Longrightarrow>
     find_two_ed25519_signatures sysvar pk1 msg1 pk2 msg2 = two_matches sysvar pk1 msg1 pk2 msg2 None None ixs"
  using find_two_loop_eq [of sysvar ixs 0] by (simp add: find_two_ed25519_signatures_def)

section \<open>What is found has been checked\<close>

text \<open>The Ed25519 program has accepted (\<open>V key message signature\<close>) every signature that an Ed25519
  instruction describes by offsets into its own data.\<close>

definition signatures_checked ::
  "instructions_sysvar \<Rightarrow> (pubkey \<Rightarrow> bytes \<Rightarrow> bytes \<Rightarrow> bool) \<Rightarrow> Instruction list \<Rightarrow> bool" where
  "signatures_checked sysvar V ixs \<longleftrightarrow>
     (\<forall>ix \<in> set ixs. \<forall>i < unat (ix_data ix ! 0). let offsets = signature_offsets ix i in
        program_id ix = ed25519_program_id sysvar \<longrightarrow> signature_instruction_index offsets = u16_MAX \<longrightarrow>
        public_key_instruction_index offsets = u16_MAX \<longrightarrow> message_instruction_index offsets = u16_MAX \<longrightarrow>
        V (slice (public_key_offset offsets) 32 (ix_data ix))
          (slice (message_data_offset offsets) (message_data_size offsets) (ix_data ix))
          (slice (signature_offset offsets) 64 (ix_data ix)))"

lemma match_signatures_Some:
  "match_signatures ix pk msg is = Inr (Some s) \<Longrightarrow> \<exists>i \<in> set is. offsets_match ix (signature_offsets ix i) pk msg = Some s"
  by (induction "is") (auto simp: rbind_eq_Inr require_eq_Inr split: option.splits)

lemma matches_checked:
  assumes "signatures_checked sysvar V ixs" "ix \<in> set ixs" "ed25519_instruction_matches sysvar ix pk msg = Inr (Some s)"
  shows "V pk msg s"
proof -
  have p: "program_id ix = ed25519_program_id sysvar"
    and m: "match_signatures ix pk msg [0..<unat (ix_data ix ! 0)] = Inr (Some s)"
    using assms(3) by (auto simp: ed25519_instruction_matches_def Let_def split: if_splits)
  obtain i where i: "i < unat (ix_data ix ! 0)" "offsets_match ix (signature_offsets ix i) pk msg = Some s"
    using match_signatures_Some [OF m] by auto
  have "V (slice (public_key_offset (signature_offsets ix i)) 32 (ix_data ix))
          (slice (message_data_offset (signature_offsets ix i)) (message_data_size (signature_offsets ix i)) (ix_data ix))
          (slice (signature_offset (signature_offsets ix i)) 64 (ix_data ix))"
    using assms(1,2) p i by (auto simp: signatures_checked_def offsets_match_def Let_def split: if_splits)
  with i(2) show ?thesis by (auto simp: offsets_match_def Let_def ed25519_sizes split: if_splits)
qed

lemma first_match_checked:
  "first_match sysvar pk msg xs = Inr (Some s) \<Longrightarrow> set xs \<subseteq> set ixs \<Longrightarrow> signatures_checked sysvar V ixs \<Longrightarrow> V pk msg s"
  by (induction xs) (auto simp: rbind_eq_Inr dest: matches_checked split: option.splits)

lemma or_match_checked:
  assumes "or_match sysvar ix pk msg f = Inr f'" "signatures_checked sysvar V ixs" "ix \<in> set ixs" "\<forall>s. f = Some s \<longrightarrow> V pk msg s"
  shows "\<forall>s. f' = Some s \<longrightarrow> V pk msg s"
  using assms matches_checked [OF assms(2,3)] by (auto simp: or_match_def split: if_splits)

lemma two_matches_checked:
  assumes "two_matches sysvar pk1 msg1 pk2 msg2 f s xs = Inr (f', s')" "set xs \<subseteq> set ixs" "signatures_checked sysvar V ixs"
    "\<forall>t. f = Some t \<longrightarrow> V pk1 msg1 t" "\<forall>t. s = Some t \<longrightarrow> V pk2 msg2 t"
  shows "(\<forall>t. f' = Some t \<longrightarrow> V pk1 msg1 t) \<and> (\<forall>t. s' = Some t \<longrightarrow> V pk2 msg2 t)"
  using assms
proof (induction xs arbitrary: f s)
  case (Cons ix xs)
  obtain f1 s1 where m: "or_match sysvar ix pk1 msg1 f = Inr f1" "or_match sysvar ix pk2 msg2 s = Inr s1"
    and r: "(if f1 \<noteq> None \<and> s1 \<noteq> None then Inr (f1, s1) else two_matches sysvar pk1 msg1 pk2 msg2 f1 s1 xs) = Inr (f', s')"
    using Cons.prems(1) by (auto simp: rbind_eq_Inr)
  have ix: "ix \<in> set ixs" "set xs \<subseteq> set ixs" using Cons.prems(2) by auto
  note v = or_match_checked [OF m(1) Cons.prems(3) ix(1) Cons.prems(4)] or_match_checked [OF m(2) Cons.prems(3) ix(1) Cons.prems(5)]
  show ?case
  proof (cases "f1 \<noteq> None \<and> s1 \<noteq> None")
    case True
    then show ?thesis using r v by simp
  next
    case False
    then have "two_matches sysvar pk1 msg1 pk2 msg2 f1 s1 xs = Inr (f', s')" using r by (simp split: if_splits)
    from Cons.IH [OF this ix(2) Cons.prems(3) v] show ?thesis .
  qed
qed simp

end
