(* ===== verification/Floats.thy ===== *)
theory Floats
  imports Mango_Prelude
begin

text \<open>
  The floating point arithmetic of Rust (IEEE 754 binary32 and binary64, round to nearest,
  ties to even), as far as the program uses it: \<^verbatim>\<open>+ - * /\<close>, negation, \<^verbatim>\<open>abs\<close>, \<^verbatim>\<open>clamp\<close>,
  comparisons, and the \<^verbatim>\<open>as\<close> casts from and to integers. A finite number is a sign, a
  mantissa and a binary exponent, so that every operation is an exact integer computation
  followed by one rounding.
\<close>

section \<open>Numbers and rounding\<close>

datatype ieee = NaN | Infty bool | Fin bool nat int

type_synonym f32 = ieee
type_synonym f64 = ieee

text \<open>A format: the precision, and the least and the greatest exponent of the last place.\<close>

type_synonym format = "nat \<times> int \<times> int"

definition binary64 :: format where
  "binary64 = (53, - 1074, 971)"

definition binary32 :: format where
  "binary32 = (24, - 149, 104)"

fun bit_len :: "nat \<Rightarrow> nat" where
  "bit_len n = (if n = 0 then 0 else Suc (bit_len (n div 2)))"

declare bit_len.simps [simp del]

definition round_half_even :: "nat \<Rightarrow> nat \<Rightarrow> nat" where
  "round_half_even n d =
     (if 2 * (n mod d) > d \<or> 2 * (n mod d) = d \<and> odd (n div d) then n div d + 1 else n div d)"

text \<open>The quotient \<open>n / d\<close> of two exponents apart, as a fraction of naturals.\<close>

definition scaled :: "nat \<Rightarrow> nat \<Rightarrow> int \<Rightarrow> int \<Rightarrow> nat \<times> nat" where
  "scaled n d e x = (if e \<ge> x then (n * 2 ^ nat (e - x), d) else (n, d * 2 ^ nat (x - e)))"

text \<open>The float next to \<open>(- 1)\<^sup>s * (n / d) * 2\<^sup>e\<close>: \<open>fl_round\<close> estimates the exponent of the last
  place from the bit lengths, \<open>fl_place\<close> corrects the estimate, and \<open>fl_pack\<close> handles the carry
  of the rounding and the overflow.\<close>

fun fl_pack :: "format \<Rightarrow> bool \<Rightarrow> nat \<Rightarrow> int \<Rightarrow> ieee" where
  "fl_pack (p, emin, emax) s m x =
     (if m = 2 ^ p then if x + 1 > emax then Infty s else Fin s (2 ^ (p - 1)) (x + 1)
      else if x > emax then Infty s else Fin s m x)"

definition fl_at :: "format \<Rightarrow> bool \<Rightarrow> nat \<times> nat \<Rightarrow> int \<Rightarrow> ieee" where
  "fl_at f s q x = fl_pack f s (round_half_even (fst q) (snd q)) x"

definition fl_place :: "format \<Rightarrow> bool \<Rightarrow> nat \<Rightarrow> nat \<Rightarrow> int \<Rightarrow> int \<Rightarrow> ieee" where
  "fl_place f s n d e x =
     (case scaled n d e x of (n0, d0) \<Rightarrow>
        if n0 \<ge> 2 ^ fst f * d0 then fl_at f s (scaled n d e (x + 1)) (x + 1) else fl_at f s (n0, d0) x)"

fun fl_round :: "format \<Rightarrow> bool \<Rightarrow> nat \<Rightarrow> nat \<Rightarrow> int \<Rightarrow> ieee" where
  "fl_round (p, emin, emax) s n d e =
     (if n = 0 then Fin s 0 emin
      else fl_place (p, emin, emax) s n d e (max (int (bit_len n) - int (bit_len d) - int p + e) emin))"

section \<open>Operations\<close>

definition signed_of :: "bool \<Rightarrow> nat \<Rightarrow> int" where
  "signed_of s m = (if s then - int m else int m)"

fun fl_neg :: "ieee \<Rightarrow> ieee" where
  "fl_neg NaN = NaN"
| "fl_neg (Infty s) = Infty (\<not> s)"
| "fl_neg (Fin s m e) = Fin (\<not> s) m e"

fun fl_abs :: "ieee \<Rightarrow> ieee" where
  "fl_abs NaN = NaN"
| "fl_abs (Infty s) = Infty False"
| "fl_abs (Fin s m e) = Fin False m e"

text \<open>A sum that is exactly zero is positive unless both summands are negative zeros.\<close>

definition fl_sum :: "format \<Rightarrow> bool \<Rightarrow> int \<Rightarrow> int \<Rightarrow> ieee" where
  "fl_sum f s z x = fl_round f (if z = 0 then s else z < 0) (nat \<bar>z\<bar>) 1 x"

fun fl_add :: "format \<Rightarrow> ieee \<Rightarrow> ieee \<Rightarrow> ieee" where
  "fl_add f NaN y = NaN"
| "fl_add f x NaN = NaN"
| "fl_add f (Infty s) (Infty t) = (if s = t then Infty s else NaN)"
| "fl_add f (Infty s) (Fin t m e) = Infty s"
| "fl_add f (Fin t m e) (Infty s) = Infty s"
| "fl_add f (Fin s m e) (Fin t n g) =
     fl_sum f (s \<and> t) (signed_of s m * 2 ^ nat (e - min e g) + signed_of t n * 2 ^ nat (g - min e g)) (min e g)"

definition fl_sub :: "format \<Rightarrow> ieee \<Rightarrow> ieee \<Rightarrow> ieee" where
  "fl_sub f x y = fl_add f x (fl_neg y)"

fun fl_mul :: "format \<Rightarrow> ieee \<Rightarrow> ieee \<Rightarrow> ieee" where
  "fl_mul f NaN y = NaN"
| "fl_mul f x NaN = NaN"
| "fl_mul f (Infty s) (Infty t) = Infty (s \<noteq> t)"
| "fl_mul f (Infty s) (Fin t m e) = (if m = 0 then NaN else Infty (s \<noteq> t))"
| "fl_mul f (Fin t m e) (Infty s) = (if m = 0 then NaN else Infty (s \<noteq> t))"
| "fl_mul f (Fin s m e) (Fin t n g) = fl_round f (s \<noteq> t) (m * n) 1 (e + g)"

fun fl_div :: "format \<Rightarrow> ieee \<Rightarrow> ieee \<Rightarrow> ieee" where
  "fl_div f NaN y = NaN"
| "fl_div f x NaN = NaN"
| "fl_div f (Infty s) (Infty t) = NaN"
| "fl_div f (Infty s) (Fin t m e) = Infty (s \<noteq> t)"
| "fl_div f (Fin t m e) (Infty s) = fl_round f (s \<noteq> t) 0 1 0"
| "fl_div f (Fin s m e) (Fin t n g) =
     (if n = 0 then (if m = 0 then NaN else Infty (s \<noteq> t))
      else fl_round f (s \<noteq> t) m n (e - g))"

fun fl_less :: "ieee \<Rightarrow> ieee \<Rightarrow> bool" where
  "fl_less NaN y \<longleftrightarrow> False"
| "fl_less x NaN \<longleftrightarrow> False"
| "fl_less (Infty s) (Infty t) \<longleftrightarrow> s \<and> \<not> t"
| "fl_less (Infty s) (Fin t m e) \<longleftrightarrow> s"
| "fl_less (Fin t m e) (Infty s) \<longleftrightarrow> \<not> s"
| "fl_less (Fin s m e) (Fin t n g) \<longleftrightarrow>
     signed_of s m * 2 ^ nat (e - min e g) < signed_of t n * 2 ^ nat (g - min e g)"

fun is_nan :: "ieee \<Rightarrow> bool" where
  "is_nan NaN \<longleftrightarrow> True"
| "is_nan _ \<longleftrightarrow> False"

definition fl_le :: "ieee \<Rightarrow> ieee \<Rightarrow> bool" where
  "fl_le x y \<longleftrightarrow> \<not> is_nan x \<and> \<not> is_nan y \<and> \<not> fl_less y x"

text \<open>\<^verbatim>\<open>f64::clamp\<close> panics unless the bounds are ordered; it passes a NaN through.\<close>

definition fl_clamp :: "ieee \<Rightarrow> ieee \<Rightarrow> ieee \<Rightarrow> ieee res" where
  "fl_clamp x lo hi =
     (if fl_le lo hi then Inr (if fl_less x lo then lo else if fl_less hi x then hi else x)
      else Inl Panic)"

section \<open>Casts\<close>

text \<open>\<^verbatim>\<open>as f64\<close> on an integer, and a decimal literal \<open>n / d\<close>.\<close>

definition fl_of_int :: "format \<Rightarrow> int \<Rightarrow> ieee" where
  "fl_of_int f i = fl_round f (i < 0) (nat \<bar>i\<bar>) 1 0"

definition fl_lit :: "format \<Rightarrow> nat \<Rightarrow> nat \<Rightarrow> ieee" where
  "fl_lit f n d = fl_round f False n d 0"

text \<open>\<^verbatim>\<open>as f64\<close> on an \<^verbatim>\<open>f32\<close>, which is exact.\<close>

fun fl_cast :: "format \<Rightarrow> ieee \<Rightarrow> ieee" where
  "fl_cast f (Fin s m e) = fl_round f s m 1 e"
| "fl_cast f x = x"

text \<open>\<^verbatim>\<open>as i64\<close> and \<^verbatim>\<open>as u64\<close> on a float: towards zero, saturating, NaN to zero.\<close>

fun fl_trunc :: "ieee \<Rightarrow> int" where
  "fl_trunc (Fin s m e) = signed_of s (if e \<ge> 0 then m * 2 ^ nat e else m div 2 ^ nat (- e))"
| "fl_trunc _ = 0"

fun fl_to_int :: "int \<Rightarrow> int \<Rightarrow> ieee \<Rightarrow> int" where
  "fl_to_int lo hi NaN = 0"
| "fl_to_int lo hi (Infty s) = (if s then lo else hi)"
| "fl_to_int lo hi x = max lo (min hi (fl_trunc x))"

section \<open>Facts\<close>

text \<open>Evaluation on concrete numbers.\<close>

lemmas fl_eval = fl_lit_def fl_of_int_def fl_sub_def fl_le_def fl_clamp_def binary64_def binary32_def
  scaled_def round_half_even_def signed_of_def fl_at_def fl_place_def fl_sum_def bit_len.simps

text \<open>The classical sum that shows the rounding.\<close>

lemma fl_add_tenths:
  "fl_add binary64 (fl_lit binary64 1 10) (fl_lit binary64 2 10) = Fin False 5404319552844596 (- 54)"
  "fl_lit binary64 3 10 = Fin False 5404319552844595 (- 54)"
  by (simp_all add: fl_eval)

lemma fl_less_irrefl [simp]: "\<not> fl_less x x"
  by (cases x) auto

lemma signed_scale_less:
  fixes a b e g x y :: int
  assumes "x \<le> e" "x \<le> g" "y \<le> x"
  shows "a * 2 ^ nat (e - x) < b * 2 ^ nat (g - x) \<longleftrightarrow> a * 2 ^ nat (e - y) < b * 2 ^ nat (g - y)"
proof -
  have p: "2 ^ nat (z - y) = 2 ^ nat (z - x) * (2 :: int) ^ nat (x - y)" if "x \<le> z" for z
    using that assms nat_add_distrib [of "z - x" "x - y"] by (simp flip: power_add)
  show ?thesis unfolding p [OF assms(1)] p [OF assms(2)] mult.assoc [symmetric] by simp
qed

lemma fl_less_Fin:
  "x \<le> e \<Longrightarrow> x \<le> g \<Longrightarrow>
     fl_less (Fin s m e) (Fin t n g) \<longleftrightarrow> signed_of s m * 2 ^ nat (e - x) < signed_of t n * 2 ^ nat (g - x)"
  using signed_scale_less [of "min e g" e g x] by simp

lemma fl_less_trans: "fl_less a b \<Longrightarrow> fl_less b c \<Longrightarrow> fl_less a c"
proof (cases a; cases b; cases c)
  fix s m t n u k and e g h :: int
  assume eq: "a = Fin s m e" "b = Fin t n g" "c = Fin u k h" and less: "fl_less a b" "fl_less b c"
  obtain x where x: "x \<le> e" "x \<le> g" "x \<le> h" by (meson linear order_trans)
  show ?thesis
    using less unfolding eq fl_less_Fin [OF x(1,2)] fl_less_Fin [OF x(2,3)] fl_less_Fin [OF x(1,3)]
    by (rule less_trans)
qed (simp_all del: fl_less.simps(7))

lemma fl_less_linear: "\<not> is_nan x \<Longrightarrow> \<not> is_nan y \<Longrightarrow> fl_less x y \<or> fl_le y x"
  by (auto simp: fl_le_def)

text \<open>A clamped number that is not a NaN lies between the bounds.\<close>

lemma fl_clamp_bounds:
  assumes "fl_clamp x lo hi = Inr y" "\<not> is_nan x"
  shows "fl_le lo y \<and> fl_le y hi"
  using assms fl_less_trans [of hi lo x] fl_less_trans [of y lo hi]
  by (auto simp: fl_clamp_def fl_le_def split: if_splits)

end
