(* ===== verification/Stable_Price.thy ===== *)
theory Stable_Price
  imports Floats
begin

text \<open>
  The stable price model (\<^verbatim>\<open>state/stable_price.rs\<close>): a price that follows the oracle with a
  limited relative rate of change, further reduced when a 24-interval delayed average
  disagrees. The lemmas show that the ring of delay prices keeps its shape, that an update
  inside the minimum interval does nothing, and that every other update moves the stable
  price at most to the two bounds computed from its previous value.
\<close>

section \<open>The model\<close>

record StablePriceModel =
  sp_stable_price :: f64
  last_update_timestamp :: u64
  delay_prices :: "f64 list"
  delay_accumulator_price :: f64
  delay_accumulator_time :: u32
  delay_interval_seconds :: u32
  delay_growth_limit :: f32
  stable_growth_limit :: f32
  last_delay_interval_index :: u8
  reset_on_nonzero_price :: u8

abbreviation fl_zero :: f64 where
  "fl_zero \<equiv> fl_of_int binary64 0"

definition StablePriceModel_default :: StablePriceModel where
  "StablePriceModel_default =
     \<lparr>sp_stable_price = fl_zero, last_update_timestamp = 0, delay_prices = replicate 24 fl_zero,
      delay_accumulator_price = fl_zero, delay_accumulator_time = 0, delay_interval_seconds = 60 * 60,
      delay_growth_limit = fl_lit binary32 6 100, stable_growth_limit = fl_lit binary32 3 10000,
      last_delay_interval_index = 0, reset_on_nonzero_price = 0\<rparr>"

definition reset_to_price :: "StablePriceModel \<Rightarrow> f64 \<Rightarrow> u64 \<Rightarrow> StablePriceModel" where
  "reset_to_price m oracle_price now_ts =
     m\<lparr>sp_stable_price := oracle_price, delay_prices := replicate 24 oracle_price,
       delay_accumulator_price := fl_zero, delay_accumulator_time := 0,
       last_update_timestamp := now_ts,
       reset_on_nonzero_price := (if fl_less fl_zero oracle_price then 0 else 1)\<rparr>"

definition delay_interval_index :: "StablePriceModel \<Rightarrow> u64 \<Rightarrow> u8 res" where
  "delay_interval_index m timestamp =
     (if delay_interval_seconds m = 0 \<or> length (delay_prices m) = 0 then Inl Panic
      else Inr ((timestamp div delay_interval_seconds m) mod length (delay_prices m) mod 256))"

definition growth_clamped :: "f64 \<Rightarrow> f64 \<Rightarrow> f64 \<Rightarrow> f64 res" where
  "growth_clamped target prev growth_limit =
     (let one = fl_of_int binary64 1;
          hi = fl_mul binary64 prev (fl_add binary64 one growth_limit);
          lo = fl_mul binary64 prev (fl_sub binary64 one growth_limit)
      in fl_clamp target lo hi)"

text \<open>\<^verbatim>\<open>slice[a..b].fill(v)\<close>.\<close>

definition fill_range :: "nat \<Rightarrow> nat \<Rightarrow> 'a \<Rightarrow> 'a list \<Rightarrow> 'a list res" where
  "fill_range a b v xs =
     (if a \<le> b \<and> b \<le> length xs then Inr (take a xs @ replicate (b - a) v @ drop b xs) else Inl Panic)"

text \<open>The new delay price when the interval changes: the average of the past interval, clamped
  around the price stored before it.\<close>

definition new_delay_price :: "StablePriceModel \<Rightarrow> f64 res" where
  "new_delay_price m =
     (let n = length (delay_prices m); l = last_delay_interval_index m;
          i = (if l = 0 then n - 1 else l - 1)
      in if i < n then
           growth_clamped
             (fl_div binary64 (delay_accumulator_price m) (fl_of_int binary64 (int (delay_accumulator_time m))))
             (delay_prices m ! i) (fl_cast binary64 (delay_growth_limit m))
         else Inl Panic)"

definition store_delay_price :: "StablePriceModel \<Rightarrow> bool \<Rightarrow> u8 \<Rightarrow> f64 \<Rightarrow> f64 list res" where
  "store_delay_price m full_delay_passed index p =
     (let xs = delay_prices m; l = last_delay_interval_index m
      in if full_delay_passed then Inr (replicate (length xs) p)
         else if index > l then fill_range l index p xs
         else rbind (fill_range l (length xs) p xs) (fill_range 0 index p))"

definition update_delay_prices :: "StablePriceModel \<Rightarrow> u64 \<Rightarrow> u64 \<Rightarrow> (StablePriceModel \<times> u8) res" where
  "update_delay_prices m now_ts dt =
     rbind (delay_interval_index m now_ts) (\<lambda>index.
       if index \<noteq> last_delay_interval_index m then
         rbind (new_delay_price m) (\<lambda>p.
         rbind (store_delay_price m (dt > length (delay_prices m) * delay_interval_seconds m) index p) (\<lambda>xs.
           Inr (m\<lparr>delay_prices := xs, delay_accumulator_price := fl_zero, delay_accumulator_time := 0,
                  last_delay_interval_index := index\<rparr>, index)))
       else Inr (m, index))"

definition stable_growth :: "StablePriceModel \<Rightarrow> f64 \<Rightarrow> f64 \<Rightarrow> f64" where
  "stable_growth m delay_price dt_limited =
     (let prev = sp_stable_price m;
          fraction = (if fl_le prev delay_price then fl_div binary64 prev delay_price
                      else fl_div binary64 delay_price prev)
      in fl_mul binary64 (fl_mul binary64 (fl_mul binary64 (fl_cast binary64 (stable_growth_limit m)) fraction) fraction)
           dt_limited)"

definition stable_price_update :: "StablePriceModel \<Rightarrow> u64 \<Rightarrow> f64 \<Rightarrow> StablePriceModel res" where
  "stable_price_update m0 now_ts oracle_price =
     (let m = (if reset_on_nonzero_price m0 = 1 \<and> fl_less fl_zero oracle_price
               then reset_to_price m0 oracle_price now_ts else m0);
          dt = now_ts - last_update_timestamp m
      in if dt < 10 then Inr m
         else
           let dt_limited = fl_of_int binary64 (int (min dt (10 * 60)))
           in rbind (chk_u32 (delay_accumulator_time m + dt mod 2 ^ 32)) (\<lambda>t.
              rbind (update_delay_prices
                  (m\<lparr>last_update_timestamp := now_ts, delay_accumulator_time := t,
                     delay_accumulator_price :=
                       fl_add binary64 (delay_accumulator_price m) (fl_mul binary64 oracle_price dt_limited)\<rparr>)
                  now_ts dt) (\<lambda>(m', index).
              if index < length (delay_prices m') then
                rbind (growth_clamped oracle_price (sp_stable_price m')
                         (stable_growth m' (delay_prices m' ! index) dt_limited)) (\<lambda>p.
                  Inr (m'\<lparr>sp_stable_price := p\<rparr>))
              else Inl Panic)))"

section \<open>Invariant\<close>

definition stable_price_ok :: "StablePriceModel \<Rightarrow> bool" where
  "stable_price_ok m \<longleftrightarrow>
     length (delay_prices m) = 24 \<and> last_delay_interval_index m < 24 \<and> 0 < delay_interval_seconds m"

lemma StablePriceModel_default_ok [simp]: "stable_price_ok StablePriceModel_default"
  by (simp add: stable_price_ok_def StablePriceModel_default_def)

lemma reset_to_price_ok [simp]: "stable_price_ok (reset_to_price m p t) = (last_delay_interval_index m < 24 \<and> 0 < delay_interval_seconds m)"
  by (simp add: stable_price_ok_def reset_to_price_def)

lemma delay_interval_index_ok:
  "stable_price_ok m \<Longrightarrow> delay_interval_index m t = Inr (t div delay_interval_seconds m mod 24)"
  by (simp add: stable_price_ok_def delay_interval_index_def)

lemma fill_range_length: "fill_range a b v xs = Inr ys \<Longrightarrow> length ys = length xs"
  by (auto simp: fill_range_def split: if_splits)

lemma store_delay_price_ok:
  "stable_price_ok m \<Longrightarrow> index < 24 \<Longrightarrow> \<exists>xs. store_delay_price m full index p = Inr xs"
  by (auto simp: store_delay_price_def stable_price_ok_def fill_range_def Let_def)

lemma store_delay_price_length:
  "store_delay_price m full index p = Inr xs \<Longrightarrow> length xs = length (delay_prices m)"
  by (auto simp: store_delay_price_def rbind_eq_Inr Let_def dest!: fill_range_length split: if_splits)

lemma update_delay_prices_ok:
  assumes "stable_price_ok m" "update_delay_prices m t dt = Inr (m', index)"
  shows "stable_price_ok m'" "index < 24" "sp_stable_price m' = sp_stable_price m"
    "stable_growth_limit m' = stable_growth_limit m"
  using assms
  by (auto simp: update_delay_prices_def delay_interval_index_ok rbind_eq_Inr stable_price_ok_def
      dest: store_delay_price_length split: if_splits)

lemma stable_price_update_early:
  assumes "reset_on_nonzero_price m \<noteq> 1" "now_ts < last_update_timestamp m + 10"
  shows "stable_price_update m now_ts oracle_price = Inr m"
proof -
  have "now_ts - last_update_timestamp m < 10" using assms(2) by simp
  with assms(1) show ?thesis by (simp add: stable_price_update_def Let_def)
qed

lemma growth_clamped_bounds:
  assumes "growth_clamped target prev g = Inr p" "\<not> is_nan target"
  shows "fl_le (fl_mul binary64 prev (fl_sub binary64 (fl_of_int binary64 1) g)) p"
    "fl_le p (fl_mul binary64 prev (fl_add binary64 (fl_of_int binary64 1) g))"
  using fl_clamp_bounds [OF _ assms(2)] assms(1) by (auto simp: growth_clamped_def Let_def)

section \<open>Properties\<close>

text \<open>
  C16. The stable price is rate limited. An update that is due and not a reset keeps the ring of
  delay prices well formed and moves the stable price no further than to its previous value
  times one plus or minus the growth limit, which is the configured limit per second, times
  the number of seconds, at most ten minutes, times the squared ratio of the stable price and
  one of the delay prices; an update that is not due changes nothing.
\<close>

theorem stable_price_rate_limited:
  assumes "stable_price_ok m" "reset_on_nonzero_price m \<noteq> 1" "\<not> is_nan oracle_price"
    and "stable_price_update m now_ts oracle_price = Inr m'"
  shows "if now_ts < last_update_timestamp m + 10 then m' = m
         else stable_price_ok m' \<and> last_update_timestamp m' = now_ts \<and>
           (\<exists>d \<in> set (delay_prices m').
              let g = stable_growth m d (fl_of_int binary64 (int (min (now_ts - last_update_timestamp m) 600)));
                  one = fl_of_int binary64 1
              in fl_le (fl_mul binary64 (sp_stable_price m) (fl_sub binary64 one g)) (sp_stable_price m') \<and>
                 fl_le (sp_stable_price m') (fl_mul binary64 (sp_stable_price m) (fl_add binary64 one g)))"
proof (cases "now_ts < last_update_timestamp m + 10")
  case True
  then show ?thesis using stable_price_update_early [OF assms(2) True] assms(4) by simp
next
  case False
  let ?dt = "now_ts - last_update_timestamp m"
  let ?lim = "fl_of_int binary64 (int (min ?dt 600))"
  have dt: "\<not> ?dt < 10" using False by simp
  obtain t m1 index p where u: "update_delay_prices
        (m\<lparr>last_update_timestamp := now_ts, delay_accumulator_time := t,
           delay_accumulator_price := fl_add binary64 (delay_accumulator_price m) (fl_mul binary64 oracle_price ?lim)\<rparr>)
        now_ts ?dt = Inr (m1, index)"
      and p: "growth_clamped oracle_price (sp_stable_price m1) (stable_growth m1 (delay_prices m1 ! index) ?lim) = Inr p"
      and m': "m' = m1\<lparr>sp_stable_price := p\<rparr>"
    using assms(2,4) dt
    by (auto simp: stable_price_update_def Let_def rbind_eq_Inr simp del: One_nat_def split: if_splits)
  let ?m = "m\<lparr>last_update_timestamp := now_ts, delay_accumulator_time := t,
           delay_accumulator_price := fl_add binary64 (delay_accumulator_price m) (fl_mul binary64 oracle_price ?lim)\<rparr>"
  have ok: "stable_price_ok ?m" using assms(1) by (simp add: stable_price_ok_def)
  note u' = update_delay_prices_ok [OF ok u]
  have ts: "last_update_timestamp m1 = now_ts"
    using u by (auto simp: update_delay_prices_def rbind_eq_Inr split: if_splits)
  have d: "delay_prices m1 ! index \<in> set (delay_prices m')"
    using u'(1,2) m' by (simp add: stable_price_ok_def)
  have g: "stable_growth m1 d l = stable_growth m d l" for d l
    using u'(3,4) by (simp add: stable_growth_def)
  have ok': "stable_price_ok m'" using u'(1) m' by (simp add: stable_price_ok_def)
  show ?thesis
    unfolding if_not_P [OF False] Let_def
    using ok' ts growth_clamped_bounds [OF p assms(3)] d u'(3) m' by (auto simp: g intro!: bexI [OF _ d])
qed

text \<open>A model at rest at a price of 100.\<close>

definition steady_price :: f64 where
  "steady_price = fl_of_int binary64 100"

definition steady_model :: StablePriceModel where
  "steady_model = reset_to_price StablePriceModel_default steady_price 0"

lemmas stable_price_eval = stable_price_update_def update_delay_prices_def delay_interval_index_def growth_clamped_def
  stable_growth_def new_delay_price_def store_delay_price_def fill_range_def reset_to_price_def
  StablePriceModel_default_def steady_model_def steady_price_def Let_def

lemma steady_update:
  "stable_price_update steady_model 60 steady_price =
     Inr (steady_model\<lparr>last_update_timestamp := 60, delay_accumulator_time := 60,
       delay_accumulator_price := fl_of_int binary64 6000\<rparr>)"
  by (simp add: stable_price_eval fl_eval chk_u32_def u32_MAX_def)

theorem stable_price_rate_limited_witness:
  "\<exists>m'. stable_price_update steady_model 60 steady_price = Inr m' \<and>
     stable_price_ok m' \<and> last_update_timestamp m' = 60"
proof -
  have m: "stable_price_ok steady_model" "reset_on_nonzero_price steady_model \<noteq> 1" "\<not> is_nan steady_price"
      "last_update_timestamp steady_model = 0"
    by (simp_all add: steady_model_def stable_price_ok_def reset_to_price_def StablePriceModel_default_def
        steady_price_def fl_eval)
  show ?thesis using stable_price_rate_limited [OF m(1-3) steady_update] m(4) steady_update by simp
qed

text \<open>
  The accumulated time of an interval counts the whole gap between two updates, the
  accumulated price only its first ten minutes. After an hour without an update the average
  of a constant price is therefore a sixth of that price, and the new delay price drops to
  the lower growth bound although the oracle price never moved.
\<close>

lemma stable_price_gap_lowers_delay_price:
  "\<exists>m'. stable_price_update steady_model 3600 steady_price = Inr m' \<and>
     fl_less (delay_prices m' ! 0) steady_price"
  by (simp add: stable_price_eval fl_eval chk_u32_def u32_MAX_def)

end
