(* ===== verification/Fixed_Point.thy ===== *)
theory Fixed_Point
  imports Floats
begin

text \<open>
  The fixed point numbers \<^verbatim>\<open>I80F48\<close> of the \<^verbatim>\<open>fixed\<close> crate, and the conversions and the
  low-precision division of \<^verbatim>\<open>i80f48.rs\<close> on top of them.

  An \<^verbatim>\<open>I80F48\<close> is represented by its bits, an integer that stands for the number multiplied
  by \<open>2\<^sup>4\<^sup>8\<close>; the crate orders the numbers as their bits. The arithmetic of the crate is not
  part of the program: it is the parameter \<open>fixed_ops\<close>, whose fields fail where the crate
  panics. \<open>fixed_laws\<close> states the documented behaviour that proofs rely on, and
  \<open>fixed_reference\<close> is an instance that satisfies it.
\<close>

section \<open>The crate\<close>

type_synonym i80f48 = int

abbreviation fx_one :: i80f48 where
  "fx_one \<equiv> 2 ^ 48"

record fixed_ops =
  fx_add :: "i80f48 \<Rightarrow> i80f48 \<Rightarrow> i80f48 res"
  fx_sub :: "i80f48 \<Rightarrow> i80f48 \<Rightarrow> i80f48 res"
  fx_mul :: "i80f48 \<Rightarrow> i80f48 \<Rightarrow> i80f48 res"
  fx_div :: "i80f48 \<Rightarrow> i80f48 \<Rightarrow> i80f48 res"
  fx_neg :: "i80f48 \<Rightarrow> i80f48 res"
  fx_abs :: "i80f48 \<Rightarrow> i80f48 res"
  fx_floor :: "i80f48 \<Rightarrow> i80f48 res"
  fx_ceil :: "i80f48 \<Rightarrow> i80f48 res"
  fx_round_to_zero :: "i80f48 \<Rightarrow> i80f48 res"
  fx_of_int :: "int \<Rightarrow> i80f48"
  fx_to_i64 :: "i80f48 \<Rightarrow> i64 res"
  fx_to_u64 :: "i80f48 \<Rightarrow> u64 res"
  fx_of_f64 :: "f64 \<Rightarrow> i80f48 res"
  fx_to_f64 :: "i80f48 \<Rightarrow> f64"
  fx_to_f32 :: "i80f48 \<Rightarrow> f32"
  fx_of_f32 :: "f32 \<Rightarrow> i80f48 res"
  fx_ge_f32 :: "i80f48 \<Rightarrow> f32 \<Rightarrow> bool"
  fx_checked_mul_int :: "i80f48 \<Rightarrow> int \<Rightarrow> i80f48 option"

definition in_i128 :: "int \<Rightarrow> bool" where
  "in_i128 a \<longleftrightarrow> - (2 ^ 127) \<le> a \<and> a < 2 ^ 127"

definition chk_i128 :: "int \<Rightarrow> int res" where
  "chk_i128 a = (if in_i128 a then Inr a else Inl Panic)"

text \<open>Division that truncates towards zero.\<close>

definition trunc_div :: "int \<Rightarrow> int \<Rightarrow> int" where
  "trunc_div a b = sgn a * sgn b * (\<bar>a\<bar> div \<bar>b\<bar>)"

text \<open>Sums, differences, negations and absolute values are exact unless they overflow, integers
  convert exactly, products round down, conversions to integers drop the fraction,
  \<^verbatim>\<open>round_to_zero\<close> truncates and \<^verbatim>\<open>ceil\<close> rounds up.\<close>

definition fixed_laws :: "fixed_ops \<Rightarrow> bool" where
  "fixed_laws F \<longleftrightarrow>
     (\<forall>a b. fx_add F a b = chk_i128 (a + b)) \<and>
     (\<forall>a b. fx_sub F a b = chk_i128 (a - b)) \<and>
     (\<forall>a b. fx_mul F a b = chk_i128 (a * b div fx_one)) \<and>
     (\<forall>a. fx_neg F a = chk_i128 (- a)) \<and>
     (\<forall>a. fx_abs F a = chk_i128 \<bar>a\<bar>) \<and>
     (\<forall>i. fx_of_int F i = i * fx_one) \<and>
     (\<forall>a. fx_to_i64 F a = chk_i64 (a div fx_one)) \<and>
     (\<forall>a. fx_round_to_zero F a = Inr (trunc_div a fx_one * fx_one)) \<and>
     (\<forall>a. fx_ceil F a = chk_i128 (- (- a div fx_one) * fx_one))"

lemma fixed_lawsD:
  assumes "fixed_laws F"
  shows "fx_add F a b = chk_i128 (a + b)" "fx_sub F a b = chk_i128 (a - b)"
    "fx_mul F a b = chk_i128 (a * b div fx_one)" "fx_neg F a = chk_i128 (- a)" "fx_abs F a = chk_i128 \<bar>a\<bar>"
    "fx_of_int F i = i * fx_one" "fx_to_i64 F a = chk_i64 (a div fx_one)"
    "fx_round_to_zero F a = Inr (trunc_div a fx_one * fx_one)" "fx_ceil F a = chk_i128 (- (- a div fx_one) * fx_one)"
  using assms unfolding fixed_laws_def by simp_all

text \<open>Quotients of numbers that are not negative round down.\<close>

definition fixed_div_law :: "fixed_ops \<Rightarrow> bool" where
  "fixed_div_law F \<longleftrightarrow> (\<forall>a b. 0 \<le> a \<longrightarrow> 0 < b \<longrightarrow> fx_div F a b = chk_i128 (a * fx_one div b))"

text \<open>However a quotient is rounded, it is less than a unit away from the exact one.\<close>

definition fixed_div_near :: "fixed_ops \<Rightarrow> bool" where
  "fixed_div_near F \<longleftrightarrow> (\<forall>a b c. 0 < b \<longrightarrow> fx_div F a b = Inr c \<longrightarrow> \<bar>c * b - a * fx_one\<bar> < b)"

lemma chk_i128_eq_Inr: "chk_i128 a = Inr b \<longleftrightarrow> b = a \<and> in_i128 a"
  by (auto simp: chk_i128_def)

lemma chk_i128_ok [simp]: "in_i128 a \<Longrightarrow> chk_i128 a = Inr a"
  by (simp add: chk_i128_def)

section \<open>A reference instance\<close>

definition fixed_reference :: fixed_ops where
  "fixed_reference =
     \<lparr>fx_add = \<lambda>a b. chk_i128 (a + b), fx_sub = \<lambda>a b. chk_i128 (a - b),
      fx_mul = \<lambda>a b. chk_i128 (a * b div fx_one),
      fx_div = \<lambda>a b. if b = 0 then Inl Panic else chk_i128 (trunc_div (a * fx_one) b),
      fx_neg = \<lambda>a. chk_i128 (- a), fx_abs = \<lambda>a. chk_i128 \<bar>a\<bar>,
      fx_floor = \<lambda>a. chk_i128 (a div fx_one * fx_one),
      fx_ceil = \<lambda>a. chk_i128 (- (- a div fx_one) * fx_one),
      fx_round_to_zero = \<lambda>a. Inr (trunc_div a fx_one * fx_one),
      fx_of_int = \<lambda>i. i * fx_one,
      fx_to_i64 = \<lambda>a. chk_i64 (a div fx_one),
      fx_to_u64 = \<lambda>a. if 0 \<le> a then chk_u64 (nat (a div fx_one)) else Inl Panic,
      fx_of_f64 = \<lambda>x. (case x of Fin s m e \<Rightarrow> chk_i128 (signed_of s (if e \<ge> - 48 then m * 2 ^ nat (e + 48)
                                              else round_half_even m (2 ^ nat (- 48 - e)))) | _ \<Rightarrow> Inl Panic),
      fx_to_f64 = \<lambda>a. fl_round binary64 (a < 0) (nat \<bar>a\<bar>) 1 (- 48),
      fx_to_f32 = \<lambda>a. fl_round binary32 (a < 0) (nat \<bar>a\<bar>) 1 (- 48),
      fx_of_f32 = \<lambda>x. (case x of Fin s m e \<Rightarrow> chk_i128 (signed_of s (if e \<ge> - 48 then m * 2 ^ nat (e + 48)
                                              else round_half_even m (2 ^ nat (- 48 - e)))) | _ \<Rightarrow> Inl Panic),
      fx_ge_f32 = \<lambda>a x. fl_le x (Fin (a < 0) (nat \<bar>a\<bar>) (- 48)),
      fx_checked_mul_int = \<lambda>a n. if in_i128 (a * n) then Some (a * n) else None\<rparr>"

lemma fixed_reference_laws [simp]: "fixed_laws fixed_reference"
  by (simp add: fixed_laws_def fixed_reference_def)

lemma fixed_reference_div_law [simp]: "fixed_div_law fixed_reference"
  by (auto simp: fixed_div_law_def fixed_reference_def trunc_div_def sgn_if)

lemma trunc_div_near:
  assumes "0 < b"
  shows "\<bar>trunc_div a b * b - a\<bar> < b"
proof -
  have "\<bar>\<bar>a\<bar> div b * b - \<bar>a\<bar>\<bar> < b"
    using pos_mod_bound [OF assms, of "\<bar>a\<bar>"] pos_mod_sign [OF assms, of "\<bar>a\<bar>"] div_mult_mod_eq [of "\<bar>a\<bar>" b] by linarith
  moreover have "trunc_div a b * b - a = sgn a * (\<bar>a\<bar> div b * b - \<bar>a\<bar>)"
    using assms by (simp add: trunc_div_def right_diff_distrib sgn_mult_abs mult.assoc)
  ultimately show ?thesis using assms by (cases "a = 0") (simp_all add: abs_mult abs_sgn_eq trunc_div_def)
qed

lemma fixed_reference_div_near [simp]: "fixed_div_near fixed_reference"
proof -
  have "\<bar>c * b - a * fx_one\<bar> < b" if "0 < b" "fx_div fixed_reference a b = Inr c" for a b c
    using that trunc_div_near [of b "a * fx_one"] chk_i128_eq_Inr [of "trunc_div (a * fx_one) b" c] by (simp add: fixed_reference_def)
  then show ?thesis unfolding fixed_div_near_def by blast
qed

section \<open>Clamping conversions\<close>

definition clamp_to_i64 :: "fixed_ops \<Rightarrow> i80f48 \<Rightarrow> i64 res" where
  "clamp_to_i64 F a =
     (if a \<le> fx_of_int F i64_MIN then Inr i64_MIN
      else if a \<ge> fx_of_int F i64_MAX then Inr i64_MAX
      else fx_to_i64 F a)"

definition clamp_to_u64 :: "fixed_ops \<Rightarrow> i80f48 \<Rightarrow> u64 res" where
  "clamp_to_u64 F a =
     (if a \<le> 0 then Inr 0
      else if a \<ge> fx_of_int F (int u64_MAX) then Inr u64_MAX
      else fx_to_u64 F a)"

definition f64_clamp_to_i64 :: "f64 \<Rightarrow> i64" where
  "f64_clamp_to_i64 x =
     (if fl_le x (fl_of_int binary64 i64_MIN) then i64_MIN
      else if fl_le (fl_of_int binary64 i64_MAX) x then i64_MAX
      else fl_to_int i64_MIN i64_MAX x)"

definition f64_clamp_to_u64 :: "f64 \<Rightarrow> u64" where
  "f64_clamp_to_u64 x =
     (if fl_le x (fl_of_int binary64 0) then 0
      else if fl_le (fl_of_int binary64 (int u64_MAX)) x then u64_MAX
      else nat (fl_to_int 0 (int u64_MAX) x))"

definition u64_clamp_to_i64 :: "u64 \<Rightarrow> i64" where
  "u64_clamp_to_i64 x = (if int x \<ge> i64_MAX then i64_MAX else int x)"

text \<open>Clamping never fails and is the rounded down value wherever that is an \<^verbatim>\<open>i64\<close>.\<close>

lemma clamp_to_i64_eq:
  assumes "fixed_laws F"
  shows "clamp_to_i64 F a = Inr (max i64_MIN (min i64_MAX (a div fx_one)))"
proof -
  have 1: "a div fx_one \<le> i64_MIN" if "a \<le> i64_MIN * fx_one"
    using zdiv_mono1 [OF that, of fx_one] by simp
  have 2: "i64_MAX \<le> a div fx_one" if "i64_MAX * fx_one \<le> a"
    using zdiv_mono1 [OF that, of fx_one] by simp
  have 3: "i64_MIN \<le> a div fx_one" if "i64_MIN * fx_one < a"
    using zdiv_mono1 [OF less_imp_le [OF that], of fx_one] by simp
  have 4: "a div fx_one < i64_MAX" if "a < i64_MAX * fx_one"
    using that zdiv_mono1 [of a "i64_MAX * fx_one - 1" fx_one] by (simp add: i64_MAX_def)
  show ?thesis
    using 1 2 3 4 assms
    by (auto simp: clamp_to_i64_def fixed_lawsD in_i64_def not_le i64_MIN_def i64_MAX_def)
qed

end
