(* ===== verification/Oracle.thy ===== *)
theory Oracle
  imports Fixed_Point
begin

text \<open>
  Oracle states and the acceptance checks of \<^verbatim>\<open>state/oracle.rs\<close>. Reading a state out of an
  oracle account depends on the formats of the oracle programs and is not part of the model;
  the instructions take the state that was read as an argument.
\<close>

datatype OracleType = Pyth | Stub | SwitchboardV1 | SwitchboardV2 | OrcaCLMM | RaydiumCLMM | SwitchboardOnDemand | PythV2

record OracleConfig =
  conf_filter :: i80f48
  max_staleness_slots :: i64

record OracleState =
  os_price :: i80f48
  deviation :: i80f48
  last_update_slot :: u64
  last_update_time :: "u64 option"
  oracle_type :: OracleType

definition check_staleness :: "OracleState \<Rightarrow> OracleConfig \<Rightarrow> u64 \<Rightarrow> u64 \<Rightarrow> unit res" where
  "check_staleness os config now_slot now_ts =
     (if max_staleness_slots config < 0 then Inr ()
      else if sat_u64 (last_update_slot os + nat (max_staleness_slots config)) < now_slot
      then Inl (MangoErr OracleStale)
      else case last_update_time os of
          None \<Rightarrow> Inr ()
        | Some t \<Rightarrow>
            rbind (chk_u64 (now_ts * 1000)) (\<lambda>current_time_in_msecs.
            rbind (chk_u64 (t * 1000)) (\<lambda>last_update_time_in_msecs.
            rbind (chk_u64 (nat (max_staleness_slots config) * 450)) (\<lambda>max_age.
              if last_update_time_in_msecs < current_time_in_msecs - max_age
              then Inl (MangoErr OracleStale) else Inr ()))))"

definition check_confidence :: "fixed_ops \<Rightarrow> OracleState \<Rightarrow> OracleConfig \<Rightarrow> unit res" where
  "check_confidence F os config =
     rbind (fx_mul F (conf_filter config) (os_price os)) (\<lambda>m.
       if deviation os > m then Inl (MangoErr OracleConfidence) else Inr ())"

definition check_confidence_and_maybe_staleness ::
  "fixed_ops \<Rightarrow> OracleState \<Rightarrow> OracleConfig \<Rightarrow> (u64 \<times> u64) option \<Rightarrow> unit res" where
  "check_confidence_and_maybe_staleness F os config now =
     rbind (case now of None \<Rightarrow> Inr () | Some (now_ts, now_slot) \<Rightarrow> check_staleness os config now_slot now_ts) (\<lambda>_.
       check_confidence F os config)"

text \<open>
  C17. An accepted oracle state is fresh and precise: if a staleness limit is configured and the
  time is given, the state was published at most that many slots ago and, where it carries a
  time, at most 450 milliseconds per slot ago; and its deviation is at most the configured
  fraction of its price.
\<close>

theorem accepted_oracle_fresh_and_precise:
  assumes "check_confidence_and_maybe_staleness F os config (Some (now_ts, now_slot)) = Inr ()"
    and "now_slot \<le> u64_MAX" "0 \<le> max_staleness_slots config"
  shows "now_slot \<le> last_update_slot os + nat (max_staleness_slots config) \<and>
         (\<forall>t. last_update_time os = Some t \<longrightarrow> now_ts * 1000 \<le> t * 1000 + nat (max_staleness_slots config) * 450) \<and>
         (\<exists>m. fx_mul F (conf_filter config) (os_price os) = Inr m \<and> deviation os \<le> m)"
  using assms
  by (auto simp: check_confidence_and_maybe_staleness_def check_staleness_def check_confidence_def
      rbind_eq_Inr sat_u64_def chk_u64_def not_less split: if_splits option.splits)

definition sample_oracle :: OracleState where
  "sample_oracle = \<lparr>os_price = 5 * fx_one, deviation = 3, last_update_slot = 2000, last_update_time = Some 999, oracle_type = Pyth\<rparr>"

definition sample_oracle_config :: OracleConfig where
  "sample_oracle_config = \<lparr>conf_filter = fx_one, max_staleness_slots = 25\<rparr>"

theorem accepted_oracle_fresh_and_precise_witness:
  "check_confidence_and_maybe_staleness fixed_reference sample_oracle sample_oracle_config (Some (1000, 2010)) = Inr () \<and>
   (\<exists>m. fx_mul fixed_reference (conf_filter sample_oracle_config) (os_price sample_oracle) = Inr m \<and> 3 \<le> m)"
proof -
  have "check_confidence_and_maybe_staleness fixed_reference sample_oracle sample_oracle_config (Some (1000, 2010)) = Inr ()"
    by (simp add: check_confidence_and_maybe_staleness_def check_staleness_def check_confidence_def sample_oracle_def
        sample_oracle_config_def fixed_reference_def chk_i128_def in_i128_def sat_u64_def chk_u64_def u64_MAX_def)
  with accepted_oracle_fresh_and_precise [OF this] show ?thesis
    by (simp add: sample_oracle_def sample_oracle_config_def u64_MAX_def)
qed

end
