(* ===== verification/Nodes.thy ===== *)
theory Nodes
  imports Order_Types
begin

text \<open>
  The nodes of the order trees (\<^verbatim>\<open>state/orderbook/nodes.rs\<close>): the 128-bit keys that
  encode price and arrival order, inner, leaf and free nodes, and the operations on a
  single node. \<^verbatim>\<open>AnyNode\<close> with its tag byte and the casts between the node
  layouts is a datatype with one constructor per tag; the payload of a free node is the
  handle of the next free node.
\<close>

section \<open>Keys\<close>

type_synonym NodeHandle = nat

definition new_node_key :: "Side \<Rightarrow> 64 word \<Rightarrow> 64 word \<Rightarrow> u128" where
  "new_node_key side price_data seq_num =
     (let seq_num = (if side = Bid then NOT seq_num else seq_num);
          upper = push_bit 64 (ucast price_data :: u128)
      in upper OR ucast seq_num)"

definition oracle_pegged_price_data :: "i64 \<Rightarrow> 64 word" where
  "oracle_pegged_price_data price_offset_lots = word_of_int price_offset_lots + (- 1 div 2 + 1)"

definition oracle_pegged_price_offset :: "64 word \<Rightarrow> i64" where
  "oracle_pegged_price_offset price_data = sint (price_data - (- 1 div 2 + 1))"

definition fixed_price_data :: "i64 \<Rightarrow> 64 word res" where
  "fixed_price_data price_lots =
     rbind (require (price_lots \<ge> 1) RequireViolated) (\<lambda>_. Inr (word_of_int price_lots))"

definition fixed_price_lots :: "64 word \<Rightarrow> i64 res" where
  "fixed_price_lots price_data =
     (if price_data \<le> word_of_int i64_MAX then Inr (sint price_data) else Inl Panic)"

section \<open>Nodes\<close>

record InnerNode =
  prefix_len :: u32
  inner_key :: u128
  children :: "NodeHandle \<times> NodeHandle"
  child_earliest_expiry :: "u64 \<times> u64"

record LeafNode =
  owner_slot :: u8
  leaf_order_type :: PostOrderType
  time_in_force :: u16
  leaf_key :: u128
  leaf_owner :: pubkey
  quantity :: i64
  timestamp :: u64
  peg_limit :: i64
  leaf_client_order_id :: u64

datatype AnyNode =
    Uninitialized
  | Inner InnerNode
  | Leaf LeafNode
  | FreeNode NodeHandle
  | LastFreeNode NodeHandle

definition InnerNode_new :: "u32 \<Rightarrow> u128 \<Rightarrow> InnerNode" where
  "InnerNode_new plen k =
     \<lparr>prefix_len = plen, inner_key = k, children = (0, 0),
      child_earliest_expiry = (u64_MAX, u64_MAX)\<rparr>"

definition walk_down :: "InnerNode \<Rightarrow> u128 \<Rightarrow> (NodeHandle \<times> bool) res" where
  "walk_down n search_key =
     rbind (sub_unsigned 127 (prefix_len n)) (\<lambda>sh.
       let crit_bit_mask = push_bit sh (1 :: u128);
           crit_bit = (search_key AND crit_bit_mask \<noteq> 0)
       in Inr (sel2 crit_bit (children n), crit_bit))"

definition inner_earliest_expiry :: "InnerNode \<Rightarrow> u64" where
  "inner_earliest_expiry n =
     min (sel2 False (child_earliest_expiry n)) (sel2 True (child_earliest_expiry n))"

definition LeafNode_new ::
  "u8 \<Rightarrow> u128 \<Rightarrow> pubkey \<Rightarrow> i64 \<Rightarrow> u64 \<Rightarrow> PostOrderType \<Rightarrow> u16 \<Rightarrow> i64 \<Rightarrow> u64 \<Rightarrow> LeafNode" where
  "LeafNode_new slot k own qty ts ot tif peg cid =
     \<lparr>owner_slot = slot, leaf_order_type = ot, time_in_force = tif, leaf_key = k,
      leaf_owner = own, quantity = qty, timestamp = ts, peg_limit = peg,
      leaf_client_order_id = cid\<rparr>"

definition price_data :: "LeafNode \<Rightarrow> 64 word" where
  "price_data l = ucast (drop_bit 64 (leaf_key l))"

definition expiry :: "LeafNode \<Rightarrow> u64 res" where
  "expiry l = (if time_in_force l = 0 then Inr u64_MAX
               else chk_u64 (timestamp l + time_in_force l))"

definition is_expired :: "LeafNode \<Rightarrow> u64 \<Rightarrow> bool res" where
  "is_expired l now_ts =
     (if time_in_force l > 0
      then rbind (chk_u64 (timestamp l + time_in_force l)) (\<lambda>e. Inr (now_ts \<ge> e))
      else Inr False)"

fun node_key :: "AnyNode \<Rightarrow> u128 option" where
  "node_key (Inner n) = Some (inner_key n)"
| "node_key (Leaf l) = Some (leaf_key l)"
| "node_key _ = None"

fun node_children :: "AnyNode \<Rightarrow> (NodeHandle \<times> NodeHandle) option res" where
  "node_children (Inner n) = Inr (Some (children n))"
| "node_children (Leaf l) = Inr None"
| "node_children _ = Inl Panic"

fun as_leaf :: "AnyNode \<Rightarrow> LeafNode option" where
  "as_leaf (Leaf l) = Some l"
| "as_leaf _ = None"

fun as_inner :: "AnyNode \<Rightarrow> InnerNode option" where
  "as_inner (Inner n) = Some n"
| "as_inner _ = None"

fun earliest_expiry :: "AnyNode \<Rightarrow> u64 res" where
  "earliest_expiry (Inner n) = Inr (inner_earliest_expiry n)"
| "earliest_expiry (Leaf l) = expiry l"
| "earliest_expiry _ = Inl Panic"

section \<open>The key encoding\<close>

lemma uint_new_node_key:
  "uint (new_node_key side p s) =
     uint p * 2 ^ 64 + uint (if side = Bid then NOT s else s)"
proof -
  define q where "q = (if side = Bid then NOT s else s)"
  have disj: "(push_bit 64 (ucast p :: u128)) AND ucast q = 0"
    by (rule bit_eqI) (auto simp: bit_and_iff bit_push_bit_iff bit_ucast_iff dest: bit_imp_le_length)
  have "push_bit 64 (ucast p :: u128) OR ucast q = push_bit 64 (ucast p) + ucast q"
    using disj by (simp add: disjunctive_add_eq_or)
  moreover have "uint (push_bit 64 (ucast p :: u128)) = uint p * 2 ^ 64"
  proof -
    have "uint p < 2 ^ 64" using uint_lt2p [of p] by simp
    then show ?thesis
      by (simp add: push_bit_eq_mult uint_word_ariths unsigned_ucast_eq take_bit_int_eq_self)
  qed
  moreover have "uint (ucast q :: u128) = uint q"
    using uint_lt2p [of q] by (simp add: unsigned_ucast_eq take_bit_int_eq_self)
  moreover have "uint p * 2 ^ 64 + uint q < 2 ^ 128"
    using uint_lt2p [of p] uint_lt2p [of q] by simp
  ultimately show ?thesis
    by (simp add: new_node_key_def q_def Let_def uint_plus_simple_iff uint_word_ariths)
qed

lemma not_word_less_iff: "NOT s < NOT t \<longleftrightarrow> t < (s :: 'a::len word)"
proof -
  have "uint (NOT w) = uint (- 1 :: 'a word) - uint w" for w :: "'a word"
  proof -
    have "uint w \<le> uint (- 1 :: 'a word)" by (simp flip: word_le_def)
    then have "uint (- 1 - w) = uint (- 1 :: 'a word) - uint w" by (simp only: uint_sub_lem)
    moreover have "NOT w = - 1 - w" by (subst not_eq_complement) (rule minus_diff_commute)
    ultimately show ?thesis by simp
  qed
  then show ?thesis by (simp only: word_less_alt) linarith
qed

lemma new_node_key_less_iff:
  "new_node_key side p s < new_node_key side q t \<longleftrightarrow>
     p < q \<or> p = q \<and> (if side = Bid then t < s else s < t)"
proof -
  define s' where "s' = (if side = Bid then NOT s else s)"
  define t' where "t' = (if side = Bid then NOT t else t)"
  have b: "0 \<le> uint s'" "0 \<le> uint t'" "uint s' < 2 ^ 64" "uint t' < 2 ^ 64"
    using uint_lt2p [of s'] uint_lt2p [of t'] by simp_all
  have "new_node_key side p s < new_node_key side q t \<longleftrightarrow>
      uint p * 2 ^ 64 + uint s' < uint q * 2 ^ 64 + uint t'"
    by (simp add: word_less_alt uint_new_node_key s'_def t'_def)
  also have "\<dots> \<longleftrightarrow> uint p < uint q \<or> uint p = uint q \<and> uint s' < uint t'"
    using b by (intro base_less_iff)
  also have "\<dots> \<longleftrightarrow> p < q \<or> p = q \<and> s' < t'"
    by (simp add: word_less_alt word_uint_eq_iff)
  also have "s' < t' \<longleftrightarrow> (if side = Bid then t < s else s < t)"
    by (simp add: s'_def t'_def not_word_less_iff)
  finally show ?thesis .
qed

lemma new_node_key_inject:
  "new_node_key side p s = new_node_key side q t \<longleftrightarrow> p = q \<and> s = t"
  using new_node_key_less_iff [of side p s q t] new_node_key_less_iff [of side q t p s]
  by (metis not_less_iff_gr_or_eq)

lemma price_data_of_key:
  "leaf_key l = new_node_key side p s \<Longrightarrow> price_data l = p"
proof -
  assume k: "leaf_key l = new_node_key side p s"
  define q where "q = (if side = Bid then NOT s else s)"
  have "uint (drop_bit 64 (leaf_key l)) = uint (leaf_key l) div 2 ^ 64"
    by (simp add: drop_bit_eq_div uint_div)
  also have "\<dots> = (uint p * 2 ^ 64 + uint q) div 2 ^ 64"
    by (simp add: k uint_new_node_key q_def)
  also have "\<dots> = uint p" using uint_lt2p [of q] by simp
  finally have "uint (drop_bit 64 (leaf_key l)) = uint p" .
  moreover have "take_bit 64 (uint p) = uint p"
    using uint_lt2p [of p] by (intro take_bit_int_eq_self) simp_all
  ultimately show ?thesis
    by (simp add: price_data_def word_uint_eq_iff unsigned_ucast_eq)
qed

section \<open>The encodings of prices\<close>

lemma u64_half: "(- 1 div 2 + 1 :: 64 word) = 9223372036854775808"
  by simp

lemma uint_oracle_pegged_price_data:
  assumes "in_i64 x"
  shows "uint (oracle_pegged_price_data x) = x + 2 ^ 63"
proof -
  have "uint (word_of_int x + 9223372036854775808 :: 64 word) = (x + 2 ^ 63) mod 2 ^ 64"
    by (simp add: uint_word_ariths uint_word_of_int mod_add_left_eq)
  with assms show ?thesis
    by (simp add: oracle_pegged_price_data_def u64_half in_i64_bounds)
qed

lemma oracle_pegged_price_offset_eq: "oracle_pegged_price_offset p = uint p - 2 ^ 63"
proof -
  have eq: "p - 9223372036854775808 = (word_of_int (uint p - 2 ^ 63) :: 64 word)"
    by (simp add: wi_hom_sub)
  have sint: "sint (word_of_int y :: 64 word) = y" if "- (2 ^ 63) \<le> y" "y < 2 ^ 63" for y
    using that by (simp add: int_word_sint)
  have "sint (word_of_int (uint p - 2 ^ 63) :: 64 word) = uint p - 2 ^ 63"
    by (rule sint) (use uint_lt2p [of p] in simp_all)
  then show ?thesis
    unfolding oracle_pegged_price_offset_def u64_half eq .
qed

lemma oracle_pegged_price_data_less_iff:
  "in_i64 x \<Longrightarrow> in_i64 y \<Longrightarrow>
     oracle_pegged_price_data x < oracle_pegged_price_data y \<longleftrightarrow> x < y"
  by (simp add: word_less_alt uint_oracle_pegged_price_data)

lemma in_i64_oracle_pegged_price_offset: "in_i64 (oracle_pegged_price_offset p)"
  using uint_lt2p [of p] by (simp add: oracle_pegged_price_offset_eq in_i64_bounds)

lemma oracle_pegged_price_offset_data [simp]:
  "in_i64 x \<Longrightarrow> oracle_pegged_price_offset (oracle_pegged_price_data x) = x"
  by (simp add: oracle_pegged_price_offset_eq uint_oracle_pegged_price_data)

lemma oracle_pegged_price_data_offset [simp]:
  "oracle_pegged_price_data (oracle_pegged_price_offset p) = p"
  by (simp add: word_uint_eq_iff
      uint_oracle_pegged_price_data [OF in_i64_oracle_pegged_price_offset])
    (simp add: oracle_pegged_price_offset_eq)

lemma uint_fixed_price_data:
  "fixed_price_data x = Inr p \<Longrightarrow> in_i64 x \<Longrightarrow> uint p = x \<and> 1 \<le> x"
  by (auto simp: fixed_price_data_def rbind_eq_Inr uint_word_of_int in_i64_bounds)

lemma fixed_price_lots_data:
  assumes "fixed_price_data x = Inr p" "in_i64 x"
  shows "fixed_price_lots p = Inr x"
proof -
  have p: "uint p = x" "1 \<le> x" using uint_fixed_price_data [OF assms] by auto
  have "sint p = x" using p assms(2)
    by (simp add: sint_uint signed_take_bit_int_eq_self in_i64_bounds)
  then show ?thesis using p assms(2)
    by (simp add: fixed_price_lots_def word_le_def uint_word_of_int in_i64_def i64_MAX_def)
qed

lemma fixed_price_lots_eq_Inr:
  "fixed_price_lots p = Inr x \<longleftrightarrow> x = uint p \<and> uint p < 2 ^ 63"
proof -
  have "signed_take_bit 63 (uint p) = uint p" if "uint p < 2 ^ 63"
    using that order_trans [of "- (2 ^ 63)" 0 "uint p"]
    by (intro signed_take_bit_int_eq_self) simp_all
  then show ?thesis
    by (auto simp: fixed_price_lots_def word_le_def uint_word_of_int i64_MAX_def sint_uint)
qed

section \<open>Expiry\<close>

text \<open>The expiry of a leaf whose time stamp leaves room for its time in force.\<close>

definition leaf_ok :: "LeafNode \<Rightarrow> bool" where
  "leaf_ok l \<longleftrightarrow> time_in_force l \<le> u16_MAX \<and> timestamp l + time_in_force l \<le> u64_MAX"

definition leaf_expiry :: "LeafNode \<Rightarrow> u64" where
  "leaf_expiry l = (if time_in_force l = 0 then u64_MAX else timestamp l + time_in_force l)"

lemma expiry_ok [simp]: "leaf_ok l \<Longrightarrow> expiry l = Inr (leaf_expiry l)"
  by (simp add: leaf_ok_def expiry_def leaf_expiry_def)

lemma is_expired_ok [simp]:
  "leaf_ok l \<Longrightarrow> is_expired l now = Inr (time_in_force l > 0 \<and> leaf_expiry l \<le> now)"
  by (simp add: leaf_ok_def is_expired_def leaf_expiry_def)

lemma leaf_expiry_le: "leaf_ok l \<Longrightarrow> leaf_expiry l \<le> u64_MAX"
  by (simp add: leaf_ok_def leaf_expiry_def)

end
