(* ===== verification/Key_Bits.thy ===== *)
theory Key_Bits
  imports Nodes
begin

text \<open>
  Bit-level facts about the 128-bit keys that the crit-bit trees rest on: the number of
  leading zeros (Rust's \<^verbatim>\<open>u128::leading_zeros\<close>), the top bits two keys share, the
  critical bit at which they part, and that the critical bit decides their order.
\<close>

section \<open>Leading zeros\<close>

primrec leading_zeros_below :: "nat \<Rightarrow> u128 \<Rightarrow> nat" where
  "leading_zeros_below 0 w = 0"
| "leading_zeros_below (Suc n) w = (if bit w n then 0 else Suc (leading_zeros_below n w))"

definition leading_zeros :: "u128 \<Rightarrow> nat" where
  "leading_zeros w = leading_zeros_below 128 w"

lemma leading_zeros_below_le: "leading_zeros_below n w \<le> n"
  by (induction n) auto

lemma leading_zeros_below_bit:
  "leading_zeros_below n w < n \<Longrightarrow> bit w (n - 1 - leading_zeros_below n w)"
  by (induction n) (auto split: if_splits)

lemma leading_zeros_below_zero:
  "n - leading_zeros_below n w \<le> i \<Longrightarrow> i < n \<Longrightarrow> \<not> bit w i"
  by (induction n) (auto simp: less_Suc_eq Suc_diff_le leading_zeros_below_le split: if_splits)

section \<open>Common prefixes\<close>

text \<open>The top \<open>p\<close> bits of a key.\<close>

definition top_bits :: "nat \<Rightarrow> u128 \<Rightarrow> u128" where
  "top_bits p k = drop_bit (128 - p) k"

lemma top_bits_eq_iff:
  "top_bits p a = top_bits p b \<longleftrightarrow> (\<forall>i. 128 - p \<le> i \<longrightarrow> i < 128 \<longrightarrow> bit a i = bit b i)"
proof
  assume eq: "top_bits p a = top_bits p b"
  show "\<forall>i. 128 - p \<le> i \<longrightarrow> i < 128 \<longrightarrow> bit a i = bit b i"
  proof (intro allI impI)
    fix i assume "128 - p \<le> i" "i < 128"
    with eq have "bit (drop_bit (128 - p) a) (i - (128 - p)) = bit (drop_bit (128 - p) b) (i - (128 - p))"
      by (simp add: top_bits_def)
    then show "bit a i = bit b i" using \<open>128 - p \<le> i\<close> by (simp add: bit_drop_bit_eq)
  qed
next
  assume h: "\<forall>i. 128 - p \<le> i \<longrightarrow> i < 128 \<longrightarrow> bit a i = bit b i"
  show "top_bits p a = top_bits p b"
  proof (rule bit_word_eqI)
    fix n assume "n < LENGTH(128)"
    show "bit (top_bits p a) n = bit (top_bits p b) n"
    proof (cases "128 - p + n < 128")
      case True
      with h show ?thesis by (simp add: top_bits_def bit_drop_bit_eq)
    next
      case False
      then show ?thesis
        by (auto simp: top_bits_def bit_drop_bit_eq dest: bit_imp_le_length)
    qed
  qed
qed

lemma top_bits_mono: "top_bits p a = top_bits p b \<Longrightarrow> q \<le> p \<Longrightarrow> top_bits q a = top_bits q b"
  by (auto simp: top_bits_eq_iff)

lemma top_bits_Suc:
  "p < 128 \<Longrightarrow> top_bits (Suc p) a = top_bits (Suc p) b \<longleftrightarrow>
     top_bits p a = top_bits p b \<and> bit a (127 - p) = bit b (127 - p)"
proof -
  assume p: "p < 128"
  have "128 - Suc p \<le> i \<longleftrightarrow> i = 127 - p \<or> 128 - p \<le> i" for i using p by arith
  then show ?thesis using p by (auto simp: top_bits_eq_iff)
qed

lemma top_bits_128: "top_bits 128 a = a"
  by (simp add: top_bits_def)

text \<open>The bits two keys share are counted by the leading zeros of their exclusive or.\<close>

lemma leading_zeros_xor_ge:
  assumes "p \<le> 128"
  shows "p \<le> leading_zeros (a XOR b) \<longleftrightarrow> top_bits p a = top_bits p b"
proof
  assume "p \<le> leading_zeros (a XOR b)"
  then show "top_bits p a = top_bits p b"
    using leading_zeros_below_zero [of 128 "a XOR b"]
    by (auto simp: top_bits_eq_iff leading_zeros_def bit_xor_iff)
next
  assume eq: "top_bits p a = top_bits p b"
  show "p \<le> leading_zeros (a XOR b)"
  proof (rule ccontr)
    assume "\<not> p \<le> leading_zeros (a XOR b)"
    then have "leading_zeros (a XOR b) < p" by simp
    with assms have "bit (a XOR b) (127 - leading_zeros (a XOR b))"
      using leading_zeros_below_bit [of 128 "a XOR b"] by (simp add: leading_zeros_def)
    with \<open>leading_zeros (a XOR b) < p\<close> assms eq show False
      by (auto simp: top_bits_eq_iff bit_xor_iff)
  qed
qed

lemma leading_zeros_le: "leading_zeros w \<le> 128"
  using leading_zeros_below_le [of 128 w] by (simp add: leading_zeros_def)

lemma leading_zeros_xor_less:
  assumes "a \<noteq> b"
  shows "leading_zeros (a XOR b) < 128"
    and "top_bits (leading_zeros (a XOR b)) a = top_bits (leading_zeros (a XOR b)) b"
    and "bit a (127 - leading_zeros (a XOR b)) \<noteq> bit b (127 - leading_zeros (a XOR b))"
proof -
  let ?z = "leading_zeros (a XOR b)"
  have "\<not> 128 \<le> ?z" using assms leading_zeros_xor_ge [of 128 a b] by (simp add: top_bits_128)
  then show lt: "?z < 128" by simp
  then show "top_bits ?z a = top_bits ?z b" using leading_zeros_xor_ge [of ?z a b] by simp
  have "bit (a XOR b) (127 - ?z)"
    using leading_zeros_below_bit [of 128 "a XOR b"] lt by (simp add: leading_zeros_def)
  then show "bit a (127 - ?z) \<noteq> bit b (127 - ?z)" by (auto simp: bit_xor_iff)
qed

section \<open>The critical bit\<close>

lemma crit_bit_mask: "w AND push_bit n 1 \<noteq> 0 \<longleftrightarrow> bit w n" if "n < 128" for w :: u128
proof -
  have "w AND push_bit n 1 = (if bit w n then push_bit n 1 else 0)"
    by (rule bit_eqI) (auto simp: bit_and_iff bit_push_bit_iff bit_1_iff bit_exp_iff)
  moreover have "push_bit n 1 \<noteq> (0 :: u128)"
    using that by (auto simp: bit_eq_iff bit_push_bit_iff bit_1_iff bit_exp_iff)
  ultimately show ?thesis by simp
qed

lemma uint_drop_bit: "uint (drop_bit n w) = drop_bit n (uint w)" for w :: u128
proof -
  have "take_bit 128 (uint w) = uint w"
    by (rule take_bit_int_eq_self) (use uint_lt2p [of w] in simp_all)
  then show ?thesis by (simp add: unsigned_drop_bit_eq)
qed

lemma crit_bit_less:
  assumes "p < 128" "top_bits p a = top_bits p b" "\<not> bit a (127 - p)" "bit b (127 - p)"
  shows "a < b"
proof -
  let ?n = "127 - p"
  have div2: "uint (drop_bit ?n w) = 2 * uint (top_bits p w) + of_bool (bit w ?n)" for w :: u128
  proof -
    have "128 - p = Suc ?n" using assms(1) by simp
    then have "uint (top_bits p w) = uint (drop_bit ?n w) div 2"
      by (simp add: top_bits_def drop_bit_Suc drop_bit_half uint_div)
    moreover have "bit (uint w) ?n \<longleftrightarrow> odd (uint (drop_bit ?n w))"
      by (simp add: bit_iff_odd_drop_bit [of "uint w"] uint_drop_bit)
    moreover have "bit (uint w) ?n \<longleftrightarrow> bit w ?n" by (simp add: bit_uint_iff less_imp_diff_less)
    ultimately show ?thesis by (cases "bit w ?n") (auto elim!: oddE evenE)
  qed
  from div2 [of a] div2 [of b] assms have "uint (drop_bit ?n a) < uint (drop_bit ?n b)" by simp
  then have "uint a div 2 ^ ?n < uint b div 2 ^ ?n"
    by (simp only: uint_drop_bit drop_bit_eq_div [where 'a = int])
  then have "uint a < uint b"
    by (meson linorder_not_le zdiv_mono1 zero_less_numeral zero_less_power)
  then show ?thesis by (simp add: word_less_alt)
qed

end
