(* ===== verification/Order_Tree.thy ===== *)
theory Order_Tree
  imports Key_Bits
begin

text \<open>
  The order tree of \<^verbatim>\<open>state/orderbook/ordertree.rs\<close> as the program has it: crit-bit trees
  stored in one array of nodes, with a bump allocator and a free list threaded through
  the unused slots. Several trees can share the array, each with its own root.

  A stack of parents (a \<^verbatim>\<open>Vec\<close> in the source) is a list with the most recently
  pushed element first. Loops that follow handles take fuel; the fuel an operation passes
  is \<open>walk_fuel\<close>, one more than the number of slots, and \<open>Order_Tree_Inv\<close> shows that a
  well-formed tree never exhausts it.
\<close>

section \<open>State\<close>

definition MAX_ORDERTREE_NODES :: nat where
  "MAX_ORDERTREE_NODES = 1024"

datatype OrderTreeType = Bids | Asks

fun order_tree_type_side :: "OrderTreeType \<Rightarrow> Side" where
  "order_tree_type_side Bids = Bid"
| "order_tree_type_side Asks = Ask"

record OrderTreeRoot =
  maybe_node :: NodeHandle
  leaf_count :: u32

definition root_node :: "OrderTreeRoot \<Rightarrow> NodeHandle option" where
  "root_node r = (if leaf_count r = 0 then None else Some (maybe_node r))"

record OrderTreeNodes =
  order_tree_type :: OrderTreeType
  bump_index :: u32
  free_list_len :: u32
  free_list_head :: NodeHandle
  nodes :: "AnyNode list"

definition walk_fuel :: "OrderTreeNodes \<Rightarrow> nat" where
  "walk_fuel ot = Suc (length (nodes ot))"

section \<open>Access to nodes\<close>

text \<open>\<^verbatim>\<open>node\<close> and \<^verbatim>\<open>node_mut\<close>: indexing out of range panics, a slot that holds neither an
  inner node nor a leaf gives nothing.\<close>

definition node :: "OrderTreeNodes \<Rightarrow> NodeHandle \<Rightarrow> AnyNode option res" where
  "node ot h =
     (if h < length (nodes ot)
      then Inr (case nodes ot ! h of
                  Inner n \<Rightarrow> Some (Inner n)
                | Leaf l \<Rightarrow> Some (Leaf l)
                | _ \<Rightarrow> None)
      else Inl Panic)"

definition node_unwrap :: "OrderTreeNodes \<Rightarrow> NodeHandle \<Rightarrow> AnyNode res" where
  "node_unwrap ot h = rbind (node ot h) unwrap"

definition set_node :: "OrderTreeNodes \<Rightarrow> NodeHandle \<Rightarrow> AnyNode \<Rightarrow> OrderTreeNodes" where
  "set_node ot h n = ot\<lparr>nodes := (nodes ot)[h := n]\<rparr>"

definition node_mut_assign :: "OrderTreeNodes \<Rightarrow> NodeHandle \<Rightarrow> AnyNode \<Rightarrow> OrderTreeNodes res" where
  "node_mut_assign ot h n = rbind (node_unwrap ot h) (\<lambda>_. Inr (set_node ot h n))"

section \<open>Slots\<close>

definition remove_node ::
  "OrderTreeNodes \<Rightarrow> NodeHandle \<Rightarrow> (AnyNode \<times> OrderTreeNodes) option res" where
  "remove_node ot h =
     rbind (node ot h) (\<lambda>v. case v of
       None \<Rightarrow> Inr None
     | Some val \<Rightarrow>
         let free = (if free_list_len ot = 0 then LastFreeNode (free_list_head ot)
                     else FreeNode (free_list_head ot))
         in rbind (chk_u32 (free_list_len ot + 1)) (\<lambda>len.
              Inr (Some (val, (set_node ot h free)\<lparr>free_list_len := len, free_list_head := h\<rparr>))))"

definition insert_node :: "OrderTreeNodes \<Rightarrow> AnyNode \<Rightarrow> (NodeHandle \<times> OrderTreeNodes) res" where
  "insert_node ot val =
     rbind (case val of Inner _ \<Rightarrow> Inr () | Leaf _ \<Rightarrow> Inr () | _ \<Rightarrow> Inl Panic) (\<lambda>_.
     if free_list_len ot = 0 then
       rbind (require (bump_index ot < length (nodes ot) \<and> bump_index ot < u32_MAX)
                (MangoErr SomeError)) (\<lambda>_.
         Inr (bump_index ot, (set_node ot (bump_index ot) val)\<lparr>bump_index := bump_index ot + 1\<rparr>))
     else
       let key = free_list_head ot in
       if key < length (nodes ot) then
         rbind (case nodes ot ! key of
                  FreeNode nxt \<Rightarrow> if free_list_len ot > 1 then Inr nxt else Inl Panic
                | LastFreeNode nxt \<Rightarrow> if free_list_len ot = 1 then Inr nxt else Inl Panic
                | _ \<Rightarrow> Inl Panic) (\<lambda>nxt.
           Inr (key, (set_node ot key val)
                       \<lparr>free_list_head := nxt, free_list_len := free_list_len ot - 1\<rparr>))
       else Inl Panic)"

definition is_full :: "OrderTreeNodes \<Rightarrow> bool" where
  "is_full ot \<longleftrightarrow> free_list_len ot \<le> 1 \<and> bump_index ot \<ge> length (nodes ot) - 1"

section \<open>Expiry bookkeeping\<close>

fun update_parent_earliest_expiry ::
  "OrderTreeNodes \<Rightarrow> (NodeHandle \<times> bool) list \<Rightarrow> u64 \<Rightarrow> u64 \<Rightarrow> OrderTreeNodes res" where
  "update_parent_earliest_expiry ot [] outdated_expiry new_expiry = Inr ot"
| "update_parent_earliest_expiry ot ((parent_h, crit_bit) # stack) outdated_expiry new_expiry =
     rbind (node_unwrap ot parent_h) (\<lambda>n. rbind (unwrap (as_inner n)) (\<lambda>parent.
       if sel2 crit_bit (child_earliest_expiry parent) \<noteq> outdated_expiry then Inr ot
       else
         let outdated_expiry' = inner_earliest_expiry parent;
             parent' = parent\<lparr>child_earliest_expiry :=
                         upd2 crit_bit new_expiry (child_earliest_expiry parent)\<rparr>;
             new_expiry' = inner_earliest_expiry parent'
         in update_parent_earliest_expiry (set_node ot parent_h (Inner parent')) stack
              outdated_expiry' new_expiry'))"

fun find_earliest_expiry_loop ::
  "nat \<Rightarrow> OrderTreeNodes \<Rightarrow> NodeHandle \<Rightarrow> (NodeHandle \<times> u64) option res" where
  "find_earliest_expiry_loop 0 ot current = Inl OutOfFuel"
| "find_earliest_expiry_loop (Suc fuel) ot current =
     rbind (node_unwrap ot current) (\<lambda>contents. case contents of
       Inner inner \<Rightarrow>
         find_earliest_expiry_loop fuel ot
           (sel2 (sel2 False (child_earliest_expiry inner) > sel2 True (child_earliest_expiry inner))
              (children inner))
     | _ \<Rightarrow> rbind (earliest_expiry contents) (\<lambda>e. Inr (Some (current, e))))"

definition find_earliest_expiry ::
  "OrderTreeNodes \<Rightarrow> OrderTreeRoot \<Rightarrow> (NodeHandle \<times> u64) option res" where
  "find_earliest_expiry ot root =
     (case root_node root of
        None \<Rightarrow> Inr None
      | Some h \<Rightarrow> find_earliest_expiry_loop (walk_fuel ot) ot h)"

section \<open>Extremal leaves\<close>

fun leaf_min_max_loop ::
  "nat \<Rightarrow> OrderTreeNodes \<Rightarrow> bool \<Rightarrow> NodeHandle \<Rightarrow> (NodeHandle \<times> LeafNode) option res" where
  "leaf_min_max_loop 0 ot find_max node_handle = Inl OutOfFuel"
| "leaf_min_max_loop (Suc fuel) ot find_max node_handle =
     rbind (node ot node_handle) (\<lambda>v. case v of
       Some (Inner inner) \<Rightarrow> leaf_min_max_loop fuel ot find_max (sel2 find_max (children inner))
     | Some (Leaf leaf) \<Rightarrow> Inr (Some (node_handle, leaf))
     | _ \<Rightarrow> Inr None)"

definition leaf_min_max ::
  "OrderTreeNodes \<Rightarrow> bool \<Rightarrow> OrderTreeRoot \<Rightarrow> (NodeHandle \<times> LeafNode) option res" where
  "leaf_min_max ot find_max root =
     (case root_node root of
        None \<Rightarrow> Inr None
      | Some h \<Rightarrow> leaf_min_max_loop (walk_fuel ot) ot find_max h)"

definition min_leaf :: "OrderTreeNodes \<Rightarrow> OrderTreeRoot \<Rightarrow> (NodeHandle \<times> LeafNode) option res" where
  "min_leaf ot root = leaf_min_max ot False root"

definition max_leaf :: "OrderTreeNodes \<Rightarrow> OrderTreeRoot \<Rightarrow> (NodeHandle \<times> LeafNode) option res" where
  "max_leaf ot root = leaf_min_max ot True root"

definition find_worst :: "OrderTreeNodes \<Rightarrow> OrderTreeRoot \<Rightarrow> (NodeHandle \<times> LeafNode) option res" where
  "find_worst ot root =
     (case order_tree_type ot of Bids \<Rightarrow> min_leaf ot root | Asks \<Rightarrow> max_leaf ot root)"

section \<open>Removal\<close>

text \<open>
  The walk of \<^verbatim>\<open>remove_by_key\<close> from a parent to the leaf with the searched key: nothing when
  the leaf it ends at has another key, otherwise the last parent, the leaf's handle, the
  bit that leads to it, and the stack of all parents.
\<close>

fun remove_walk ::
  "nat \<Rightarrow> OrderTreeNodes \<Rightarrow> u128 \<Rightarrow> NodeHandle \<Rightarrow> NodeHandle \<Rightarrow> bool \<Rightarrow> (NodeHandle \<times> bool) list \<Rightarrow>
     (NodeHandle \<times> NodeHandle \<times> bool \<times> (NodeHandle \<times> bool) list) option res" where
  "remove_walk 0 ot search_key parent_h child_h crit_bit stack = Inl OutOfFuel"
| "remove_walk (Suc fuel) ot search_key parent_h child_h crit_bit stack =
     rbind (node_unwrap ot child_h) (\<lambda>n. case n of
       Inner inner \<Rightarrow>
         rbind (walk_down inner search_key) (\<lambda>(new_child_h, new_crit_bit).
           remove_walk fuel ot search_key child_h new_child_h new_crit_bit
             ((child_h, new_crit_bit) # stack))
     | Leaf leaf \<Rightarrow>
         if leaf_key leaf \<noteq> search_key then Inr None
         else Inr (Some (parent_h, child_h, crit_bit, stack))
     | _ \<Rightarrow> Inl Panic)"

text \<open>The second half of \<^verbatim>\<open>remove_by_key\<close>: the parent is replaced by its other child.\<close>

definition remove_splice ::
  "OrderTreeNodes \<Rightarrow> OrderTreeRoot \<Rightarrow> NodeHandle \<Rightarrow> NodeHandle \<Rightarrow> bool \<Rightarrow> (NodeHandle \<times> bool) list \<Rightarrow>
     (OrderTreeNodes \<times> OrderTreeRoot \<times> LeafNode option) res" where
  "remove_splice ot root parent_h child_h crit_bit stack =
     rbind (node_unwrap ot parent_h) (\<lambda>parent.
     rbind (node_children parent) (\<lambda>chs.
     rbind (unwrap chs) (\<lambda>ch.
     let other_child_h = sel2 (\<not> crit_bit) ch in
     rbind (remove_node ot other_child_h) (\<lambda>r1.
     rbind (unwrap r1) (\<lambda>(other_child_node_contents, ot1).
     rbind (earliest_expiry other_child_node_contents) (\<lambda>new_expiry.
     rbind (node_mut_assign ot1 parent_h other_child_node_contents) (\<lambda>ot2.
     rbind (sub_unsigned (leaf_count root) 1) (\<lambda>cnt.
     rbind (remove_node ot2 child_h) (\<lambda>r2.
     rbind (unwrap r2) (\<lambda>(removed, ot3).
     rbind (unwrap (as_leaf removed)) (\<lambda>removed_leaf.
     rbind (expiry removed_leaf) (\<lambda>outdated_expiry.
     rbind (update_parent_earliest_expiry ot3 (tl stack) outdated_expiry new_expiry) (\<lambda>ot4.
       Inr (ot4, root\<lparr>leaf_count := cnt\<rparr>, Some removed_leaf))))))))))))))"

definition remove_by_key ::
  "OrderTreeNodes \<Rightarrow> OrderTreeRoot \<Rightarrow> u128 \<Rightarrow> (OrderTreeNodes \<times> OrderTreeRoot \<times> LeafNode option) res" where
  "remove_by_key ot root search_key =
     (case root_node root of
        None \<Rightarrow> Inr (ot, root, None)
      | Some parent_h \<Rightarrow>
          rbind (node_unwrap ot parent_h) (\<lambda>n. case n of
            Leaf leaf \<Rightarrow>
              if leaf_key leaf = search_key then
                rbind (require (leaf_count root = 1) Panic) (\<lambda>_.
                rbind (remove_node ot parent_h) (\<lambda>r.
                rbind (unwrap r) (\<lambda>(old_root, ot').
                  Inr (ot', root\<lparr>maybe_node := 0, leaf_count := 0\<rparr>, Some leaf))))
              else Inr (ot, root, None)
          | Inner inner \<Rightarrow>
              rbind (walk_down inner search_key) (\<lambda>(child_h, crit_bit).
              rbind (remove_walk (walk_fuel ot) ot search_key parent_h child_h crit_bit
                       [(parent_h, crit_bit)]) (\<lambda>found. case found of
                None \<Rightarrow> Inr (ot, root, None)
              | Some (parent_h', child_h', crit_bit', stack) \<Rightarrow>
                  remove_splice ot root parent_h' child_h' crit_bit' stack))
          | _ \<Rightarrow> Inl Panic))"

definition remove_worst ::
  "OrderTreeNodes \<Rightarrow> OrderTreeRoot \<Rightarrow> (OrderTreeNodes \<times> OrderTreeRoot \<times> LeafNode option) res" where
  "remove_worst ot root =
     rbind (find_worst ot root) (\<lambda>w. case w of
       None \<Rightarrow> Inr (ot, root, None)
     | Some (_, leaf) \<Rightarrow> remove_by_key ot root (leaf_key leaf))"

definition remove_one_expired ::
  "OrderTreeNodes \<Rightarrow> OrderTreeRoot \<Rightarrow> u64 \<Rightarrow> (OrderTreeNodes \<times> OrderTreeRoot \<times> LeafNode option) res" where
  "remove_one_expired ot root now_ts =
     rbind (find_earliest_expiry ot root) (\<lambda>r. case r of
       None \<Rightarrow> Inr (ot, root, None)
     | Some (handle, expires_at) \<Rightarrow>
         if expires_at < now_ts then
           rbind (node ot handle) (\<lambda>v. case v of
             None \<Rightarrow> Inr (ot, root, None)
           | Some n \<Rightarrow> (case node_key n of
               None \<Rightarrow> Inr (ot, root, None)
             | Some k \<Rightarrow> remove_by_key ot root k))
         else Inr (ot, root, None))"

section \<open>Insertion\<close>

text \<open>
  The end of the insertion loop where the new leaf becomes a sibling of the node at
  \<open>parent_handle\<close>: both move below a new inner node that takes the parent's slot.
\<close>

definition insert_split ::
  "OrderTreeNodes \<Rightarrow> OrderTreeRoot \<Rightarrow> LeafNode \<Rightarrow> (NodeHandle \<times> bool) list \<Rightarrow> NodeHandle \<Rightarrow>
     AnyNode \<Rightarrow> nat \<Rightarrow> (OrderTreeNodes \<times> OrderTreeRoot \<times> NodeHandle \<times> LeafNode option) res" where
  "insert_split ot root new_leaf stack parent_handle parent_contents shared_prefix_len =
     rbind (sub_unsigned 127 shared_prefix_len) (\<lambda>sh.
     let crit_bit_mask = push_bit sh (1 :: u128);
         new_leaf_crit_bit = (crit_bit_mask AND leaf_key new_leaf \<noteq> 0);
         old_parent_crit_bit = (\<not> new_leaf_crit_bit)
     in
     rbind (insert_node ot (Leaf new_leaf)) (\<lambda>(new_leaf_handle, ot1).
     case insert_node ot1 parent_contents of
       Inl e \<Rightarrow> rbind (remove_node ot1 new_leaf_handle) (\<lambda>r. rbind (unwrap r) (\<lambda>_. Inl e))
     | Inr (moved_parent_handle, ot2) \<Rightarrow>
         rbind (expiry new_leaf) (\<lambda>new_leaf_expiry.
         rbind (earliest_expiry parent_contents) (\<lambda>old_parent_expiry.
         let p0 = InnerNode_new shared_prefix_len (leaf_key new_leaf);
             p1 = p0\<lparr>children := upd2 new_leaf_crit_bit new_leaf_handle (children p0)\<rparr>;
             p2 = p1\<lparr>children := upd2 old_parent_crit_bit moved_parent_handle (children p1)\<rparr>;
             p3 = p2\<lparr>child_earliest_expiry :=
                       upd2 new_leaf_crit_bit new_leaf_expiry (child_earliest_expiry p2)\<rparr>;
             p4 = p3\<lparr>child_earliest_expiry :=
                       upd2 old_parent_crit_bit old_parent_expiry (child_earliest_expiry p3)\<rparr>
         in
         rbind (node_mut_assign ot2 parent_handle (Inner p4)) (\<lambda>ot3.
         rbind (if new_leaf_expiry < old_parent_expiry
                then update_parent_earliest_expiry ot3 stack old_parent_expiry new_leaf_expiry
                else Inr ot3) (\<lambda>ot4.
         rbind (chk_u32 (leaf_count root + 1)) (\<lambda>cnt.
           Inr (ot4, root\<lparr>leaf_count := cnt\<rparr>, new_leaf_handle, None))))))))"

fun insert_leaf_loop ::
  "nat \<Rightarrow> OrderTreeNodes \<Rightarrow> OrderTreeRoot \<Rightarrow> LeafNode \<Rightarrow> (NodeHandle \<times> bool) list \<Rightarrow> NodeHandle \<Rightarrow>
     (OrderTreeNodes \<times> OrderTreeRoot \<times> NodeHandle \<times> LeafNode option) res" where
  "insert_leaf_loop 0 ot root new_leaf stack parent_handle = Inl OutOfFuel"
| "insert_leaf_loop (Suc fuel) ot root new_leaf stack parent_handle =
     rbind (node_unwrap ot parent_handle) (\<lambda>parent_contents.
     rbind (unwrap (node_key parent_contents)) (\<lambda>parent_key.
     let shared_prefix_len = leading_zeros (parent_key XOR leaf_key new_leaf) in
     case parent_contents of
       Leaf old_parent_as_leaf \<Rightarrow>
         if parent_key = leaf_key new_leaf then
           rbind (node_mut_assign ot parent_handle (Leaf new_leaf)) (\<lambda>ot1.
           rbind (expiry old_parent_as_leaf) (\<lambda>old_expiry.
           rbind (expiry new_leaf) (\<lambda>new_expiry.
           rbind (update_parent_earliest_expiry ot1 stack old_expiry new_expiry) (\<lambda>ot2.
             Inr (ot2, root, parent_handle, Some old_parent_as_leaf)))))
         else insert_split ot root new_leaf stack parent_handle parent_contents shared_prefix_len
     | Inner inner \<Rightarrow>
         if shared_prefix_len \<ge> prefix_len inner then
           rbind (walk_down inner (leaf_key new_leaf)) (\<lambda>(child, crit_bit).
             insert_leaf_loop fuel ot root new_leaf ((parent_handle, crit_bit) # stack) child)
         else insert_split ot root new_leaf stack parent_handle parent_contents shared_prefix_len
     | _ \<Rightarrow> Inl Panic))"

definition insert_leaf ::
  "OrderTreeNodes \<Rightarrow> OrderTreeRoot \<Rightarrow> LeafNode \<Rightarrow>
     (OrderTreeNodes \<times> OrderTreeRoot \<times> NodeHandle \<times> LeafNode option) res" where
  "insert_leaf ot root new_leaf =
     (case root_node root of
        None \<Rightarrow>
          rbind (insert_node ot (Leaf new_leaf)) (\<lambda>(handle, ot').
            Inr (ot', root\<lparr>maybe_node := handle, leaf_count := 1\<rparr>, handle, None))
      | Some parent_handle \<Rightarrow>
          insert_leaf_loop (walk_fuel ot) ot root new_leaf [] parent_handle)"

end
