(* ===== verification/Crit_Tree.thy ===== *)
theory Crit_Tree
  imports Order_Tree "HOL-Library.Multiset"
begin

text \<open>
  The abstract crit-bit tree that the node array represents, and its reading of the
  array. A \<open>ctree\<close> is the tree with the slot of every node made explicit; \<open>tree_at\<close>
  says that an array of nodes holds it, \<open>crit_ok\<close> is the shape and expiry invariant the
  comments of \<^verbatim>\<open>InnerNode\<close> describe. A context is a tree with a hole, the abstract
  counterpart of the stack of parents that the operations collect.
\<close>

section \<open>Trees\<close>

datatype ctree =
    CLeaf NodeHandle LeafNode
  | CInner NodeHandle InnerNode ctree ctree

primrec ct_handle :: "ctree \<Rightarrow> NodeHandle" where
  "ct_handle (CLeaf h l) = h"
| "ct_handle (CInner h n a b) = h"

primrec handles :: "ctree \<Rightarrow> NodeHandle list" where
  "handles (CLeaf h l) = [h]"
| "handles (CInner h n a b) = h # handles a @ handles b"

primrec leaves :: "ctree \<Rightarrow> (NodeHandle \<times> LeafNode) list" where
  "leaves (CLeaf h l) = [(h, l)]"
| "leaves (CInner h n a b) = leaves a @ leaves b"

primrec keys :: "ctree \<Rightarrow> u128 set" where
  "keys (CLeaf h l) = {leaf_key l}"
| "keys (CInner h n a b) = keys a \<union> keys b"

primrec earliest :: "ctree \<Rightarrow> u64" where
  "earliest (CLeaf h l) = leaf_expiry l"
| "earliest (CInner h n a b) = min (earliest a) (earliest b)"

primrec ct_node :: "ctree \<Rightarrow> AnyNode" where
  "ct_node (CLeaf h l) = Leaf l"
| "ct_node (CInner h n a b) = Inner n"

text \<open>The same tree with its root in another slot.\<close>

primrec rehandle :: "NodeHandle \<Rightarrow> ctree \<Rightarrow> ctree" where
  "rehandle h' (CLeaf h l) = CLeaf h' l"
| "rehandle h' (CInner h n a b) = CInner h' n a b"

primrec tree_at :: "AnyNode list \<Rightarrow> ctree \<Rightarrow> bool" where
  "tree_at ns (CLeaf h l) \<longleftrightarrow> h < length ns \<and> ns ! h = Leaf l"
| "tree_at ns (CInner h n a b) \<longleftrightarrow>
     h < length ns \<and> ns ! h = Inner n \<and> children n = (ct_handle a, ct_handle b) \<and>
     tree_at ns a \<and> tree_at ns b"

text \<open>The keys \<open>K\<close> lie below side \<open>b\<close> of the inner node \<open>n\<close>.\<close>

definition below :: "InnerNode \<Rightarrow> bool \<Rightarrow> u128 set \<Rightarrow> bool" where
  "below n b K \<longleftrightarrow>
     (\<forall>k \<in> K. top_bits (prefix_len n) k = top_bits (prefix_len n) (inner_key n) \<and>
               bit k (127 - prefix_len n) = b)"

primrec crit_ok :: "ctree \<Rightarrow> bool" where
  "crit_ok (CLeaf h l) \<longleftrightarrow> leaf_ok l"
| "crit_ok (CInner h n a b) \<longleftrightarrow>
     prefix_len n < 128 \<and> below n False (keys a) \<and> below n True (keys b) \<and>
     child_earliest_expiry n = (earliest a, earliest b) \<and> crit_ok a \<and> crit_ok b"

section \<open>Elementary facts\<close>

lemma keys_leaves: "keys t = leaf_key ` snd ` set (leaves t)"
  by (induction t) (auto simp: image_Un)

lemma keys_nonempty [simp]: "keys t \<noteq> {}"
  by (induction t) auto

lemma leaves_nonempty [simp]: "leaves t \<noteq> []"
  by (induction t) auto

lemma handles_nonempty [simp]: "handles t \<noteq> []"
  by (cases t) auto

lemma ct_handle_in [simp]: "ct_handle t \<in> set (handles t)"
  by (cases t) auto

lemma leaf_handles: "fst ` set (leaves t) \<subseteq> set (handles t)"
  by (induction t) auto

lemma handles_length: "tree_at ns t \<Longrightarrow> h \<in> set (handles t) \<Longrightarrow> h < length ns"
  by (induction t) auto

lemma tree_at_node: "tree_at ns t \<Longrightarrow> ct_handle t < length ns \<and> ns ! ct_handle t = ct_node t"
  by (cases t) auto

lemma tree_at_leaf: "tree_at ns t \<Longrightarrow> (h, l) \<in> set (leaves t) \<Longrightarrow> h < length ns \<and> ns ! h = Leaf l"
  by (induction t) auto

lemma tree_at_cong:
  "tree_at ns t \<Longrightarrow> length ns' = length ns \<Longrightarrow> (\<And>i. i \<in> set (handles t) \<Longrightarrow> ns' ! i = ns ! i) \<Longrightarrow>
     tree_at ns' t"
  by (induction t) auto

lemma tree_at_update [simp]:
  "i \<notin> set (handles t) \<Longrightarrow> tree_at (ns[i := x]) t = tree_at ns t"
  by (induction t) auto

lemma rehandle_simps [simp]:
  "ct_handle (rehandle h t) = h" "leaves (rehandle h (CInner h' n a b)) = leaves a @ leaves b"
  "keys (rehandle h t) = keys t" "earliest (rehandle h t) = earliest t"
  "ct_node (rehandle h t) = ct_node t" "crit_ok (rehandle h t) = crit_ok t"
  "set (handles (rehandle h t)) = insert h (set (tl (handles t)))"
  by (cases t; simp)+

lemma map_snd_leaves_rehandle [simp]: "map snd (leaves (rehandle h t)) = map snd (leaves t)"
  by (cases t) auto

lemma handles_rehandle: "handles (rehandle h t) = h # tl (handles t)"
  by (cases t) auto

lemma handles_hd_tl: "handles t = ct_handle t # tl (handles t)"
  by (cases t) auto

lemma tree_at_rehandle:
  assumes "tree_at ns t" "distinct (handles t)" "h \<notin> set (tl (handles t))" "h < length ns"
    and "ns' = ns[h := ct_node t]"
  shows "tree_at ns' (rehandle h t)"
  using assms by (cases t) auto

lemma earliest_le: "crit_ok t \<Longrightarrow> earliest t \<le> u64_MAX"
  by (induction t) (auto simp: leaf_expiry_le min_le_iff_disj)

lemma earliest_expiry_node [simp]:
  "crit_ok t \<Longrightarrow> earliest_expiry (ct_node t) = Inr (earliest t)"
  by (cases t) (auto simp: inner_earliest_expiry_def)

lemma crit_ok_leaf: "crit_ok t \<Longrightarrow> (h, l) \<in> set (leaves t) \<Longrightarrow> leaf_ok l"
  by (induction t) auto

lemma earliest_Min: "earliest t = Min (leaf_expiry ` snd ` set (leaves t))"
  by (induction t) (auto simp: image_Un Min_Un)

section \<open>Order\<close>

lemma below_less:
  assumes "prefix_len n < 128" "below n False A" "below n True B" "x \<in> A" "y \<in> B"
  shows "x < y"
  using assms crit_bit_less [of "prefix_len n" x y] by (auto simp: below_def)

lemma below_disjoint: "prefix_len n < 128 \<Longrightarrow> below n False A \<Longrightarrow> below n True B \<Longrightarrow> A \<inter> B = {}"
  by (auto simp: below_def)

text \<open>An in-order walk visits the leaves in strictly increasing key order.\<close>

lemma leaves_sorted:
  "crit_ok t \<Longrightarrow> sorted_wrt (<) (map (leaf_key \<circ> snd) (leaves t))"
proof (induction t)
  case (CInner h n a b)
  then have "x < y" if "x \<in> keys a" "y \<in> keys b" for x y
    using below_less that by auto
  then have "\<forall>x \<in> set (map (leaf_key \<circ> snd) (leaves a)).
      \<forall>y \<in> set (map (leaf_key \<circ> snd) (leaves b)). x < y"
    by (auto simp: keys_leaves)
  with CInner show ?case by (simp add: sorted_wrt_append)
qed simp

lemma leaves_distinct_keys: "crit_ok t \<Longrightarrow> distinct (map (leaf_key \<circ> snd) (leaves t))"
  using leaves_sorted strict_sorted_iff by blast

lemma leaf_unique_key:
  assumes "crit_ok t" "(h, l) \<in> set (leaves t)" "(h', l') \<in> set (leaves t)" "leaf_key l = leaf_key l'"
  shows "h = h' \<and> l = l'"
proof -
  have "inj_on (leaf_key \<circ> snd) (set (leaves t))"
    using leaves_distinct_keys [OF assms(1)] by (simp add: distinct_map)
  with assms have "(h, l) = (h', l')" by (intro inj_onD [of "leaf_key \<circ> snd"]) auto
  then show ?thesis by simp
qed

section \<open>Contexts\<close>

text \<open>
  A frame is an inner node on the path to the hole: its slot, the node, the bit that
  leads to the hole, and the other child. Contexts list their frames innermost first,
  as the stack of parents does.
\<close>

type_synonym frame = "NodeHandle \<times> InnerNode \<times> bool \<times> ctree"

fun plug1 :: "frame \<Rightarrow> ctree \<Rightarrow> ctree" where
  "plug1 (h, n, b, s) t = (if b then CInner h n s t else CInner h n t s)"

fun plug :: "frame list \<Rightarrow> ctree \<Rightarrow> ctree" where
  "plug [] t = t"
| "plug (f # C) t = plug C (plug1 f t)"

definition stack_of :: "frame list \<Rightarrow> (NodeHandle \<times> bool) list" where
  "stack_of C = map (\<lambda>(h, n, b, s). (h, b)) C"

fun ctx_handles :: "frame list \<Rightarrow> NodeHandle list" where
  "ctx_handles [] = []"
| "ctx_handles ((h, n, b, s) # C) = h # handles s @ ctx_handles C"

definition spine :: "frame list \<Rightarrow> NodeHandle set" where
  "spine C = fst ` set C"

fun ctx_at :: "AnyNode list \<Rightarrow> frame list \<Rightarrow> NodeHandle \<Rightarrow> bool" where
  "ctx_at ns [] hole \<longleftrightarrow> True"
| "ctx_at ns ((h, n, b, s) # C) hole \<longleftrightarrow>
     h < length ns \<and> ns ! h = Inner n \<and>
     sel2 b (children n) = hole \<and> sel2 (\<not> b) (children n) = ct_handle s \<and>
     tree_at ns s \<and> ctx_at ns C h"

text \<open>The context accepts the keys \<open>K\<close> in its hole (\<open>ctx_keys\<close>), and its expiry
  bookkeeping assumes the earliest expiry \<open>e\<close> there (\<open>ctx_exp\<close>).\<close>

fun ctx_keys :: "frame list \<Rightarrow> u128 set \<Rightarrow> bool" where
  "ctx_keys [] K \<longleftrightarrow> True"
| "ctx_keys ((h, n, b, s) # C) K \<longleftrightarrow>
     prefix_len n < 128 \<and> below n b K \<and> below n (\<not> b) (keys s) \<and> crit_ok s \<and>
     ctx_keys C (K \<union> keys s)"

fun ctx_exp :: "frame list \<Rightarrow> u64 \<Rightarrow> bool" where
  "ctx_exp [] e \<longleftrightarrow> True"
| "ctx_exp ((h, n, b, s) # C) e \<longleftrightarrow>
     sel2 b (child_earliest_expiry n) = e \<and> sel2 (\<not> b) (child_earliest_expiry n) = earliest s \<and>
     ctx_exp C (min e (earliest s))"

lemma stack_of_simps [simp]:
  "stack_of [] = []" "stack_of ((h, n, b, s) # C) = (h, b) # stack_of C"
  by (simp_all add: stack_of_def)

lemma spine_simps [simp]: "spine [] = {}" "spine ((h, n, b, s) # C) = insert h (spine C)"
  by (simp_all add: spine_def)

lemma spine_subset: "spine C \<subseteq> set (ctx_handles C)"
  by (induction C rule: ctx_handles.induct) auto

lemma sel2_eq_pair: "(sel2 b p = x \<and> sel2 (\<not> b) p = y) \<longleftrightarrow> p = (if b then (y, x) else (x, y))"
  by (cases p; cases b) auto

lemma tree_at_plug:
  "tree_at ns (plug C t) \<longleftrightarrow> tree_at ns t \<and> ctx_at ns C (ct_handle t)"
proof (induction C arbitrary: t rule: ctx_handles.induct)
  case (2 h n b s C)
  show ?case by (cases b) (auto simp: "2.IH" sel2_eq_pair sel2_def prod_eq_iff)
qed simp

lemma handles_plug: "mset (handles (plug C t)) = mset (handles t) + mset (ctx_handles C)"
  by (induction C arbitrary: t rule: ctx_handles.induct) auto

lemma set_handles_plug: "set (handles (plug C t)) = set (handles t) \<union> set (ctx_handles C)"
  using handles_plug [of C t] by (metis set_mset_mset set_mset_union)

lemma distinct_handles_plug:
  "distinct (handles (plug C t)) \<longleftrightarrow>
     distinct (handles t) \<and> distinct (ctx_handles C) \<and> set (handles t) \<inter> set (ctx_handles C) = {}"
proof -
  have "mset (handles (plug C t)) = mset (handles t @ ctx_handles C)" by (simp add: handles_plug)
  then have "distinct (handles (plug C t)) = distinct (handles t @ ctx_handles C)"
    by (rule mset_eq_imp_distinct_iff)
  then show ?thesis by auto
qed

lemma crit_ok_plug:
  "crit_ok (plug C t) \<longleftrightarrow> crit_ok t \<and> ctx_keys C (keys t) \<and> ctx_exp C (earliest t)"
proof (induction C arbitrary: t rule: ctx_handles.induct)
  case (2 h n b s C)
  show ?case
    by (cases b) (auto simp: "2.IH" sel2_def prod_eq_iff Un_commute min.commute)
qed simp

text \<open>The leaves left and right of the hole.\<close>

fun ctx_left :: "frame list \<Rightarrow> (NodeHandle \<times> LeafNode) list" where
  "ctx_left [] = []"
| "ctx_left ((h, n, b, s) # C) = ctx_left C @ (if b then leaves s else [])"

fun ctx_right :: "frame list \<Rightarrow> (NodeHandle \<times> LeafNode) list" where
  "ctx_right [] = []"
| "ctx_right ((h, n, b, s) # C) = (if b then [] else leaves s) @ ctx_right C"

lemma leaves_plug: "leaves (plug C t) = ctx_left C @ leaves t @ ctx_right C"
  by (induction C arbitrary: t rule: ctx_handles.induct) auto

lemma keys_plug_subset: "keys t \<subseteq> keys (plug C t)"
  by (auto simp: keys_leaves leaves_plug)

lemma ctx_at_update [simp]:
  "i \<notin> set (ctx_handles C) \<Longrightarrow> ctx_at (ns[i := x]) C h = ctx_at ns C h"
  by (induction C arbitrary: h rule: ctx_handles.induct) auto

lemma ctx_at_cong:
  "ctx_at ns C h \<Longrightarrow> length ns' = length ns \<Longrightarrow>
   (\<And>i. i \<in> set (ctx_handles C) \<Longrightarrow> ns' ! i = ns ! i) \<Longrightarrow> ctx_at ns' C h"
proof (induction C arbitrary: h rule: ctx_handles.induct)
  case (2 h' n b s C)
  then show ?case by (auto intro: tree_at_cong)
qed simp

lemma ctx_handles_length: "ctx_at ns C h \<Longrightarrow> i \<in> set (ctx_handles C) \<Longrightarrow> i < length ns"
  by (induction C arbitrary: h rule: ctx_handles.induct) (auto dest: handles_length)

lemma ctx_keys_insert:
  "ctx_keys C K \<Longrightarrow> (\<And>h n b s. (h, n, b, s) \<in> set C \<Longrightarrow> below n b {k}) \<Longrightarrow> ctx_keys C (insert k K)"
proof (induction C arbitrary: K rule: ctx_handles.induct)
  case (2 h n b s C)
  have "below n b {k}" using "2.prems"(2) [of h n b s] by simp
  then have "below n b (insert k K)" using "2.prems"(1) by (auto simp: below_def)
  moreover have "ctx_keys C (insert k (K \<union> keys s))"
    using "2.prems" by (intro "2.IH") auto
  ultimately show ?case using "2.prems"(1) by simp
qed simp

lemma ctx_keys_mono: "ctx_keys C K \<Longrightarrow> K' \<subseteq> K \<Longrightarrow> ctx_keys C K'"
proof (induction C arbitrary: K K' rule: ctx_handles.induct)
  case (2 h n b s C)
  have "ctx_keys C (K' \<union> keys s)" by (rule "2.IH" [of "K \<union> keys s"]) (use "2.prems" in auto)
  with "2.prems" show ?case by (auto simp: below_def)
qed simp

section \<open>Updating the expiry bookkeeping of a context\<close>

fun upd_ctx :: "frame list \<Rightarrow> u64 \<Rightarrow> u64 \<Rightarrow> frame list" where
  "upd_ctx [] old new = []"
| "upd_ctx ((h, n, b, s) # C) old new =
     (if sel2 b (child_earliest_expiry n) \<noteq> old then (h, n, b, s) # C
      else let n' = n\<lparr>child_earliest_expiry := upd2 b new (child_earliest_expiry n)\<rparr>
           in (h, n', b, s) # upd_ctx C (inner_earliest_expiry n) (inner_earliest_expiry n'))"

lemma below_expiry_irrelevant [simp]: "below (n\<lparr>child_earliest_expiry := x\<rparr>) b K = below n b K"
  by (simp add: below_def)

lemma ctx_handles_upd [simp]: "ctx_handles (upd_ctx C old new) = ctx_handles C"
  by (induction C old new rule: upd_ctx.induct) (auto simp: Let_def)

lemma ctx_left_upd [simp]: "ctx_left (upd_ctx C old new) = ctx_left C"
  by (induction C old new rule: upd_ctx.induct) (auto simp: Let_def)

lemma ctx_right_upd [simp]: "ctx_right (upd_ctx C old new) = ctx_right C"
  by (induction C old new rule: upd_ctx.induct) (auto simp: Let_def)

lemma ctx_keys_upd [simp]: "ctx_keys (upd_ctx C old new) K = ctx_keys C K"
  by (induction C old new arbitrary: K rule: upd_ctx.induct) (auto simp: Let_def)

lemma inner_earliest_expiry_sel2:
  "inner_earliest_expiry n = min (sel2 b (child_earliest_expiry n)) (sel2 (\<not> b) (child_earliest_expiry n))"
  by (cases b) (auto simp: inner_earliest_expiry_def min.commute)

lemma ctx_exp_upd: "ctx_exp C old \<Longrightarrow> ctx_exp (upd_ctx C old new) new"
proof (induction C old new rule: upd_ctx.induct)
  case (2 h n b s C old new)
  then show ?case
    by (auto simp: Let_def inner_earliest_expiry_sel2 [where b = b])
qed simp

lemma update_parent_upd_ctx:
  assumes "ctx_at (nodes ot) C hole" "distinct (ctx_handles C)"
  shows "\<exists>ns. update_parent_earliest_expiry ot (stack_of C) old new = Inr (ot\<lparr>nodes := ns\<rparr>) \<and>
           ctx_at ns (upd_ctx C old new) hole \<and> length ns = length (nodes ot) \<and>
           (\<forall>i. i \<notin> spine C \<longrightarrow> ns ! i = nodes ot ! i)"
  using assms
proof (induction C arbitrary: ot hole old new rule: ctx_handles.induct)
  case 1
  show ?case by (rule exI [of _ "nodes ot"]) simp
next
  case (2 h n b s C)
  let ?n' = "n\<lparr>child_earliest_expiry := upd2 b new (child_earliest_expiry n)\<rparr>"
  have node: "node_unwrap ot h = Inr (Inner n)"
    using "2.prems" by (simp add: node_unwrap_def node_def)
  show ?case
  proof (cases "sel2 b (child_earliest_expiry n) = old")
    case False
    then show ?thesis using "2.prems" node by (intro exI [of _ "nodes ot"]) simp
  next
    case True
    let ?ot = "set_node ot h (Inner ?n')"
    have at: "ctx_at (nodes ?ot) C h" using "2.prems" by (simp add: set_node_def)
    obtain ns where ns: "update_parent_earliest_expiry ?ot (stack_of C) (inner_earliest_expiry n)
          (inner_earliest_expiry ?n') = Inr (?ot\<lparr>nodes := ns\<rparr>)"
        "ctx_at ns (upd_ctx C (inner_earliest_expiry n) (inner_earliest_expiry ?n')) h"
        "length ns = length (nodes ?ot)" "\<forall>i. i \<notin> spine C \<longrightarrow> ns ! i = nodes ?ot ! i"
      using "2.IH" [OF at] "2.prems"(2) by fastforce
    have h: "h \<notin> spine C" using "2.prems"(2) spine_subset by auto
    have s: "set (handles s) \<inter> insert h (spine C) = {}"
      using "2.prems"(2) spine_subset [of C] by auto
    have "tree_at ns s"
      by (rule tree_at_cong [of "nodes ot"])
        (use "2.prems"(1) ns(3,4) s in \<open>auto simp: set_node_def disjoint_iff nth_list_update\<close>)
    then show ?thesis using "2.prems" ns h True node
      by (intro exI [of _ ns]) (auto simp: set_node_def Let_def)
  qed
qed

end
