(* ===== verification/Order_Tree_Inv.thy ===== *)
theory Order_Tree_Inv
  imports Crit_Tree
begin

text \<open>
  The invariant of the node array and that insertion and removal keep it. \<open>alloc_ok\<close>
  describes the allocator: the slots below the bump index are partitioned into the slots in
  use and the free list. \<open>tree_inv\<close> adds the tree of one root; the parameter \<open>R\<close> is
  the set of slots that belong to the other trees of the same array, which no operation
  touches.
\<close>

section \<open>The allocator\<close>

fun free_chain :: "AnyNode list \<Rightarrow> NodeHandle \<Rightarrow> NodeHandle list \<Rightarrow> bool" where
  "free_chain ns h [] \<longleftrightarrow> True"
| "free_chain ns h [x] \<longleftrightarrow>
     x = h \<and> x < length ns \<and> (case ns ! x of LastFreeNode _ \<Rightarrow> True | _ \<Rightarrow> False)"
| "free_chain ns h (x # y # xs) \<longleftrightarrow>
     x = h \<and> x < length ns \<and>
     (case ns ! x of FreeNode nxt \<Rightarrow> free_chain ns nxt (y # xs) | _ \<Rightarrow> False)"

definition alloc_ok :: "OrderTreeNodes \<Rightarrow> NodeHandle set \<Rightarrow> bool" where
  "alloc_ok ot U \<longleftrightarrow>
     length (nodes ot) = MAX_ORDERTREE_NODES \<and> bump_index ot \<le> length (nodes ot) \<and>
     (\<exists>fl. length fl = free_list_len ot \<and> distinct fl \<and>
           free_chain (nodes ot) (free_list_head ot) fl \<and>
           set fl \<inter> U = {} \<and> set fl \<union> U = {..<bump_index ot})"

definition is_node :: "AnyNode \<Rightarrow> bool" where
  "is_node n \<longleftrightarrow> (case n of Inner _ \<Rightarrow> True | Leaf _ \<Rightarrow> True | _ \<Rightarrow> False)"

lemma is_node_ct_node [simp]: "is_node (ct_node t)"
  by (cases t) (auto simp: is_node_def)

lemma is_node_simps [simp]: "is_node (Inner n)" "is_node (Leaf l)"
  by (simp_all add: is_node_def)

lemma free_chain_cong:
  "free_chain ns h fl \<Longrightarrow> length ns' = length ns \<Longrightarrow> (\<And>i. i \<in> set fl \<Longrightarrow> ns' ! i = ns ! i) \<Longrightarrow>
     free_chain ns' h fl"
  by (induction ns h fl rule: free_chain.induct) (auto split: AnyNode.splits)

lemma free_chain_length: "free_chain ns h fl \<Longrightarrow> i \<in> set fl \<Longrightarrow> i < length ns"
  by (induction ns h fl rule: free_chain.induct) (auto split: AnyNode.splits)

lemma alloc_ok_cong:
  assumes "alloc_ok ot U" "length ns = length (nodes ot)" "\<And>i. i \<notin> U \<Longrightarrow> ns ! i = nodes ot ! i"
  shows "alloc_ok (ot\<lparr>nodes := ns\<rparr>) U"
proof -
  from assms(1) obtain fl where fl: "length fl = free_list_len ot" "distinct fl"
      "free_chain (nodes ot) (free_list_head ot) fl" "set fl \<inter> U = {}" "set fl \<union> U = {..<bump_index ot}"
    by (auto simp: alloc_ok_def)
  have "free_chain ns (free_list_head ot) fl"
    by (rule free_chain_cong [OF fl(3)]) (use assms fl(4) in \<open>auto simp: disjoint_iff\<close>)
  with fl assms show ?thesis by (auto simp: alloc_ok_def)
qed

lemma alloc_ok_set_node: "alloc_ok ot U \<Longrightarrow> h \<in> U \<Longrightarrow> alloc_ok (set_node ot h n) U"
  unfolding set_node_def by (rule alloc_ok_cong) (auto simp: nth_update_mem(1))

lemma alloc_ok_length: "alloc_ok ot U \<Longrightarrow> length (nodes ot) = MAX_ORDERTREE_NODES"
  by (simp add: alloc_ok_def)

lemma alloc_ok_used:
  assumes "alloc_ok ot U"
  shows "finite U" "U \<subseteq> {..<bump_index ot}" "card U + free_list_len ot = bump_index ot"
    "card U \<le> MAX_ORDERTREE_NODES"
proof -
  from assms obtain fl where fl: "length fl = free_list_len ot" "distinct fl"
      "set fl \<inter> U = {}" "set fl \<union> U = {..<bump_index ot}"
    by (auto simp: alloc_ok_def)
  then show sub: "U \<subseteq> {..<bump_index ot}" by auto
  then show fin: "finite U" using finite_subset by blast
  have "card (set fl \<union> U) = card (set fl) + card U"
    using fl fin by (intro card_Un_disjoint) auto
  with fl show eq: "card U + free_list_len ot = bump_index ot"
    by (simp add: distinct_card)
  show "card U \<le> MAX_ORDERTREE_NODES" using eq assms by (simp add: alloc_ok_def)
qed

lemma insert_node_bump:
  assumes "alloc_ok ot U" "is_node val" "card U < MAX_ORDERTREE_NODES" "free_list_len ot = 0"
  shows "\<exists>h ot'. insert_node ot val = Inr (h, ot') \<and> h \<notin> U \<and> h < length (nodes ot) \<and>
           nodes ot' = (nodes ot)[h := val] \<and> order_tree_type ot' = order_tree_type ot \<and>
           alloc_ok ot' (insert h U)"
proof -
  let ?h = "bump_index ot"
  let ?ot = "(set_node ot ?h val)\<lparr>bump_index := ?h + 1\<rparr>"
  have U: "U = {..<?h}" using assms(1,4) by (auto simp: alloc_ok_def)
  have lt: "?h < MAX_ORDERTREE_NODES" using assms(3) U by simp
  have len: "length (nodes ot) = MAX_ORDERTREE_NODES" using assms(1) by (rule alloc_ok_length)
  have "insert_node ot val = Inr (?h, ?ot)"
    using assms(2,4) lt len
    by (auto simp: insert_node_def is_node_def MAX_ORDERTREE_NODES_def u32_MAX_def split: AnyNode.splits)
  moreover have "alloc_ok ?ot (insert ?h U)"
    using assms(4) lt len by (auto simp: alloc_ok_def U set_node_def lessThan_Suc)
  ultimately show ?thesis using U lt len by (auto simp: set_node_def)
qed

lemma insert_node_free:
  assumes "alloc_ok ot U" "is_node val" "free_list_len ot \<noteq> 0"
  shows "\<exists>h ot'. insert_node ot val = Inr (h, ot') \<and> h \<notin> U \<and> h < length (nodes ot) \<and>
           nodes ot' = (nodes ot)[h := val] \<and> order_tree_type ot' = order_tree_type ot \<and>
           alloc_ok ot' (insert h U)"
proof -
  let ?h = "free_list_head ot"
  from assms(1) obtain fl where fl: "length fl = free_list_len ot" "distinct fl"
      "free_chain (nodes ot) ?h fl" "set fl \<inter> U = {}" "set fl \<union> U = {..<bump_index ot}"
    by (auto simp: alloc_ok_def)
  with assms(3) obtain x fs' where "fl = x # fs'" by (cases fl) auto
  with fl(3) obtain fs where fs: "fl = ?h # fs" by (cases fs') auto
  obtain nxt where
    ins: "insert_node ot val = Inr (?h, (set_node ot ?h val)\<lparr>free_list_head := nxt, free_list_len := free_list_len ot - 1\<rparr>)"
    and chain: "free_chain (nodes ot) nxt fs"
    using fl(1,3) fs assms(2)
    by (cases fs) (auto simp: insert_node_def is_node_def Let_def split: AnyNode.splits)
  let ?ot = "(set_node ot ?h val)\<lparr>free_list_head := nxt, free_list_len := free_list_len ot - 1\<rparr>"
  have "free_chain (nodes ?ot) nxt fs"
    by (rule free_chain_cong [OF chain]) (use fl(2) fs in \<open>auto simp: set_node_def nth_update_mem(2)\<close>)
  then have "alloc_ok ?ot (insert ?h U)"
    using assms(1) fl fs by (auto simp: alloc_ok_def set_node_def intro!: exI [of _ fs])
  moreover have "?h \<notin> U" "?h < length (nodes ot)"
    using fl fs free_chain_length [OF fl(3), of ?h] by auto
  ultimately show ?thesis using ins by (auto simp: set_node_def)
qed

lemma insert_node_ok:
  assumes "alloc_ok ot U" "is_node val" "card U < MAX_ORDERTREE_NODES"
  obtains h ot' where "insert_node ot val = Inr (h, ot')" "h \<notin> U" "h < length (nodes ot)"
    "nodes ot' = (nodes ot)[h := val]" "order_tree_type ot' = order_tree_type ot"
    "alloc_ok ot' (insert h U)"
  using insert_node_bump [OF assms] insert_node_free [OF assms(1,2)] by blast

lemma remove_node_ok:
  assumes "alloc_ok ot U" "h \<in> U" "is_node (nodes ot ! h)"
  obtains ot' where "remove_node ot h = Inr (Some (nodes ot ! h, ot'))"
    "\<And>i. i \<noteq> h \<Longrightarrow> nodes ot' ! i = nodes ot ! i" "length (nodes ot') = length (nodes ot)"
    "order_tree_type ot' = order_tree_type ot" "alloc_ok ot' (U - {h})"
proof -
  let ?free = "if free_list_len ot = 0 then LastFreeNode (free_list_head ot) else FreeNode (free_list_head ot)"
  let ?ot = "(set_node ot h ?free)\<lparr>free_list_len := free_list_len ot + 1, free_list_head := h\<rparr>"
  from assms(1) obtain fl where fl: "length fl = free_list_len ot" "distinct fl"
      "free_chain (nodes ot) (free_list_head ot) fl" "set fl \<inter> U = {}" "set fl \<union> U = {..<bump_index ot}"
    by (auto simp: alloc_ok_def)
  have lt: "h < length (nodes ot)" using fl(5) assms(1,2) by (auto simp: alloc_ok_def)
  have hfl: "h \<notin> set fl" using fl(4) assms(2) by auto
  have "free_chain (nodes ?ot) (free_list_head ot) fl"
    by (rule free_chain_cong [OF fl(3)]) (use hfl in \<open>auto simp: set_node_def nth_update_mem(2)\<close>)
  then have chain: "free_chain (nodes ?ot) h (h # fl)"
    using lt fl(1) by (cases fl) (auto simp: set_node_def)
  have "free_list_len ot + 1 \<le> u32_MAX"
    using alloc_ok_used(3) [OF assms(1)] assms(1) by (simp add: alloc_ok_def MAX_ORDERTREE_NODES_def u32_MAX_def)
  then have "remove_node ot h = Inr (Some (nodes ot ! h, ?ot))"
    using lt assms(3) by (auto simp: remove_node_def node_def is_node_def Let_def split: AnyNode.splits)
  moreover have "alloc_ok ?ot (U - {h})"
  proof -
    have "set (h # fl) \<union> (U - {h}) = {..<bump_index ot}" using fl(5) assms(2) by auto
    moreover have "set (h # fl) \<inter> (U - {h}) = {}" using fl(4) by auto
    ultimately show ?thesis using chain assms(1) fl(1,2) hfl
      by (auto simp: alloc_ok_def set_node_def intro!: exI [of _ "h # fl"])
  qed
  ultimately show ?thesis by (intro that [of ?ot]) (auto simp: set_node_def)
qed

lemma not_full_room: "alloc_ok ot U \<Longrightarrow> \<not> is_full ot \<Longrightarrow> card U + 2 \<le> MAX_ORDERTREE_NODES"
  using alloc_ok_used(3) [of ot U]
  by (auto simp: is_full_def alloc_ok_def MAX_ORDERTREE_NODES_def)

section \<open>The invariant of a tree\<close>

definition orders :: "ctree option \<Rightarrow> LeafNode set" where
  "orders to = (case to of None \<Rightarrow> {} | Some t \<Rightarrow> snd ` set (leaves t))"

definition tree_slots :: "ctree option \<Rightarrow> NodeHandle set" where
  "tree_slots to = (case to of None \<Rightarrow> {} | Some t \<Rightarrow> set (handles t))"

definition tree_inv :: "OrderTreeNodes \<Rightarrow> OrderTreeRoot \<Rightarrow> ctree option \<Rightarrow> NodeHandle set \<Rightarrow> bool" where
  "tree_inv ot root to R \<longleftrightarrow>
     tree_slots to \<inter> R = {} \<and> alloc_ok ot (tree_slots to \<union> R) \<and>
     (case to of
        None \<Rightarrow> leaf_count root = 0
      | Some t \<Rightarrow> leaf_count root = length (leaves t) \<and> maybe_node root = ct_handle t \<and>
                 tree_at (nodes ot) t \<and> crit_ok t \<and> distinct (handles t))"

text \<open>The slots of the other trees are untouched.\<close>

definition same_slots :: "NodeHandle set \<Rightarrow> OrderTreeNodes \<Rightarrow> OrderTreeNodes \<Rightarrow> bool" where
  "same_slots R ot ot' \<longleftrightarrow>
     (\<forall>i \<in> R. nodes ot' ! i = nodes ot ! i) \<and> order_tree_type ot' = order_tree_type ot"

lemma orders_simps [simp]: "orders None = {}" "orders (Some t) = snd ` set (leaves t)"
  by (simp_all add: orders_def)

lemma tree_slots_simps [simp]: "tree_slots None = {}" "tree_slots (Some t) = set (handles t)"
  by (simp_all add: tree_slots_def)

lemma tree_inv_Some:
  "tree_inv ot root (Some t) R \<longleftrightarrow>
     leaf_count root = length (leaves t) \<and> maybe_node root = ct_handle t \<and>
     tree_at (nodes ot) t \<and> crit_ok t \<and> distinct (handles t) \<and>
     set (handles t) \<inter> R = {} \<and> alloc_ok ot (set (handles t) \<union> R)"
  by (auto simp: tree_inv_def)

lemma tree_inv_None: "tree_inv ot root None R \<longleftrightarrow> leaf_count root = 0 \<and> alloc_ok ot R"
  by (auto simp: tree_inv_def)

lemma leaves_le_handles: "length (leaves t) \<le> length (handles t)"
  by (induction t) auto

lemma tree_inv_root_node:
  "tree_inv ot root to R \<Longrightarrow> root_node root = map_option ct_handle to"
  by (cases to) (auto simp: tree_inv_def root_node_def)

lemma handles_fuel: "tree_inv ot root (Some t) R \<Longrightarrow> length (handles t) \<le> MAX_ORDERTREE_NODES"
proof -
  assume a: "tree_inv ot root (Some t) R"
  then have "set (handles t) \<subseteq> {..<length (nodes ot)}"
    by (auto simp: tree_inv_Some dest: handles_length)
  then have "card (set (handles t)) \<le> length (nodes ot)"
    using card_mono [of "{..<length (nodes ot)}"] by fastforce
  with a show ?thesis by (auto simp: tree_inv_Some distinct_card dest: alloc_ok_length)
qed

lemma tree_inv_leaf_count: "tree_inv ot root to R \<Longrightarrow> leaf_count root \<le> MAX_ORDERTREE_NODES"
proof (cases to)
  case (Some t)
  assume a: "tree_inv ot root to R"
  with Some have "leaf_count root = length (leaves t)" by (simp add: tree_inv_Some)
  also have "\<dots> \<le> length (handles t)" by (rule leaves_le_handles)
  also have "\<dots> \<le> MAX_ORDERTREE_NODES" using a Some by (auto intro: handles_fuel)
  finally show ?thesis .
qed (simp add: tree_inv_def)

lemma node_unwrap_at:
  "tree_at (nodes ot) t \<Longrightarrow> node_unwrap ot (ct_handle t) = Inr (ct_node t)"
  by (cases t) (auto simp: node_unwrap_def node_def)

lemma walk_down_at:
  "prefix_len n < 128 \<Longrightarrow>
     walk_down n k = Inr (sel2 (bit k (127 - prefix_len n)) (children n), bit k (127 - prefix_len n))"
  using crit_bit_mask [of "127 - prefix_len n" k]
  by (auto simp: walk_down_def sub_unsigned_def Let_def)

end
