(* ===== verification/Order_Tree_Insert.thy ===== *)
theory Order_Tree_Insert
  imports Order_Tree_Inv
begin

text \<open>
  Insertion into an order tree: \<open>insert_leaf\<close> never fails while two slots are free; when it
  succeeds it keeps the invariant of its own tree and the slots of all others, and changes the
  set of orders exactly by the new one (which replaces an order with the same key).
\<close>

section \<open>What an insertion leaves behind\<close>

definition inserted ::
  "LeafNode \<Rightarrow> LeafNode set \<Rightarrow> LeafNode set" where
  "inserted l S = insert l {x \<in> S. leaf_key x \<noteq> leaf_key l}"

definition insert_post ::
  "OrderTreeNodes \<Rightarrow> ctree option \<Rightarrow> NodeHandle set \<Rightarrow> LeafNode \<Rightarrow>
     OrderTreeNodes \<times> OrderTreeRoot \<times> NodeHandle \<times> LeafNode option \<Rightarrow> bool" where
  "insert_post ot to R l r \<longleftrightarrow>
     (case r of (ot', root', h, old) \<Rightarrow>
        \<exists>t'. tree_inv ot' root' (Some t') R \<and> same_slots R ot ot' \<and>
             (h, l) \<in> set (leaves t') \<and> orders (Some t') = inserted l (orders to) \<and>
             (case old of
                None \<Rightarrow> \<forall>x \<in> orders to. leaf_key x \<noteq> leaf_key l
              | Some l' \<Rightarrow> l' \<in> orders to \<and> leaf_key l' = leaf_key l))"

lemma inserted_fresh: "\<forall>x \<in> S. leaf_key x \<noteq> leaf_key l \<Longrightarrow> inserted l S = insert l S"
  by (auto simp: inserted_def)

text \<open>The context fits a key: it lies on the path that the key's bits choose.\<close>

definition ctx_fits :: "frame list \<Rightarrow> u128 \<Rightarrow> bool" where
  "ctx_fits C k \<longleftrightarrow> (\<forall>h n b s. (h, n, b, s) \<in> set C \<longrightarrow> below n b {k})"

lemma ctx_fits_Cons [simp]:
  "ctx_fits ((h, n, b, s) # C) k \<longleftrightarrow> below n b {k} \<and> ctx_fits C k"
  by (auto simp: ctx_fits_def)

lemma ctx_fits_Nil [simp]: "ctx_fits [] k"
  by (simp add: ctx_fits_def)

definition ctx_orders :: "frame list \<Rightarrow> LeafNode set" where
  "ctx_orders C = snd ` (set (ctx_left C) \<union> set (ctx_right C))"

lemma ctx_orders_upd [simp]: "ctx_orders (upd_ctx C old new) = ctx_orders C"
  by (simp add: ctx_orders_def)

lemma orders_plug: "orders (Some (plug C t)) = ctx_orders C \<union> orders (Some t)"
  by (auto simp: leaves_plug ctx_orders_def)

lemma fits_not_in_ctx: "ctx_keys C K \<Longrightarrow> ctx_fits C k \<Longrightarrow> \<forall>x \<in> ctx_orders C. leaf_key x \<noteq> k"
proof (induction C arbitrary: K rule: ctx_handles.induct)
  case (2 h n b s C)
  have "k \<notin> keys s" using "2.prems" by (auto simp: below_def)
  then have "\<forall>x \<in> snd ` set (leaves s). leaf_key x \<noteq> k" by (auto simp: keys_leaves)
  moreover have "\<forall>x \<in> ctx_orders C. leaf_key x \<noteq> k" using "2.prems" by (intro "2.IH") auto
  ultimately show ?case by (auto simp: ctx_orders_def)
qed (simp add: ctx_orders_def)

lemma inserted_ctx:
  "\<forall>x \<in> A. leaf_key x \<noteq> leaf_key l \<Longrightarrow> inserted l (A \<union> B) = A \<union> inserted l B"
  by (auto simp: inserted_def)

section \<open>Assembling the new tree in its context\<close>

text \<open>
  Every insertion replaces the subtree in the hole of a context by another one and then
  updates the expiry bookkeeping of the context.
\<close>

lemma replace_in_context:
  assumes inv: "tree_inv ot root (Some (plug C t)) R"
    and at: "tree_at (nodes ot1) t'" "ctx_at (nodes ot1) C (ct_handle t')"
    and ok: "crit_ok t'" "ctx_keys C (keys t')" "ctx_exp C (earliest t')"
    and dist: "distinct (handles t')" "set (handles t') \<inter> (set (ctx_handles C) \<union> R) = {}"
    and alloc: "alloc_ok ot1 (set (handles t') \<union> set (ctx_handles C) \<union> R)"
    and root: "maybe_node root' = ct_handle (plug C t')"
      "leaf_count root' = length (leaves (plug C t'))"
  shows "tree_inv ot1 root' (Some (plug C t')) R"
proof -
  have "distinct (ctx_handles C)" "set (ctx_handles C) \<inter> R = {}"
    using inv by (auto simp: tree_inv_Some distinct_handles_plug set_handles_plug)
  then show ?thesis
    using assms
    by (simp add: tree_inv_Some tree_at_plug crit_ok_plug distinct_handles_plug set_handles_plug)
      (auto simp: Un_ac)
qed

lemma ct_handle_plug_eq: "ct_handle (plug C t) = (if C = [] then ct_handle t else last (map fst C))"
  by (induction C arbitrary: t rule: ctx_handles.induct) auto

lemma map_fst_upd [simp]: "map fst (upd_ctx C old new) = map fst C"
  by (induction C old new rule: upd_ctx.induct) (auto simp: Let_def)

lemma ct_handle_plug:
  "ct_handle t' = ct_handle t \<Longrightarrow> ct_handle (plug C t') = ct_handle (plug C t)"
  "ct_handle t' = ct_handle t \<Longrightarrow> ct_handle (plug (upd_ctx C old new) t') = ct_handle (plug C t)"
proof -
  assume h: "ct_handle t' = ct_handle t"
  then show "ct_handle (plug C t') = ct_handle (plug C t)" by (simp add: ct_handle_plug_eq)
  have "upd_ctx C old new = [] \<longleftrightarrow> C = []"
    using map_fst_upd [of C old new] by (metis map_is_Nil_conv)
  with h show "ct_handle (plug (upd_ctx C old new) t') = ct_handle (plug C t)"
    by (simp add: ct_handle_plug_eq)
qed

lemma context_update:
  assumes inv: "tree_inv ot root (Some (plug C t)) R"
    and at: "tree_at (nodes ot1) t'" "ctx_at (nodes ot1) C (ct_handle t')"
    and h: "ct_handle t' = ct_handle t"
    and ok: "crit_ok t'" "ctx_keys C (keys t')"
    and dist: "distinct (handles t')" "set (handles t') \<inter> (set (ctx_handles C) \<union> R) = {}"
    and alloc: "alloc_ok ot1 (set (handles t') \<union> set (ctx_handles C) \<union> R)"
    and exp: "if c then ctx_exp (upd_ctx C old new) (earliest t') else ctx_exp C (earliest t')"
    and root: "maybe_node root' = maybe_node root" "leaf_count root' = length (leaves (plug C t'))"
  shows "\<exists>ot2 C'. (if c then update_parent_earliest_expiry ot1 (stack_of C) old new else Inr ot1) = Inr ot2 \<and>
           tree_inv ot2 root' (Some (plug C' t')) R \<and> same_slots R ot1 ot2 \<and>
           leaves (plug C' t') = leaves (plug C t')"
proof (cases c)
  case False
  have "tree_inv ot1 root' (Some (plug C t')) R"
    by (rule replace_in_context [OF inv])
      (use assms False in \<open>auto simp: tree_inv_Some ct_handle_plug(1) [OF h]\<close>)
  with False show ?thesis by (intro exI [of _ ot1] exI [of _ C]) (simp add: same_slots_def)
next
  case True
  have dC: "distinct (ctx_handles C)" "set (ctx_handles C) \<inter> R = {}"
    using inv by (auto simp: tree_inv_Some distinct_handles_plug set_handles_plug)
  let ?C = "upd_ctx C old new"
  obtain ns where ns: "update_parent_earliest_expiry ot1 (stack_of C) old new = Inr (ot1\<lparr>nodes := ns\<rparr>)"
      "ctx_at ns ?C (ct_handle t')" "length ns = length (nodes ot1)"
      "\<forall>i. i \<notin> spine C \<longrightarrow> ns ! i = nodes ot1 ! i"
    using update_parent_upd_ctx [OF at(2) dC(1)] by blast
  let ?ot2 = "ot1\<lparr>nodes := ns\<rparr>"
  have same: "ns ! i = nodes ot1 ! i" if "i \<notin> set (ctx_handles C)" for i
    using ns(4) spine_subset [of C] that by blast
  have "tree_inv ?ot2 root' (Some (plug ?C t')) R"
    unfolding tree_inv_Some tree_at_plug crit_ok_plug distinct_handles_plug set_handles_plug
  proof (intro conjI)
    show "tree_at (nodes ?ot2) t'"
      by (rule tree_at_cong [OF at(1)]) (use ns(3) same dist(2) in auto)
    show "alloc_ok ?ot2 (set (handles t') \<union> set (ctx_handles ?C) \<union> R)"
      unfolding ctx_handles_upd by (rule alloc_ok_cong [OF alloc]) (use ns(3) same in auto)
    show "maybe_node root' = ct_handle (plug ?C t')"
      using inv root(1) ct_handle_plug(2) [OF h] by (simp add: tree_inv_Some)
    show "leaf_count root' = length (leaves (plug ?C t'))" using root(2) by (simp add: leaves_plug)
  qed (use ns True assms dC in auto)
  moreover have "same_slots R ot1 ?ot2" using same dC(2) by (auto simp: same_slots_def)
  ultimately show ?thesis using ns(1) True
    by (intro exI [of _ ?ot2] exI [of _ ?C]) (simp add: leaves_plug)
qed

lemma split_keys:
  assumes "s < 128" "\<forall>x \<in> keys t. top_bits s x = top_bits s k \<and> bit x (127 - s) \<noteq> bit k (127 - s)"
    "prefix_len n = s" "inner_key n = k"
  shows "below n (bit k (127 - s)) {k}" "below n (\<not> bit k (127 - s)) (keys t)"
  using assms by (auto simp: below_def)

lemma insert_split_nodes:
  assumes inv: "tree_inv ot root (Some (plug C t)) R"
    and l: "leaf_ok l" and s: "s < 128"
    and room: "card (set (handles (plug C t)) \<union> R) + 2 \<le> MAX_ORDERTREE_NODES"
  defines "b \<equiv> bit (leaf_key l) (127 - s)"
  shows "\<exists>h1 h2 ot3 n. h1 \<notin> set (handles (plug C t)) \<union> R \<and> h2 \<notin> insert h1 (set (handles (plug C t)) \<union> R) \<and>
     insert_split ot root l (stack_of C) (ct_handle t) (ct_node t) s =
       rbind (if leaf_expiry l < earliest t
              then update_parent_earliest_expiry ot3 (stack_of C) (earliest t) (leaf_expiry l)
              else Inr ot3) (\<lambda>ot4.
         rbind (chk_u32 (leaf_count root + 1)) (\<lambda>cnt. Inr (ot4, root\<lparr>leaf_count := cnt\<rparr>, h1, None))) \<and>
     prefix_len n = s \<and> inner_key n = leaf_key l \<and>
     children n = (if b then (h2, h1) else (h1, h2)) \<and>
     child_earliest_expiry n = (if b then (earliest t, leaf_expiry l) else (leaf_expiry l, earliest t)) \<and>
     h1 < length (nodes ot) \<and> h2 < length (nodes ot) \<and>
     nodes ot3 = (nodes ot)[h1 := Leaf l, h2 := ct_node t, ct_handle t := Inner n] \<and>
     order_tree_type ot3 = order_tree_type ot \<and>
     alloc_ok ot3 (insert h1 (insert h2 (set (handles (plug C t)) \<union> R)))"
proof -
  let ?U = "set (handles (plug C t)) \<union> R"
  have al: "alloc_ok ot ?U" and crit: "crit_ok t" and att: "tree_at (nodes ot) t"
    using inv by (auto simp: tree_inv_Some crit_ok_plug tree_at_plug)
  obtain h1 ot1 where 1: "insert_node ot (Leaf l) = Inr (h1, ot1)" "h1 \<notin> ?U" "h1 < length (nodes ot)"
      "nodes ot1 = (nodes ot)[h1 := Leaf l]" "order_tree_type ot1 = order_tree_type ot"
      "alloc_ok ot1 (insert h1 ?U)"
    by (rule insert_node_ok [OF al, of "Leaf l"]) (use room in auto)
  have "card (insert h1 ?U) < MAX_ORDERTREE_NODES"
    using room 1(2) alloc_ok_used(1) [OF al] by simp
  then obtain h2 ot2 where 2: "insert_node ot1 (ct_node t) = Inr (h2, ot2)" "h2 \<notin> insert h1 ?U"
      "h2 < length (nodes ot1)" "nodes ot2 = (nodes ot1)[h2 := ct_node t]"
      "order_tree_type ot2 = order_tree_type ot1" "alloc_ok ot2 (insert h2 (insert h1 ?U))"
    using insert_node_ok [OF 1(6), of "ct_node t"] is_node_ct_node by blast
  let ?n = "\<lparr>prefix_len = s, inner_key = leaf_key l, children = (if b then (h2, h1) else (h1, h2)),
      child_earliest_expiry = (if b then (earliest t, leaf_expiry l) else (leaf_expiry l, earliest t))\<rparr>"
  let ?ot3 = "set_node ot2 (ct_handle t) (Inner ?n)"
  have inU: "ct_handle t \<in> ?U" by (simp add: set_handles_plug)
  have "nodes ot2 ! ct_handle t = ct_node t"
    using 1(2,4) 2(2,4) inU tree_at_node [OF att] by (metis insertI2 nth_list_update_neq)
  then have asg: "node_mut_assign ot2 (ct_handle t) x = Inr (set_node ot2 (ct_handle t) x)" for x
    using tree_at_node [OF att] 1(4) 2(4)
    by (cases t) (auto simp: node_mut_assign_def node_unwrap_def node_def)
  have "insert_split ot root l (stack_of C) (ct_handle t) (ct_node t) s =
       rbind (if leaf_expiry l < earliest t
              then update_parent_earliest_expiry ?ot3 (stack_of C) (earliest t) (leaf_expiry l)
              else Inr ?ot3) (\<lambda>ot4.
         rbind (chk_u32 (leaf_count root + 1)) (\<lambda>cnt. Inr (ot4, root\<lparr>leaf_count := cnt\<rparr>, h1, None)))"
    using s l crit crit_bit_mask [of "127 - s" "leaf_key l"]
    by (auto simp: insert_split_def sub_unsigned_def Let_def 1(1) 2(1) asg and.commute b_def
        InnerNode_new_def)
  moreover have "alloc_ok ?ot3 (insert h1 (insert h2 ?U))"
    using alloc_ok_set_node [OF 2(6), of "ct_handle t"] inU by (simp add: insert_commute)
  moreover have "nodes ?ot3 = (nodes ot)[h1 := Leaf l, h2 := ct_node t, ct_handle t := Inner ?n]"
    by (simp add: set_node_def 1(4) 2(4))
  moreover have "order_tree_type ?ot3 = order_tree_type ot" by (simp add: set_node_def 1(5) 2(5))
  ultimately show ?thesis
    using 1(2,3) 2(2,3) unfolding 1(4) length_list_update
    by (intro exI [of _ h1] exI [of _ h2] exI [of _ ?ot3] exI [of _ ?n]) simp
qed

text \<open>The subtree that the split leaves in the hole.\<close>

definition split_tree :: "NodeHandle \<Rightarrow> NodeHandle \<Rightarrow> InnerNode \<Rightarrow> bool \<Rightarrow> ctree \<Rightarrow> LeafNode \<Rightarrow> ctree" where
  "split_tree h1 h2 n b t l =
     (if b then CInner (ct_handle t) n (rehandle h2 t) (CLeaf h1 l)
      else CInner (ct_handle t) n (CLeaf h1 l) (rehandle h2 t))"

lemma length_leaves_rehandle [simp]: "length (leaves (rehandle h t)) = length (leaves t)"
  by (cases t) auto

lemma snd_leaves_rehandle [simp]: "snd ` set (leaves (rehandle h t)) = snd ` set (leaves t)"
  by (cases t) auto

lemma split_tree_simps [simp]:
  "ct_handle (split_tree h1 h2 n b t l) = ct_handle t"
  "keys (split_tree h1 h2 n b t l) = insert (leaf_key l) (keys t)"
  "earliest (split_tree h1 h2 n b t l) = min (leaf_expiry l) (earliest t)"
  "set (handles (split_tree h1 h2 n b t l)) = insert h1 (insert h2 (set (handles t)))"
  "length (leaves (split_tree h1 h2 n b t l)) = Suc (length (leaves t))"
  "snd ` set (leaves (split_tree h1 h2 n b t l)) = insert l (snd ` set (leaves t))"
  "(h1, l) \<in> set (leaves (split_tree h1 h2 n b t l))"
  by (cases t; auto simp: split_tree_def min.commute)+

lemma split_tree_distinct:
  "distinct (handles t) \<Longrightarrow> h1 \<notin> set (handles t) \<Longrightarrow> h2 \<notin> insert h1 (set (handles t)) \<Longrightarrow>
     distinct (handles (split_tree h1 h2 n b t l))"
  by (subst (asm) (1 2 3) handles_hd_tl) (auto simp: split_tree_def handles_rehandle)

lemma split_tree_at:
  assumes "tree_at ns t" "distinct (handles t)" "h1 < length ns" "h2 < length ns"
    and "h1 \<notin> set (handles t)" "h2 \<notin> insert h1 (set (handles t))"
    and "children n = (if b then (h2, h1) else (h1, h2))"
  shows "tree_at (ns[h1 := Leaf l, h2 := ct_node t, ct_handle t := Inner n]) (split_tree h1 h2 n b t l)"
proof -
  let ?ns = "ns[h1 := Leaf l, h2 := ct_node t]"
  have "tree_at ?ns (rehandle h2 t)"
    by (rule tree_at_rehandle [of "ns[h1 := Leaf l]"])
      (use assms in \<open>auto dest: list.set_sel(2) [rotated]\<close>)
  moreover have "ct_handle t \<notin> set (handles (rehandle h2 t))"
    using assms(2,6) by (subst (asm) (1 2) handles_hd_tl) auto
  moreover have "ct_handle t \<noteq> h1" "ct_handle t < length ns"
    using assms(5) tree_at_node [OF assms(1)] by auto
  ultimately show ?thesis using assms by (auto simp: split_tree_def)
qed

lemma split_tree_crit:
  assumes "crit_ok t" "leaf_ok l" "s < 128" "prefix_len n = s" "inner_key n = leaf_key l"
    and "\<forall>x \<in> keys t. top_bits s x = top_bits s (leaf_key l) \<and> bit x (127 - s) \<noteq> bit (leaf_key l) (127 - s)"
    and "b = bit (leaf_key l) (127 - s)"
    and "child_earliest_expiry n = (if b then (earliest t, leaf_expiry l) else (leaf_expiry l, earliest t))"
  shows "crit_ok (split_tree h1 h2 n b t l)"
  using assms split_keys [OF assms(3,6,4,5)] by (auto simp: split_tree_def)

lemma notin_keys: "k \<notin> keys t \<Longrightarrow> \<forall>x \<in> orders (Some t). leaf_key x \<noteq> k"
  unfolding keys_leaves orders_simps by (metis image_eqI)

lemma insert_split_ok:
  assumes inv: "tree_inv ot root (Some (plug C t)) R"
    and l: "leaf_ok l" and fits: "ctx_fits C (leaf_key l)" and s: "s < 128"
    and keys: "\<forall>x \<in> keys t. top_bits s x = top_bits s (leaf_key l) \<and>
                 bit x (127 - s) \<noteq> bit (leaf_key l) (127 - s)"
    and room: "card (set (handles (plug C t)) \<union> R) + 2 \<le> MAX_ORDERTREE_NODES"
  shows "\<exists>r. insert_split ot root l (stack_of C) (ct_handle t) (ct_node t) s = Inr r \<and>
             insert_post ot (Some (plug C t)) R l r"
proof -
  define b where "b = bit (leaf_key l) (127 - s)"
  let ?U = "set (handles (plug C t)) \<union> R"
  obtain h1 h2 ot3 n where h: "h1 \<notin> ?U" "h2 \<notin> insert h1 ?U"
    and run: "insert_split ot root l (stack_of C) (ct_handle t) (ct_node t) s =
       rbind (if leaf_expiry l < earliest t
              then update_parent_earliest_expiry ot3 (stack_of C) (earliest t) (leaf_expiry l)
              else Inr ot3) (\<lambda>ot4.
         rbind (chk_u32 (leaf_count root + 1)) (\<lambda>cnt. Inr (ot4, root\<lparr>leaf_count := cnt\<rparr>, h1, None)))"
    and n: "prefix_len n = s" "inner_key n = leaf_key l" "children n = (if b then (h2, h1) else (h1, h2))"
      "child_earliest_expiry n = (if b then (earliest t, leaf_expiry l) else (leaf_expiry l, earliest t))"
    and lt: "h1 < length (nodes ot)" "h2 < length (nodes ot)"
    and ns: "nodes ot3 = (nodes ot)[h1 := Leaf l, h2 := ct_node t, ct_handle t := Inner n]"
    and ty: "order_tree_type ot3 = order_tree_type ot" and al: "alloc_ok ot3 (insert h1 (insert h2 ?U))"
    using insert_split_nodes [OF inv l s room] unfolding b_def by blast
  let ?t = "split_tree h1 h2 n b t l" and ?root = "root\<lparr>leaf_count := leaf_count root + 1\<rparr>"
  have I: "tree_at (nodes ot) t" "ctx_at (nodes ot) C (ct_handle t)" "crit_ok t" "distinct (handles t)"
      "ctx_keys C (keys t)" "ctx_exp C (earliest t)" "set (handles t) \<inter> set (ctx_handles C) = {}"
      "(set (handles t) \<union> set (ctx_handles C)) \<inter> R = {}"
      "leaf_count root = length (leaves (plug C t))"
    using inv by (auto simp: tree_inv_Some tree_at_plug crit_ok_plug distinct_handles_plug set_handles_plug)
  have fresh: "h1 \<notin> set (handles t) \<union> set (ctx_handles C) \<union> R"
      "h2 \<notin> insert h1 (set (handles t) \<union> set (ctx_handles C) \<union> R)"
    using h by (auto simp: set_handles_plug)
  have ct: "ct_handle t \<notin> set (ctx_handles C)" using I(7) ct_handle_in [of t] by blast
  have "\<exists>ot4 C'. (if leaf_expiry l < earliest t
           then update_parent_earliest_expiry ot3 (stack_of C) (earliest t) (leaf_expiry l)
           else Inr ot3) = Inr ot4 \<and> tree_inv ot4 ?root (Some (plug C' ?t)) R \<and>
         same_slots R ot3 ot4 \<and> leaves (plug C' ?t) = leaves (plug C ?t)"
  proof (rule context_update [OF inv])
    show "tree_at (nodes ot3) ?t"
      unfolding ns by (rule split_tree_at) (use I n lt fresh in auto)
    show "ctx_at (nodes ot3) C (ct_handle ?t)" using I fresh ct by (simp add: ns)
    show "crit_ok ?t" by (rule split_tree_crit [OF I(3) l s n(1,2) keys b_def n(4)])
    show "ctx_keys C (keys ?t)"
      unfolding split_tree_simps by (rule ctx_keys_insert [OF I(5)]) (use fits in \<open>auto simp: ctx_fits_def\<close>)
    show "distinct (handles ?t)" by (rule split_tree_distinct) (use I fresh in auto)
    show "alloc_ok ot3 (set (handles ?t) \<union> set (ctx_handles C) \<union> R)"
      using al by (simp add: set_handles_plug)
    show "if leaf_expiry l < earliest t then ctx_exp (upd_ctx C (earliest t) (leaf_expiry l)) (earliest ?t)
          else ctx_exp C (earliest ?t)"
      using I(6) ctx_exp_upd [OF I(6)] by (simp add: min_def)
    show "leaf_count ?root = length (leaves (plug C ?t))" using I(9) by (simp add: leaves_plug)
  qed (use I fresh in auto)
  then obtain ot4 C' where u: "(if leaf_expiry l < earliest t
           then update_parent_earliest_expiry ot3 (stack_of C) (earliest t) (leaf_expiry l)
           else Inr ot3) = Inr ot4" "tree_inv ot4 ?root (Some (plug C' ?t)) R" "same_slots R ot3 ot4"
      "leaves (plug C' ?t) = leaves (plug C ?t)" by blast
  have cnt: "leaf_count root + 1 \<le> u32_MAX"
    using tree_inv_leaf_count [OF inv] by (simp add: MAX_ORDERTREE_NODES_def u32_MAX_def)
  have new: "\<forall>x \<in> orders (Some (plug C t)). leaf_key x \<noteq> leaf_key l"
  proof -
    have "leaf_key l \<notin> keys t" using keys by auto
    then have "\<forall>x \<in> orders (Some t). leaf_key x \<noteq> leaf_key l"
      by (rule notin_keys)
    with fits_not_in_ctx [OF I(5) fits] show ?thesis unfolding orders_plug by blast
  qed
  have "insert_post ot (Some (plug C t)) R l (ot4, ?root, h1, None)"
  proof -
    have "same_slots R ot ot4"
      using u(3) fresh I(8) ty by (auto simp: same_slots_def ns nth_list_update_neq disjoint_iff
          intro!: trans [OF nth_list_update_neq])
    moreover have "orders (Some (plug C' ?t)) = inserted l (orders (Some (plug C t)))"
      unfolding inserted_fresh [OF new] by (simp only: orders_simps u(4)) (auto simp: leaves_plug image_Un)
    moreover have "(h1, l) \<in> set (leaves (plug C' ?t))" unfolding u(4) by (simp add: leaves_plug)
    ultimately show ?thesis using u(2) new by (auto simp: insert_post_def)
  qed
  with run u(1) cnt show ?thesis by simp
qed

section \<open>The loop\<close>

text \<open>The key of the node that a handle refers to agrees with all keys below it as far as
  the prefix of the node says.\<close>

lemma inner_shared:
  assumes "crit_ok (CInner h n a b)" "leading_zeros (inner_key n XOR k) < prefix_len n" "x \<in> keys a \<union> keys b"
  defines "s \<equiv> leading_zeros (inner_key n XOR k)"
  shows "s < 128" "top_bits s x = top_bits s k" "bit x (127 - s) \<noteq> bit k (127 - s)"
proof -
  have p: "prefix_len n < 128" "top_bits (prefix_len n) x = top_bits (prefix_len n) (inner_key n)"
    using assms(1,3) by (auto simp: below_def)
  then have "\<not> top_bits (prefix_len n) (inner_key n) = top_bits (prefix_len n) k"
    using assms(2) leading_zeros_xor_ge [of "prefix_len n" "inner_key n" k] by simp
  then have ne: "inner_key n \<noteq> k" by auto
  note z = leading_zeros_xor_less [OF ne, folded s_def]
  have "top_bits (Suc s) x = top_bits (Suc s) (inner_key n)"
    using p(2) by (rule top_bits_mono) (use assms(2) s_def in simp)
  then have "top_bits s x = top_bits s (inner_key n)" "bit x (127 - s) = bit (inner_key n) (127 - s)"
    using top_bits_Suc [OF z(1)] by blast+
  with z show "s < 128" "top_bits s x = top_bits s k" "bit x (127 - s) \<noteq> bit k (127 - s)" by auto
qed

text \<open>A leaf with the same key is overwritten in place.\<close>

lemma insert_clobber_ok:
  assumes inv: "tree_inv ot root (Some (plug C (CLeaf h l0))) R"
    and l: "leaf_ok l" and fits: "ctx_fits C (leaf_key l)" and key: "leaf_key l0 = leaf_key l"
  shows "\<exists>ot2. update_parent_earliest_expiry (set_node ot h (Leaf l)) (stack_of C) (leaf_expiry l0) (leaf_expiry l)
            = Inr ot2 \<and> insert_post ot (Some (plug C (CLeaf h l0))) R l (ot2, root, h, Some l0)"
proof -
  let ?t = "CLeaf h l" and ?ot1 = "set_node ot h (Leaf l)"
  have I: "h < length (nodes ot)" "ctx_at (nodes ot) C h" "ctx_keys C {leaf_key l}"
      "ctx_exp C (leaf_expiry l0)" "h \<notin> set (ctx_handles C)" "h \<notin> R"
      "leaf_count root = length (leaves (plug C (CLeaf h l0)))"
      "alloc_ok ot (insert h (set (ctx_handles C) \<union> R))"
    using inv key
    by (auto simp: tree_inv_Some tree_at_plug crit_ok_plug distinct_handles_plug set_handles_plug)
  have "\<exists>ot2 C'. (if True then update_parent_earliest_expiry ?ot1 (stack_of C) (leaf_expiry l0) (leaf_expiry l)
         else Inr ?ot1) = Inr ot2 \<and> tree_inv ot2 root (Some (plug C' ?t)) R \<and> same_slots R ?ot1 ot2 \<and>
         leaves (plug C' ?t) = leaves (plug C ?t)"
    by (rule context_update [OF inv])
      (use I l alloc_ok_set_node [OF I(8)] ctx_exp_upd [OF I(4)] in \<open>auto simp: set_node_def leaves_plug\<close>)
  then obtain ot2 C' where u: "update_parent_earliest_expiry ?ot1 (stack_of C) (leaf_expiry l0) (leaf_expiry l) = Inr ot2"
      "tree_inv ot2 root (Some (plug C' ?t)) R" "same_slots R ?ot1 ot2"
      "leaves (plug C' ?t) = leaves (plug C ?t)" by auto
  have "\<forall>x \<in> ctx_orders C. leaf_key x \<noteq> leaf_key l" by (rule fits_not_in_ctx [OF I(3) fits])
  then have "inserted l (orders (Some (plug C (CLeaf h l0)))) = ctx_orders C \<union> inserted l {l0}"
    unfolding orders_plug by (subst inserted_ctx) simp_all
  also have "\<dots> = orders (Some (plug C' ?t))"
    unfolding orders_simps u(4) using key by (auto simp: inserted_def ctx_orders_def leaves_plug image_Un)
  finally have ord: "orders (Some (plug C' ?t)) = inserted l (orders (Some (plug C (CLeaf h l0))))" ..
  have "same_slots R ot ot2" using u(3) I(6) by (auto simp: same_slots_def set_node_def nth_update_mem(2))
  moreover have "(h, l) \<in> set (leaves (plug C' ?t))" unfolding u(4) by (simp add: leaves_plug)
  moreover have "l0 \<in> orders (Some (plug C (CLeaf h l0)))" by (simp add: leaves_plug)
  ultimately show ?thesis using u(1,2) key ord by (auto simp: insert_post_def)
qed

text \<open>Without two free slots a split fails.\<close>

lemma insert_node_full:
  assumes "alloc_ok ot U" "insert_node ot v = Inr r"
  shows "card U < MAX_ORDERTREE_NODES"
proof (rule ccontr)
  assume "\<not> card U < MAX_ORDERTREE_NODES"
  then have "free_list_len ot = 0" "bump_index ot = length (nodes ot)"
    using alloc_ok_used(3) [OF assms(1)] alloc_ok_length [OF assms(1)] assms(1) by (auto simp: alloc_ok_def)
  with assms(2) show False by (simp add: insert_node_def rbind_eq_Inr require_def)
qed

lemma insert_split_room:
  assumes al: "alloc_ok ot U" and r: "insert_split ot root l stack h p s = Inr r"
  shows "card U + 2 \<le> MAX_ORDERTREE_NODES"
proof -
  obtain h1 ot1 where 1: "insert_node ot (Leaf l) = Inr (h1, ot1)"
    using r unfolding insert_split_def Let_def by (elim rbind_InrE) auto
  have "card U < MAX_ORDERTREE_NODES" by (rule insert_node_full [OF al 1])
  then have h1: "h1 \<notin> U" "alloc_ok ot1 (insert h1 U)"
    using insert_node_ok [OF al, of "Leaf l"] 1 by (auto simp: is_node_def)
  obtain r2 where "insert_node ot1 p = Inr r2"
    using r unfolding insert_split_def Let_def by (elim rbind_InrE) (auto simp: 1 rbind_eq_Inr split: sum.splits)
  from insert_node_full [OF h1(2) this] show ?thesis using h1(1) alloc_ok_used(1) [OF al] by simp
qed

text \<open>An insertion leaves \<open>insert_post\<close> behind, or it fails for want of room.\<close>

definition insert_spec ::
  "OrderTreeNodes \<Rightarrow> ctree option \<Rightarrow> NodeHandle set \<Rightarrow> LeafNode \<Rightarrow>
     (OrderTreeNodes \<times> OrderTreeRoot \<times> NodeHandle \<times> LeafNode option) res \<Rightarrow> bool" where
  "insert_spec ot to R l r \<longleftrightarrow>
     (case r of Inl _ \<Rightarrow> MAX_ORDERTREE_NODES < card (tree_slots to \<union> R) + 2 | Inr x \<Rightarrow> insert_post ot to R l x)"

lemma insert_split_spec:
  assumes "tree_inv ot root (Some (plug C t)) R" "leaf_ok l" "ctx_fits C (leaf_key l)" "s < 128"
    and "\<forall>x \<in> keys t. top_bits s x = top_bits s (leaf_key l) \<and> bit x (127 - s) \<noteq> bit (leaf_key l) (127 - s)"
  shows "insert_spec ot (Some (plug C t)) R l (insert_split ot root l (stack_of C) (ct_handle t) (ct_node t) s)"
proof (cases "card (set (handles (plug C t)) \<union> R) + 2 \<le> MAX_ORDERTREE_NODES")
  case True
  then show ?thesis using insert_split_ok [OF assms] by (auto simp: insert_spec_def)
next
  case False
  have "alloc_ok ot (set (handles (plug C t)) \<union> R)" using assms(1) by (simp add: tree_inv_Some)
  then show ?thesis using insert_split_room [of ot _ root l "stack_of C" "ct_handle t" "ct_node t" s] False
    by (cases "insert_split ot root l (stack_of C) (ct_handle t) (ct_node t) s") (auto simp: insert_spec_def)
qed

lemma insert_leaf_loop_ok:
  assumes "tree_inv ot root (Some (plug C t)) R" "leaf_ok l" "ctx_fits C (leaf_key l)" "length (handles t) \<le> fuel"
  shows "insert_spec ot (Some (plug C t)) R l (insert_leaf_loop fuel ot root l (stack_of C) (ct_handle t))"
  using assms
proof (induction t arbitrary: C fuel)
  case (CLeaf h l0)
  then obtain f where f: "fuel = Suc f" by (cases fuel) auto
  have at: "tree_at (nodes ot) (CLeaf h l0)" "leaf_ok l0"
    using CLeaf.prems(1) by (auto simp: tree_inv_Some tree_at_plug crit_ok_plug)
  note un = node_unwrap_at [OF at(1), simplified]
  show ?case
  proof (cases "leaf_key l0 = leaf_key l")
    case True
    with CLeaf.prems f at un show ?thesis
      using insert_clobber_ok [OF CLeaf.prems(1,2,3)] by (auto simp: node_mut_assign_def insert_spec_def)
  next
    case False
    with f un show ?thesis
      using insert_split_spec [OF CLeaf.prems(1,2,3) leading_zeros_xor_less(1) [OF False]]
        leading_zeros_xor_less(2,3) [OF False] by simp
  qed
next
  case (CInner h n a b)
  then obtain f where f: "fuel = Suc f" by (cases fuel) auto
  have at: "tree_at (nodes ot) (CInner h n a b)" and ok: "crit_ok (CInner h n a b)"
    using CInner.prems(1) by (auto simp: tree_inv_Some tree_at_plug crit_ok_plug)
  note un = node_unwrap_at [OF at, simplified]
  have p: "prefix_len n < 128" using ok by simp
  define s where "s = leading_zeros (inner_key n XOR leaf_key l)"
  show ?case
  proof (cases "s \<ge> prefix_len n")
    case True
    define d where "d = bit (leaf_key l) (127 - prefix_len n)"
    let ?C = "(h, n, d, if d then a else b) # C" and ?t = "if d then b else a"
    have plug: "plug ?C ?t = plug C (CInner h n a b)" by simp
    have "top_bits (prefix_len n) (inner_key n) = top_bits (prefix_len n) (leaf_key l)"
      using True leading_zeros_xor_ge [of "prefix_len n"] p by (simp add: s_def)
    then have fits: "ctx_fits ?C (leaf_key l)" using CInner.prems(3) by (simp add: below_def d_def)
    have "insert_spec ot (Some (plug ?C ?t)) R l (insert_leaf_loop f ot root l (stack_of ?C) (ct_handle ?t))"
    proof (cases d)
      case True
      then show ?thesis
        using CInner.IH(2) [of "(h, n, True, a) # C" f] CInner.prems(1,2,4) f fits by simp
    next
      case False
      then show ?thesis
        using CInner.IH(1) [of "(h, n, False, b) # C" f] CInner.prems(1,2,4) f fits by simp
    qed
    moreover have "insert_leaf_loop fuel ot root l (stack_of C) h =
        insert_leaf_loop f ot root l (stack_of ?C) (ct_handle ?t)"
      using f un True at p by (simp add: walk_down_at d_def s_def)
    ultimately show ?thesis unfolding plug by simp
  next
    case False
    then have lt: "s < prefix_len n" by simp
    note sh = inner_shared [OF ok lt [unfolded s_def], folded s_def]
    have "s < 128" using lt p by simp
    moreover have "\<forall>x \<in> keys (CInner h n a b). top_bits s x = top_bits s (leaf_key l) \<and>
        bit x (127 - s) \<noteq> bit (leaf_key l) (127 - s)" using sh(2,3) by simp
    ultimately have "insert_spec ot (Some (plug C (CInner h n a b))) R l (insert_split ot root l (stack_of C) h (Inner n) s)"
      using insert_split_spec [OF CInner.prems(1,2,3)] by simp
    with f un lt show ?thesis by (simp add: s_def)
  qed
qed

lemma insert_leaf_spec:
  assumes inv: "tree_inv ot root to R" and l: "leaf_ok l"
  shows "insert_spec ot to R l (insert_leaf ot root l)"
proof (cases to)
  case None
  then have al: "alloc_ok ot R" using inv by (simp add: tree_inv_None)
  show ?thesis
  proof (cases "card R < MAX_ORDERTREE_NODES")
    case True
    obtain h ot' where h: "insert_node ot (Leaf l) = Inr (h, ot')" "h \<notin> R" "h < length (nodes ot)"
        "nodes ot' = (nodes ot)[h := Leaf l]" "order_tree_type ot' = order_tree_type ot" "alloc_ok ot' (insert h R)"
      by (rule insert_node_ok [OF al, of "Leaf l"]) (use True in auto)
    let ?root = "root\<lparr>maybe_node := h, leaf_count := 1\<rparr>"
    have "tree_inv ot' ?root (Some (CLeaf h l)) R" using h l by (simp add: tree_inv_Some)
    moreover have "same_slots R ot ot'" using h by (auto simp: same_slots_def nth_update_mem(2))
    ultimately have "insert_post ot to R l (ot', ?root, h, None)"
      unfolding insert_post_def None by (auto simp: inserted_def intro: exI [of _ "CLeaf h l"])
    with h(1) None show ?thesis using tree_inv_root_node [OF inv] by (simp add: insert_leaf_def insert_spec_def)
  next
    case False
    then have "\<nexists>r. insert_node ot (Leaf l) = Inr r" using insert_node_full [OF al] by blast
    then obtain e where "insert_node ot (Leaf l) = Inl e" by (cases "insert_node ot (Leaf l)") auto
    with None False show ?thesis using tree_inv_root_node [OF inv] by (simp add: insert_leaf_def insert_spec_def)
  qed
next
  case (Some t)
  have "length (handles t) \<le> walk_fuel ot"
    using handles_fuel [of ot root t R] alloc_ok_length [of ot "set (handles t) \<union> R"] inv Some
    by (simp add: walk_fuel_def tree_inv_Some)
  then show ?thesis
    using insert_leaf_loop_ok [of ot root "[]" t R l "walk_fuel ot"] assms Some tree_inv_root_node [OF inv]
    by (simp add: insert_leaf_def)
qed

lemma insert_leaf_ok:
  assumes "tree_inv ot root to R" "leaf_ok l" "card (tree_slots to \<union> R) + 2 \<le> MAX_ORDERTREE_NODES"
  shows "\<exists>r. insert_leaf ot root l = Inr r \<and> insert_post ot to R l r"
  using insert_leaf_spec [OF assms(1,2)] assms(3) by (auto simp: insert_spec_def split: sum.splits)

end
