(* ===== verification/Order_Tree_Remove.thy ===== *)
theory Order_Tree_Remove
  imports Order_Tree_Insert
begin

text \<open>
  Removal from an order tree and the searches that select what to remove: \<open>remove_by_key\<close>
  never fails, removes exactly the order with the searched key and says so, and keeps the
  invariant; \<open>remove_worst\<close> and \<open>remove_one_expired\<close> remove the least aggressive and
  the first expiring order.
\<close>

section \<open>What a removal leaves behind\<close>

definition remove_post ::
  "OrderTreeNodes \<Rightarrow> ctree option \<Rightarrow> NodeHandle set \<Rightarrow> u128 \<Rightarrow>
     OrderTreeNodes \<times> OrderTreeRoot \<times> LeafNode option \<Rightarrow> bool" where
  "remove_post ot to R k r \<longleftrightarrow>
     (case r of (ot', root', removed) \<Rightarrow>
        \<exists>to'. tree_inv ot' root' to' R \<and> same_slots R ot ot' \<and>
              orders to' = {x \<in> orders to. leaf_key x \<noteq> k} \<and>
              (case removed of
                 None \<Rightarrow> \<forall>x \<in> orders to. leaf_key x \<noteq> k
               | Some l \<Rightarrow> l \<in> orders to \<and> leaf_key l = k))"

lemma remove_post_absent:
  "tree_inv ot root to R \<Longrightarrow> \<forall>x \<in> orders to. leaf_key x \<noteq> k \<Longrightarrow> remove_post ot to R k (ot, root, None)"
  unfolding remove_post_def by (auto simp: same_slots_def intro!: exI [of _ to])

section \<open>The walk to the leaf\<close>

text \<open>The walk follows the bits of the key: it finds the leaf exactly when the tree has the
  key, and the stack it collects is the context of that leaf.\<close>

lemma remove_walk_ok:
  assumes "tree_at (nodes ot) (plug C t)" "crit_ok (plug C t)" "length (handles t) \<le> fuel"
    and "C = (p, n, c, s) # C0"
  shows "(\<exists>C' h l. remove_walk fuel ot k p (ct_handle t) c (stack_of C) =
              Inr (Some (fst (hd C'), h, fst (snd (snd (hd C'))), stack_of C')) \<and>
            C' \<noteq> [] \<and> plug C' (CLeaf h l) = plug C t \<and> leaf_key l = k \<and> k \<in> keys t) \<or>
         (remove_walk fuel ot k p (ct_handle t) c (stack_of C) = Inr None \<and> k \<notin> keys t)"
  using assms
proof (induction t arbitrary: C p n c s C0 fuel)
  case (CLeaf h l)
  then obtain f where f: "fuel = Suc f" by (cases fuel) auto
  have at: "tree_at (nodes ot) (CLeaf h l)"
    using CLeaf.prems(1) tree_at_plug by blast
  note un = node_unwrap_at [OF at, simplified]
  show ?case
  proof (cases "leaf_key l = k")
    case True
    with un f CLeaf.prems(4) show ?thesis
      by (intro disjI1 exI [of _ C] exI [of _ h] exI [of _ l]) simp
  next
    case False
    with un f show ?thesis by simp
  qed
next
  case (CInner h m a b)
  then obtain f where f: "fuel = Suc f" by (cases fuel) auto
  have at: "tree_at (nodes ot) (CInner h m a b)" and ok: "crit_ok (CInner h m a b)"
    using CInner.prems(1,2) tree_at_plug crit_ok_plug by blast+
  note un = node_unwrap_at [OF at, simplified]
  have p: "prefix_len m < 128" and chs: "children m = (ct_handle a, ct_handle b)"
    using ok at by simp_all
  define d where "d = bit k (127 - prefix_len m)"
  let ?C = "(h, m, d, if d then a else b) # C" and ?t = "if d then b else a"
  have plug: "plug ?C ?t = plug C (CInner h m a b)" by simp
  have run: "remove_walk fuel ot k p h c (stack_of C) = remove_walk f ot k h (ct_handle ?t) d (stack_of ?C)"
    using f un p chs by (simp add: walk_down_at d_def)
  have keys: "k \<in> keys (CInner h m a b) \<longleftrightarrow> k \<in> keys ?t"
    using ok by (auto simp: below_def d_def)
  show ?case
  proof (cases d)
    case True
    then show ?thesis
      using CInner.IH(2) [of "(h, m, True, a) # C" f h m True a C] CInner.prems(1-3) f run keys by simp
  next
    case False
    then show ?thesis
      using CInner.IH(1) [of "(h, m, False, b) # C" f h m False b C] CInner.prems(1-3) f run keys by simp
  qed
qed

lemma remove_post_found:
  "tree_inv ot' root' to' R \<Longrightarrow> same_slots R ot ot' \<Longrightarrow> orders to' = {x \<in> orders to. leaf_key x \<noteq> k} \<Longrightarrow>
     l \<in> orders to \<Longrightarrow> leaf_key l = k \<Longrightarrow> remove_post ot to R k (ot', root', Some l)"
  unfolding remove_post_def by auto

section \<open>Replacing the parent by the other child\<close>

lemma ctx_exp_remove:
  "ctx_exp C (min old new) \<Longrightarrow> ctx_exp (upd_ctx C old new) new"
proof (cases "old \<le> new")
  case False
  assume "ctx_exp C (min old new)"
  with False have "ctx_exp C new" by (simp add: min_def)
  moreover have "upd_ctx C old new = C" if "ctx_exp C new"
    using that False by (cases C rule: ctx_handles.cases) auto
  ultimately show ?thesis by simp
qed (simp add: min_def ctx_exp_upd)

text \<open>The three writes of the splice, with the slots they free.\<close>

lemma remove_splice_nodes:
  assumes inv: "tree_inv ot root (Some (plug ((ph, n, c, s) # C) (CLeaf ch l))) R"
  shows "\<exists>ot3. remove_splice ot root ph ch c ((ph, c) # stack_of C) =
       rbind (update_parent_earliest_expiry ot3 (stack_of C) (leaf_expiry l) (earliest s))
         (\<lambda>ot4. Inr (ot4, root\<lparr>leaf_count := leaf_count root - 1\<rparr>, Some l)) \<and>
     length (nodes ot3) = length (nodes ot) \<and> nodes ot3 ! ph = ct_node s \<and>
     (\<forall>i. i \<noteq> ph \<longrightarrow> i \<noteq> ct_handle s \<longrightarrow> i \<noteq> ch \<longrightarrow> nodes ot3 ! i = nodes ot ! i) \<and>
     order_tree_type ot3 = order_tree_type ot \<and>
     alloc_ok ot3 (insert ph (set (tl (handles s)) \<union> set (ctx_handles C) \<union> R))"
proof -
  define U where "U = insert ph (insert ch (set (handles s) \<union> set (ctx_handles C) \<union> R))"
  have I: "nodes ot ! ph = Inner n" "ph < length (nodes ot)" "sel2 (\<not> c) (children n) = ct_handle s"
      "tree_at (nodes ot) s" "nodes ot ! ch = Leaf l" "crit_ok s" "leaf_ok l" "alloc_ok ot U"
      "leaf_count root = length (leaves (plug ((ph, n, c, s) # C) (CLeaf ch l)))"
    using inv unfolding tree_inv_Some tree_at_plug crit_ok_plug set_handles_plug
    by (auto simp: U_def insert_commute Un_ac)
  obtain xs where xs: "handles s = ct_handle s # xs" using handles_hd_tl by blast
  have D: "distinct (ch # ph # handles s @ ctx_handles C)" "set (ch # ph # handles s @ ctx_handles C) \<inter> R = {}"
    using inv unfolding tree_inv_Some distinct_handles_plug set_handles_plug by auto
  then have d: "ch \<noteq> ph" "ct_handle s \<noteq> ph" "ct_handle s \<noteq> ch" by auto
  have d': "U - {ct_handle s} - {ch} = insert ph (set (tl (handles s)) \<union> set (ctx_handles C) \<union> R)"
    using D unfolding U_def xs by auto
  have s: "nodes ot ! ct_handle s = ct_node s" using tree_at_node [OF I(4)] by simp
  obtain ot1 where 1: "remove_node ot (ct_handle s) = Inr (Some (nodes ot ! ct_handle s, ot1))"
      "\<And>i. i \<noteq> ct_handle s \<Longrightarrow> nodes ot1 ! i = nodes ot ! i" "length (nodes ot1) = length (nodes ot)"
      "order_tree_type ot1 = order_tree_type ot" "alloc_ok ot1 (U - {ct_handle s})"
    by (rule remove_node_ok [OF I(8), of "ct_handle s"]) (auto simp: U_def s)
  let ?ot2 = "set_node ot1 ph (ct_node s)"
  have asg: "node_mut_assign ot1 ph x = Inr (set_node ot1 ph x)" for x
    using I(1,2) 1(2,3) d(2) by (simp add: node_mut_assign_def node_unwrap_def node_def)
  have al2: "alloc_ok ?ot2 (U - {ct_handle s})"
    by (rule alloc_ok_set_node [OF 1(5)]) (use d(2) in \<open>auto simp: U_def\<close>)
  have ch2: "nodes ?ot2 ! ch = Leaf l" using I(5) 1(2) d by (simp add: set_node_def)
  obtain ot3 where 3: "remove_node ?ot2 ch = Inr (Some (nodes ?ot2 ! ch, ot3))"
      "\<And>i. i \<noteq> ch \<Longrightarrow> nodes ot3 ! i = nodes ?ot2 ! i" "length (nodes ot3) = length (nodes ?ot2)"
      "order_tree_type ot3 = order_tree_type ?ot2" "alloc_ok ot3 (U - {ct_handle s} - {ch})"
    by (rule remove_node_ok [OF al2, of ch]) (use ch2 d in \<open>auto simp: U_def\<close>)
  have "leaf_count root \<ge> 1" by (simp add: I(9) leaves_plug)
  then have run: "remove_splice ot root ph ch c ((ph, c) # stack_of C) =
       rbind (update_parent_earliest_expiry ot3 (stack_of C) (leaf_expiry l) (earliest s))
         (\<lambda>ot4. Inr (ot4, root\<lparr>leaf_count := leaf_count root - 1\<rparr>, Some l))"
    using I 1(1) 3(1) ch2 s asg
    by (simp add: remove_splice_def node_unwrap_def node_def sub_unsigned_def)
  have "nodes ot3 ! ph = ct_node s" using 3(2) [of ph] d(1) I(2) 1(3) by (simp add: set_node_def)
  moreover have "\<forall>i. i \<noteq> ph \<longrightarrow> i \<noteq> ct_handle s \<longrightarrow> i \<noteq> ch \<longrightarrow> nodes ot3 ! i = nodes ot ! i"
    using 3(2) 1(2) by (simp add: set_node_def)
  ultimately show ?thesis using run 1(3,4) 3(3,4,5) d'
    by (intro exI [of _ ot3]) (simp add: set_node_def)
qed

lemma remove_splice_ok:
  assumes inv: "tree_inv ot root (Some (plug ((ph, n, c, s) # C) (CLeaf ch l))) R"
  shows "\<exists>ot'. remove_splice ot root ph ch c ((ph, c) # stack_of C) =
              Inr (ot', root\<lparr>leaf_count := leaf_count root - 1\<rparr>, Some l) \<and>
            (\<exists>t'. tree_inv ot' (root\<lparr>leaf_count := leaf_count root - 1\<rparr>) (Some t') R \<and> same_slots R ot ot' \<and>
                  orders (Some t') = ctx_orders ((ph, n, c, s) # C))"
proof -
  let ?t = "plug1 (ph, n, c, s) (CLeaf ch l)" and ?t' = "rehandle ph s"
    and ?root = "root\<lparr>leaf_count := leaf_count root - 1\<rparr>"
  have inv': "tree_inv ot root (Some (plug C ?t)) R" using inv by simp
  obtain xs where xs: "handles s = ct_handle s # xs" using handles_hd_tl by blast
  obtain ot3 where run: "remove_splice ot root ph ch c ((ph, c) # stack_of C) =
       rbind (update_parent_earliest_expiry ot3 (stack_of C) (leaf_expiry l) (earliest s))
         (\<lambda>ot4. Inr (ot4, ?root, Some l))"
    and ns: "length (nodes ot3) = length (nodes ot)" "nodes ot3 ! ph = ct_node s"
      "\<forall>i. i \<noteq> ph \<longrightarrow> i \<noteq> ct_handle s \<longrightarrow> i \<noteq> ch \<longrightarrow> nodes ot3 ! i = nodes ot ! i"
    and ty: "order_tree_type ot3 = order_tree_type ot"
    and al: "alloc_ok ot3 (insert ph (set xs \<union> set (ctx_handles C) \<union> R))"
    using remove_splice_nodes [OF inv] xs by auto
  have D: "distinct (ch # ph # handles s @ ctx_handles C)" "set (ch # ph # handles s @ ctx_handles C) \<inter> R = {}"
    using inv unfolding tree_inv_Some distinct_handles_plug set_handles_plug by auto
  have I: "tree_at (nodes ot) s" "ph < length (nodes ot)" "crit_ok s" "ctx_at (nodes ot) C ph"
      "ctx_keys C (insert (leaf_key l) (keys s))" "ctx_exp C (min (leaf_expiry l) (earliest s))"
      "leaf_count root = Suc (length (leaves (plug C s)))"
    using inv unfolding tree_inv_Some tree_at_plug crit_ok_plug by (auto simp: leaves_plug)
  have hs: "handles ?t' = ph # xs" using xs by (simp add: handles_rehandle)
  have "\<exists>ot4 C'. (if True then update_parent_earliest_expiry ot3 (stack_of C) (leaf_expiry l) (earliest s) else Inr ot3)
         = Inr ot4 \<and> tree_inv ot4 ?root (Some (plug C' ?t')) R \<and> same_slots R ot3 ot4 \<and>
         leaves (plug C' ?t') = leaves (plug C ?t')"
  proof (rule context_update [OF inv'])
    have "tree_at ((nodes ot)[ph := ct_node s]) ?t'"
      by (rule tree_at_rehandle [OF I(1)]) (use D xs I(2) in auto)
    then show "tree_at (nodes ot3) ?t'"
      by (rule tree_at_cong) (use ns D hs I(2) xs in \<open>auto simp: nth_list_update\<close>)
    show "ctx_at (nodes ot3) C (ct_handle ?t')"
      unfolding rehandle_simps by (rule ctx_at_cong [OF I(4)]) (use ns D xs in auto)
    show "ctx_keys C (keys ?t')" unfolding rehandle_simps by (rule ctx_keys_mono [OF I(5)]) auto
    show "alloc_ok ot3 (set (handles ?t') \<union> set (ctx_handles C) \<union> R)"
      unfolding hs using al by simp
    show "distinct (handles ?t')" "set (handles ?t') \<inter> (set (ctx_handles C) \<union> R) = {}"
      unfolding hs using D xs by auto
  qed (use I ctx_exp_remove [OF I(6)] in \<open>auto simp: leaves_plug\<close>)
  then obtain ot4 C' where u: "update_parent_earliest_expiry ot3 (stack_of C) (leaf_expiry l) (earliest s) = Inr ot4"
      "tree_inv ot4 ?root (Some (plug C' ?t')) R" "same_slots R ot3 ot4"
      "leaves (plug C' ?t') = leaves (plug C ?t')" by auto
  have "same_slots R ot ot4" using u(3) ns(3) ty D(2) xs by (auto simp: same_slots_def)
  moreover have "orders (Some (plug C' ?t')) = ctx_orders ((ph, n, c, s) # C)"
    unfolding orders_simps u(4) by (auto simp: ctx_orders_def leaves_plug image_Un)
  ultimately show ?thesis using run u(1,2) by auto
qed

text \<open>In a well-formed tree no leaf outside the hole has the key of the leaf in the hole.\<close>

lemma ctx_orders_other:
  assumes "crit_ok (plug C (CLeaf h l))"
  shows "ctx_orders C = {x \<in> orders (Some (plug C (CLeaf h l))). leaf_key x \<noteq> leaf_key l}"
proof -
  have "distinct (map (leaf_key \<circ> snd) (ctx_left C @ [(h, l)] @ ctx_right C))"
    using leaves_distinct_keys [OF assms] by (simp add: leaves_plug)
  then have "leaf_key l \<notin> (leaf_key \<circ> snd) ` (set (ctx_left C) \<union> set (ctx_right C))" by auto
  then have "\<forall>x \<in> ctx_orders C. leaf_key x \<noteq> leaf_key l"
    unfolding ctx_orders_def by (metis (no_types, lifting) comp_apply imageE image_eqI)
  then show ?thesis unfolding orders_plug by auto
qed

lemma remove_inner_ok:
  assumes inv: "tree_inv ot root (Some (CInner h m a b)) R"
    and fuel: "length (handles (CInner h m a b)) \<le> walk_fuel ot"
  shows "\<exists>r. rbind (walk_down m k) (\<lambda>(child_h, crit_bit).
              rbind (remove_walk (walk_fuel ot) ot k h child_h crit_bit [(h, crit_bit)]) (\<lambda>found. case found of
                None \<Rightarrow> Inr (ot, root, None)
              | Some (parent_h', child_h', crit_bit', stack) \<Rightarrow>
                  remove_splice ot root parent_h' child_h' crit_bit' stack)) = Inr r \<and>
             remove_post ot (Some (CInner h m a b)) R k r"
proof -
  define d where "d = bit k (127 - prefix_len m)"
  let ?T = "CInner h m a b" and ?C = "[(h, m, d, if d then a else b)]" and ?t = "if d then b else a"
  have plug: "plug ?C ?t = ?T" by simp
  have at: "tree_at (nodes ot) ?T" and ok: "crit_ok ?T" using inv by (auto simp: tree_inv_Some)
  have wd: "walk_down m k = Inr (ct_handle ?t, d)"
    using at ok by (simp add: walk_down_at d_def)
  have keys: "k \<in> keys ?T \<longleftrightarrow> k \<in> keys ?t" using ok by (auto simp: below_def d_def)
  let ?w = "remove_walk (walk_fuel ot) ot k h (ct_handle ?t) d [(h, d)]"
  have "(\<exists>C' ch l. ?w = Inr (Some (fst (hd C'), ch, fst (snd (snd (hd C'))), stack_of C')) \<and>
            C' \<noteq> [] \<and> plug C' (CLeaf ch l) = ?T \<and> leaf_key l = k \<and> k \<in> keys ?t) \<or>
         (?w = Inr None \<and> k \<notin> keys ?t)"
    using remove_walk_ok [of ot ?C ?t "walk_fuel ot" h m d "if d then a else b" "[]" k] at ok fuel
    unfolding plug by (auto split: if_splits)
  then show ?thesis
  proof (elim disjE exE conjE)
    fix C' ch l
    assume w: "?w = Inr (Some (fst (hd C'), ch, fst (snd (snd (hd C'))), stack_of C'))"
      and C': "C' \<noteq> []" "plug C' (CLeaf ch l) = ?T" and k: "leaf_key l = k"
    obtain ph n c s C where Cc: "C' = (ph, n, c, s) # C" using C'(1) by (cases C') auto
    have "tree_inv ot root (Some (plug ((ph, n, c, s) # C) (CLeaf ch l))) R" using inv C'(2) Cc by simp
    from remove_splice_ok [OF this] obtain ot' t' where
      r: "remove_splice ot root ph ch c ((ph, c) # stack_of C) =
            Inr (ot', root\<lparr>leaf_count := leaf_count root - 1\<rparr>, Some l)"
        "tree_inv ot' (root\<lparr>leaf_count := leaf_count root - 1\<rparr>) (Some t') R" "same_slots R ot ot'"
        "orders (Some t') = ctx_orders C'" using Cc by auto
    have "orders (Some t') = {x \<in> orders (Some ?T). leaf_key x \<noteq> k}"
      unfolding r(4) using ctx_orders_other [of C' ch l] ok C'(2) k by simp
    moreover have "l \<in> orders (Some ?T)" unfolding C'(2) [symmetric] by (simp add: leaves_plug)
    ultimately have "remove_post ot (Some ?T) R k (ot', root\<lparr>leaf_count := leaf_count root - 1\<rparr>, Some l)"
      using remove_post_found [OF r(2,3)] k by blast
    with w r(1) Cc wd show ?thesis by simp
  next
    assume w: "?w = Inr None" and "k \<notin> keys ?t"
    then have "k \<notin> keys ?T" using keys by simp
    from remove_post_absent [OF inv notin_keys [OF this]] w wd show ?thesis by simp
  qed
qed

lemma remove_by_key_ok:
  assumes inv: "tree_inv ot root to R"
  shows "\<exists>r. remove_by_key ot root k = Inr r \<and> remove_post ot to R k r"
proof (cases to)
  case None
  then show ?thesis using tree_inv_root_node [OF inv] remove_post_absent [OF inv]
    by (simp add: remove_by_key_def)
next
  case (Some t)
  have root: "root_node root = Some (ct_handle t)" using tree_inv_root_node [OF inv] Some by simp
  have I: "tree_at (nodes ot) t" "crit_ok t" "alloc_ok ot (set (handles t) \<union> R)" "leaf_count root = length (leaves t)"
      "set (handles t) \<inter> R = {}"
    using inv Some by (simp_all add: tree_inv_Some)
  have fuel: "length (handles t) \<le> walk_fuel ot"
    using handles_fuel [of ot root t R] alloc_ok_length [OF I(3)] inv Some by (simp add: walk_fuel_def)
  note un = node_unwrap_at [OF I(1)]
  show ?thesis
  proof (cases t)
    case (CLeaf h l)
    show ?thesis
    proof (cases "leaf_key l = k")
      case True
      obtain ot' where r: "remove_node ot h = Inr (Some (nodes ot ! h, ot'))"
          "\<And>i. i \<noteq> h \<Longrightarrow> nodes ot' ! i = nodes ot ! i" "order_tree_type ot' = order_tree_type ot"
          "alloc_ok ot' (set (handles t) \<union> R - {h})"
        by (rule remove_node_ok [OF I(3), of h]) (use I(1) CLeaf in auto)
      let ?root = "root\<lparr>maybe_node := 0, leaf_count := 0\<rparr>"
      have "set (handles t) \<union> R - {h} = R" using I(5) CLeaf by auto
      with r(4) have "tree_inv ot' ?root None R" by (simp add: tree_inv_None)
      moreover have "same_slots R ot ot'" 
        using r(3) I(5) CLeaf r(2) by (metis disjoint_iff list.set_intros(1) handles.simps(1) same_slots_def)
      ultimately have "remove_post ot to R k (ot', ?root, Some l)"
        by (rule remove_post_found) (use True Some CLeaf in auto)
      then show ?thesis using root un CLeaf True r(1) I(4) by (simp add: remove_by_key_def)
    next
      case False
      then show ?thesis using root un CLeaf Some remove_post_absent [OF inv]
        by (simp add: remove_by_key_def)
    qed
  next
    case (CInner h m a b)
    with remove_inner_ok [of ot root h m a b R k] inv Some fuel root un show ?thesis
      by (simp add: remove_by_key_def)
  qed
qed

lemma remove_post_removed:
  assumes "tree_inv ot root to R" "to = Some t" "(h, l) \<in> set (leaves t)"
    and "remove_post ot to R (leaf_key l) (ot', root', rm)"
  shows "rm = Some l"
proof -
  have ok: "crit_ok t" using assms(1,2) by (simp add: tree_inv_Some)
  have mem: "l \<in> orders to" using assms(2,3) by force
  from mem obtain l' where "rm = Some l'" "l' \<in> orders to" "leaf_key l' = leaf_key l"
    using assms(4) by (auto simp: remove_post_def split: option.splits)
  moreover from this(2) obtain h' where "(h', l') \<in> set (leaves t)" using assms(2) by auto
  ultimately show ?thesis using leaf_unique_key [OF ok _ assms(3)] by auto
qed

section \<open>Searches\<close>

lemma tree_inv_walk_fuel:
  "tree_inv ot root (Some t) R \<Longrightarrow> length (handles t) \<le> walk_fuel ot"
  using handles_fuel [of ot root t R] alloc_ok_length [of ot "set (handles t) \<union> R"]
  by (simp add: walk_fuel_def tree_inv_Some)

lemma find_earliest_expiry_loop_ok:
  "tree_at (nodes ot) t \<Longrightarrow> crit_ok t \<Longrightarrow> length (handles t) \<le> fuel \<Longrightarrow>
     \<exists>h l. find_earliest_expiry_loop fuel ot (ct_handle t) = Inr (Some (h, leaf_expiry l)) \<and>
           (h, l) \<in> set (leaves t) \<and> leaf_expiry l = earliest t"
proof (induction t arbitrary: fuel)
  case (CLeaf h l)
  then obtain f where f: "fuel = Suc f" by (cases fuel) auto
  show ?case using CLeaf node_unwrap_at [OF CLeaf.prems(1)] f by simp
next
  case (CInner h n a b)
  then obtain f where f: "fuel = Suc f" by (cases fuel) auto
  note un = node_unwrap_at [OF CInner.prems(1)]
  show ?case
  proof (cases "earliest a > earliest b")
    case True
    with CInner.IH(2) [of f] CInner.prems f un show ?thesis by auto
  next
    case False
    with CInner.IH(1) [of f] CInner.prems f un show ?thesis by (auto simp: min_def)
  qed
qed

text \<open>The search returns an order of the tree with the earliest expiry of all.\<close>

lemma find_earliest_expiry_ok:
  assumes "tree_inv ot root to R"
  shows "case to of
      None \<Rightarrow> find_earliest_expiry ot root = Inr None
    | Some t \<Rightarrow> (\<exists>h l. find_earliest_expiry ot root = Inr (Some (h, leaf_expiry l)) \<and> (h, l) \<in> set (leaves t) \<and>
                      (\<forall>x \<in> orders to. leaf_expiry l \<le> leaf_expiry x))"
proof (cases to)
  case None
  then show ?thesis using tree_inv_root_node [OF assms] by (simp add: find_earliest_expiry_def)
next
  case (Some t)
  have I: "tree_at (nodes ot) t" "crit_ok t" using assms Some by (auto simp: tree_inv_Some)
  obtain h l where "find_earliest_expiry_loop (walk_fuel ot) ot (ct_handle t) = Inr (Some (h, leaf_expiry l))"
      "(h, l) \<in> set (leaves t)" "leaf_expiry l = earliest t"
    using find_earliest_expiry_loop_ok [OF I tree_inv_walk_fuel [of ot root t R]] assms Some by auto
  moreover have "\<forall>x \<in> orders to. earliest t \<le> leaf_expiry x"
    using Some by (auto simp: earliest_Min intro!: Min_le)
  ultimately show ?thesis using tree_inv_root_node [OF assms] Some
    by (simp add: find_earliest_expiry_def) (rule exI [of _ l], simp)
qed

lemma leaf_min_max_loop_ok:
  "tree_at (nodes ot) t \<Longrightarrow> length (handles t) \<le> fuel \<Longrightarrow>
     leaf_min_max_loop fuel ot m (ct_handle t) = Inr (Some (if m then last (leaves t) else hd (leaves t)))"
proof (induction t arbitrary: fuel)
  case (CLeaf h l)
  then obtain f where f: "fuel = Suc f" by (cases fuel) auto
  show ?case using CLeaf f by (simp add: node_def)
next
  case (CInner h n a b)
  then obtain f where f: "fuel = Suc f" by (cases fuel) auto
  show ?case using CInner.IH(1,2) [of f] CInner.prems f by (cases m) (simp_all add: node_def)
qed

lemma leaf_min_max_ok:
  "tree_inv ot root to R \<Longrightarrow>
     leaf_min_max ot m root = Inr (map_option (\<lambda>t. if m then last (leaves t) else hd (leaves t)) to)"
  using tree_inv_root_node [of ot root to R] tree_inv_walk_fuel [of ot root _ R]
  by (cases to) (auto simp: leaf_min_max_def tree_inv_Some leaf_min_max_loop_ok)

lemma hd_leaf_least: "crit_ok t \<Longrightarrow> x \<in> orders (Some t) \<Longrightarrow> leaf_key (snd (hd (leaves t))) \<le> leaf_key x"
  using leaves_sorted [of t] by (cases "leaves t") auto

lemma last_leaf_greatest:
  assumes "crit_ok t" "x \<in> orders (Some t)"
  shows "leaf_key x \<le> leaf_key (snd (last (leaves t)))"
proof -
  obtain xs y where e: "leaves t = xs @ [y]" by (meson leaves_nonempty rev_exhaust)
  then show ?thesis using leaves_sorted [OF assms(1)] assms(2) by (auto simp: sorted_wrt_append)
qed

text \<open>The least aggressive order: the lowest bid or the highest ask.\<close>

lemma find_worst_ok:
  assumes inv: "tree_inv ot root to R"
  shows "case to of
      None \<Rightarrow> find_worst ot root = Inr None
    | Some t \<Rightarrow> (\<exists>h l. find_worst ot root = Inr (Some (h, l)) \<and> (h, l) \<in> set (leaves t) \<and>
        (\<forall>x \<in> orders to. case order_tree_type ot of
            Bids \<Rightarrow> leaf_key l \<le> leaf_key x | Asks \<Rightarrow> leaf_key x \<le> leaf_key l))"
proof (cases to)
  case None
  then show ?thesis using leaf_min_max_ok [OF inv]
    by (simp add: find_worst_def min_leaf_def max_leaf_def split: OrderTreeType.split)
next
  case (Some t)
  then have ok: "crit_ok t" using inv by (simp add: tree_inv_Some)
  show ?thesis
  proof (cases "order_tree_type ot")
    case Bids
    obtain h l where hl: "hd (leaves t) = (h, l)" by fastforce
    with hd_in_set [of "leaves t"] have "(h, l) \<in> set (leaves t)" by simp
    with Bids Some hl hd_leaf_least [OF ok] leaf_min_max_ok [OF inv, of False] show ?thesis
      by (simp add: find_worst_def min_leaf_def del: orders_simps)
  next
    case Asks
    obtain h l where hl: "last (leaves t) = (h, l)" by fastforce
    with last_in_set [of "leaves t"] have "(h, l) \<in> set (leaves t)" by simp
    with Asks Some hl last_leaf_greatest [OF ok] leaf_min_max_ok [OF inv, of True] show ?thesis
      by (simp add: find_worst_def max_leaf_def del: orders_simps)
  qed
qed

lemma remove_worst_ok:
  assumes inv: "tree_inv ot root to R"
  shows "case to of
      None \<Rightarrow> remove_worst ot root = Inr (ot, root, None)
    | Some t \<Rightarrow> (\<exists>ot' root' l. remove_worst ot root = Inr (ot', root', Some l) \<and>
        remove_post ot to R (leaf_key l) (ot', root', Some l) \<and>
        (\<forall>x \<in> orders to. case order_tree_type ot of
            Bids \<Rightarrow> leaf_key l \<le> leaf_key x | Asks \<Rightarrow> leaf_key x \<le> leaf_key l))"
proof (cases to)
  case None
  then show ?thesis using find_worst_ok [OF inv] by (simp add: remove_worst_def)
next
  case (Some t)
  then obtain h l where l: "find_worst ot root = Inr (Some (h, l))" "(h, l) \<in> set (leaves t)"
      "\<forall>x \<in> orders to. case order_tree_type ot of
            Bids \<Rightarrow> leaf_key l \<le> leaf_key x | Asks \<Rightarrow> leaf_key x \<le> leaf_key l"
    using find_worst_ok [OF inv] by auto
  obtain ot' root' rm where r: "remove_by_key ot root (leaf_key l) = Inr (ot', root', rm)"
      "remove_post ot to R (leaf_key l) (ot', root', rm)"
    using remove_by_key_ok [OF inv] by (metis prod_cases3)
  have "rm = Some l" using remove_post_removed [OF inv Some l(2) r(2)] .
  with l r Some show ?thesis by (simp add: remove_worst_def del: orders_simps)
qed

lemma remove_one_expired_ok:
  assumes inv: "tree_inv ot root to R"
  shows "if \<exists>x \<in> orders to. leaf_expiry x < now
         then \<exists>ot' root' l. remove_one_expired ot root now = Inr (ot', root', Some l) \<and>
                remove_post ot to R (leaf_key l) (ot', root', Some l) \<and> leaf_expiry l < now \<and>
                (\<forall>x \<in> orders to. leaf_expiry l \<le> leaf_expiry x)
         else remove_one_expired ot root now = Inr (ot, root, None)"
proof (cases to)
  case None
  then show ?thesis using find_earliest_expiry_ok [OF inv] by (simp add: remove_one_expired_def)
next
  case (Some t)
  then obtain h l where l: "find_earliest_expiry ot root = Inr (Some (h, leaf_expiry l))" "(h, l) \<in> set (leaves t)"
      "\<forall>x \<in> orders to. leaf_expiry l \<le> leaf_expiry x"
    using find_earliest_expiry_ok [OF inv] by auto
  have mem: "l \<in> orders to" using l(2) Some by force
  have node: "node ot h = Inr (Some (Leaf l))"
    using tree_at_leaf [OF _ l(2), of "nodes ot"] inv Some by (simp add: tree_inv_Some node_def)
  show ?thesis
  proof (cases "leaf_expiry l < now")
    case True
    obtain ot' root' rm where r: "remove_by_key ot root (leaf_key l) = Inr (ot', root', rm)"
        "remove_post ot to R (leaf_key l) (ot', root', rm)"
      using remove_by_key_ok [OF inv] by (metis prod_cases3)
    have "rm = Some l" using remove_post_removed [OF inv Some l(2) r(2)] .
    with True mem l node r show ?thesis by (auto simp: remove_one_expired_def)
  next
    case False
    with l have "\<not> (\<exists>x \<in> orders to. leaf_expiry x < now)" by fastforce
    with False l(1) show ?thesis by (simp add: remove_one_expired_def)
  qed
qed

end
