(* ===== verification/Order_Tree_Iter.thy ===== *)
theory Order_Tree_Iter
  imports Order_Tree_Remove
begin

text \<open>
  The iterator over one order tree (\<^verbatim>\<open>state/orderbook/ordertree_iterator.rs\<close>): best price
  first, that is ascending keys for asks and descending keys for bids. The lemmas show
  that it yields every order of the tree exactly once, in that order, and then stops.
\<close>

section \<open>Model\<close>

record OrderTreeIter =
  iter_order_tree :: OrderTreeNodes
  iter_stack :: "InnerNode list"
  next_leaf :: "(NodeHandle \<times> LeafNode) option"
  iter_left :: bool
  iter_right :: bool

fun find_leftmost_leaf_loop ::
  "nat \<Rightarrow> OrderTreeNodes \<Rightarrow> bool \<Rightarrow> InnerNode list \<Rightarrow> NodeHandle \<Rightarrow>
     (InnerNode list \<times> (NodeHandle \<times> LeafNode)) res" where
  "find_leftmost_leaf_loop 0 ot lft stack current = Inl OutOfFuel"
| "find_leftmost_leaf_loop (Suc fuel) ot lft stack current =
     rbind (node_unwrap ot current) (\<lambda>n. case n of
       Inner inner \<Rightarrow> find_leftmost_leaf_loop fuel ot lft (inner # stack) (sel2 lft (children inner))
     | Leaf leaf \<Rightarrow> Inr (stack, (current, leaf))
     | _ \<Rightarrow> Inl Panic)"

definition find_leftmost_leaf ::
  "OrderTreeIter \<Rightarrow> NodeHandle \<Rightarrow> (OrderTreeIter \<times> (NodeHandle \<times> LeafNode) option) res" where
  "find_leftmost_leaf it start =
     rbind (find_leftmost_leaf_loop (walk_fuel (iter_order_tree it)) (iter_order_tree it)
              (iter_left it) (iter_stack it) start)
       (\<lambda>(stack, leaf). Inr (it\<lparr>iter_stack := stack\<rparr>, Some leaf))"

definition OrderTreeIter_new :: "OrderTreeNodes \<Rightarrow> OrderTreeRoot \<Rightarrow> OrderTreeIter res" where
  "OrderTreeIter_new ot root =
     (let lr = (if order_tree_type ot = Bids then (True, False) else (False, True));
          it = \<lparr>iter_order_tree = ot, iter_stack = [], next_leaf = None,
                iter_left = fst lr, iter_right = snd lr\<rparr>
      in case root_node root of
           None \<Rightarrow> Inr it
         | Some r \<Rightarrow> rbind (find_leftmost_leaf it r) (\<lambda>(it', l). Inr (it'\<lparr>next_leaf := l\<rparr>)))"

definition iter_side :: "OrderTreeIter \<Rightarrow> Side" where
  "iter_side it = (if iter_left it then Bid else Ask)"

definition iter_peek :: "OrderTreeIter \<Rightarrow> (NodeHandle \<times> LeafNode) option" where
  "iter_peek it = next_leaf it"

definition iter_next ::
  "OrderTreeIter \<Rightarrow> (OrderTreeIter \<times> (NodeHandle \<times> LeafNode) option) res" where
  "iter_next it =
     (case next_leaf it of
        None \<Rightarrow> Inr (it, None)
      | Some current_leaf \<Rightarrow>
          (case iter_stack it of
             [] \<Rightarrow> Inr (it\<lparr>next_leaf := None\<rparr>, Some current_leaf)
           | inner # stack \<Rightarrow>
               rbind (find_leftmost_leaf (it\<lparr>iter_stack := stack\<rparr>) (sel2 (iter_right it) (children inner)))
                 (\<lambda>(it', l). Inr (it'\<lparr>next_leaf := l\<rparr>, Some current_leaf))))"

section \<open>What is left to iterate\<close>

text \<open>The leaves of a tree in the direction of the iteration.\<close>

definition dir_leaves :: "bool \<Rightarrow> ctree \<Rightarrow> (NodeHandle \<times> LeafNode) list" where
  "dir_leaves lft t = (if lft then rev (leaves t) else leaves t)"

definition pending :: "AnyNode list \<Rightarrow> bool \<Rightarrow> InnerNode \<Rightarrow> ctree \<Rightarrow> bool" where
  "pending ns rgt n t \<longleftrightarrow>
     sel2 rgt (children n) = ct_handle t \<and> tree_at ns t \<and> length (handles t) \<le> length ns"

definition iter_rest :: "OrderTreeIter \<Rightarrow> (NodeHandle \<times> LeafNode) list \<Rightarrow> bool" where
  "iter_rest it xs \<longleftrightarrow>
     iter_right it = (\<not> iter_left it) \<and>
     (case next_leaf it of
        None \<Rightarrow> xs = []
      | Some l \<Rightarrow> \<exists>ts. list_all2 (pending (nodes (iter_order_tree it)) (iter_right it)) (iter_stack it) ts \<and>
                      xs = l # concat (map (dir_leaves (iter_left it)) ts))"

lemma dir_leaves_simps [simp]:
  "dir_leaves lft (CLeaf h l) = [(h, l)]"
  "dir_leaves lft (CInner h n a b) =
     (if lft then dir_leaves lft b @ dir_leaves lft a else dir_leaves lft a @ dir_leaves lft b)"
  by (simp_all add: dir_leaves_def)

lemma find_leftmost_leaf_loop_ok:
  assumes "tree_at (nodes ot) t" "length (handles t) \<le> fuel" "length (handles t) \<le> length (nodes ot)"
    and "list_all2 (pending (nodes ot) (\<not> lft)) stack ts"
  shows "\<exists>stack' l ts'. find_leftmost_leaf_loop fuel ot lft stack (ct_handle t) = Inr (stack', l) \<and>
           list_all2 (pending (nodes ot) (\<not> lft)) stack' ts' \<and>
           l # concat (map (dir_leaves lft) ts') = dir_leaves lft t @ concat (map (dir_leaves lft) ts)"
  using assms
proof (induction t arbitrary: fuel stack ts)
  case (CLeaf h l)
  then obtain f where f: "fuel = Suc f" by (cases fuel) auto
  show ?case using CLeaf.prems node_unwrap_at [OF CLeaf.prems(1)] f
    by (intro exI [of _ stack] exI [of _ "(h, l)"] exI [of _ ts]) simp
next
  case (CInner h n a b)
  then obtain f where f: "fuel = Suc f" by (cases fuel) auto
  note un = node_unwrap_at [OF CInner.prems(1)]
  show ?case
  proof (cases lft)
    case True
    have "pending (nodes ot) (\<not> lft) n a" using CInner.prems True by (simp add: pending_def)
    then have "list_all2 (pending (nodes ot) (\<not> lft)) (n # stack) (a # ts)"
      using CInner.prems(4) by simp
    with CInner.IH(2) [of f "n # stack" "a # ts"] CInner.prems f un True show ?thesis by simp
  next
    case False
    have "pending (nodes ot) (\<not> lft) n b" using CInner.prems False by (simp add: pending_def)
    then have "list_all2 (pending (nodes ot) (\<not> lft)) (n # stack) (b # ts)"
      using CInner.prems(4) by simp
    with CInner.IH(1) [of f "n # stack" "b # ts"] CInner.prems f un False show ?thesis by simp
  qed
qed

lemma iter_rest_peek: "iter_rest it xs \<Longrightarrow> iter_peek it = (case xs of [] \<Rightarrow> None | x # _ \<Rightarrow> Some x)"
  by (auto simp: iter_rest_def iter_peek_def split: option.splits)

lemma iter_next_ok:
  assumes "iter_rest it xs"
  shows "\<exists>it'. iter_next it = Inr (it', case xs of [] \<Rightarrow> None | x # _ \<Rightarrow> Some x) \<and> iter_rest it' (tl xs) \<and>
           iter_left it' = iter_left it \<and> iter_order_tree it' = iter_order_tree it"
proof (cases "next_leaf it")
  case None
  then show ?thesis using assms by (auto simp: iter_rest_def iter_next_def)
next
  case (Some l)
  let ?ot = "iter_order_tree it" and ?lft = "iter_left it"
  have r: "iter_right it = (\<not> ?lft)" using assms by (simp add: iter_rest_def)
  obtain ts where ts: "list_all2 (pending (nodes ?ot) (\<not> ?lft)) (iter_stack it) ts"
      "xs = l # concat (map (dir_leaves ?lft) ts)"
    using assms Some r by (auto simp: iter_rest_def)
  show ?thesis
  proof (cases "iter_stack it")
    case Nil
    with ts Some r show ?thesis by (simp add: iter_next_def iter_rest_def)
  next
    case (Cons n st)
    then obtain t ts' where t: "ts = t # ts'" "pending (nodes ?ot) (\<not> ?lft) n t"
        "list_all2 (pending (nodes ?ot) (\<not> ?lft)) st ts'"
      using ts(1) by (auto simp: list_all2_Cons1)
    obtain st' l' ts'' where f: "find_leftmost_leaf_loop (walk_fuel ?ot) ?ot ?lft st (ct_handle t) = Inr (st', l')"
        "list_all2 (pending (nodes ?ot) (\<not> ?lft)) st' ts''"
        "l' # concat (map (dir_leaves ?lft) ts'') = dir_leaves ?lft t @ concat (map (dir_leaves ?lft) ts')"
      using find_leftmost_leaf_loop_ok [of ?ot t "walk_fuel ?ot", OF _ _ _ t(3)] t(2)
      by (auto simp: pending_def walk_fuel_def)
    with Some Cons r t ts(2) show ?thesis
      by (auto simp: iter_next_def iter_rest_def find_leftmost_leaf_def pending_def intro!: exI [of _ ts''])
  qed
qed

text \<open>A new iterator has all orders of its tree before it, best first.\<close>

definition best_first :: "OrderTreeNodes \<Rightarrow> ctree option \<Rightarrow> (NodeHandle \<times> LeafNode) list" where
  "best_first ot to = (case to of None \<Rightarrow> [] | Some t \<Rightarrow> dir_leaves (order_tree_type ot = Bids) t)"

lemma OrderTreeIter_new_ok:
  assumes inv: "tree_inv ot root to R"
  shows "\<exists>it. OrderTreeIter_new ot root = Inr it \<and> iter_rest it (best_first ot to) \<and>
           iter_left it = (order_tree_type ot = Bids) \<and> iter_order_tree it = ot"
proof (cases to)
  case None
  then show ?thesis using tree_inv_root_node [OF inv]
    by (simp add: OrderTreeIter_new_def best_first_def iter_rest_def)
next
  case (Some t)
  let ?lft = "order_tree_type ot = Bids"
  have t: "tree_at (nodes ot) t" "length (handles t) \<le> length (nodes ot)"
    using inv Some handles_fuel [of ot root t R] alloc_ok_length [of ot "set (handles t) \<union> R"]
    by (auto simp: tree_inv_Some)
  obtain st l ts where f: "find_leftmost_leaf_loop (walk_fuel ot) ot ?lft [] (ct_handle t) = Inr (st, l)"
      "list_all2 (pending (nodes ot) (\<not> ?lft)) st ts" "l # concat (map (dir_leaves ?lft) ts) = dir_leaves ?lft t"
    using find_leftmost_leaf_loop_ok [of ot t "walk_fuel ot" ?lft "[]" "[]"] t by (auto simp: walk_fuel_def)
  then show ?thesis using Some tree_inv_root_node [OF inv]
    by (cases ?lft)
      (auto simp: OrderTreeIter_new_def best_first_def iter_rest_def find_leftmost_leaf_def intro!: exI [of _ ts])
qed

end
