(* ===== verification/Book_Side.thy ===== *)
theory Book_Side
  imports Order_Tree_Iter
begin

text \<open>
  One side of the book (\<^verbatim>\<open>state/orderbook/bookside.rs\<close>) and the iterator that merges its two
  order trees (\<^verbatim>\<open>state/orderbook/bookside_iterator.rs\<close>): orders at fixed prices and orders
  pegged to the oracle price. Both trees live in one array of nodes.
\<close>

section \<open>State\<close>

record BookSide =
  roots :: "OrderTreeRoot \<times> OrderTreeRoot"
  book_nodes :: OrderTreeNodes

definition component_index :: "BookSideOrderTree \<Rightarrow> bool" where
  "component_index c = (c = OraclePegged)"

definition book_root :: "BookSide \<Rightarrow> BookSideOrderTree \<Rightarrow> OrderTreeRoot" where
  "book_root bs c = sel2 (component_index c) (roots bs)"

definition book_side :: "BookSide \<Rightarrow> Side" where
  "book_side bs = order_tree_type_side (order_tree_type (book_nodes bs))"

definition book_is_full :: "BookSide \<Rightarrow> bool" where
  "book_is_full bs = is_full (book_nodes bs)"

text \<open>Write back the root of a component together with the array of nodes.\<close>

definition book_update :: "BookSide \<Rightarrow> BookSideOrderTree \<Rightarrow> OrderTreeNodes \<Rightarrow> OrderTreeRoot \<Rightarrow> BookSide" where
  "book_update bs c ot root =
     bs\<lparr>roots := upd2 (component_index c) root (roots bs), book_nodes := ot\<rparr>"

section \<open>Items of the iteration\<close>

datatype OrderState = Valid | Invalid | Skipped

record BookSideOrderHandle =
  handle_node :: NodeHandle
  handle_order_tree :: BookSideOrderTree

record BookSideIterItem =
  item_handle :: BookSideOrderHandle
  item_node :: LeafNode
  price_lots :: i64
  state :: OrderState

definition is_valid :: "BookSideIterItem \<Rightarrow> bool" where
  "is_valid it \<longleftrightarrow> state it = Valid"

definition oracle_pegged_price :: "i64 \<Rightarrow> LeafNode \<Rightarrow> Side \<Rightarrow> OrderState \<times> i64" where
  "oracle_pegged_price oracle_price_lots nd side =
     (let price_offset = oracle_pegged_price_offset (price_data nd);
          price = sat_i64 (oracle_price_lots + price_offset)
      in if 1 \<le> price \<and> price < i64_MAX then
           if peg_limit nd \<noteq> - 1 \<and> is_price_better side price (peg_limit nd)
           then (Invalid, price) else (Valid, price)
         else (Skipped, max price 1))"

definition key_for_fixed_price :: "u128 \<Rightarrow> i64 \<Rightarrow> u128 res" where
  "key_for_fixed_price key price =
     rbind (require (price \<ge> 1) Panic) (\<lambda>_.
     rbind (case fixed_price_data price of Inl _ \<Rightarrow> Inl Panic | Inr pd \<Rightarrow> Inr pd) (\<lambda>pd.
       let upper = push_bit 64 (ucast pd :: u128);
           lower = ucast (ucast key :: 64 word)
       in Inr (upper OR lower)))"

definition fixed_to_result :: "NodeHandle \<times> LeafNode \<Rightarrow> u64 \<Rightarrow> BookSideIterItem res" where
  "fixed_to_result fixed now_ts =
     (case fixed of (handle, nd) \<Rightarrow>
        rbind (is_expired nd now_ts) (\<lambda>expired.
        rbind (fixed_price_lots (price_data nd)) (\<lambda>price.
          Inr \<lparr>item_handle = \<lparr>handle_node = handle, handle_order_tree = Fixed\<rparr>,
               item_node = nd, price_lots = price,
               state = (if expired then Invalid else Valid)\<rparr>)))"

definition oracle_pegged_to_result ::
  "NodeHandle \<times> LeafNode \<times> i64 \<times> OrderState \<Rightarrow> u64 \<Rightarrow> BookSideIterItem res" where
  "oracle_pegged_to_result pegged now_ts =
     (case pegged of (handle, nd, price, st) \<Rightarrow>
        rbind (is_expired nd now_ts) (\<lambda>expired.
          Inr \<lparr>item_handle = \<lparr>handle_node = handle, handle_order_tree = OraclePegged\<rparr>,
               item_node = nd, price_lots = price,
               state = (if expired then Invalid else st)\<rparr>))"

definition rank_orders ::
  "Side \<Rightarrow> (NodeHandle \<times> LeafNode) option \<Rightarrow> (NodeHandle \<times> LeafNode) option \<Rightarrow> bool \<Rightarrow> u64 \<Rightarrow> i64 \<Rightarrow>
     BookSideIterItem option res" where
  "rank_orders side fixed oracle_pegged return_worse now_ts oracle_price_lots =
     (let pegged = map_option (\<lambda>(handle, nd).
            let (st, price) = oracle_pegged_price oracle_price_lots nd side
            in (handle, nd, price, st)) oracle_pegged
      in case (fixed, pegged) of
           (Some f, Some o') \<Rightarrow>
             (let is_better = (\<lambda>a b. if side = Bid then a > b else a < b) in
              rbind (key_for_fixed_price (leaf_key (fst (snd o'))) (fst (snd (snd o')))) (\<lambda>k.
                if is_better (leaf_key (snd f)) k \<noteq> return_worse
                then rbind (fixed_to_result f now_ts) (\<lambda>x. Inr (Some x))
                else rbind (oracle_pegged_to_result o' now_ts) (\<lambda>x. Inr (Some x))))
         | (None, Some o') \<Rightarrow> rbind (oracle_pegged_to_result o' now_ts) (\<lambda>x. Inr (Some x))
         | (Some f, None) \<Rightarrow> rbind (fixed_to_result f now_ts) (\<lambda>x. Inr (Some x))
         | (None, None) \<Rightarrow> Inr None)"

section \<open>The iterator\<close>

record BookSideIter =
  fixed_iter :: OrderTreeIter
  oracle_pegged_iter :: OrderTreeIter
  now_ts :: u64
  oracle_price_lots :: i64

definition BookSideIter_new :: "BookSide \<Rightarrow> u64 \<Rightarrow> i64 \<Rightarrow> BookSideIter res" where
  "BookSideIter_new bs now oracle_px =
     rbind (OrderTreeIter_new (book_nodes bs) (book_root bs Fixed)) (\<lambda>f.
     rbind (OrderTreeIter_new (book_nodes bs) (book_root bs OraclePegged)) (\<lambda>p.
       Inr \<lparr>fixed_iter = f, oracle_pegged_iter = p, now_ts = now, oracle_price_lots = oracle_px\<rparr>))"

text \<open>The loop at the start of \<^verbatim>\<open>next\<close> that skips pegged orders whose price is not
  representable.\<close>

fun skip_pegged :: "nat \<Rightarrow> OrderTreeIter \<Rightarrow> i64 \<Rightarrow> Side \<Rightarrow> OrderTreeIter res" where
  "skip_pegged 0 it oracle_px side = Inl OutOfFuel"
| "skip_pegged (Suc fuel) it oracle_px side =
     (case iter_peek it of
        None \<Rightarrow> Inr it
      | Some (_, o_node) \<Rightarrow>
          if fst (oracle_pegged_price oracle_px o_node side) \<noteq> Skipped then Inr it
          else rbind (iter_next it) (\<lambda>(it', _). skip_pegged fuel it' oracle_px side))"

definition book_iter_next :: "BookSideIter \<Rightarrow> (BookSideIter \<times> BookSideIterItem option) res" where
  "book_iter_next it =
     (let side = iter_side (fixed_iter it) in
      rbind (skip_pegged (walk_fuel (iter_order_tree (oracle_pegged_iter it))) (oracle_pegged_iter it)
               (oracle_price_lots it) side) (\<lambda>p.
      let it1 = it\<lparr>oracle_pegged_iter := p\<rparr> in
      rbind (rank_orders side (iter_peek (fixed_iter it1)) (iter_peek p) False
               (now_ts it) (oracle_price_lots it)) (\<lambda>better. case better of
        None \<Rightarrow> Inr (it1, None)
      | Some b \<Rightarrow>
          (case handle_order_tree (item_handle b) of
             Fixed \<Rightarrow> rbind (iter_next (fixed_iter it1)) (\<lambda>(f, _). Inr (it1\<lparr>fixed_iter := f\<rparr>, Some b))
           | OraclePegged \<Rightarrow>
               rbind (iter_next p) (\<lambda>(p', _). Inr (it1\<lparr>oracle_pegged_iter := p'\<rparr>, Some b))))))"

text \<open>\<^verbatim>\<open>iter_valid\<close>: the same iterator filtered by \<^verbatim>\<open>is_valid\<close>.\<close>

fun valid_next_loop :: "nat \<Rightarrow> BookSideIter \<Rightarrow> (BookSideIter \<times> BookSideIterItem option) res" where
  "valid_next_loop 0 it = Inl OutOfFuel"
| "valid_next_loop (Suc fuel) it =
     rbind (book_iter_next it) (\<lambda>(it', x). case x of
       None \<Rightarrow> Inr (it', None)
     | Some y \<Rightarrow> if is_valid y then Inr (it', Some y) else valid_next_loop fuel it')"

definition iter_fuel :: "BookSideIter \<Rightarrow> nat" where
  "iter_fuel it = walk_fuel (iter_order_tree (fixed_iter it)) + walk_fuel (iter_order_tree (oracle_pegged_iter it))"

definition iter_valid_next :: "BookSideIter \<Rightarrow> (BookSideIter \<times> BookSideIterItem option) res" where
  "iter_valid_next it = valid_next_loop (iter_fuel it) it"

section \<open>Operations\<close>

definition book_insert_leaf ::
  "BookSide \<Rightarrow> BookSideOrderTree \<Rightarrow> LeafNode \<Rightarrow> (BookSide \<times> NodeHandle \<times> LeafNode option) res" where
  "book_insert_leaf bs c new_leaf =
     rbind (insert_leaf (book_nodes bs) (book_root bs c) new_leaf) (\<lambda>(ot, root, h, old).
       Inr (book_update bs c ot root, h, old))"

definition book_remove_by_key ::
  "BookSide \<Rightarrow> BookSideOrderTree \<Rightarrow> u128 \<Rightarrow> (BookSide \<times> LeafNode option) res" where
  "book_remove_by_key bs c search_key =
     rbind (remove_by_key (book_nodes bs) (book_root bs c) search_key) (\<lambda>(ot, root, l).
       Inr (book_update bs c ot root, l))"

definition book_remove_worst :: "BookSide \<Rightarrow> u64 \<Rightarrow> i64 \<Rightarrow> (BookSide \<times> (LeafNode \<times> i64) option) res" where
  "book_remove_worst bs now oracle_px =
     rbind (find_worst (book_nodes bs) (book_root bs Fixed)) (\<lambda>worst_fixed.
     rbind (find_worst (book_nodes bs) (book_root bs OraclePegged)) (\<lambda>worst_pegged.
     rbind (rank_orders (book_side bs) worst_fixed worst_pegged True now oracle_px) (\<lambda>worse.
       case worse of
         None \<Rightarrow> Inr (bs, None)
       | Some w \<Rightarrow>
           rbind (book_remove_by_key bs (handle_order_tree (item_handle w)) (leaf_key (item_node w)))
             (\<lambda>(bs', n). case n of
                None \<Rightarrow> Inr (bs', None)
              | Some l \<Rightarrow> Inr (bs', Some (l, price_lots w))))))"

fun other_component :: "BookSideOrderTree \<Rightarrow> BookSideOrderTree" where
  "other_component Fixed = OraclePegged"
| "other_component OraclePegged = Fixed"

definition book_remove_one_expired ::
  "BookSide \<Rightarrow> BookSideOrderTree \<Rightarrow> u64 \<Rightarrow> (BookSide \<times> LeafNode option) res" where
  "book_remove_one_expired bs c now =
     rbind (remove_one_expired (book_nodes bs) (book_root bs c) now) (\<lambda>(ot, root, n).
       let bs1 = book_update bs c ot root in
       case n of
         Some l \<Rightarrow> Inr (bs1, Some l)
       | None \<Rightarrow>
           rbind (remove_one_expired (book_nodes bs1) (book_root bs1 (other_component c)) now)
             (\<lambda>(ot', root', n'). Inr (book_update bs1 (other_component c) ot' root', n')))"

section \<open>Queries\<close>

definition quantity_at_price :: "BookSide \<Rightarrow> i64 \<Rightarrow> u64 \<Rightarrow> i64 \<Rightarrow> i64 res" where
  "quantity_at_price bs limit_price_lots now oracle_px =
     rbind (BookSideIter_new bs now oracle_px) (\<lambda>it.
     rbind (for_loop (iter_fuel it) iter_valid_next (\<lambda>item sum.
              if is_price_better (book_side bs) limit_price_lots (price_lots item) then Inr (Inr sum)
              else rbind (chk_i64 (sum + quantity (item_node item))) (\<lambda>s. Inr (Inl s))) it 0)
       (\<lambda>r. Inr (case r of Inl s \<Rightarrow> s | Inr s \<Rightarrow> s)))"

definition best_price :: "BookSide \<Rightarrow> u64 \<Rightarrow> i64 \<Rightarrow> i64 option res" where
  "best_price bs now oracle_px =
     rbind (BookSideIter_new bs now oracle_px) (\<lambda>it.
     rbind (iter_valid_next it) (\<lambda>(_, x). Inr (map_option price_lots x)))"

definition impact_price :: "BookSide \<Rightarrow> i64 \<Rightarrow> u64 \<Rightarrow> i64 \<Rightarrow> i64 option res" where
  "impact_price bs qty now oracle_px =
     rbind (BookSideIter_new bs now oracle_px) (\<lambda>it.
     rbind (for_loop (iter_fuel it) iter_valid_next (\<lambda>order sum.
              rbind (chk_i64 (sum + quantity (item_node order))) (\<lambda>sum'.
                if sum' \<ge> qty then Inr (Inr (price_lots order)) else Inr (Inl sum'))) it 0)
       (\<lambda>r. Inr (case r of Inl _ \<Rightarrow> None | Inr p \<Rightarrow> Some p)))"

text \<open>The bodies of the loops of \<^verbatim>\<open>matched_amount\<close> and \<^verbatim>\<open>matched_quantity\<close>.\<close>

definition matched_amount_step :: "i64 \<Rightarrow> BookSideIterItem \<Rightarrow> i64 \<times> i64 \<Rightarrow> ((i64 \<times> i64) + i64) res" where
  "matched_amount_step qty order sums =
     (case sums of (sum_qty, sum_amt) \<Rightarrow>
        rbind (chk_i64 (sum_qty + quantity (item_node order))) (\<lambda>sum_qty'.
        rbind (chk_i64 (quantity (item_node order) * price_lots order)) (\<lambda>amt.
        rbind (chk_i64 (sum_amt + amt)) (\<lambda>sum_amt'.
        rbind (chk_i64 (sum_qty' - qty)) (\<lambda>extra_qty.
          if extra_qty \<ge> 0 then
            rbind (chk_i64 (extra_qty * price_lots order)) (\<lambda>extra.
            rbind (chk_i64 (sum_amt' - extra)) (\<lambda>a. Inr (Inr a)))
          else Inr (Inl (sum_qty', sum_amt')))))))"

definition matched_quantity_step :: "i64 \<Rightarrow> BookSideIterItem \<Rightarrow> i64 \<times> i64 \<Rightarrow> ((i64 \<times> i64) + i64) res" where
  "matched_quantity_step amount order sums =
     (case sums of (sum_qty, sum_amt) \<Rightarrow>
        rbind (chk_i64 (sum_qty + quantity (item_node order))) (\<lambda>sum_qty'.
        rbind (chk_i64 (quantity (item_node order) * price_lots order)) (\<lambda>amt.
        rbind (chk_i64 (sum_amt + amt)) (\<lambda>sum_amt'.
        rbind (chk_i64 (sum_amt' - amount)) (\<lambda>extra_amt.
          if extra_amt \<ge> 0 then
            rbind (chk_i64 (extra_amt + price_lots order)) (\<lambda>e1.
            rbind (chk_i64 (e1 - 1)) (\<lambda>e2.
            rbind (div_i64 e2 (price_lots order)) (\<lambda>d.
            rbind (chk_i64 (sum_qty' - d)) (\<lambda>q. Inr (Inr q)))))
          else Inr (Inl (sum_qty', sum_amt')))))))"

definition matched_amount :: "BookSide \<Rightarrow> i64 \<Rightarrow> u64 \<Rightarrow> i64 \<Rightarrow> i64 option res" where
  "matched_amount bs qty now oracle_px =
     (if qty \<le> 0 then Inr None else
     rbind (BookSideIter_new bs now oracle_px) (\<lambda>it.
     rbind (for_loop (iter_fuel it) iter_valid_next (matched_amount_step qty) it (0, 0))
       (\<lambda>r. Inr (case r of Inl _ \<Rightarrow> None | Inr a \<Rightarrow> Some a))))"

definition matched_quantity :: "BookSide \<Rightarrow> i64 \<Rightarrow> u64 \<Rightarrow> i64 \<Rightarrow> i64 option res" where
  "matched_quantity bs amount now oracle_px =
     (if amount \<le> 0 then Inr None else
     rbind (BookSideIter_new bs now oracle_px) (\<lambda>it.
     rbind (for_loop (iter_fuel it) iter_valid_next (matched_quantity_step amount) it (0, 0))
       (\<lambda>r. Inr (case r of Inl _ \<Rightarrow> None | Inr q \<Rightarrow> Some q))))"

end
