(* ===== verification/Book_Side_Inv.thy ===== *)
theory Book_Side_Inv
  imports Book_Side
begin

text \<open>
  The invariant of a book side: two well-formed trees with disjoint slots in one array,
  and the operations that change it. Seen from outside a book side is a finite map from
  keys to orders for each of its two components; \<open>order_store\<close> is that contract, proved
  for the model's operations in \<open>fixed\<close> and \<open>pegged\<close>.
\<close>

section \<open>Reading the trees back from the array\<close>

fun read_tree :: "nat \<Rightarrow> AnyNode list \<Rightarrow> NodeHandle \<Rightarrow> ctree option" where
  "read_tree 0 ns h = None"
| "read_tree (Suc fuel) ns h =
     (if h < length ns then
        (case ns ! h of
           Leaf l \<Rightarrow> Some (CLeaf h l)
         | Inner n \<Rightarrow>
             (case (read_tree fuel ns (sel2 False (children n)), read_tree fuel ns (sel2 True (children n))) of
                (Some a, Some b) \<Rightarrow> Some (CInner h n a b)
              | _ \<Rightarrow> None)
         | _ \<Rightarrow> None)
      else None)"

definition tree_of :: "OrderTreeNodes \<Rightarrow> OrderTreeRoot \<Rightarrow> ctree option" where
  "tree_of ot root =
     (case root_node root of None \<Rightarrow> None | Some h \<Rightarrow> read_tree (walk_fuel ot) (nodes ot) h)"

lemma read_tree_at: "tree_at ns t \<Longrightarrow> length (handles t) \<le> fuel \<Longrightarrow> read_tree fuel ns (ct_handle t) = Some t"
proof (induction t arbitrary: fuel)
  case (CLeaf h l)
  then obtain f where "fuel = Suc f" by (cases fuel) auto
  with CLeaf show ?case by simp
next
  case (CInner h n a b)
  then obtain f where f: "fuel = Suc f" by (cases fuel) auto
  with CInner.IH(1,2) [of f] CInner.prems show ?case by simp
qed

lemma tree_of_inv: "tree_inv ot root to R \<Longrightarrow> tree_of ot root = to"
proof (cases to)
  case None
  assume "tree_inv ot root to R"
  with None show ?thesis using tree_inv_root_node [of ot root to R] by (simp add: tree_of_def)
next
  case (Some t)
  assume inv: "tree_inv ot root to R"
  with Some have "tree_at (nodes ot) t" "length (handles t) \<le> walk_fuel ot"
    using tree_inv_walk_fuel [of ot root t R] by (simp_all add: tree_inv_Some)
  then have "read_tree (walk_fuel ot) (nodes ot) (ct_handle t) = Some t" by (rule read_tree_at)
  with Some inv show ?thesis using tree_inv_root_node [OF inv] by (simp add: tree_of_def)
qed

text \<open>The orders of a tree as a map from keys.\<close>

definition order_map :: "ctree option \<Rightarrow> u128 \<Rightarrow> LeafNode option" where
  "order_map to = (case to of None \<Rightarrow> Map.empty | Some t \<Rightarrow> map_of (map (\<lambda>(h, l). (leaf_key l, l)) (leaves t)))"

definition tree_crit :: "ctree option \<Rightarrow> bool" where
  "tree_crit to = (case to of None \<Rightarrow> True | Some t \<Rightarrow> crit_ok t)"

lemma tree_inv_crit: "tree_inv ot root to R \<Longrightarrow> tree_crit to"
  by (cases to) (auto simp: tree_crit_def tree_inv_Some)

lemma order_map_eq:
  assumes "tree_crit to"
  shows "order_map to k = Some l \<longleftrightarrow> l \<in> orders to \<and> leaf_key l = k"
proof (cases to)
  case (Some t)
  then have ok: "crit_ok t" using assms by (simp add: tree_crit_def)
  have "map fst (map (\<lambda>(h, l). (leaf_key l, l)) (leaves t)) = map (leaf_key \<circ> snd) (leaves t)" by auto
  then have "distinct (map fst (map (\<lambda>(h, l). (leaf_key l, l)) (leaves t)))"
    using leaves_distinct_keys [OF ok] by (simp only:)
  then have "order_map to k = Some l \<longleftrightarrow> (k, l) \<in> set (map (\<lambda>(h, l). (leaf_key l, l)) (leaves t))"
    unfolding order_map_def Some by (simp only: option.case map_of_eq_Some_iff)
  also have "\<dots> \<longleftrightarrow> l \<in> orders to \<and> leaf_key l = k" unfolding Some by force
  finally show ?thesis .
qed (simp add: order_map_def)

lemma order_map_None:
  assumes "tree_crit to"
  shows "order_map to k = None \<longleftrightarrow> (\<forall>x \<in> orders to. leaf_key x \<noteq> k)"
  using order_map_eq [OF assms, of k] by (metis not_None_eq)

lemma order_map_result:
  assumes "tree_crit to"
    and "case r of None \<Rightarrow> \<forall>x \<in> orders to. leaf_key x \<noteq> k | Some l \<Rightarrow> l \<in> orders to \<and> leaf_key l = k"
  shows "r = order_map to k"
proof (cases r)
  case None
  with assms(2) order_map_None [OF assms(1), of k] show ?thesis by simp
next
  case (Some l)
  with assms(2) order_map_eq [OF assms(1), of k l] show ?thesis by simp
qed

lemma order_map_unique: "tree_crit to \<Longrightarrow> l \<in> orders to \<Longrightarrow> order_map to (leaf_key l) = Some l"
  using order_map_eq by blast

lemma order_map_ext:
  assumes "tree_crit to"
    and "\<And>k l. l \<in> orders to \<and> leaf_key l = k \<longleftrightarrow> f k = Some l"
  shows "order_map to = f"
proof
  fix k
  have "\<And>l. order_map to k = Some l \<longleftrightarrow> f k = Some l"
    using assms(2) order_map_eq [OF assms(1)] by blast
  then show "order_map to k = f k" by (metis option.exhaust)
qed

lemma order_map_inserted:
  assumes "tree_crit to" "tree_crit to'" "orders to' = inserted l (orders to)"
  shows "order_map to' = (order_map to)(leaf_key l \<mapsto> l)"
  by (rule order_map_ext [OF assms(2)])
    (auto simp: assms(3) inserted_def order_map_eq [OF assms(1)])

lemma order_map_removed:
  assumes "tree_crit to" "tree_crit to'" "orders to' = {x \<in> orders to. leaf_key x \<noteq> k}"
  shows "order_map to' = (order_map to)(k := None)"
  by (rule order_map_ext [OF assms(2)]) (auto simp: assms(3) order_map_eq [OF assms(1)])

section \<open>The invariant\<close>

definition component :: "'a \<times> 'a \<Rightarrow> BookSideOrderTree \<Rightarrow> 'a" where
  "component p c = sel2 (component_index c) p"

definition component_upd :: "BookSideOrderTree \<Rightarrow> 'a \<Rightarrow> 'a \<times> 'a \<Rightarrow> 'a \<times> 'a" where
  "component_upd c x p = upd2 (component_index c) x p"

text \<open>The price of an order at a fixed price is a positive \<^verbatim>\<open>i64\<close>.\<close>

definition fixed_ok :: "LeafNode \<Rightarrow> bool" where
  "fixed_ok l \<longleftrightarrow> 1 \<le> uint (price_data l) \<and> uint (price_data l) < 2 ^ 63"

definition component_ok :: "BookSideOrderTree \<Rightarrow> LeafNode \<Rightarrow> bool" where
  "component_ok c l \<longleftrightarrow> leaf_ok l \<and> (c = Fixed \<longrightarrow> fixed_ok l)"

definition book_inv :: "BookSide \<Rightarrow> ctree option \<times> ctree option \<Rightarrow> bool" where
  "book_inv bs ts \<longleftrightarrow>
     tree_inv (book_nodes bs) (book_root bs Fixed) (component ts Fixed) (tree_slots (component ts OraclePegged)) \<and>
     tree_inv (book_nodes bs) (book_root bs OraclePegged) (component ts OraclePegged) (tree_slots (component ts Fixed)) \<and>
     (\<forall>l \<in> orders (component ts Fixed). fixed_ok l)"

definition trees_of :: "BookSide \<Rightarrow> ctree option \<times> ctree option" where
  "trees_of bs = (tree_of (book_nodes bs) (book_root bs Fixed), tree_of (book_nodes bs) (book_root bs OraclePegged))"

definition book_ok :: "BookSide \<Rightarrow> bool" where
  "book_ok bs \<longleftrightarrow> book_inv bs (trees_of bs)"

text \<open>The abstract value of a component.\<close>

definition book_map :: "BookSideOrderTree \<Rightarrow> BookSide \<Rightarrow> u128 \<Rightarrow> LeafNode option" where
  "book_map c bs = order_map (component (trees_of bs) c)"

definition book_orders :: "BookSideOrderTree \<Rightarrow> BookSide \<Rightarrow> LeafNode set" where
  "book_orders c bs = orders (component (trees_of bs) c)"

lemma component_simps [simp]:
  "component (x, y) Fixed = x" "component (x, y) OraclePegged = y"
  "component (component_upd c x p) c = x" "component (component_upd c x p) (other_component c) = component p (other_component c)"
  by (cases c; cases p; simp add: component_def component_upd_def component_index_def)+

lemma other_component_simps [simp]:
  "other_component (other_component c) = c" "other_component c \<noteq> c" "c \<noteq> other_component c"
  by (cases c; simp)+

lemma book_root_update [simp]:
  "book_root (book_update bs c ot root) c = root"
  "book_root (book_update bs c ot root) (other_component c) = book_root bs (other_component c)"
  "book_nodes (book_update bs c ot root) = ot"
  by (cases c; simp add: book_update_def book_root_def component_index_def sel2_def upd2_def)+

lemma book_inv_comp:
  "book_inv bs ts \<longleftrightarrow>
     tree_inv (book_nodes bs) (book_root bs c) (component ts c) (tree_slots (component ts (other_component c))) \<and>
     tree_inv (book_nodes bs) (book_root bs (other_component c)) (component ts (other_component c)) (tree_slots (component ts c)) \<and>
     (\<forall>l \<in> orders (component ts Fixed). fixed_ok l)"
  by (cases c) (auto simp: book_inv_def)

lemma book_inv_trees: "book_inv bs ts \<Longrightarrow> trees_of bs = ts"
  using tree_of_inv [of "book_nodes bs"] by (cases ts) (fastforce simp: book_inv_def trees_of_def)

lemma book_inv_ok: "book_inv bs ts \<Longrightarrow> book_ok bs"
  using book_inv_trees by (fastforce simp: book_ok_def)

text \<open>Changing one tree leaves the other one in place.\<close>

lemma tree_inv_frame:
  assumes "tree_inv ot root to (tree_slots to2)" "tree_inv ot' root2 to2' (tree_slots to)"
    and "same_slots (tree_slots to) ot ot'"
  shows "tree_inv ot' root to (tree_slots to2')"
proof (cases to)
  case None
  then show ?thesis using assms(1,2) by (cases to2') (auto simp: tree_inv_def)
next
  case (Some t)
  have al: "alloc_ok ot' (set (handles t) \<union> tree_slots to2')" "set (handles t) \<inter> tree_slots to2' = {}"
    using assms(2) Some by (simp_all add: tree_inv_def Un_commute Int_commute)
  have I: "tree_at (nodes ot) t" "alloc_ok ot (set (handles t) \<union> tree_slots to2)"
    using assms(1) Some by (simp_all add: tree_inv_Some)
  have "tree_at (nodes ot') t"
    by (rule tree_at_cong [OF I(1)])
      (use alloc_ok_length [OF al(1)] alloc_ok_length [OF I(2)] assms(3) Some in \<open>auto simp: same_slots_def\<close>)
  then show ?thesis using assms(1) al Some by (simp add: tree_inv_Some)
qed

lemma book_inv_update:
  assumes inv: "book_inv bs ts"
    and new: "tree_inv ot root to (tree_slots (component ts (other_component c)))"
    and same: "same_slots (tree_slots (component ts (other_component c))) (book_nodes bs) ot"
    and fixed: "c = Fixed \<Longrightarrow> \<forall>l \<in> orders to. fixed_ok l"
  shows "book_inv (book_update bs c ot root) (component_upd c to ts)"
proof -
  have "tree_inv ot (book_root bs (other_component c)) (component ts (other_component c)) (tree_slots to)"
    using inv new same unfolding book_inv_comp [where c = c] by (blast intro: tree_inv_frame)
  moreover have "\<forall>l \<in> orders (component (component_upd c to ts) Fixed). fixed_ok l"
    using inv fixed component_simps(4) [of c to ts] by (cases c) (simp_all add: book_inv_def)
  ultimately show ?thesis using new by (simp add: book_inv_comp [where c = c])
qed

section \<open>The operations\<close>

lemma book_room: "book_inv bs ts \<Longrightarrow> \<not> book_is_full bs \<Longrightarrow>
   card (tree_slots (component ts c) \<union> tree_slots (component ts (other_component c))) + 2 \<le> MAX_ORDERTREE_NODES"
  unfolding book_inv_comp [where c = c] book_is_full_def tree_inv_def by (blast intro: not_full_room)

lemma insert_post_book:
  assumes inv: "book_inv bs ts" and l: "component_ok c l"
    and post: "insert_post (book_nodes bs) (component ts c) (tree_slots (component ts (other_component c))) l (ot, root, h, old)"
  shows "old = order_map (component ts c) (leaf_key l) \<and>
     (\<exists>to'. book_inv (book_update bs c ot root) (component_upd c to' ts) \<and>
        book_side (book_update bs c ot root) = book_side bs \<and> orders to' = inserted l (orders (component ts c)))"
proof -
  let ?to = "component ts c" and ?R = "tree_slots (component ts (other_component c))"
  have ti: "tree_inv (book_nodes bs) (book_root bs c) ?to ?R"
    using inv unfolding book_inv_comp [where c = c] by blast
  obtain t' where t': "tree_inv ot root (Some t') ?R" "same_slots ?R (book_nodes bs) ot"
      "orders (Some t') = inserted l (orders ?to)"
      "case old of None \<Rightarrow> \<forall>x \<in> orders ?to. leaf_key x \<noteq> leaf_key l
       | Some l' \<Rightarrow> l' \<in> orders ?to \<and> leaf_key l' = leaf_key l"
    using post by (auto simp: insert_post_def)
  have "old = order_map ?to (leaf_key l)" by (rule order_map_result [OF tree_inv_crit [OF ti] t'(4)])
  moreover have "book_inv (book_update bs c ot root) (component_upd c (Some t') ts)"
  proof (rule book_inv_update [OF inv t'(1,2)])
    assume "c = Fixed"
    then show "\<forall>x \<in> orders (Some t'). fixed_ok x"
      unfolding t'(3) using inv l by (auto simp: book_inv_def inserted_def component_ok_def)
  qed
  moreover have "book_side (book_update bs c ot root) = book_side bs"
    using t'(2) by (simp add: book_side_def same_slots_def)
  ultimately show ?thesis using t'(3) by blast
qed

lemma book_insert_leaf_done:
  assumes inv: "book_inv bs ts" and l: "component_ok c l" and r: "book_insert_leaf bs c l = Inr (bs', h, old)"
  shows "old = order_map (component ts c) (leaf_key l) \<and>
     (\<exists>to'. book_inv bs' (component_upd c to' ts) \<and> book_side bs' = book_side bs \<and>
        orders to' = inserted l (orders (component ts c)))"
proof -
  obtain ot root where ins: "insert_leaf (book_nodes bs) (book_root bs c) l = Inr (ot, root, h, old)" "bs' = book_update bs c ot root"
    using r by (auto simp: book_insert_leaf_def rbind_eq_Inr)
  have ti: "tree_inv (book_nodes bs) (book_root bs c) (component ts c) (tree_slots (component ts (other_component c)))"
    using inv unfolding book_inv_comp [where c = c] by blast
  have "leaf_ok l" using l by (simp add: component_ok_def)
  from insert_leaf_spec [OF ti this]
  have "insert_post (book_nodes bs) (component ts c) (tree_slots (component ts (other_component c))) l (ot, root, h, old)"
    by (simp add: ins(1) insert_spec_def)
  from insert_post_book [OF inv l this] show ?thesis by (simp add: ins(2))
qed

lemma book_insert_leaf_ok:
  assumes inv: "book_inv bs ts" and l: "component_ok c l" and room: "\<not> book_is_full bs"
  shows "\<exists>bs' h to'. book_insert_leaf bs c l = Inr (bs', h, order_map (component ts c) (leaf_key l)) \<and>
           book_inv bs' (component_upd c to' ts) \<and> book_side bs' = book_side bs \<and>
           orders to' = inserted l (orders (component ts c))"
proof -
  have ti: "tree_inv (book_nodes bs) (book_root bs c) (component ts c) (tree_slots (component ts (other_component c)))"
    using inv unfolding book_inv_comp [where c = c] by blast
  have "leaf_ok l" using l by (simp add: component_ok_def)
  then obtain ot root h old where "insert_leaf (book_nodes bs) (book_root bs c) l = Inr (ot, root, h, old)"
    using insert_leaf_ok [OF ti _ book_room [OF inv room]] by (metis prod_cases4)
  then have "book_insert_leaf bs c l = Inr (book_update bs c ot root, h, old)" by (simp add: book_insert_leaf_def)
  with book_insert_leaf_done [OF inv l this] show ?thesis by blast
qed

lemma remove_post_book:
  assumes inv: "book_inv bs ts"
    and post: "remove_post (book_nodes bs) (component ts c) (tree_slots (component ts (other_component c))) k (ot, root, rm)"
  shows "rm = order_map (component ts c) k \<and>
     (\<exists>to'. book_inv (book_update bs c ot root) (component_upd c to' ts) \<and>
        book_side (book_update bs c ot root) = book_side bs \<and>
        orders to' = {x \<in> orders (component ts c). leaf_key x \<noteq> k})"
proof -
  let ?to = "component ts c" and ?R = "tree_slots (component ts (other_component c))"
  have crit: "tree_crit ?to" using inv tree_inv_crit unfolding book_inv_comp [where c = c] by blast
  obtain to' where to': "tree_inv ot root to' ?R" "same_slots ?R (book_nodes bs) ot"
      "orders to' = {x \<in> orders ?to. leaf_key x \<noteq> k}"
      "case rm of None \<Rightarrow> \<forall>x \<in> orders ?to. leaf_key x \<noteq> k | Some l \<Rightarrow> l \<in> orders ?to \<and> leaf_key l = k"
    using post by (auto simp: remove_post_def)
  have "rm = order_map ?to k" by (rule order_map_result [OF crit to'(4)])
  moreover have "book_inv (book_update bs c ot root) (component_upd c to' ts)"
    by (rule book_inv_update [OF inv to'(1,2)]) (use to'(3) inv in \<open>auto simp: book_inv_def\<close>)
  ultimately show ?thesis using to'(2,3) by (auto simp: book_side_def same_slots_def)
qed

lemma book_remove_by_key_ok:
  assumes inv: "book_inv bs ts"
  shows "\<exists>bs' to'. book_remove_by_key bs c k = Inr (bs', order_map (component ts c) k) \<and>
           book_inv bs' (component_upd c to' ts) \<and> book_side bs' = book_side bs \<and>
           orders to' = {x \<in> orders (component ts c). leaf_key x \<noteq> k}"
proof -
  have ti: "tree_inv (book_nodes bs) (book_root bs c) (component ts c) (tree_slots (component ts (other_component c)))"
    using inv unfolding book_inv_comp [where c = c] by blast
  obtain ot root rm where r: "remove_by_key (book_nodes bs) (book_root bs c) k = Inr (ot, root, rm)"
      "remove_post (book_nodes bs) (component ts c) (tree_slots (component ts (other_component c))) k (ot, root, rm)"
    using remove_by_key_ok [OF ti] by (metis prod_cases3)
  with remove_post_book [OF inv r(2)] show ?thesis by (auto simp: book_remove_by_key_def)
qed

lemma book_update_same [simp]: "book_update bs c (book_nodes bs) (book_root bs c) = bs"
  by (cases c) (simp_all add: book_update_def book_root_def component_index_def sel2_def upd2_def)

text \<open>The first expiring order of component \<open>c\<close> was removed.\<close>

definition expired_removed ::
  "BookSide \<Rightarrow> ctree option \<times> ctree option \<Rightarrow> BookSideOrderTree \<Rightarrow> u64 \<Rightarrow> BookSide \<Rightarrow> LeafNode \<Rightarrow> bool" where
  "expired_removed bs ts c now bs' l \<longleftrightarrow>
     leaf_expiry l < now \<and> (\<forall>x \<in> orders (component ts c). leaf_expiry l \<le> leaf_expiry x) \<and>
     order_map (component ts c) (leaf_key l) = Some l \<and> book_side bs' = book_side bs \<and>
     (\<exists>to'. book_inv bs' (component_upd c to' ts) \<and>
            orders to' = {x \<in> orders (component ts c). leaf_key x \<noteq> leaf_key l})"

lemma remove_one_expired_book:
  assumes inv: "book_inv bs ts"
  shows "(\<exists>ot root l. remove_one_expired (book_nodes bs) (book_root bs c) now = Inr (ot, root, Some l) \<and>
            expired_removed bs ts c now (book_update bs c ot root) l) \<or>
         (remove_one_expired (book_nodes bs) (book_root bs c) now = Inr (book_nodes bs, book_root bs c, None) \<and>
            (\<forall>x \<in> orders (component ts c). now \<le> leaf_expiry x))"
proof -
  have ti: "tree_inv (book_nodes bs) (book_root bs c) (component ts c) (tree_slots (component ts (other_component c)))"
    using inv unfolding book_inv_comp [where c = c] by blast
  show ?thesis
  proof (cases "\<exists>x \<in> orders (component ts c). leaf_expiry x < now")
    case True
    then obtain ot root l where r: "remove_one_expired (book_nodes bs) (book_root bs c) now = Inr (ot, root, Some l)"
        "remove_post (book_nodes bs) (component ts c) (tree_slots (component ts (other_component c)))
           (leaf_key l) (ot, root, Some l)"
        "leaf_expiry l < now" "\<forall>x \<in> orders (component ts c). leaf_expiry l \<le> leaf_expiry x"
      using remove_one_expired_ok [OF ti, of now] unfolding if_P [OF True] by blast
    have "expired_removed bs ts c now (book_update bs c ot root) l"
      unfolding expired_removed_def using r(3,4) remove_post_book [OF inv r(2)] by (metis (full_types))
    with r(1) show ?thesis by blast
  next
    case False
    with remove_one_expired_ok [OF ti, of now] show ?thesis unfolding if_not_P [OF False] by (auto simp: not_less)
  qed
qed

lemma book_remove_one_expired_ok:
  assumes inv: "book_inv bs ts"
  shows "(\<exists>bs' l d. book_remove_one_expired bs c now = Inr (bs', Some l) \<and> expired_removed bs ts d now bs' l) \<or>
         (book_remove_one_expired bs c now = Inr (bs, None) \<and>
            (\<forall>d. \<forall>x \<in> orders (component ts d). now \<le> leaf_expiry x))"
  using remove_one_expired_book [OF inv, of c now]
proof (elim disjE exE conjE)
  fix ot root l
  assume "remove_one_expired (book_nodes bs) (book_root bs c) now = Inr (ot, root, Some l)"
    "expired_removed bs ts c now (book_update bs c ot root) l"
  then show ?thesis by (auto simp: book_remove_one_expired_def)
next
  let ?d = "other_component c"
  assume 1: "remove_one_expired (book_nodes bs) (book_root bs c) now = Inr (book_nodes bs, book_root bs c, None)"
    and c: "\<forall>x \<in> orders (component ts c). now \<le> leaf_expiry x"
  show ?thesis using remove_one_expired_book [OF inv, of ?d now]
  proof (elim disjE exE conjE)
    fix ot root l
    assume "remove_one_expired (book_nodes bs) (book_root bs ?d) now = Inr (ot, root, Some l)"
      "expired_removed bs ts ?d now (book_update bs ?d ot root) l"
    with 1 show ?thesis by (auto simp: book_remove_one_expired_def)
  next
    assume 2: "remove_one_expired (book_nodes bs) (book_root bs ?d) now = Inr (book_nodes bs, book_root bs ?d, None)"
      and d: "\<forall>x \<in> orders (component ts ?d). now \<le> leaf_expiry x"
    have "\<forall>x \<in> orders (component ts e). now \<le> leaf_expiry x" for e
      using c d by (cases c; cases e) auto
    with 1 2 show ?thesis by (simp add: book_remove_one_expired_def)
  qed
qed

section \<open>Capacity\<close>

lemma handles_leaves: "length (handles t) + 1 = 2 * length (leaves t)"
  by (induction t) auto

lemma orders_card: "tree_crit (Some t) \<Longrightarrow> card (orders (Some t)) = length (leaves t)"
proof -
  assume "tree_crit (Some t)"
  then have "distinct (map (leaf_key \<circ> snd) (leaves t))"
    by (simp add: tree_crit_def leaves_distinct_keys)
  then have "distinct (map snd (leaves t))" by (metis distinct_map map_map)
  then have "card (set (map snd (leaves t))) = length (map snd (leaves t))" by (rule distinct_card)
  then show ?thesis by simp
qed

lemma slots_orders:
  assumes "tree_inv ot root to R"
  shows "card (tree_slots to) \<le> 2 * card (orders to)"
proof (cases to)
  case (Some t)
  then have "card (tree_slots to) = length (handles t)" "card (orders to) = length (leaves t)"
    using assms orders_card [of t] tree_inv_crit [OF assms] by (auto simp: tree_inv_Some distinct_card)
  with handles_leaves [of t] show ?thesis by simp
qed simp

text \<open>Fewer than 511 orders always leave room for another one.\<close>

lemma book_not_full:
  assumes inv: "book_inv bs ts"
    and few: "card (orders (component ts Fixed)) + card (orders (component ts OraclePegged)) < 511"
  shows "\<not> book_is_full bs"
proof
  assume full: "book_is_full bs"
  let ?f = "tree_slots (component ts Fixed)" and ?p = "tree_slots (component ts OraclePegged)"
  have al: "alloc_ok (book_nodes bs) (?f \<union> ?p)" using inv by (auto simp: book_inv_def tree_inv_def)
  have "card (?f \<union> ?p) \<le> card ?f + card ?p" by (rule card_Un_le)
  also have "\<dots> \<le> 2 * card (orders (component ts Fixed)) + 2 * card (orders (component ts OraclePegged))"
    using inv slots_orders unfolding book_inv_def by (meson add_mono)
  finally have "card (?f \<union> ?p) < 1022" using few by simp
  moreover have "card (?f \<union> ?p) + 1 \<ge> 1023"
    using full alloc_ok_used(3) [OF al] alloc_ok_length [OF al]
    by (simp add: book_is_full_def is_full_def MAX_ORDERTREE_NODES_def)
  ultimately show False by simp
qed

section \<open>A book side as a store of orders\<close>

text \<open>
  The contract of a store of orders, for its clients: it is a finite map from keys to
  orders, insertion overwrites and returns what it replaced, removal returns what it
  removed, and neither fails while the store has room.
\<close>

locale order_store =
  fixes ok :: "'s \<Rightarrow> bool" and full :: "'s \<Rightarrow> bool" and good :: "LeafNode \<Rightarrow> bool"
    and abs :: "'s \<Rightarrow> u128 \<Rightarrow> LeafNode option"
    and ins :: "'s \<Rightarrow> LeafNode \<Rightarrow> ('s \<times> NodeHandle \<times> LeafNode option) res"
    and del :: "'s \<Rightarrow> u128 \<Rightarrow> ('s \<times> LeafNode option) res"
  assumes ins_map: "ok s \<Longrightarrow> good l \<Longrightarrow> \<not> full s \<Longrightarrow>
      \<exists>s' h. ins s l = Inr (s', h, abs s (leaf_key l)) \<and> ok s' \<and> abs s' = (abs s)(leaf_key l \<mapsto> l)"
    and del_map: "ok s \<Longrightarrow> \<exists>s'. del s k = Inr (s', abs s k) \<and> ok s' \<and> abs s' = (abs s)(k := None)"
begin

lemma ins_del:
  assumes "ok s" "good l" "\<not> full s" "abs s (leaf_key l) = None"
  shows "\<exists>s1 h s2. ins s l = Inr (s1, h, None) \<and> del s1 (leaf_key l) = Inr (s2, Some l) \<and>
           ok s2 \<and> abs s2 = abs s"
proof -
  obtain s1 h where s1: "ins s l = Inr (s1, h, None)" "ok s1" "abs s1 = (abs s)(leaf_key l \<mapsto> l)"
    using ins_map [OF assms(1-3)] assms(4) by auto
  obtain s2 where s2: "del s1 (leaf_key l) = Inr (s2, abs s1 (leaf_key l))" "ok s2" "abs s2 = (abs s1)(leaf_key l := None)"
    using del_map [OF s1(2)] by blast
  have "abs s2 = abs s" using s1(3) s2(3) assms(4) by auto
  with s1 s2 show ?thesis by simp
qed

lemma del_del:
  assumes "ok s"
  shows "\<exists>s1 s2. del s k = Inr (s1, abs s k) \<and> del s1 k = Inr (s2, None) \<and> abs s2 = abs s1"
proof -
  obtain s1 where s1: "del s k = Inr (s1, abs s k)" "ok s1" "abs s1 = (abs s)(k := None)"
    using del_map [OF assms] by blast
  moreover obtain s2 where "del s1 k = Inr (s2, abs s1 k)" "abs s2 = (abs s1)(k := None)"
    using del_map [OF s1(2)] by blast
  ultimately show ?thesis by simp
qed

end

lemma book_map_inv: "book_inv bs ts \<Longrightarrow> book_map c bs = order_map (component ts c)"
  by (simp add: book_map_def book_inv_trees)

lemma book_inv_crit: "book_inv bs ts \<Longrightarrow> tree_crit (component ts c)"
  using tree_inv_crit unfolding book_inv_comp [where c = c] by blast

lemma book_insert_done:
  assumes ok: "book_ok bs" and l: "component_ok c l" and r: "book_insert_leaf bs c l = Inr (bs', h, old)"
  shows "old = book_map c bs (leaf_key l)" "book_ok bs'" "book_map c bs' = (book_map c bs)(leaf_key l \<mapsto> l)"
    "book_map (other_component c) bs' = book_map (other_component c) bs" "book_side bs' = book_side bs"
proof -
  let ?ts = "trees_of bs"
  have inv: "book_inv bs ?ts" using ok by (simp add: book_ok_def)
  obtain to' where d: "old = order_map (component ?ts c) (leaf_key l)" "book_inv bs' (component_upd c to' ?ts)"
      "book_side bs' = book_side bs" "orders to' = inserted l (orders (component ?ts c))"
    using book_insert_leaf_done [OF inv l r] by blast
  have "tree_crit to'" using book_inv_crit [OF d(2), of c] by simp
  then have "order_map to' = (order_map (component ?ts c))(leaf_key l \<mapsto> l)"
    by (rule order_map_inserted [OF book_inv_crit [OF inv] _ d(4)])
  with d show "old = book_map c bs (leaf_key l)" "book_ok bs'" "book_map c bs' = (book_map c bs)(leaf_key l \<mapsto> l)"
    "book_map (other_component c) bs' = book_map (other_component c) bs" "book_side bs' = book_side bs"
    by (simp_all add: book_map_inv [OF d(2)] book_map_inv [OF inv] book_inv_ok [OF d(2)])
qed

lemma book_insert_map:
  assumes "book_ok bs" "component_ok c l" "\<not> book_is_full bs"
  shows "\<exists>bs' h. book_insert_leaf bs c l = Inr (bs', h, book_map c bs (leaf_key l)) \<and> book_ok bs' \<and>
           book_map c bs' = (book_map c bs)(leaf_key l \<mapsto> l) \<and>
           book_map (other_component c) bs' = book_map (other_component c) bs \<and> book_side bs' = book_side bs"
proof -
  have "book_inv bs (trees_of bs)" using assms(1) by (simp add: book_ok_def)
  then obtain bs' h where r: "book_insert_leaf bs c l = Inr (bs', h, order_map (component (trees_of bs) c) (leaf_key l))"
    using book_insert_leaf_ok assms(2,3) by blast
  with book_insert_done [OF assms(1,2) r] show ?thesis by (auto simp: book_map_def)
qed

lemma book_remove_map:
  assumes "book_ok bs"
  shows "\<exists>bs'. book_remove_by_key bs c k = Inr (bs', book_map c bs k) \<and> book_ok bs' \<and>
           book_map c bs' = (book_map c bs)(k := None) \<and>
           book_map (other_component c) bs' = book_map (other_component c) bs \<and> book_side bs' = book_side bs"
proof -
  let ?ts = "trees_of bs"
  have inv: "book_inv bs ?ts" using assms(1) by (simp add: book_ok_def)
  obtain bs' to' where r: "book_remove_by_key bs c k = Inr (bs', order_map (component ?ts c) k)"
      "book_inv bs' (component_upd c to' ?ts)" "book_side bs' = book_side bs"
      "orders to' = {x \<in> orders (component ?ts c). leaf_key x \<noteq> k}"
    using book_remove_by_key_ok [OF inv] by blast
  have "tree_crit to'" using book_inv_crit [OF r(2), of c] by simp
  then have "order_map to' = (order_map (component ?ts c))(k := None)"
    by (rule order_map_removed [OF book_inv_crit [OF inv] _ r(4)])
  with r show ?thesis by (simp add: book_map_inv [OF r(2)] book_map_inv [OF inv] book_inv_ok [OF r(2)])
qed

interpretation fixed: order_store book_ok book_is_full "component_ok Fixed" "book_map Fixed"
    "\<lambda>bs. book_insert_leaf bs Fixed" "\<lambda>bs. book_remove_by_key bs Fixed"
  using book_insert_map book_remove_map by unfold_locales blast+

interpretation pegged: order_store book_ok book_is_full "component_ok OraclePegged" "book_map OraclePegged"
    "\<lambda>bs. book_insert_leaf bs OraclePegged" "\<lambda>bs. book_remove_by_key bs OraclePegged"
  using book_insert_map book_remove_map by unfold_locales blast+

section \<open>The empty book side\<close>

text \<open>The account as \<^verbatim>\<open>perp_create_market\<close> leaves it: zeroed, with its type set.\<close>

definition empty_side :: "OrderTreeType \<Rightarrow> BookSide" where
  "empty_side ty =
     \<lparr>roots = (\<lparr>maybe_node = 0, leaf_count = 0\<rparr>, \<lparr>maybe_node = 0, leaf_count = 0\<rparr>),
      book_nodes = \<lparr>order_tree_type = ty, bump_index = 0, free_list_len = 0, free_list_head = 0,
                    nodes = replicate MAX_ORDERTREE_NODES Uninitialized\<rparr>\<rparr>"

lemma empty_side_inv: "book_inv (empty_side ty) (None, None)"
  by (simp add: book_inv_def tree_inv_def alloc_ok_def empty_side_def book_root_def component_index_def)

lemma empty_side_ok [simp]: "book_ok (empty_side ty)" "\<not> book_is_full (empty_side ty)"
  "book_map c (empty_side ty) = Map.empty"
  using book_inv_ok [OF empty_side_inv] book_map_inv [OF empty_side_inv]
  by (auto simp: book_is_full_def is_full_def empty_side_def MAX_ORDERTREE_NODES_def order_map_def
      component_def sel2_def split: option.split)

end
