(* ===== verification/Book_Side_Order.thy ===== *)
theory Book_Side_Order
  imports Book_Side_Inv
begin

text \<open>
  The order in which a book side is walked. The merged iteration over both trees yields
  every order at a fixed price and every pegged order with a representable price exactly
  once, best price first; the queries of \<^verbatim>\<open>bookside.rs\<close> are the corresponding
  computations on that list.
\<close>

section \<open>The merged list\<close>

text \<open>The fixed-price key of a pegged order, without the range check.\<close>

definition fixed_key :: "u128 \<Rightarrow> i64 \<Rightarrow> u128" where
  "fixed_key k p = push_bit 64 (ucast (word_of_int p :: 64 word)) OR ucast (ucast k :: 64 word)"

lemma key_for_fixed_price_eq: "1 \<le> p \<Longrightarrow> key_for_fixed_price k p = Inr (fixed_key k p)"
  by (simp add: key_for_fixed_price_def fixed_price_data_def fixed_key_def)

definition fixed_item :: "u64 \<Rightarrow> NodeHandle \<times> LeafNode \<Rightarrow> BookSideIterItem" where
  "fixed_item now x =
     \<lparr>item_handle = \<lparr>handle_node = fst x, handle_order_tree = Fixed\<rparr>, item_node = snd x,
      price_lots = uint (price_data (snd x)),
      state = (if time_in_force (snd x) > 0 \<and> leaf_expiry (snd x) \<le> now then Invalid else Valid)\<rparr>"

definition pegged_item :: "Side \<Rightarrow> u64 \<Rightarrow> i64 \<Rightarrow> NodeHandle \<times> LeafNode \<Rightarrow> BookSideIterItem" where
  "pegged_item side now oracle_px x =
     \<lparr>item_handle = \<lparr>handle_node = fst x, handle_order_tree = OraclePegged\<rparr>, item_node = snd x,
      price_lots = snd (oracle_pegged_price oracle_px (snd x) side),
      state = (if time_in_force (snd x) > 0 \<and> leaf_expiry (snd x) \<le> now then Invalid
               else fst (oracle_pegged_price oracle_px (snd x) side))\<rparr>"

definition shown :: "Side \<Rightarrow> i64 \<Rightarrow> NodeHandle \<times> LeafNode \<Rightarrow> bool" where
  "shown side oracle_px x \<longleftrightarrow> fst (oracle_pegged_price oracle_px (snd x) side) \<noteq> Skipped"

text \<open>The key that ranks an item among the orders of both trees.\<close>

definition match_key :: "BookSideIterItem \<Rightarrow> u128" where
  "match_key it =
     (case handle_order_tree (item_handle it) of
        Fixed \<Rightarrow> leaf_key (item_node it)
      | OraclePegged \<Rightarrow> fixed_key (leaf_key (item_node it)) (price_lots it))"

fun key_better :: "Side \<Rightarrow> u128 \<Rightarrow> u128 \<Rightarrow> bool" where
  "key_better Bid a b \<longleftrightarrow> a > b"
| "key_better Ask a b \<longleftrightarrow> a < b"

fun merge_items :: "Side \<Rightarrow> BookSideIterItem list \<Rightarrow> BookSideIterItem list \<Rightarrow> BookSideIterItem list" where
  "merge_items side [] ps = ps"
| "merge_items side fs [] = fs"
| "merge_items side (f # fs) (p # ps) =
     (if key_better side (match_key f) (match_key p) then f # merge_items side fs (p # ps)
      else p # merge_items side (f # fs) ps)"

definition walk_items ::
  "Side \<Rightarrow> u64 \<Rightarrow> i64 \<Rightarrow> (NodeHandle \<times> LeafNode) list \<Rightarrow> (NodeHandle \<times> LeafNode) list \<Rightarrow> BookSideIterItem list" where
  "walk_items side now oracle_px fs ps =
     merge_items side (map (fixed_item now) fs) (map (pegged_item side now oracle_px) (filter (shown side oracle_px) ps))"

lemma shown_price:
  assumes "shown side oracle_px x"
  shows "1 \<le> price_lots (pegged_item side now oracle_px x)" "price_lots (pegged_item side now oracle_px x) < i64_MAX"
    "price_lots (pegged_item side now oracle_px x) = oracle_px + oracle_pegged_price_offset (price_data (snd x))"
  using assms
  by (auto simp: shown_def pegged_item_def oracle_pegged_price_def Let_def sat_i64_def i64_MIN_def i64_MAX_def
      split: if_splits)

lemma merge_items_Nil2 [simp]: "merge_items side fs [] = fs"
  by (cases fs) auto

lemma length_merge_items: "length (merge_items side fs ps) = length fs + length ps"
  by (induction side fs ps rule: merge_items.induct) auto

lemma mset_merge_items: "mset (merge_items side fs ps) = mset fs + mset ps"
  by (induction side fs ps rule: merge_items.induct) auto

section \<open>The iterator yields the merged list\<close>

definition leaves_ok :: "(LeafNode \<Rightarrow> bool) \<Rightarrow> (NodeHandle \<times> LeafNode) list \<Rightarrow> bool" where
  "leaves_ok P xs \<longleftrightarrow> (\<forall>x \<in> set xs. P (snd x))"

definition book_rest :: "BookSideIter \<Rightarrow> BookSideIterItem list \<Rightarrow> bool" where
  "book_rest it xs \<longleftrightarrow>
     (\<exists>fs ps. iter_rest (fixed_iter it) fs \<and> iter_rest (oracle_pegged_iter it) ps \<and>
        leaves_ok (component_ok Fixed) fs \<and> leaves_ok (component_ok OraclePegged) ps \<and>
        length ps \<le> length (nodes (iter_order_tree (oracle_pegged_iter it))) \<and>
        xs = walk_items (iter_side (fixed_iter it)) (now_ts it) (oracle_price_lots it) fs ps)"

lemma skip_pegged_ok:
  assumes "iter_rest it ps" "length ps < fuel"
  shows "\<exists>it'. skip_pegged fuel it oracle_px side = Inr it' \<and>
           iter_rest it' (dropWhile (\<lambda>x. \<not> shown side oracle_px x) ps) \<and> iter_order_tree it' = iter_order_tree it"
  using assms
proof (induction ps arbitrary: it fuel)
  case Nil
  then obtain f where "fuel = Suc f" by (cases fuel) auto
  with Nil show ?case by (simp add: iter_rest_peek [OF Nil.prems(1)])
next
  case (Cons x xs)
  then obtain f where f: "fuel = Suc f" by (cases fuel) auto
  obtain h l where x: "x = (h, l)" by fastforce
  obtain it' where it': "iter_next it = Inr (it', Some x)" "iter_rest it' xs" "iter_order_tree it' = iter_order_tree it"
    using iter_next_ok [OF Cons.prems(1)] by auto
  show ?case
  proof (cases "shown side oracle_px x")
    case True
    with Cons.prems(1) f x show ?thesis by (simp add: iter_rest_peek [OF Cons.prems(1)] shown_def)
  next
    case False
    with Cons.IH [OF it'(2), of f] Cons.prems(2) f x it' show ?thesis
      by (simp add: iter_rest_peek [OF Cons.prems(1)] shown_def)
  qed
qed

lemma fixed_to_result_ok:
  "component_ok Fixed (snd x) \<Longrightarrow> fixed_to_result x now = Inr (fixed_item now x)"
  using fixed_price_lots_eq_Inr [of "price_data (snd x)" "uint (price_data (snd x))"]
  by (cases x) (simp add: fixed_to_result_def component_ok_def fixed_ok_def fixed_item_def)

lemma oracle_pegged_to_result_ok:
  "leaf_ok l \<Longrightarrow> oracle_pegged_price oracle_px l side = (st, p) \<Longrightarrow>
     oracle_pegged_to_result (h, l, p, st) now = Inr (pegged_item side now oracle_px (h, l))"
  by (simp add: oracle_pegged_to_result_def pegged_item_def)

text \<open>Ranking the heads of the two lists is one step of the merge.\<close>

lemma rank_orders_ok:
  assumes "leaves_ok (component_ok Fixed) fs" "leaves_ok (component_ok OraclePegged) ps"
    and "\<And>x. x \<in> set (take 1 ps) \<Longrightarrow> 1 \<le> price_lots (pegged_item side now oracle_px x)"
  shows "rank_orders side (case fs of [] \<Rightarrow> None | x # _ \<Rightarrow> Some x) (case ps of [] \<Rightarrow> None | x # _ \<Rightarrow> Some x)
           worse now oracle_px =
         Inr (case (fs, ps) of
                ([], []) \<Rightarrow> None
              | (f # _, []) \<Rightarrow> Some (fixed_item now f)
              | ([], p # _) \<Rightarrow> Some (pegged_item side now oracle_px p)
              | (f # _, p # _) \<Rightarrow>
                  if key_better side (match_key (fixed_item now f)) (match_key (pegged_item side now oracle_px p)) \<noteq> worse
                  then Some (fixed_item now f) else Some (pegged_item side now oracle_px p))"
proof -
  have f: "fixed_to_result x now = Inr (fixed_item now x)" if "x \<in> set fs" for x
    using assms(1) that by (auto simp: leaves_ok_def intro: fixed_to_result_ok)
  have p: "oracle_pegged_to_result (fst x, snd x, snd (oracle_pegged_price oracle_px (snd x) side),
        fst (oracle_pegged_price oracle_px (snd x) side)) now = Inr (pegged_item side now oracle_px x)"
    if "x \<in> set ps" for x
    using assms(2) that oracle_pegged_to_result_ok [of "snd x" oracle_px side]
    by (simp add: leaves_ok_def component_ok_def)
  have k: "key_for_fixed_price (leaf_key (snd x)) (snd (oracle_pegged_price oracle_px (snd x) side))
        = Inr (match_key (pegged_item side now oracle_px x))" if "x \<in> set (take 1 ps)" for x
    using assms(3) [OF that] by (simp add: key_for_fixed_price_eq match_key_def pegged_item_def)
  have kf: "match_key (fixed_item now x) = leaf_key (snd x)" for x
    by (simp add: match_key_def fixed_item_def)
  have kb: "(if side = Bid then b < a else a < b) = key_better side a b" for a b
    by (cases side) simp_all
  show ?thesis
    by (cases fs; cases ps) (simp_all add: rank_orders_def Let_def split_beta f p k kf kb)
qed

lemma filter_dropWhile_not: "filter P (dropWhile (\<lambda>x. \<not> P x) xs) = filter P xs"
  by (induction xs) auto

lemma hd_dropWhile_shown: "x \<in> set (take 1 (dropWhile (\<lambda>x. \<not> P x) xs)) \<Longrightarrow> P x"
  by (induction xs) (auto split: if_splits)

lemma leaves_ok_sub: "leaves_ok P xs \<Longrightarrow> set ys \<subseteq> set xs \<Longrightarrow> leaves_ok P ys"
  by (auto simp: leaves_ok_def)

text \<open>One step of the merged iteration, once the unrepresentable orders are skipped.\<close>

lemma walk_items_step:
  assumes "\<And>x. x \<in> set (take 1 ps) \<Longrightarrow> shown side oracle_px x"
  shows "walk_items side now oracle_px fs ps =
     (case (fs, ps) of
        ([], []) \<Rightarrow> []
      | (f # fs', []) \<Rightarrow> fixed_item now f # walk_items side now oracle_px fs' ps
      | ([], p # ps') \<Rightarrow> pegged_item side now oracle_px p # walk_items side now oracle_px fs ps'
      | (f # fs', p # ps') \<Rightarrow>
          if key_better side (match_key (fixed_item now f)) (match_key (pegged_item side now oracle_px p))
          then fixed_item now f # walk_items side now oracle_px fs' ps
          else pegged_item side now oracle_px p # walk_items side now oracle_px fs ps')"
  using assms by (cases fs; cases ps) (auto simp: walk_items_def)

lemma item_tree_simps [simp]:
  "handle_order_tree (item_handle (fixed_item now x)) = Fixed"
  "handle_order_tree (item_handle (pegged_item side now oracle_px x)) = OraclePegged"
  by (simp_all add: fixed_item_def pegged_item_def)

lemma book_restI:
  "iter_rest (fixed_iter it) fs \<Longrightarrow> iter_rest (oracle_pegged_iter it) ps \<Longrightarrow>
   leaves_ok (component_ok Fixed) fs \<Longrightarrow> leaves_ok (component_ok OraclePegged) ps \<Longrightarrow>
   length ps \<le> length (nodes (iter_order_tree (oracle_pegged_iter it))) \<Longrightarrow>
   xs = walk_items (iter_side (fixed_iter it)) (now_ts it) (oracle_price_lots it) fs ps \<Longrightarrow> book_rest it xs"
  unfolding book_rest_def by blast

lemma book_iter_next_ok:
  assumes "book_rest it xs"
  shows "\<exists>it'. book_iter_next it = Inr (it', case xs of [] \<Rightarrow> None | x # _ \<Rightarrow> Some x) \<and> book_rest it' (tl xs) \<and>
           iter_fuel it' = iter_fuel it"
proof -
  let ?s = "iter_side (fixed_iter it)" and ?n = "now_ts it" and ?o = "oracle_price_lots it"
  obtain fs ps where r: "iter_rest (fixed_iter it) fs" "iter_rest (oracle_pegged_iter it) ps"
      "leaves_ok (component_ok Fixed) fs" "leaves_ok (component_ok OraclePegged) ps"
      "length ps \<le> length (nodes (iter_order_tree (oracle_pegged_iter it)))" "xs = walk_items ?s ?n ?o fs ps"
    using assms by (auto simp: book_rest_def)
  define qs where "qs = dropWhile (\<lambda>x. \<not> shown ?s ?o x) ps"
  have len: "length qs \<le> length ps" unfolding qs_def by (rule length_dropWhile_le)
  have shown: "shown ?s ?o x" if "x \<in> set (take 1 qs)" for x using that unfolding qs_def by (rule hd_dropWhile_shown)
  have okq: "leaves_ok (component_ok OraclePegged) qs"
    using r(4) set_dropWhileD unfolding qs_def leaves_ok_def by fastforce
  have xs: "xs = walk_items ?s ?n ?o fs qs"
    unfolding r(6) walk_items_def qs_def by (simp add: filter_dropWhile_not)
  have step: "xs = (case (fs, qs) of
        ([], []) \<Rightarrow> []
      | (f # fs', []) \<Rightarrow> fixed_item ?n f # walk_items ?s ?n ?o fs' qs
      | ([], p # ps') \<Rightarrow> pegged_item ?s ?n ?o p # walk_items ?s ?n ?o fs ps'
      | (f # fs', p # ps') \<Rightarrow>
          if key_better ?s (match_key (fixed_item ?n f)) (match_key (pegged_item ?s ?n ?o p))
          then fixed_item ?n f # walk_items ?s ?n ?o fs' qs
          else pegged_item ?s ?n ?o p # walk_items ?s ?n ?o fs ps')"
    unfolding xs by (rule walk_items_step) (rule shown)
  obtain p where p: "skip_pegged (walk_fuel (iter_order_tree (oracle_pegged_iter it))) (oracle_pegged_iter it) ?o ?s = Inr p"
      "iter_rest p qs" "iter_order_tree p = iter_order_tree (oracle_pegged_iter it)"
    using skip_pegged_ok [OF r(2)] r(5) unfolding qs_def by (metis walk_fuel_def less_Suc_eq_le)
  have rank: "rank_orders ?s (iter_peek (fixed_iter it)) (iter_peek p) False ?n ?o =
      Inr (case xs of [] \<Rightarrow> None | x # _ \<Rightarrow> Some x)"
    unfolding iter_rest_peek [OF r(1)] iter_rest_peek [OF p(2)]
    by (subst rank_orders_ok [OF r(3) okq], rule shown_price(1), erule shown, insert step, cases fs; cases qs; simp)
  obtain f' where f': "iter_next (fixed_iter it) = Inr (f', case fs of [] \<Rightarrow> None | x # _ \<Rightarrow> Some x)"
      "iter_rest f' (tl fs)" "iter_left f' = iter_left (fixed_iter it)" "iter_order_tree f' = iter_order_tree (fixed_iter it)"
    using iter_next_ok [OF r(1)] by blast
  obtain p' where p': "iter_next p = Inr (p', case qs of [] \<Rightarrow> None | x # _ \<Rightarrow> Some x)"
      "iter_rest p' (tl qs)" "iter_order_tree p' = iter_order_tree p"
    using iter_next_ok [OF p(2)] by blast
  have okt: "leaves_ok (component_ok Fixed) (tl fs)" "leaves_ok (component_ok OraclePegged) (tl qs)"
    using r(3) okq leaves_ok_sub list.set_sel(2) by (metis subsetI list.sel(2))+
  have fin: "book_rest (it\<lparr>oracle_pegged_iter := p\<rparr>) []" if "fs = []" "qs = []"
    by (rule book_restI [of _ fs qs]) (use that r p len okq in \<open>auto simp: walk_items_def\<close>)
  have takef: "book_rest (it\<lparr>oracle_pegged_iter := p, fixed_iter := f'\<rparr>) (walk_items ?s ?n ?o (tl fs) qs)"
    by (rule book_restI [of _ "tl fs" qs]) (use r p len okq f' okt in \<open>auto simp: iter_side_def\<close>)
  have takep: "book_rest (it\<lparr>oracle_pegged_iter := p'\<rparr>) (walk_items ?s ?n ?o fs (tl qs))"
    by (rule book_restI [of _ fs "tl qs"]) (use r p' p len okt in \<open>auto simp: iter_side_def\<close>)
  have fuel: "iter_fuel (it\<lparr>oracle_pegged_iter := p\<rparr>) = iter_fuel it" "iter_fuel (it\<lparr>oracle_pegged_iter := p'\<rparr>) = iter_fuel it"
      "iter_fuel (it\<lparr>oracle_pegged_iter := p, fixed_iter := f'\<rparr>) = iter_fuel it"
    using p p' f' by (simp_all add: iter_fuel_def)
  show ?thesis
    using fin takef takep fuel p(1) f'(1) p'(1) rank step
    by (cases fs; cases qs) (auto simp: book_iter_next_def split: if_splits)
qed

interpretation book_iter: yields book_iter_next book_rest
proof
  fix it assume "book_rest it []"
  then show "\<exists>it'. book_iter_next it = Inr (it', None)" using book_iter_next_ok by fastforce
next
  fix it x xs assume "book_rest it (x # xs)"
  then show "\<exists>it'. book_iter_next it = Inr (it', Some x) \<and> book_rest it' xs"
    using book_iter_next_ok by fastforce
qed

interpretation tree_iter: yields iter_next iter_rest
proof
  fix it assume "iter_rest it []"
  then show "\<exists>it'. iter_next it = Inr (it', None)" using iter_next_ok by fastforce
next
  fix it x xs assume "iter_rest it (x # xs)"
  then show "\<exists>it'. iter_next it = Inr (it', Some x) \<and> iter_rest it' xs"
    using iter_next_ok by fastforce
qed

definition valid_rest :: "BookSideIter \<Rightarrow> BookSideIterItem list \<Rightarrow> bool" where
  "valid_rest it ys \<longleftrightarrow> (\<exists>xs. book_rest it xs \<and> length xs < iter_fuel it \<and> ys = filter is_valid xs)"

lemma valid_next_loop_ok:
  assumes "book_rest it xs" "length xs < iter_fuel it" "length xs < fuel"
  shows "\<exists>it'. valid_next_loop fuel it =
             Inr (it', case filter is_valid xs of [] \<Rightarrow> None | x # _ \<Rightarrow> Some x) \<and>
           valid_rest it' (tl (filter is_valid xs)) \<and> iter_fuel it' = iter_fuel it"
  using assms
proof (induction xs arbitrary: it fuel)
  case Nil
  then obtain f where f: "fuel = Suc f" by (cases fuel) auto
  show ?case using book_iter_next_ok [OF Nil.prems(1)] f Nil.prems(2) by (fastforce simp: valid_rest_def)
next
  case (Cons x xs)
  then obtain f where f: "fuel = Suc f" by (cases fuel) auto
  obtain it' where it': "book_iter_next it = Inr (it', Some x)" "book_rest it' xs" "iter_fuel it' = iter_fuel it"
    using book_iter_next_ok [OF Cons.prems(1)] by auto
  show ?case
  proof (cases "is_valid x")
    case True
    with it' f Cons.prems(2) show ?thesis by (auto simp: valid_rest_def)
  next
    case False
    with Cons.IH [OF it'(2), of f] it' f Cons.prems(2,3) show ?thesis by auto
  qed
qed

lemma iter_valid_next_ok:
  assumes "valid_rest it ys"
  shows "\<exists>it'. iter_valid_next it = Inr (it', case ys of [] \<Rightarrow> None | y # _ \<Rightarrow> Some y) \<and> valid_rest it' (tl ys)"
  using assms valid_next_loop_ok unfolding valid_rest_def [of it] iter_valid_next_def by blast

interpretation valid_iter: yields iter_valid_next valid_rest
proof
  fix it assume "valid_rest it []"
  then show "\<exists>it'. iter_valid_next it = Inr (it', None)" using iter_valid_next_ok by fastforce
next
  fix it x xs assume "valid_rest it (x # xs)"
  then show "\<exists>it'. iter_valid_next it = Inr (it', Some x) \<and> valid_rest it' xs"
    using iter_valid_next_ok by fastforce
qed

section \<open>The items of a book side\<close>

definition book_items :: "BookSide \<Rightarrow> u64 \<Rightarrow> i64 \<Rightarrow> BookSideIterItem list" where
  "book_items bs now oracle_px =
     walk_items (book_side bs) now oracle_px
       (best_first (book_nodes bs) (component (trees_of bs) Fixed))
       (best_first (book_nodes bs) (component (trees_of bs) OraclePegged))"

definition valid_items :: "BookSide \<Rightarrow> u64 \<Rightarrow> i64 \<Rightarrow> BookSideIterItem list" where
  "valid_items bs now oracle_px = filter is_valid (book_items bs now oracle_px)"

lemma set_best_first: "snd ` set (best_first ot to) = orders to"
  by (cases to) (auto simp: best_first_def dir_leaves_def)

lemma length_best_first:
  assumes "tree_inv ot root to R"
  shows "length (best_first ot to) \<le> length (nodes ot)"
proof (cases to)
  case (Some t)
  have "length (leaves t) \<le> length (handles t)" by (rule leaves_le_handles)
  also have "\<dots> \<le> length (nodes ot)"
    using assms Some handles_fuel [of ot root t R] alloc_ok_length [of ot "set (handles t) \<union> R"]
    by (simp add: tree_inv_Some)
  finally show ?thesis using Some by (simp add: best_first_def dir_leaves_def)
qed (simp add: best_first_def)

lemma leaves_ok_best_first:
  assumes "book_inv bs ts"
  shows "leaves_ok (component_ok c) (best_first ot (component ts c))"
proof -
  have "component_ok c l" if l: "l \<in> orders (component ts c)" for l
  proof -
    have "leaf_ok l"
      using book_inv_crit [OF assms, of c] l by (cases "component ts c") (auto simp: tree_crit_def dest: crit_ok_leaf)
    then show ?thesis using assms l by (auto simp: component_ok_def book_inv_def)
  qed
  then show ?thesis unfolding leaves_ok_def set_best_first [symmetric, of _ ot] by blast
qed

lemma BookSideIter_new_ok:
  assumes "book_ok bs"
  shows "\<exists>it. BookSideIter_new bs now oracle_px = Inr it \<and> book_rest it (book_items bs now oracle_px) \<and>
           length (book_items bs now oracle_px) < iter_fuel it"
proof -
  let ?ts = "trees_of bs" and ?ot = "book_nodes bs"
  let ?fs = "best_first ?ot (component ?ts Fixed)" and ?ps = "best_first ?ot (component ?ts OraclePegged)"
  have inv: "book_inv bs ?ts" using assms by (simp add: book_ok_def)
  note ti = inv [unfolded book_inv_def]
  obtain f where f: "OrderTreeIter_new ?ot (book_root bs Fixed) = Inr f" "iter_rest f ?fs"
      "iter_left f = (order_tree_type ?ot = Bids)" "iter_order_tree f = ?ot"
    using OrderTreeIter_new_ok ti by blast
  obtain p where p: "OrderTreeIter_new ?ot (book_root bs OraclePegged) = Inr p" "iter_rest p ?ps"
      "iter_order_tree p = ?ot"
    using OrderTreeIter_new_ok ti by blast
  let ?it = "\<lparr>fixed_iter = f, oracle_pegged_iter = p, now_ts = now, oracle_price_lots = oracle_px\<rparr>"
  have len: "length ?fs \<le> length (nodes ?ot)" "length ?ps \<le> length (nodes ?ot)"
    using length_best_first ti by blast+
  have side: "iter_side f = book_side bs"
    using f(3) by (cases "order_tree_type ?ot") (simp_all add: iter_side_def book_side_def)
  have "book_rest ?it (book_items bs now oracle_px)"
    by (rule book_restI [of _ ?fs ?ps])
      (use f p len side leaves_ok_best_first [OF inv] in \<open>simp_all add: book_items_def\<close>)
  moreover have "length (book_items bs now oracle_px) < iter_fuel ?it"
  proof -
    have "length (filter (shown (book_side bs) oracle_px) ?ps) \<le> length (nodes ?ot)"
      using length_filter_le len(2) by (rule order_trans)
    with len(1) f(4) p(3) show ?thesis
      by (simp add: book_items_def walk_items_def length_merge_items iter_fuel_def walk_fuel_def)
  qed
  ultimately show ?thesis using f(1) p(1) by (auto simp: BookSideIter_new_def)
qed

lemma valid_iter_new:
  assumes "book_ok bs"
  obtains it where "BookSideIter_new bs now oracle_px = Inr it" "valid_rest it (valid_items bs now oracle_px)"
    "length (valid_items bs now oracle_px) < iter_fuel it"
proof -
  obtain it where it: "BookSideIter_new bs now oracle_px = Inr it" "book_rest it (book_items bs now oracle_px)"
      "length (book_items bs now oracle_px) < iter_fuel it"
    using BookSideIter_new_ok [OF assms] by blast
  show ?thesis
  proof (rule that [OF it(1)])
    show "valid_rest it (valid_items bs now oracle_px)" unfolding valid_rest_def valid_items_def using it by blast
    show "length (valid_items bs now oracle_px) < iter_fuel it"
      unfolding valid_items_def using it(3) by (rule le_less_trans [OF length_filter_le])
  qed
qed

section \<open>Best price first\<close>

lemma uint_key_split: "uint (leaf_key l) = uint (price_data l) * 2 ^ 64 + uint (leaf_key l) mod 2 ^ 64"
proof -
  have lt: "uint (leaf_key l) div 2 ^ 64 < 2 ^ 64"
    using uint_lt2p [of "leaf_key l"] by simp
  have "uint (drop_bit 64 (leaf_key l)) = uint (leaf_key l) div 2 ^ 64"
    by (simp add: drop_bit_eq_div uint_div)
  moreover have "take_bit 64 (uint (leaf_key l) div 2 ^ 64) = uint (leaf_key l) div 2 ^ 64"
    by (rule take_bit_int_eq_self) (use lt in \<open>simp_all add: pos_imp_zdiv_nonneg_iff\<close>)
  ultimately have "uint (price_data l) = uint (leaf_key l) div 2 ^ 64"
    by (simp add: price_data_def unsigned_ucast_eq)
  then show ?thesis by simp
qed

lemma uint_fixed_key:
  assumes "0 \<le> p" "p < 2 ^ 63"
  shows "uint (fixed_key k p) = p * 2 ^ 64 + uint k mod 2 ^ 64"
proof -
  have "fixed_key k p = new_node_key Ask (word_of_int p) (ucast k)" by (simp add: fixed_key_def new_node_key_def)
  moreover have "uint (ucast k :: 64 word) = uint k mod 2 ^ 64" by (simp add: unsigned_ucast_eq take_bit_eq_mod)
  moreover have "uint (word_of_int p :: 64 word) = p" using assms by (simp add: uint_word_of_int)
  ultimately show ?thesis by (simp add: uint_new_node_key)
qed

lemma match_key_fixed: "match_key (fixed_item now x) = leaf_key (snd x)"
  by (simp add: match_key_def fixed_item_def)

lemma match_key_pegged:
  assumes "shown side oracle_px x"
  shows "uint (match_key (pegged_item side now oracle_px x)) =
           uint (leaf_key (snd x)) + (oracle_px - 2 ^ 63) * 2 ^ 64"
proof -
  let ?p = "price_lots (pegged_item side now oracle_px x)"
  have p: "1 \<le> ?p" "?p < 2 ^ 63" "?p = oracle_px + uint (price_data (snd x)) - 2 ^ 63"
    using shown_price [OF assms, of now] by (simp_all add: i64_MAX_def oracle_pegged_price_offset_eq)
  have "match_key (pegged_item side now oracle_px x) = fixed_key (leaf_key (snd x)) ?p"
    by (simp add: match_key_def pegged_item_def)
  then have "uint (match_key (pegged_item side now oracle_px x)) = ?p * 2 ^ 64 + uint (leaf_key (snd x)) mod 2 ^ 64"
    using p(1,2) uint_fixed_key [of ?p "leaf_key (snd x)"] by simp
  then show ?thesis using p(3) uint_key_split [of "snd x"] by (simp add: algebra_simps)
qed

text \<open>The price of an item is the upper half of its ranking key.\<close>

lemma price_of_match_key:
  "price_lots (fixed_item now x) = uint (match_key (fixed_item now x)) div 2 ^ 64"
  "shown side oracle_px x \<Longrightarrow>
     price_lots (pegged_item side now oracle_px x) = uint (match_key (pegged_item side now oracle_px x)) div 2 ^ 64"
proof -
  show "price_lots (fixed_item now x) = uint (match_key (fixed_item now x)) div 2 ^ 64"
    unfolding match_key_fixed by (subst uint_key_split) (simp add: fixed_item_def)
  assume sh: "shown side oracle_px x"
  let ?p = "price_lots (pegged_item side now oracle_px x)"
  have p: "0 \<le> ?p" "?p < 2 ^ 63" using shown_price [OF sh, of now] by (simp_all add: i64_MAX_def)
  have "match_key (pegged_item side now oracle_px x) = fixed_key (leaf_key (snd x)) ?p"
    by (simp add: match_key_def pegged_item_def)
  then show "?p = uint (match_key (pegged_item side now oracle_px x)) div 2 ^ 64"
    by (simp add: uint_fixed_key [OF p])
qed

definition not_worse :: "Side \<Rightarrow> BookSideIterItem \<Rightarrow> BookSideIterItem \<Rightarrow> bool" where
  "not_worse side a b \<longleftrightarrow> \<not> key_better side (match_key b) (match_key a)"

lemma not_worse_trans: "not_worse side a b \<Longrightarrow> not_worse side b c \<Longrightarrow> not_worse side a c"
  by (cases side) (auto simp: not_worse_def)

lemma key_better_not_worse: "key_better side (match_key a) (match_key b) \<Longrightarrow> not_worse side a b"
  by (cases side) (auto simp: not_worse_def)

lemma merge_items_sorted:
  "sorted_wrt (not_worse side) fs \<Longrightarrow> sorted_wrt (not_worse side) ps \<Longrightarrow>
     sorted_wrt (not_worse side) (merge_items side fs ps)"
proof (induction side fs ps rule: merge_items.induct)
  case (3 side f fs p ps)
  have set: "set (merge_items side xs ys) = set xs \<union> set ys" for xs ys
    using mset_merge_items [of side xs ys] by (metis set_mset_mset set_mset_union)
  show ?case
  proof (cases "key_better side (match_key f) (match_key p)")
    case True
    then have "not_worse side f p" by (rule key_better_not_worse)
    with 3 True show ?thesis by (auto simp: set intro: not_worse_trans)
  next
    case False
    then have "not_worse side p f" by (simp add: not_worse_def)
    with 3 False show ?thesis by (auto simp: set intro: not_worse_trans)
  qed
qed auto

lemma best_first_sorted:
  assumes "tree_crit to"
  shows "sorted_wrt (\<lambda>x y. key_better (order_tree_type_side (order_tree_type ot)) (leaf_key (snd x)) (leaf_key (snd y)))
           (best_first ot to)"
proof (cases to)
  case (Some t)
  then have s: "sorted_wrt (<) (map (leaf_key \<circ> snd) (leaves t))"
    using assms leaves_sorted by (simp add: tree_crit_def)
  show ?thesis
  proof (cases "order_tree_type ot")
    case Bids
    have "sorted_wrt (\<lambda>x y. y < x) (rev (map (leaf_key \<circ> snd) (leaves t)))" using s by (simp add: sorted_wrt_rev)
    with Bids Some show ?thesis by (simp add: best_first_def dir_leaves_def sorted_wrt_map rev_map)
  next
    case Asks
    with Some s show ?thesis by (simp add: best_first_def dir_leaves_def sorted_wrt_map)
  qed
qed (simp add: best_first_def)

lemma book_items_sorted:
  assumes "book_ok bs"
  shows "sorted_wrt (not_worse (book_side bs)) (book_items bs now oracle_px)"
proof -
  let ?s = "book_side bs"
  have inv: "book_inv bs (trees_of bs)" using assms by (simp add: book_ok_def)
  have srt: "sorted_wrt (\<lambda>x y. key_better ?s (leaf_key (snd x)) (leaf_key (snd y)))
      (best_first (book_nodes bs) (component (trees_of bs) c))" for c
    unfolding book_side_def by (rule best_first_sorted [OF book_inv_crit [OF inv]])
  have "sorted_wrt (not_worse ?s) (map (fixed_item now) (best_first (book_nodes bs) (component (trees_of bs) Fixed)))"
    unfolding sorted_wrt_map
    by (rule sorted_wrt_mono_rel [OF _ srt]) (auto intro!: key_better_not_worse simp: match_key_fixed)
  moreover have "sorted_wrt (not_worse ?s) (map (pegged_item ?s now oracle_px)
      (filter (shown ?s oracle_px) (best_first (book_nodes bs) (component (trees_of bs) OraclePegged))))"
    unfolding sorted_wrt_map
  proof (rule sorted_wrt_mono_rel [OF _ sorted_wrt_filter [OF srt]])
    fix x y
    assume "x \<in> set (filter (shown ?s oracle_px) (best_first (book_nodes bs) (component (trees_of bs) OraclePegged)))"
      "y \<in> set (filter (shown ?s oracle_px) (best_first (book_nodes bs) (component (trees_of bs) OraclePegged)))"
      "key_better ?s (leaf_key (snd x)) (leaf_key (snd y))"
    then show "not_worse ?s (pegged_item ?s now oracle_px x) (pegged_item ?s now oracle_px y)"
      by (cases ?s) (auto simp: not_worse_def word_less_alt match_key_pegged)
  qed
  ultimately show ?thesis unfolding book_items_def walk_items_def by (rule merge_items_sorted)
qed

lemma book_items_cases:
  assumes "i \<in> set (book_items bs now oracle_px)"
  obtains x where "i = fixed_item now x" "snd x \<in> book_orders Fixed bs"
  | x where "i = pegged_item (book_side bs) now oracle_px x" "shown (book_side bs) oracle_px x"
      "snd x \<in> book_orders OraclePegged bs"
proof -
  have "set (merge_items side xs ys) = set xs \<union> set ys" for side xs ys
    using mset_merge_items [of side xs ys] by (metis set_mset_mset set_mset_union)
  then show ?thesis
    using assms that set_best_first [of "book_nodes bs"] unfolding book_items_def walk_items_def book_orders_def
    by (auto simp: image_iff) (metis image_eqI snd_conv)+
qed

lemma item_price_match_key:
  "i \<in> set (book_items bs now oracle_px) \<Longrightarrow> price_lots i = uint (match_key i) div 2 ^ 64"
  by (erule book_items_cases) (simp_all add: price_of_match_key)

lemma not_worse_price:
  "not_worse side a b \<Longrightarrow> price_lots a = uint (match_key a) div 2 ^ 64 \<Longrightarrow> price_lots b = uint (match_key b) div 2 ^ 64 \<Longrightarrow>
     \<not> is_price_better side (price_lots b) (price_lots a)"
  by (cases side) (auto simp: not_worse_def word_le_def linorder_not_less zdiv_mono1)

lemma book_items_by_price:
  assumes "book_ok bs"
  shows "sorted_wrt (\<lambda>a b. \<not> is_price_better (book_side bs) (price_lots b) (price_lots a)) (book_items bs now oracle_px)"
  by (rule sorted_wrt_mono_rel [OF _ book_items_sorted [OF assms]])
    (rule not_worse_price; simp add: item_price_match_key)

end
