(* ===== verification/Book_Side_Queries.thy ===== *)
theory Book_Side_Queries
  imports Book_Side_Order
begin

text \<open>
  The queries of \<^verbatim>\<open>bookside.rs\<close> and the removal of the worst order, as computations on
  the list of items that the iteration yields. The hypotheses bound the sums the queries
  accumulate, so that no intermediate value leaves \<^verbatim>\<open>i64\<close>.
\<close>

section \<open>Sums over items\<close>

abbreviation qty :: "BookSideIterItem \<Rightarrow> int" where
  "qty i \<equiv> quantity (item_node i)"

abbreviation amt :: "BookSideIterItem \<Rightarrow> int" where
  "amt i \<equiv> quantity (item_node i) * price_lots i"

definition items_bounded :: "BookSideIterItem list \<Rightarrow> bool" where
  "items_bounded xs \<longleftrightarrow>
     (\<forall>i \<in> set xs. 0 < qty i \<and> 1 \<le> price_lots i) \<and>
     sum_list (map qty xs) \<le> i64_MAX \<and> sum_list (map amt xs) \<le> i64_MAX"

lemma sum_qty_nonneg: "\<forall>i \<in> set xs. 0 < qty i \<Longrightarrow> 0 \<le> sum_list (map qty xs)"
  by (induction xs) auto

lemma sum_amt_nonneg: "\<forall>i \<in> set xs. 0 < qty i \<and> 1 \<le> price_lots i \<Longrightarrow> 0 \<le> sum_list (map amt xs)"
  by (induction xs) auto

lemma in_i64_nonneg: "0 \<le> x \<Longrightarrow> x \<le> i64_MAX \<Longrightarrow> in_i64 x"
  by (simp add: in_i64_def i64_MIN_def)

section \<open>Best price\<close>

lemma best_price_eq:
  assumes "book_ok bs"
  shows "best_price bs now oracle_px = Inr (map_option price_lots (case valid_items bs now oracle_px of [] \<Rightarrow> None | x # _ \<Rightarrow> Some x))"
proof -
  obtain it where "BookSideIter_new bs now oracle_px = Inr it" "valid_rest it (valid_items bs now oracle_px)"
    using valid_iter_new [OF assms] by blast
  with iter_valid_next_ok show ?thesis by (fastforce simp: best_price_def)
qed

lemma valid_items_by_price:
  assumes "book_ok bs"
  shows "sorted_wrt (\<lambda>a b. \<not> is_price_better (book_side bs) (price_lots b) (price_lots a)) (valid_items bs now oracle_px)"
  unfolding valid_items_def by (rule sorted_wrt_filter [OF book_items_by_price [OF assms]])

lemma best_price_best:
  assumes "book_ok bs" "best_price bs now oracle_px = Inr (Some p)" "i \<in> set (valid_items bs now oracle_px)"
  shows "\<not> is_price_better (book_side bs) (price_lots i) p"
  using assms valid_items_by_price [OF assms(1), of now oracle_px] best_price_eq [OF assms(1), of now oracle_px]
  by (cases "valid_items bs now oracle_px") auto

section \<open>Quantity at a price\<close>

lemma quantity_loop:
  fixes limit :: int
  assumes "\<forall>i \<in> set xs. 0 < qty i" "0 \<le> s" "s + sum_list (map qty xs) \<le> i64_MAX"
    and "sorted_wrt (\<lambda>a b. \<not> is_price_better side (price_lots b) (price_lots a)) xs"
  defines "ok \<equiv> \<lambda>i. \<not> is_price_better side limit (price_lots i)"
  shows "\<exists>r. for_list (\<lambda>item sum.
              if is_price_better side limit (price_lots item) then Inr (Inr sum)
              else rbind (chk_i64 (sum + qty item)) (\<lambda>s. Inr (Inl s))) xs s = Inr r \<and>
           (case r of Inl x \<Rightarrow> x | Inr x \<Rightarrow> x) = s + sum_list (map qty (filter ok xs))"
  using assms(1-4)
proof (induction xs arbitrary: s)
  case (Cons x xs)
  show ?case
  proof (cases "ok x")
    case False
    then have "\<not> ok i" if "i \<in> set xs" for i
      using Cons.prems(4) that by (cases side) (auto simp: ok_def)
    then have "filter ok xs = []" by (simp add: filter_empty_conv)
    with False show ?thesis by (simp add: ok_def)
  next
    case True
    have "0 \<le> sum_list (map qty xs)" using Cons.prems(1) by (intro sum_qty_nonneg) simp
    then have "in_i64 (s + qty x)" using Cons.prems(1-3) by (intro in_i64_nonneg) auto
    moreover have "\<exists>r. for_list (\<lambda>item sum.
              if is_price_better side limit (price_lots item) then Inr (Inr sum)
              else rbind (chk_i64 (sum + qty item)) (\<lambda>s. Inr (Inl s))) xs (s + qty x) = Inr r \<and>
           (case r of Inl x \<Rightarrow> x | Inr x \<Rightarrow> x) = (s + qty x) + sum_list (map qty (filter ok xs))"
      using Cons.prems by (intro Cons.IH) auto
    ultimately show ?thesis using True by (auto simp: ok_def)
  qed
qed simp

lemma quantity_at_price_eq:
  assumes ok: "book_ok bs" and b: "items_bounded (valid_items bs now oracle_px)"
  shows "quantity_at_price bs limit now oracle_px =
     Inr (sum_list (map qty (filter (\<lambda>i. \<not> is_price_better (book_side bs) limit (price_lots i)) (valid_items bs now oracle_px))))"
proof -
  obtain it where it: "BookSideIter_new bs now oracle_px = Inr it" "valid_rest it (valid_items bs now oracle_px)"
      "length (valid_items bs now oracle_px) < iter_fuel it"
    using valid_iter_new [OF ok] by blast
  note loop = quantity_loop [of "valid_items bs now oracle_px" 0 "book_side bs" limit]
  show ?thesis
    using loop b valid_items_by_price [OF ok, of now oracle_px] it(1)
    by (auto simp: quantity_at_price_def valid_iter.for_loop_eq [OF it(2,3)] items_bounded_def)
qed

section \<open>Prices and amounts at a depth\<close>

text \<open>The first item at which the running total of a depth is reached, with the items
  before it.\<close>

fun split_at :: "(BookSideIterItem \<Rightarrow> int) \<Rightarrow> int \<Rightarrow> BookSideIterItem list \<Rightarrow>
    (BookSideIterItem list \<times> BookSideIterItem) option" where
  "split_at f d [] = None"
| "split_at f d (x # xs) =
     (if f x \<ge> d then Some ([], x)
      else map_option (\<lambda>(ys, y). (x # ys, y)) (split_at f (d - f x) xs))"

lemma split_at_Some:
  "split_at f d xs = Some (ys, y) \<Longrightarrow>
     (\<exists>zs. xs = ys @ y # zs) \<and> d \<le> sum_list (map f ys) + f y \<and> (ys \<noteq> [] \<longrightarrow> sum_list (map f ys) < d)"
proof (induction f d xs arbitrary: ys rule: split_at.induct)
  case (2 f d x xs)
  show ?case
  proof (cases "f x \<ge> d")
    case True
    with "2.prems" show ?thesis by auto
  next
    case False
    with "2.prems" obtain ys' where y: "ys = x # ys'" "split_at f (d - f x) xs = Some (ys', y)" by auto
    with "2.IH" [OF False y(2)] False show ?thesis by (cases ys') auto
  qed
qed simp

lemma split_at_None:
  "\<forall>i \<in> set xs. 0 < f i \<Longrightarrow> 0 < d \<Longrightarrow> split_at f d xs = None \<longleftrightarrow> sum_list (map f xs) < d"
proof (induction f d xs rule: split_at.induct)
  case (2 f d x xs)
  have "0 \<le> sum_list (map f xs)" using "2.prems"(1) by (induction xs) auto
  with 2 show ?case by auto
qed simp

lemma impact_loop:
  assumes "\<forall>i \<in> set xs. 0 < qty i" "0 \<le> s" "s + sum_list (map qty xs) \<le> i64_MAX"
  shows "\<exists>r. for_list (\<lambda>order sum.
              rbind (chk_i64 (sum + qty order)) (\<lambda>sum'.
                if sum' \<ge> d then Inr (Inr (price_lots order)) else Inr (Inl sum'))) xs s = Inr r \<and>
           (case r of Inl _ \<Rightarrow> None | Inr p \<Rightarrow> Some p) = map_option (\<lambda>(_, y). price_lots y) (split_at qty (d - s) xs)"
  using assms
proof (induction xs arbitrary: s)
  case (Cons x xs)
  have "0 \<le> sum_list (map qty xs)" using Cons.prems(1) by (intro sum_qty_nonneg) simp
  then have "in_i64 (s + qty x)" using Cons.prems by (intro in_i64_nonneg) auto
  moreover have "0 \<le> s + qty x" "s + qty x + sum_list (map qty xs) \<le> i64_MAX" "\<forall>i \<in> set xs. 0 < qty i"
    using Cons.prems by auto
  moreover note Cons.IH [OF this(3,1,2)]
  ultimately show ?case by (auto simp: option.map_comp comp_def split_beta algebra_simps)
qed simp

lemma impact_price_eq:
  assumes ok: "book_ok bs" and b: "items_bounded (valid_items bs now oracle_px)"
  shows "impact_price bs d now oracle_px =
     Inr (map_option (\<lambda>(_, y). price_lots y) (split_at qty d (valid_items bs now oracle_px)))"
proof -
  obtain it where it: "BookSideIter_new bs now oracle_px = Inr it" "valid_rest it (valid_items bs now oracle_px)"
      "length (valid_items bs now oracle_px) < iter_fuel it"
    using valid_iter_new [OF ok] by blast
  show ?thesis
    using impact_loop [of "valid_items bs now oracle_px" 0 d] b it(1)
    by (auto simp: impact_price_def valid_iter.for_loop_eq [OF it(2,3)] items_bounded_def)
qed

text \<open>What it costs to take \<open>d\<close> base lots from the items, and how many base lots an amount
  of quote lots pays for when only whole lots can be taken.\<close>

definition cost :: "int \<Rightarrow> BookSideIterItem list \<Rightarrow> int option" where
  "cost d xs = map_option (\<lambda>(ys, y). sum_list (map amt ys) + (d - sum_list (map qty ys)) * price_lots y) (split_at qty d xs)"

definition affordable :: "int \<Rightarrow> BookSideIterItem list \<Rightarrow> int option" where
  "affordable a xs =
     map_option (\<lambda>(ys, y). sum_list (map qty ys) + (a - sum_list (map amt ys)) div price_lots y) (split_at amt a xs)"

lemma map_option_add: "map_option ((+) s) (map_option ((+) t) z) = map_option ((+) (s + t)) z" for s :: int
  by (cases z) auto

lemma cost_Cons:
  "cost d (x # xs) =
     (if d \<le> qty x then Some (d * price_lots x) else map_option ((+) (amt x)) (cost (d - qty x) xs))"
  by (auto simp: cost_def option.map_comp comp_def split_beta algebra_simps)

lemma affordable_Cons:
  "affordable a (x # xs) =
     (if a \<le> amt x then Some (a div price_lots x) else map_option ((+) (qty x)) (affordable (a - amt x) xs))"
  by (auto simp: affordable_def option.map_comp comp_def split_beta diff_diff_eq add.assoc)

lemma items_prefix:
  assumes "\<forall>i \<in> set (x # xs). 0 < qty i \<and> 1 \<le> price_lots i" "0 \<le> s" "0 \<le> t"
    "s + sum_list (map qty (x # xs)) \<le> i64_MAX" "t + sum_list (map amt (x # xs)) \<le> i64_MAX"
  shows "in_i64 (s + qty x)" "in_i64 (amt x)" "in_i64 (t + amt x)"
    "0 \<le> s + qty x" "0 \<le> t + amt x" "s + qty x + sum_list (map qty xs) \<le> i64_MAX"
    "t + amt x + sum_list (map amt xs) \<le> i64_MAX"
proof -
  have "0 \<le> sum_list (map qty xs)" "0 \<le> sum_list (map amt xs)" "0 < qty x" "0 \<le> amt x"
    using assms(1) sum_qty_nonneg [of xs] sum_amt_nonneg [of xs] by auto
  with assms(2-5) show "in_i64 (s + qty x)" "in_i64 (amt x)" "in_i64 (t + amt x)"
    "0 \<le> s + qty x" "0 \<le> t + amt x" "s + qty x + sum_list (map qty xs) \<le> i64_MAX"
    "t + amt x + sum_list (map amt xs) \<le> i64_MAX"
    by (auto intro!: in_i64_nonneg)
qed

lemma amount_loop:
  assumes "\<forall>i \<in> set xs. 0 < qty i \<and> 1 \<le> price_lots i" "0 \<le> s" "0 \<le> t" "s < d" "in_i64 d"
    "s + sum_list (map qty xs) \<le> i64_MAX" "t + sum_list (map amt xs) \<le> i64_MAX"
  shows "\<exists>r. for_list (matched_amount_step d) xs (s, t) = Inr r \<and>
           (case r of Inl _ \<Rightarrow> None | Inr p \<Rightarrow> Some p) = map_option ((+) t) (cost (d - s) xs)"
  using assms
proof (induction xs arbitrary: s t)
  case Nil
  show ?case by (simp add: cost_def)
next
  case (Cons x xs)
  note b = items_prefix [OF Cons.prems(1,2,3,6,7)]
  have x: "0 < qty x" "1 \<le> price_lots x" using Cons.prems(1) by auto
  have d: "in_i64 (s + qty x - d)"
    using Cons.prems(2,4,5) b(1,4) by (auto simp: in_i64_def i64_MIN_def i64_MAX_def)
  show ?case
  proof (cases "d \<le> s + qty x")
    case True
    let ?e = "(s + qty x - d) * price_lots x"
    have "?e \<le> qty x * price_lots x" using x Cons.prems(4) by (intro mult_right_mono) auto
    moreover have "0 \<le> ?e" using True x by simp
    ultimately have "in_i64 ?e" "in_i64 (t + amt x - ?e)"
      using b(2,3,5) Cons.prems(3) by (auto simp: in_i64_def i64_MIN_def)
    with True b d show ?thesis by (simp add: cost_Cons matched_amount_step_def) (simp add: algebra_simps)
  next
    case False
    have "\<exists>r. for_list (matched_amount_step d) xs (s + qty x, t + amt x) = Inr r \<and>
           (case r of Inl _ \<Rightarrow> None | Inr p \<Rightarrow> Some p) = map_option ((+) (t + amt x)) (cost (d - (s + qty x)) xs)"
      using Cons.prems(1,5) b False by (intro Cons.IH) auto
    moreover have "matched_amount_step d x (s, t) = Inr (Inl (s + qty x, t + amt x))"
      using False b d by (simp add: matched_amount_step_def)
    moreover have "map_option ((+) t) (cost (d - s) (x # xs)) = map_option ((+) (t + amt x)) (cost (d - (s + qty x)) xs)"
      using False by (simp add: cost_Cons map_option_add diff_diff_eq)
    ultimately show ?thesis by simp
  qed
qed

lemma matched_amount_eq:
  assumes ok: "book_ok bs" and b: "items_bounded (valid_items bs now oracle_px)" and d: "0 < d" "in_i64 d"
  shows "matched_amount bs d now oracle_px = Inr (cost d (valid_items bs now oracle_px))"
proof -
  obtain it where it: "BookSideIter_new bs now oracle_px = Inr it" "valid_rest it (valid_items bs now oracle_px)"
      "length (valid_items bs now oracle_px) < iter_fuel it"
    using valid_iter_new [OF ok] by blast
  have "map_option ((+) 0) (cost d (valid_items bs now oracle_px)) = cost d (valid_items bs now oracle_px)"
    by (cases "cost d (valid_items bs now oracle_px)") simp_all
  with amount_loop [of "valid_items bs now oracle_px" 0 0 d] b d it(1) show ?thesis
    by (auto simp: matched_amount_def valid_iter.for_loop_eq [OF it(2,3)] items_bounded_def)
qed

lemma quantity_split:
  fixes q p r :: int
  assumes "1 \<le> p"
  shows "q - (q * p - r + p - 1) div p = r div p"
proof -
  have "(q * p - r + p - 1) div p = ((p - 1 - r) + q * p) div p" by (simp add: algebra_simps)
  also have "\<dots> = q + (p - 1 - r) div p" using assms by simp
  also have "(p - 1 - r) div p = - (r div p)"
  proof -
    have "p - 1 - r = (p - 1 - r mod p) + (- (r div p)) * p" by (simp add: algebra_simps minus_div_mult_eq_mod [symmetric])
    then have "(p - 1 - r) div p = ((p - 1 - r mod p) + (- (r div p)) * p) div p" by (rule arg_cong)
    also have "\<dots> = - (r div p) + (p - 1 - r mod p) div p" using assms by (subst div_mult_self1) auto
    also have "(p - 1 - r mod p) div p = 0" using assms pos_mod_sign [of p r] pos_mod_bound [of p r]
      by (intro div_pos_pos_trivial) linarith+
    finally show ?thesis by simp
  qed
  finally show ?thesis by simp
qed

lemma quantity_amount_loop:
  assumes "\<forall>i \<in> set xs. 0 < qty i \<and> 1 \<le> price_lots i" "0 \<le> s" "0 \<le> t" "t < a" "in_i64 a"
    "s + sum_list (map qty xs) \<le> i64_MAX" "t + sum_list (map amt xs) \<le> i64_MAX"
    "\<forall>i \<in> set xs. t + sum_list (map amt xs) + price_lots i \<le> i64_MAX"
  shows "\<exists>r. for_list (matched_quantity_step a) xs (s, t) = Inr r \<and>
           (case r of Inl _ \<Rightarrow> None | Inr p \<Rightarrow> Some p) = map_option ((+) s) (affordable (a - t) xs)"
  using assms
proof (induction xs arbitrary: s t)
  case Nil
  show ?case by (simp add: affordable_def)
next
  case (Cons x xs)
  note b = items_prefix [OF Cons.prems(1,2,3,6,7)]
  have x: "0 < qty x" "1 \<le> price_lots x" using Cons.prems(1) by auto
  have d: "in_i64 (t + amt x - a)"
    using Cons.prems(3,4,5) b(3,5) by (auto simp: in_i64_def i64_MIN_def i64_MAX_def)
  show ?case
  proof (cases "a \<le> t + amt x")
    case True
    let ?e = "t + amt x - a"
    have nn: "0 \<le> sum_list (map amt xs)" using Cons.prems(1) by (intro sum_amt_nonneg) auto
    then have i: "in_i64 (?e + price_lots x)" "in_i64 (?e + price_lots x - 1)" "0 \<le> ?e + price_lots x - 1"
      using Cons.prems(3,4,8) True x by (auto simp: in_i64_def i64_MIN_def)
    have div: "div_i64 (?e + price_lots x - 1) (price_lots x) = Inr ((?e + price_lots x - 1) div price_lots x)"
      using i x by (intro div_i64_pos) auto
    have eq: "qty x - (?e + price_lots x - 1) div price_lots x = (a - t) div price_lots x"
      using quantity_split [OF x(2), of "qty x" "a - t"] by (simp add: algebra_simps)
    have "0 \<le> (a - t) div price_lots x" using x Cons.prems(4) by (simp add: pos_imp_zdiv_nonneg_iff)
    moreover have "0 \<le> (?e + price_lots x - 1) div price_lots x" using x i(3) by (simp add: pos_imp_zdiv_nonneg_iff)
    ultimately have "in_i64 (s + qty x - (?e + price_lots x - 1) div price_lots x)"
      using eq b(1) Cons.prems(2) by (auto simp: in_i64_def i64_MIN_def)
    moreover have eq': "s + qty x - (?e + price_lots x - 1) div price_lots x = s + (a - t) div price_lots x" using eq by simp
    ultimately have "matched_quantity_step a x (s, t) = Inr (Inr (s + (a - t) div price_lots x))"
      using True b(1-3) d i(1,2) div by (simp add: matched_quantity_step_def eq' del: chk_i64_eq_Inr)
    then show ?thesis using True by (simp add: affordable_Cons)
  next
    case False
    have "\<exists>r. for_list (matched_quantity_step a) xs (s + qty x, t + amt x) = Inr r \<and>
           (case r of Inl _ \<Rightarrow> None | Inr p \<Rightarrow> Some p) = map_option ((+) (s + qty x)) (affordable (a - (t + amt x)) xs)"
      using Cons.prems(1,5,8) b False by (intro Cons.IH) (auto simp: algebra_simps)
    moreover have "matched_quantity_step a x (s, t) = Inr (Inl (s + qty x, t + amt x))"
      using False b d by (simp add: matched_quantity_step_def)
    moreover have "map_option ((+) s) (affordable (a - t) (x # xs)) = map_option ((+) (s + qty x)) (affordable (a - (t + amt x)) xs)"
      using False by (simp add: affordable_Cons map_option_add diff_diff_eq)
    ultimately show ?thesis by simp
  qed
qed

lemma matched_quantity_eq:
  assumes ok: "book_ok bs" and b: "items_bounded (valid_items bs now oracle_px)" and a: "0 < a" "in_i64 a"
    and p: "\<forall>i \<in> set (valid_items bs now oracle_px). sum_list (map amt (valid_items bs now oracle_px)) + price_lots i \<le> i64_MAX"
  shows "matched_quantity bs a now oracle_px = Inr (affordable a (valid_items bs now oracle_px))"
proof -
  obtain it where it: "BookSideIter_new bs now oracle_px = Inr it" "valid_rest it (valid_items bs now oracle_px)"
      "length (valid_items bs now oracle_px) < iter_fuel it"
    using valid_iter_new [OF ok] by blast
  have "map_option ((+) 0) (affordable a (valid_items bs now oracle_px)) = affordable a (valid_items bs now oracle_px)"
    by (cases "affordable a (valid_items bs now oracle_px)") simp_all
  with quantity_amount_loop [of "valid_items bs now oracle_px" 0 0 a] b a p it(1) show ?thesis
    by (auto simp: matched_quantity_def valid_iter.for_loop_eq [OF it(2,3)] items_bounded_def)
qed

section \<open>Removing the worst order\<close>

text \<open>The price at which an order of a component is ranked.\<close>

definition order_price :: "Side \<Rightarrow> i64 \<Rightarrow> BookSideOrderTree \<Rightarrow> LeafNode \<Rightarrow> int" where
  "order_price side oracle_px c l =
     (case c of Fixed \<Rightarrow> uint (price_data l) | OraclePegged \<Rightarrow> snd (oracle_pegged_price oracle_px l side))"

lemma pegged_price_clamped:
  "snd (oracle_pegged_price oracle_px l side) = max 1 (sat_i64 (oracle_px + oracle_pegged_price_offset (price_data l)))"
  by (auto simp: oracle_pegged_price_def Let_def)

lemma pegged_price_range:
  "1 \<le> snd (oracle_pegged_price oracle_px l side)" "snd (oracle_pegged_price oracle_px l side) < 2 ^ 63"
  by (auto simp: pegged_price_clamped sat_i64_def i64_MAX_def i64_MIN_def)

lemma price_data_mono: "leaf_key a \<le> leaf_key b \<Longrightarrow> uint (price_data a) \<le> uint (price_data b)"
proof -
  assume "leaf_key a \<le> leaf_key b"
  then have "uint (leaf_key a) div 2 ^ 64 \<le> uint (leaf_key b) div 2 ^ 64"
    by (intro zdiv_mono1) (simp_all add: word_le_def)
  moreover have "uint (leaf_key l) div 2 ^ 64 = uint (price_data l)" for l
    by (subst uint_key_split) simp
  ultimately show ?thesis by simp
qed

lemma order_price_mono:
  "leaf_key a \<le> leaf_key b \<Longrightarrow> order_price side oracle_px c a \<le> order_price side oracle_px c b"
  using price_data_mono [of a b]
  by (cases c) (auto simp: order_price_def pegged_price_clamped sat_i64_def oracle_pegged_price_offset_eq)

lemma rank_price:
  "uint (leaf_key (snd f)) div 2 ^ 64 = order_price side oracle_px Fixed (snd f)"
  "uint (match_key (pegged_item side now oracle_px p)) div 2 ^ 64 = order_price side oracle_px OraclePegged (snd p)"
proof -
  show "uint (leaf_key (snd f)) div 2 ^ 64 = order_price side oracle_px Fixed (snd f)"
    by (subst uint_key_split) (simp add: order_price_def)
  have "match_key (pegged_item side now oracle_px p) =
      fixed_key (leaf_key (snd p)) (snd (oracle_pegged_price oracle_px (snd p) side))"
    by (simp add: match_key_def pegged_item_def)
  then show "uint (match_key (pegged_item side now oracle_px p)) div 2 ^ 64 = order_price side oracle_px OraclePegged (snd p)"
    using pegged_price_range [of oracle_px "snd p" side] by (simp add: uint_fixed_key order_price_def)
qed

text \<open>An item stands for an order \<open>l\<close> of component \<open>c\<close> that is no better than either of the
  given worst orders.\<close>

definition worst_item :: "Side \<Rightarrow> i64 \<Rightarrow> (NodeHandle \<times> LeafNode) option \<Rightarrow> (NodeHandle \<times> LeafNode) option \<Rightarrow>
    BookSideIterItem \<Rightarrow> bool" where
  "worst_item side oracle_px w_f w_p i \<longleftrightarrow>
     (\<exists>h. (case handle_order_tree (item_handle i) of Fixed \<Rightarrow> w_f | OraclePegged \<Rightarrow> w_p) = Some (h, item_node i)) \<and>
     price_lots i = order_price side oracle_px (handle_order_tree (item_handle i)) (item_node i) \<and>
     (\<forall>h l. w_f = Some (h, l) \<longrightarrow> \<not> is_price_better side (price_lots i) (order_price side oracle_px Fixed l)) \<and>
     (\<forall>h l. w_p = Some (h, l) \<longrightarrow> \<not> is_price_better side (price_lots i) (order_price side oracle_px OraclePegged l))"

lemma item_simps [simp]:
  "item_node (fixed_item now x) = snd x" "item_node (pegged_item side now oracle_px x) = snd x"
  "price_lots (fixed_item now x) = uint (price_data (snd x))"
  "order_price side oracle_px Fixed l = uint (price_data l)"
  "price_lots (pegged_item side now oracle_px x) = order_price side oracle_px OraclePegged (snd x)"
  by (simp_all add: fixed_item_def pegged_item_def order_price_def)

lemma rank_orders_worst:
  assumes "\<And>h l. w_f = Some (h, l) \<Longrightarrow> component_ok Fixed l" "\<And>h l. w_p = Some (h, l) \<Longrightarrow> component_ok OraclePegged l"
  shows "\<exists>r. rank_orders side w_f w_p True now oracle_px = Inr r \<and>
     (case r of None \<Rightarrow> w_f = None \<and> w_p = None | Some i \<Rightarrow> worst_item side oracle_px w_f w_p i)"
proof -
  define fs where "fs = (case w_f of None \<Rightarrow> [] | Some x \<Rightarrow> [x])"
  define ps where "ps = (case w_p of None \<Rightarrow> [] | Some x \<Rightarrow> [x])"
  have w: "w_f = (case fs of [] \<Rightarrow> None | x # _ \<Rightarrow> Some x)" "w_p = (case ps of [] \<Rightarrow> None | x # _ \<Rightarrow> Some x)"
    by (auto simp: fs_def ps_def split: option.splits)
  have ok: "leaves_ok (component_ok Fixed) fs" "leaves_ok (component_ok OraclePegged) ps"
    using assms by (auto simp: leaves_ok_def fs_def ps_def split: option.splits)
  note rank = rank_orders_ok [OF ok, of side now oracle_px True, folded w]
  have one: "1 \<le> price_lots (pegged_item side now oracle_px x)" for x
    using pegged_price_range(1) by (simp add: order_price_def)
  have le: "order_price side oracle_px Fixed (snd f) \<le> order_price side oracle_px OraclePegged (snd p)"
    if "leaf_key (snd f) \<le> match_key (pegged_item side now oracle_px p)" for f p
    using that unfolding rank_price(1) [symmetric] rank_price(2) [symmetric, of _ _ _ now]
    by (intro zdiv_mono1) (simp_all add: word_le_def)
  have ge: "order_price side oracle_px OraclePegged (snd p) \<le> order_price side oracle_px Fixed (snd f)"
    if "match_key (pegged_item side now oracle_px p) \<le> leaf_key (snd f)" for f p
    using that unfolding rank_price(1) [symmetric] rank_price(2) [symmetric, of _ _ _ now]
    by (intro zdiv_mono1) (simp_all add: word_le_def)
  show ?thesis
  proof (cases side)
    case Bid
    then show ?thesis using rank [OF one] le ge le [OF less_imp_le] ge [OF less_imp_le]
      by (cases w_f; cases w_p) (auto simp: fs_def ps_def worst_item_def match_key_fixed not_less not_le)
  next
    case Ask
    then show ?thesis using rank [OF one] le ge le [OF less_imp_le] ge [OF less_imp_le]
      by (cases w_f; cases w_p) (auto simp: fs_def ps_def worst_item_def match_key_fixed not_less not_le)
  qed
qed

lemma find_worst_price:
  assumes inv: "book_inv bs ts"
  shows "\<exists>w. find_worst (book_nodes bs) (book_root bs c) = Inr w \<and>
     (case w of
        None \<Rightarrow> component ts c = None
      | Some (h, l) \<Rightarrow> l \<in> orders (component ts c) \<and> component_ok c l \<and>
          (\<forall>x \<in> orders (component ts c). \<not> is_price_better (book_side bs)
             (order_price (book_side bs) oracle_px c l) (order_price (book_side bs) oracle_px c x)))"
proof -
  have ti: "tree_inv (book_nodes bs) (book_root bs c) (component ts c) (tree_slots (component ts (other_component c)))"
    using inv unfolding book_inv_comp [where c = c] by blast
  show ?thesis
  proof (cases "component ts c")
    case None
    with find_worst_ok [OF ti] show ?thesis by simp
  next
    case (Some t)
    then obtain h l where l: "find_worst (book_nodes bs) (book_root bs c) = Inr (Some (h, l))" "(h, l) \<in> set (leaves t)"
        "\<forall>x \<in> orders (component ts c). case order_tree_type (book_nodes bs) of
            Bids \<Rightarrow> leaf_key l \<le> leaf_key x | Asks \<Rightarrow> leaf_key x \<le> leaf_key l"
      using find_worst_ok [OF ti] by auto
    have mem: "l \<in> orders (component ts c)" using l(2) Some by force
    then have "l \<in> snd ` set (best_first (book_nodes bs) (component ts c))" unfolding set_best_first .
    then have "component_ok c l" using leaves_ok_best_first [OF inv, of c] by (auto simp: leaves_ok_def)
    moreover have "\<forall>x \<in> orders (component ts c). \<not> is_price_better (book_side bs)
             (order_price (book_side bs) oracle_px c l) (order_price (book_side bs) oracle_px c x)"
      using l(3) order_price_mono [of _ _ "book_side bs" oracle_px c]
      by (cases "order_tree_type (book_nodes bs)") (auto simp: book_side_def not_less)
    ultimately show ?thesis using l(1) mem by simp
  qed
qed

lemma book_remove_worst_ok:
  assumes inv: "book_inv bs ts"
  shows "if component ts Fixed = None \<and> component ts OraclePegged = None
         then book_remove_worst bs now oracle_px = Inr (bs, None)
         else \<exists>bs' c l to'. book_remove_worst bs now oracle_px =
                Inr (bs', Some (l, order_price (book_side bs) oracle_px c l)) \<and>
              l \<in> orders (component ts c) \<and> book_inv bs' (component_upd c to' ts) \<and> book_side bs' = book_side bs \<and>
              orders to' = {x \<in> orders (component ts c). leaf_key x \<noteq> leaf_key l} \<and>
              (\<forall>d. \<forall>x \<in> orders (component ts d). \<not> is_price_better (book_side bs)
                 (order_price (book_side bs) oracle_px c l) (order_price (book_side bs) oracle_px d x))"
proof -
  let ?s = "book_side bs" and ?P = "order_price (book_side bs) oracle_px"
  obtain w_f where f: "find_worst (book_nodes bs) (book_root bs Fixed) = Inr w_f"
    "case w_f of None \<Rightarrow> component ts Fixed = None
      | Some (h, l) \<Rightarrow> l \<in> orders (component ts Fixed) \<and> component_ok Fixed l \<and>
          (\<forall>x \<in> orders (component ts Fixed). \<not> is_price_better ?s (?P Fixed l) (?P Fixed x))"
    using find_worst_price [OF inv] by blast
  obtain w_p where p: "find_worst (book_nodes bs) (book_root bs OraclePegged) = Inr w_p"
    "case w_p of None \<Rightarrow> component ts OraclePegged = None
      | Some (h, l) \<Rightarrow> l \<in> orders (component ts OraclePegged) \<and> component_ok OraclePegged l \<and>
          (\<forall>x \<in> orders (component ts OraclePegged). \<not> is_price_better ?s (?P OraclePegged l) (?P OraclePegged x))"
    using find_worst_price [OF inv] by blast
  obtain r where r: "rank_orders ?s w_f w_p True now oracle_px = Inr r"
      "case r of None \<Rightarrow> w_f = None \<and> w_p = None | Some i \<Rightarrow> worst_item ?s oracle_px w_f w_p i"
    using rank_orders_worst [of w_f w_p ?s now oracle_px] f(2) p(2) by fastforce
  show ?thesis
  proof (cases r)
    case None
    with f p r show ?thesis by (simp add: book_remove_worst_def)
  next
    case (Some i)
    define c where "c = handle_order_tree (item_handle i)"
    define l where "l = item_node i"
    note wi = r(2) [unfolded Some option.case worst_item_def, folded c_def l_def]
    have mem: "l \<in> orders (component ts c)" using wi f(2) p(2) by (cases c) auto
    then have ne: "\<not> (component ts Fixed = None \<and> component ts OraclePegged = None)" by (cases c) auto
    obtain bs' to' where rm: "book_remove_by_key bs c (leaf_key l) = Inr (bs', order_map (component ts c) (leaf_key l))"
        "book_inv bs' (component_upd c to' ts)" "book_side bs' = book_side bs"
        "orders to' = {x \<in> orders (component ts c). leaf_key x \<noteq> leaf_key l}"
      using book_remove_by_key_ok [OF inv] by blast
    have "order_map (component ts c) (leaf_key l) = Some l"
      using order_map_unique [OF book_inv_crit [OF inv] mem] .
    then have run: "book_remove_worst bs now oracle_px = Inr (bs', Some (l, ?P c l))"
      using f(1) p(1) r(1) Some rm(1) wi by (simp add: book_remove_worst_def c_def l_def)
    have "\<not> is_price_better ?s (?P c l) (?P d x)" if x: "x \<in> orders (component ts d)" for d x
    proof -
      obtain h y where y: "(case d of Fixed \<Rightarrow> w_f | OraclePegged \<Rightarrow> w_p) = Some (h, y)"
        using x f(2) p(2) by (cases d) (auto split: option.splits)
      then have "\<not> is_price_better ?s (?P c l) (?P d y)" using wi by (cases d) auto
      moreover have "\<not> is_price_better ?s (?P d y) (?P d x)" using y x f(2) p(2) by (cases d) auto
      ultimately show ?thesis by (cases ?s) auto
    qed
    with run mem rm ne show ?thesis unfolding if_not_P [OF ne] by blast
  qed
qed

end
