(* ===== verification/Perp_Market.thy ===== *)
theory Perp_Market
  imports Stable_Price Oracle Book_Side_Queries
begin

text \<open>
  Perp markets (\<^verbatim>\<open>state/perp_market.rs\<close>): the market record, order ids, price conversions,
  funding and stable price updates from the book, loss socialization and settle fees.
\<close>

section \<open>Data\<close>

record PerpMarket =
  pm_group :: pubkey
  settle_token_index :: u16
  perp_market_index :: u16
  group_insurance_fund :: u8
  base_decimals :: u8
  pm_name :: "8 word list"
  pm_bids :: pubkey
  pm_asks :: pubkey
  pm_event_queue :: pubkey
  pm_queue :: pubkey
  queue_last_executed_seq :: u64
  pm_oracle :: pubkey
  oracle_config :: OracleConfig
  stable_price_model :: StablePriceModel
  quote_lot_size :: i64
  base_lot_size :: i64
  maint_base_asset_weight :: i80f48
  init_base_asset_weight :: i80f48
  maint_base_liab_weight :: i80f48
  init_base_liab_weight :: i80f48
  open_interest :: i64
  pm_seq_num :: u64
  registration_time :: u64
  min_funding :: i80f48
  max_funding :: i80f48
  impact_quantity :: i64
  long_funding :: i80f48
  short_funding :: i80f48
  funding_last_updated :: u64
  base_liquidation_fee :: i80f48
  maker_fee :: i80f48
  taker_fee :: i80f48
  fees_accrued :: i80f48
  fees_settled :: i80f48
  fee_penalty :: f32
  settle_fee_flat :: f32
  settle_fee_amount_threshold :: f32
  settle_fee_fraction_low_health :: f32
  settle_pnl_limit_factor :: f32
  settle_pnl_limit_window_size_ts :: u64
  pm_reduce_only :: u8
  pm_force_close :: u8
  maint_overall_asset_weight :: i80f48
  init_overall_asset_weight :: i80f48
  positive_pnl_liquidation_fee :: i80f48
  fees_withdrawn :: u64
  platform_liquidation_fee :: i80f48
  accrued_liquidation_fees :: i80f48

definition is_reduce_only :: "PerpMarket \<Rightarrow> bool" where
  "is_reduce_only m \<longleftrightarrow> pm_reduce_only m = 1"

definition is_force_close :: "PerpMarket \<Rightarrow> bool" where
  "is_force_close m \<longleftrightarrow> pm_force_close m = 1"

definition elligible_for_group_insurance_fund :: "PerpMarket \<Rightarrow> bool" where
  "elligible_for_group_insurance_fund m \<longleftrightarrow> group_insurance_fund m = 1"

definition set_elligible_for_group_insurance_fund :: "PerpMarket \<Rightarrow> bool \<Rightarrow> PerpMarket" where
  "set_elligible_for_group_insurance_fund m v = m\<lparr>group_insurance_fund := (if v then 1 else 0)\<rparr>"

definition pm_settle_pnl_limit_factor :: "fixed_ops \<Rightarrow> PerpMarket \<Rightarrow> i80f48 res" where
  "pm_settle_pnl_limit_factor F m = fx_of_f32 F (settle_pnl_limit_factor m)"

definition gen_order_id :: "PerpMarket \<Rightarrow> Side \<Rightarrow> 64 word \<Rightarrow> (PerpMarket \<times> u128) res" where
  "gen_order_id m side pd =
     rbind (chk_u64 (pm_seq_num m + 1)) (\<lambda>s.
       Inr (m\<lparr>pm_seq_num := s\<rparr>, new_node_key side pd (word_of_nat s)))"

definition pm_oracle_state ::
  "fixed_ops \<Rightarrow> PerpMarket \<Rightarrow> pubkey \<Rightarrow> OracleState res \<Rightarrow> (u64 \<times> u64) option \<Rightarrow> OracleState res" where
  "pm_oracle_state F m oracle_key oracle_state_unchecked now =
     rbind (require (pm_oracle m = oracle_key) RequireViolated) (\<lambda>_.
     rbind oracle_state_unchecked (\<lambda>state.
     rbind (check_confidence_and_maybe_staleness F state (oracle_config m) now) (\<lambda>_. Inr state)))"

definition pm_oracle_price ::
  "fixed_ops \<Rightarrow> PerpMarket \<Rightarrow> pubkey \<Rightarrow> OracleState res \<Rightarrow> (u64 \<times> u64) option \<Rightarrow> i80f48 res" where
  "pm_oracle_price F m oracle_key oracle_state_unchecked now =
     rbind (pm_oracle_state F m oracle_key oracle_state_unchecked now) (\<lambda>s. Inr (os_price s))"

definition pm_stable_price :: "fixed_ops \<Rightarrow> PerpMarket \<Rightarrow> i80f48 res" where
  "pm_stable_price F m = fx_of_f64 F (sp_stable_price (stable_price_model m))"

section \<open>Price conversions\<close>

definition lot_to_native_price :: "fixed_ops \<Rightarrow> PerpMarket \<Rightarrow> i64 \<Rightarrow> i80f48 res" where
  "lot_to_native_price F m price =
     rbind (fx_mul F (fx_of_int F price) (fx_of_int F (quote_lot_size m))) (\<lambda>x.
       fx_div F x (fx_of_int F (base_lot_size m)))"

definition native_price_to_lot :: "fixed_ops \<Rightarrow> PerpMarket \<Rightarrow> i80f48 \<Rightarrow> i64 res" where
  "native_price_to_lot F m price =
     rbind (fx_mul F price (fx_of_int F (base_lot_size m))) (\<lambda>x.
     rbind (fx_div F x (fx_of_int F (quote_lot_size m))) (fx_to_i64 F))"

definition inside_price_limit :: "fixed_ops \<Rightarrow> PerpMarket \<Rightarrow> Side \<Rightarrow> i80f48 \<Rightarrow> i80f48 \<Rightarrow> bool res" where
  "inside_price_limit F m side native_price oracle_price =
     (case side of
        Bid \<Rightarrow> rbind (fx_mul F (maint_base_liab_weight m) oracle_price) (\<lambda>l. Inr (native_price \<le> l))
      | Ask \<Rightarrow> rbind (fx_mul F (maint_base_asset_weight m) oracle_price) (\<lambda>l. Inr (native_price \<ge> l)))"

section \<open>Funding\<close>

text \<open>The two sides of the book of a market (\<^verbatim>\<open>Orderbook\<close> of \<^verbatim>\<open>state/orderbook/book.rs\<close>).\<close>

record Orderbook =
  bids :: BookSide
  asks :: BookSide

definition bookside :: "Orderbook \<Rightarrow> Side \<Rightarrow> BookSide" where
  "bookside b side = (case side of Bid \<Rightarrow> bids b | Ask \<Rightarrow> asks b)"

definition set_bookside :: "Orderbook \<Rightarrow> Side \<Rightarrow> BookSide \<Rightarrow> Orderbook" where
  "set_bookside b side bs = (case side of Bid \<Rightarrow> b\<lparr>bids := bs\<rparr> | Ask \<Rightarrow> b\<lparr>asks := bs\<rparr>)"

definition DAY_I80F48 :: i80f48 where
  "DAY_I80F48 = 86400 * fx_one"

text \<open>\<^verbatim>\<open>Ord::clamp\<close>, which panics on empty ranges.\<close>

definition clamp :: "'a::linorder \<Rightarrow> 'a \<Rightarrow> 'a \<Rightarrow> 'a res" where
  "clamp x lo hi = (if lo \<le> hi then Inr (max lo (min hi x)) else Inl Panic)"

definition funding_rate ::
  "fixed_ops \<Rightarrow> PerpMarket \<Rightarrow> i80f48 \<Rightarrow> i64 option \<Rightarrow> i64 option \<Rightarrow> i80f48 res" where
  "funding_rate F m oracle_price bid ask =
     (case (bid, ask) of
        (Some bid, Some ask) \<Rightarrow>
          rbind (chk_i64 (bid + ask)) (\<lambda>s.
          rbind (div_i64 s 2) (\<lambda>mid_price.
          rbind (lot_to_native_price F m mid_price) (\<lambda>book_price.
          rbind (fx_div F book_price oracle_price) (\<lambda>q.
          rbind (fx_sub F q fx_one) (\<lambda>diff. clamp diff (min_funding m) (max_funding m))))))
      | (Some _, None) \<Rightarrow> Inr (max_funding m)
      | (None, Some _) \<Rightarrow> Inr (min_funding m)
      | (None, None) \<Rightarrow> Inr 0)"

text \<open>The stable price is converted once more for the log, which can overflow.\<close>

definition update_funding_and_stable_price ::
  "fixed_ops \<Rightarrow> PerpMarket \<Rightarrow> Orderbook \<Rightarrow> OracleState \<Rightarrow> u64 \<Rightarrow> PerpMarket res" where
  "update_funding_and_stable_price F m book oracle_state now =
     (if now \<le> funding_last_updated m then Inr m
      else
        rbind (native_price_to_lot F m (os_price oracle_state)) (\<lambda>oracle_price_lots.
        rbind (impact_price (bookside book Bid) (impact_quantity m) now oracle_price_lots) (\<lambda>bid.
        rbind (impact_price (bookside book Ask) (impact_quantity m) now oracle_price_lots) (\<lambda>ask.
        rbind (funding_rate F m (os_price oracle_state) bid ask) (\<lambda>rate.
        rbind (fx_div F (fx_of_int F (int (min (now - funding_last_updated m) 3600))) DAY_I80F48) (\<lambda>time_factor.
        rbind (fx_mul F (os_price oracle_state) (fx_of_int F (base_lot_size m))) (\<lambda>x.
        rbind (fx_mul F x rate) (\<lambda>y.
        rbind (fx_mul F y time_factor) (\<lambda>funding_delta.
        rbind (fx_add F (long_funding m) funding_delta) (\<lambda>lf.
        rbind (fx_add F (short_funding m) funding_delta) (\<lambda>sf.
        rbind (stable_price_update (stable_price_model m) now (fx_to_f64 F (os_price oracle_state))) (\<lambda>spm.
        let m' = m\<lparr>long_funding := lf, short_funding := sf, funding_last_updated := now, stable_price_model := spm\<rparr>
        in rbind (pm_stable_price F m') (\<lambda>_. Inr m')))))))))))))"

section \<open>Losses and settle fees\<close>

definition socialize_loss :: "fixed_ops \<Rightarrow> PerpMarket \<Rightarrow> i80f48 \<Rightarrow> (PerpMarket \<times> i80f48) res" where
  "socialize_loss F m loss =
     rbind (require (0 \<ge> loss) RequireViolated) (\<lambda>_.
     rbind (if open_interest m = 0 then Inr 0 else fx_div F loss (fx_of_int F (open_interest m))) (\<lambda>socialized_loss.
     rbind (fx_sub F (long_funding m) socialized_loss) (\<lambda>lf.
     rbind (fx_add F (short_funding m) socialized_loss) (\<lambda>sf.
       Inr (m\<lparr>long_funding := lf, short_funding := sf\<rparr>, socialized_loss)))))"

definition low_health_fee :: "fixed_ops \<Rightarrow> PerpMarket \<Rightarrow> i80f48 \<Rightarrow> i80f48 \<Rightarrow> i80f48 \<Rightarrow> i80f48 res" where
  "low_health_fee F m settlement source_liq_end_health source_maint_health =
     (if source_liq_end_health < 0 then
        rbind (fx_of_f32 F (settle_fee_fraction_low_health m)) (\<lambda>fee_fraction.
          if source_maint_health < 0 then fx_mul F settlement fee_fraction
          else
            rbind (fx_mul F settlement fee_fraction) (\<lambda>x.
            rbind (fx_neg F source_liq_end_health) (\<lambda>n.
            rbind (fx_sub F source_maint_health source_liq_end_health) (\<lambda>d.
            rbind (fx_div F n d) (\<lambda>q. fx_mul F x q)))))
      else Inr 0)"

definition compute_settle_fee ::
  "fixed_ops \<Rightarrow> PerpMarket \<Rightarrow> i80f48 \<Rightarrow> i80f48 \<Rightarrow> i80f48 \<Rightarrow> i80f48 \<Rightarrow> i80f48 \<Rightarrow> i80f48 res" where
  "compute_settle_fee F m settlement source_pnl_value source_position_value source_liq_end_health source_maint_health =
     rbind (fx_mul F (fx_of_int F 100) source_pnl_value) (\<lambda>pnl100.
       if \<not> pnl100 > source_position_value then Inr 0
       else if \<not> source_maint_health \<ge> source_liq_end_health then Inl Panic
       else
         rbind (low_health_fee F m settlement source_liq_end_health source_maint_health) (\<lambda>lhf.
         rbind (fx_of_f32 F (settle_fee_flat m)) (\<lambda>flat_fee.
         rbind (if fx_ge_f32 F settlement (settle_fee_amount_threshold m) then Inr flat_fee
                else rbind (fx_mul F flat_fee (fx_of_int F 2)) (\<lambda>f2. Inr (min lhf f2))) (\<lambda>fee.
         rbind (require (min fee settlement \<ge> 0) (MangoErr SettlementAmountMustBePositive)) (\<lambda>_.
           Inr (min fee settlement))))))"

section \<open>Facts\<close>

lemma bookside_set [simp]:
  "bookside (set_bookside b s bs) t = (if s = t then bs else bookside b t)"
  by (cases s; cases t) (simp_all add: bookside_def set_bookside_def)

lemma funding_rate_bounds:
  assumes "funding_rate F m p bid ask = Inr r" "min_funding m \<le> 0" "0 \<le> max_funding m"
  shows "min_funding m \<le> r \<and> r \<le> max_funding m"
  using assms by (auto simp: funding_rate_def clamp_def rbind_eq_Inr split: option.splits if_splits)

lemma word_of_nat_less:
  "a < b \<Longrightarrow> b \<le> u64_MAX \<Longrightarrow> (word_of_nat a :: 64 word) < word_of_nat b"
  by (simp add: word_less_nat_alt unat_of_nat u64_MAX_def)

section \<open>A market to evaluate on\<close>

text \<open>\<^verbatim>\<open>PerpMarket::default_for_tests\<close>, with the unique keys it draws as an argument.\<close>

definition default_for_tests :: "(nat \<Rightarrow> pubkey) \<Rightarrow> PerpMarket" where
  "default_for_tests new_unique =
     \<lparr>pm_group = new_unique 0, settle_token_index = 0, perp_market_index = 0, group_insurance_fund = 0,
      base_decimals = 0, pm_name = replicate 16 0, pm_bids = new_unique 1, pm_asks = new_unique 2,
      pm_event_queue = new_unique 3, pm_queue = new_unique 4, queue_last_executed_seq = 0, pm_oracle = new_unique 5,
      oracle_config = \<lparr>conf_filter = 0, max_staleness_slots = - 1\<rparr>,
      stable_price_model = StablePriceModel_default, quote_lot_size = 1, base_lot_size = 1,
      maint_base_asset_weight = fx_one, init_base_asset_weight = fx_one,
      maint_base_liab_weight = fx_one, init_base_liab_weight = fx_one,
      open_interest = 0, pm_seq_num = 0, registration_time = 0, min_funding = 0, max_funding = 0,
      impact_quantity = 0, long_funding = 0, short_funding = 0, funding_last_updated = 0,
      base_liquidation_fee = 0, maker_fee = 0, taker_fee = 0, fees_accrued = 0, fees_settled = 0,
      fee_penalty = fl_of_int binary32 0, settle_fee_flat = fl_of_int binary32 0,
      settle_fee_amount_threshold = fl_of_int binary32 0, settle_fee_fraction_low_health = fl_of_int binary32 0,
      settle_pnl_limit_factor = fl_lit binary32 2 10, settle_pnl_limit_window_size_ts = 24 * 60 * 60,
      pm_reduce_only = 0, pm_force_close = 0, maint_overall_asset_weight = fx_one,
      init_overall_asset_weight = fx_one, positive_pnl_liquidation_fee = 0, fees_withdrawn = 0,
      platform_liquidation_fee = 0, accrued_liquidation_fees = 0\<rparr>"

definition sample_market :: PerpMarket where
  "sample_market = (default_for_tests (\<lambda>_. []))\<lparr>open_interest := 4, impact_quantity := 100\<rparr>"

definition empty_book :: Orderbook where
  "empty_book = \<lparr>bids = empty_side Bids, asks = empty_side Asks\<rparr>"

lemma empty_side_items [simp]: "book_items (empty_side ty) now p = []"
proof -
  have "component (trees_of (empty_side ty)) c = None" for c
    using empty_side_inv [of ty] book_inv_trees by (cases c) fastforce+
  then show ?thesis by (simp add: book_items_def walk_items_def best_first_def)
qed

lemma empty_side_impact [simp]: "impact_price (empty_side ty) d now p = Inr None"
  by (subst impact_price_eq) (simp_all add: valid_items_def items_bounded_def i64_MAX_def)

section \<open>Properties\<close>

text \<open>
  First come, first served: of two orders of a market at the same price data, the one whose
  id was generated earlier has the id that the book ranks first, and the market's sequence
  number never decreases.
\<close>

lemma gen_order_id_first_come:
  assumes "gen_order_id m side pd = Inr (m1, k1)" "pm_seq_num m1 \<le> pm_seq_num m'"
    and "gen_order_id m' side pd = Inr (m2, k2)"
  shows "pm_seq_num m < pm_seq_num m1 \<and> pm_seq_num m1 < pm_seq_num m2 \<and>
         (if side = Bid then k2 < k1 else k1 < k2)"
  using assms word_of_nat_less [of "pm_seq_num m1" "pm_seq_num m2"]
  by (auto simp: gen_order_id_def rbind_eq_Inr chk_u64_def new_node_key_less_iff split: if_splits)

text \<open>
  C14. Funding is symmetric and bounded. An update that is due adds the same amount to the long and the
  short funding; the amount is the oracle value of a base lot times a rate between the
  configured minimum and maximum times the elapsed fraction of a day, which counts at most an
  hour; an update that is not due changes nothing.
\<close>

theorem funding_update_symmetric_bounded:
  assumes F: "fixed_laws F" and m: "min_funding m \<le> 0" "0 \<le> max_funding m"
    and up: "update_funding_and_stable_price F m book os now = Inr m'"
  shows "if now \<le> funding_last_updated m then m' = m
         else \<exists>rate tf. min_funding m \<le> rate \<and> rate \<le> max_funding m \<and>
                fx_div F (int (min (now - funding_last_updated m) 3600) * fx_one) (86400 * fx_one) = Inr tf \<and>
                (let delta = os_price os * base_lot_size m * rate div fx_one * tf div fx_one
                 in long_funding m' = long_funding m + delta \<and> short_funding m' = short_funding m + delta) \<and>
                funding_last_updated m' = now"
proof (cases "now \<le> funding_last_updated m")
  case True
  with up show ?thesis by (simp add: update_funding_and_stable_price_def)
next
  case False
  then obtain lots bid ask rate tf x y d lf sf spm where r:
      "funding_rate F m (os_price os) bid ask = Inr rate"
      "fx_div F (fx_of_int F (int (min (now - funding_last_updated m) 3600))) DAY_I80F48 = Inr tf"
      "fx_mul F (os_price os) (fx_of_int F (base_lot_size m)) = Inr x" "fx_mul F x rate = Inr y"
      "fx_mul F y tf = Inr d" "fx_add F (long_funding m) d = Inr lf" "fx_add F (short_funding m) d = Inr sf"
      "m' = m\<lparr>long_funding := lf, short_funding := sf, funding_last_updated := now, stable_price_model := spm\<rparr>"
    using up by (auto simp: update_funding_and_stable_price_def rbind_eq_Inr Let_def)
  have x: "x = os_price os * base_lot_size m" using r(3) by (simp add: fixed_lawsD [OF F] chk_i128_eq_Inr)
  have d: "d = os_price os * base_lot_size m * rate div fx_one * tf div fx_one"
    using r(4,5) by (simp add: fixed_lawsD [OF F] chk_i128_eq_Inr x)
  show ?thesis
    unfolding if_not_P [OF False] Let_def d [symmetric]
  proof (intro exI conjI)
    show "min_funding m \<le> rate" "rate \<le> max_funding m" using funding_rate_bounds [OF r(1) m] by simp_all
    show "fx_div F (int (min (now - funding_last_updated m) 3600) * fx_one) (86400 * fx_one) = Inr tf"
      using r(2) by (simp only: fixed_lawsD [OF F] DAY_I80F48_def)
  qed (use r in \<open>simp_all add: fixed_lawsD [OF F] chk_i128_eq_Inr d\<close>)
qed

theorem funding_update_symmetric_bounded_witness:
  "\<exists>m'. update_funding_and_stable_price fixed_reference sample_market empty_book
       \<lparr>os_price = fx_one, deviation = 0, last_update_slot = 0, last_update_time = None, oracle_type = Stub\<rparr> 5 = Inr m' \<and>
     funding_last_updated m' = 5 \<and> long_funding m' = short_funding m'"
proof -
  let ?os = "\<lparr>os_price = fx_one, deviation = 0, last_update_slot = 0, last_update_time = None, oracle_type = Stub\<rparr>"
  have "reset_on_nonzero_price StablePriceModel_default \<noteq> 1" "5 < last_update_timestamp StablePriceModel_default + 10"
    by (simp_all add: StablePriceModel_default_def)
  note early = stable_price_update_early [OF this]
  have zero_price: "sp_stable_price StablePriceModel_default = Fin False 0 (- 1074)"
    by (simp add: StablePriceModel_default_def fl_of_int_def binary64_def)
  obtain m' where m': "update_funding_and_stable_price fixed_reference sample_market empty_book ?os 5 = Inr m'"
    by (simp add: update_funding_and_stable_price_def sample_market_def default_for_tests_def empty_book_def
        native_price_to_lot_def bookside_def funding_rate_def DAY_I80F48_def early pm_stable_price_def zero_price
        signed_of_def round_half_even_def Let_def
        fixed_reference_def chk_i128_def in_i128_def trunc_div_def in_i64_def i64_MIN_def i64_MAX_def)
  have s: "min_funding sample_market \<le> 0" "0 \<le> max_funding sample_market" "funding_last_updated sample_market = 0"
      "long_funding sample_market = short_funding sample_market"
    by (simp_all add: sample_market_def default_for_tests_def)
  show ?thesis
    using funding_update_symmetric_bounded [OF fixed_reference_laws s(1,2) m'] m' s(3,4) by (auto simp: Let_def)
qed

text \<open>
  A settle fee is never negative and never more than the settled amount.
\<close>

lemma settle_fee_bounded:
  assumes "compute_settle_fee F m settlement pnl pos liq_end maint = Inr fee" "0 \<le> settlement"
  shows "0 \<le> fee \<and> fee \<le> settlement"
  using assms by (auto simp: compute_settle_fee_def rbind_eq_Inr split: if_splits)

end
