(* ===== verification/Perp_Position.thy ===== *)
theory Perp_Position
  imports Perp_Market
begin

text \<open>
  Perp positions of an account (\<^verbatim>\<open>PerpPosition\<close> in \<^verbatim>\<open>state/mango_account_components.rs\<close>): trades,
  funding, fees, and the limit on settling profit and loss. The lemmas show what each
  operation changes and what it leaves alone, and that the settle limit only ever shrinks a
  settlement towards zero.
\<close>

section \<open>Data\<close>

record PerpPosition =
  pp_market_index :: u16
  settle_pnl_limit_window :: u32
  settle_pnl_limit_settled_in_current_window_native :: i64
  base_position_lots :: i64
  quote_position_native :: i80f48
  quote_running_native :: i64
  long_settled_funding :: i80f48
  short_settled_funding :: i80f48
  bids_base_lots :: i64
  asks_base_lots :: i64
  taker_base_lots :: i64
  taker_quote_lots :: i64
  cumulative_long_funding :: f64
  cumulative_short_funding :: f64
  maker_volume :: u64
  taker_volume :: u64
  perp_spot_transfers :: i64
  avg_entry_price_per_base_lot :: f64
  deprecated_realized_trade_pnl_native :: i80f48
  oneshot_settle_pnl_allowance :: i80f48
  recurring_settle_pnl_allowance :: i64
  realized_pnl_for_position_native :: i80f48

definition PerpPosition_default :: PerpPosition where
  "PerpPosition_default =
     \<lparr>pp_market_index = u16_MAX, settle_pnl_limit_window = 0,
      settle_pnl_limit_settled_in_current_window_native = 0, base_position_lots = 0,
      quote_position_native = 0, quote_running_native = 0, long_settled_funding = 0,
      short_settled_funding = 0, bids_base_lots = 0, asks_base_lots = 0, taker_base_lots = 0,
      taker_quote_lots = 0, cumulative_long_funding = fl_zero, cumulative_short_funding = fl_zero,
      maker_volume = 0, taker_volume = 0, perp_spot_transfers = 0,
      avg_entry_price_per_base_lot = fl_zero, deprecated_realized_trade_pnl_native = 0,
      oneshot_settle_pnl_allowance = 0, recurring_settle_pnl_allowance = 0,
      realized_pnl_for_position_native = 0\<rparr>"

section \<open>Orders and unprocessed trades\<close>

definition add_taker_trade :: "PerpPosition \<Rightarrow> Side \<Rightarrow> i64 \<Rightarrow> i64 \<Rightarrow> PerpPosition res" where
  "add_taker_trade pp side base_lots quote_lots =
     (case side of
        Bid \<Rightarrow>
          rbind (chk_i64 (taker_base_lots pp + base_lots)) (\<lambda>b.
          rbind (chk_i64 (taker_quote_lots pp - quote_lots)) (\<lambda>q.
            Inr (pp\<lparr>taker_base_lots := b, taker_quote_lots := q\<rparr>)))
      | Ask \<Rightarrow>
          rbind (chk_i64 (taker_base_lots pp - base_lots)) (\<lambda>b.
          rbind (chk_i64 (taker_quote_lots pp + quote_lots)) (\<lambda>q.
            Inr (pp\<lparr>taker_base_lots := b, taker_quote_lots := q\<rparr>))))"

definition remove_taker_trade :: "PerpPosition \<Rightarrow> i64 \<Rightarrow> i64 \<Rightarrow> PerpPosition res" where
  "remove_taker_trade pp base_change quote_change =
     rbind (chk_i64 (taker_base_lots pp - base_change)) (\<lambda>b.
     rbind (chk_i64 (taker_quote_lots pp - quote_change)) (\<lambda>q.
       Inr (pp\<lparr>taker_base_lots := b, taker_quote_lots := q\<rparr>)))"

definition adjust_maker_lots :: "PerpPosition \<Rightarrow> Side \<Rightarrow> i64 \<Rightarrow> PerpPosition res" where
  "adjust_maker_lots pp side base_lots =
     (case side of
        Bid \<Rightarrow> rbind (chk_i64 (bids_base_lots pp + base_lots)) (\<lambda>b. Inr (pp\<lparr>bids_base_lots := b\<rparr>))
      | Ask \<Rightarrow> rbind (chk_i64 (asks_base_lots pp + base_lots)) (\<lambda>a. Inr (pp\<lparr>asks_base_lots := a\<rparr>)))"

definition pp_is_active :: "PerpPosition \<Rightarrow> bool" where
  "pp_is_active pp \<longleftrightarrow> pp_market_index pp \<noteq> u16_MAX"

definition pp_is_active_for_market :: "PerpPosition \<Rightarrow> u16 \<Rightarrow> bool" where
  "pp_is_active_for_market pp market_index \<longleftrightarrow> pp_market_index pp = market_index"

definition base_position_native :: "fixed_ops \<Rightarrow> PerpPosition \<Rightarrow> PerpMarket \<Rightarrow> i80f48 res" where
  "base_position_native F pp market =
     rbind (chk_i64 (base_position_lots pp * base_lot_size market)) (\<lambda>n. Inr (fx_of_int F n))"

definition effective_base_position_lots :: "PerpPosition \<Rightarrow> i64 res" where
  "effective_base_position_lots pp = chk_i64 (base_position_lots pp + taker_base_lots pp)"

definition has_open_orders :: "PerpPosition \<Rightarrow> bool" where
  "has_open_orders pp \<longleftrightarrow> asks_base_lots pp \<noteq> 0 \<or> bids_base_lots pp \<noteq> 0"

definition has_open_taker_fills :: "PerpPosition \<Rightarrow> bool" where
  "has_open_taker_fills pp \<longleftrightarrow> taker_base_lots pp \<noteq> 0 \<or> taker_quote_lots pp \<noteq> 0"

definition has_open_orders_or_fills :: "PerpPosition \<Rightarrow> bool" where
  "has_open_orders_or_fills pp \<longleftrightarrow> has_open_orders pp \<or> has_open_taker_fills pp"

section \<open>Funding\<close>

definition unsettled_funding :: "fixed_ops \<Rightarrow> PerpPosition \<Rightarrow> PerpMarket \<Rightarrow> i80f48 res" where
  "unsettled_funding F pp market =
     (if base_position_lots pp > 0 then
        rbind (fx_sub F (long_funding market) (long_settled_funding pp)) (\<lambda>d.
          fx_mul F d (fx_of_int F (base_position_lots pp)))
      else if base_position_lots pp < 0 then
        rbind (fx_sub F (short_funding market) (short_settled_funding pp)) (\<lambda>d.
          fx_mul F d (fx_of_int F (base_position_lots pp)))
      else Inr 0)"

definition settle_funding :: "fixed_ops \<Rightarrow> PerpPosition \<Rightarrow> PerpMarket \<Rightarrow> PerpPosition res" where
  "settle_funding F pp market =
     rbind (unsettled_funding F pp market) (\<lambda>funding.
     rbind (fx_sub F (quote_position_native pp) funding) (\<lambda>q.
     rbind (fx_sub F (oneshot_settle_pnl_allowance pp) funding) (\<lambda>o'.
     rbind (fx_sub F (realized_pnl_for_position_native pp) funding) (\<lambda>r.
       let pp1 = pp\<lparr>quote_position_native := q, oneshot_settle_pnl_allowance := o',
                    realized_pnl_for_position_native := r\<rparr>;
           pp2 = (if base_position_lots pp > 0
                  then pp1\<lparr>cumulative_long_funding :=
                         fl_add binary64 (cumulative_long_funding pp) (fx_to_f64 F funding)\<rparr>
                  else pp1\<lparr>cumulative_short_funding :=
                         fl_sub binary64 (cumulative_short_funding pp) (fx_to_f64 F funding)\<rparr>)
       in Inr (pp2\<lparr>long_settled_funding := long_funding market, short_settled_funding := short_funding market\<rparr>)))))"

section \<open>Trades\<close>

definition abs_i64 :: "i64 \<Rightarrow> i64 res" where
  "abs_i64 x = chk_i64 \<bar>x\<bar>"

definition change_base_position :: "PerpPosition \<Rightarrow> PerpMarket \<Rightarrow> i64 \<Rightarrow> (PerpPosition \<times> PerpMarket) res" where
  "change_base_position pp market base_change =
     (let start = base_position_lots pp
      in rbind (chk_i64 (base_position_lots pp + base_change)) (\<lambda>b.
         rbind (abs_i64 b) (\<lambda>ab. rbind (abs_i64 start) (\<lambda>as.
         rbind (chk_i64 (ab - as)) (\<lambda>d.
         rbind (chk_i64 (open_interest market + d)) (\<lambda>oi.
           Inr (pp\<lparr>base_position_lots := b\<rparr>, market\<lparr>open_interest := oi\<rparr>)))))))"

definition change_quote_position :: "fixed_ops \<Rightarrow> PerpPosition \<Rightarrow> i80f48 \<Rightarrow> PerpPosition res" where
  "change_quote_position F pp quote_change_native =
     rbind (fx_add F (quote_position_native pp) quote_change_native) (\<lambda>q.
       Inr (pp\<lparr>quote_position_native := q\<rparr>))"

text \<open>Realized profit and loss at the average entry price.\<close>

definition entry_pnl :: "fixed_ops \<Rightarrow> PerpPosition \<Rightarrow> i64 \<Rightarrow> i80f48 \<Rightarrow> i80f48 res" where
  "entry_pnl F pp base_change quote_change_native =
     rbind (fx_of_f64 F (avg_entry_price_per_base_lot pp)) (\<lambda>avg_entry.
     rbind (fx_mul F (fx_of_int F base_change) avg_entry) (\<lambda>x.
       fx_add F quote_change_native x))"

text \<open>The cases of \<^verbatim>\<open>update_trade_stats\<close>: the position closes, changes sign, grows, or shrinks. Each
  yields the position, the reduced and the increased lots, and the realized profit and loss.\<close>

type_synonym trade_stats = "PerpPosition \<times> i64 \<times> i64 \<times> i80f48"

definition stats_close :: "fixed_ops \<Rightarrow> PerpPosition \<Rightarrow> i64 \<Rightarrow> i80f48 \<Rightarrow> trade_stats res" where
  "stats_close F pp base_change quote_change_native =
     rbind (abs_i64 (base_position_lots pp)) (\<lambda>reduced_lots.
     rbind (entry_pnl F pp base_change quote_change_native) (\<lambda>pnl.
       Inr (pp\<lparr>avg_entry_price_per_base_lot := fl_zero, quote_running_native := 0,
               realized_pnl_for_position_native := 0\<rparr>, reduced_lots, 0, pnl)))"

definition stats_cross :: "fixed_ops \<Rightarrow> PerpPosition \<Rightarrow> i64 \<Rightarrow> i64 \<Rightarrow> i80f48 \<Rightarrow> trade_stats res" where
  "stats_cross F pp new_position base_change quote_change_native =
     rbind (abs_i64 (base_position_lots pp)) (\<lambda>reduced_lots.
     rbind (abs_i64 new_position) (\<lambda>increased_lots.
       let old_position_f = fl_of_int binary64 (base_position_lots pp);
           new_position_f = fl_of_int binary64 new_position;
           base_change_f = fl_of_int binary64 base_change;
           new_avg_entry = fl_abs (fl_div binary64 (fx_to_f64 F quote_change_native) base_change_f)
       in rbind (fx_of_f64 F (fl_mul binary64 old_position_f
                   (fl_sub binary64 new_avg_entry (avg_entry_price_per_base_lot pp)))) (\<lambda>pnl.
            Inr (pp\<lparr>avg_entry_price_per_base_lot := new_avg_entry,
                    quote_running_native := fl_to_int i64_MIN i64_MAX (fl_mul binary64 (fl_neg new_position_f) new_avg_entry),
                    realized_pnl_for_position_native := 0\<rparr>, reduced_lots, increased_lots, pnl))))"

definition stats_same_sign :: "fixed_ops \<Rightarrow> PerpPosition \<Rightarrow> i64 \<Rightarrow> i64 \<Rightarrow> i80f48 \<Rightarrow> trade_stats res" where
  "stats_same_sign F pp new_position base_change quote_change_native =
     rbind (fx_round_to_zero F quote_change_native) (\<lambda>rz.
     rbind (fx_to_i64 F rz) (\<lambda>rq.
     rbind (chk_i64 (quote_running_native pp + rq)) (\<lambda>qr.
     rbind (abs_i64 base_change) (\<lambda>lots.
       let pp1 = pp\<lparr>quote_running_native := qr\<rparr>
       in if sgn (base_position_lots pp) = sgn base_change then
            rbind (abs_i64 (base_position_lots pp)) (\<lambda>old_abs.
            rbind (abs_i64 new_position) (\<lambda>new_abs.
              let new_position_quote_value =
                    fl_add binary64
                      (fl_mul binary64 (fl_of_int binary64 old_abs) (avg_entry_price_per_base_lot pp))
                      (fl_abs (fx_to_f64 F quote_change_native))
              in Inr (pp1\<lparr>avg_entry_price_per_base_lot :=
                        fl_div binary64 new_position_quote_value (fl_of_int binary64 new_abs)\<rparr>, 0, lots, 0)))
          else
            rbind (entry_pnl F pp base_change quote_change_native) (\<lambda>pnl.
            rbind (fx_add F (realized_pnl_for_position_native pp) pnl) (\<lambda>r.
              Inr (pp1\<lparr>realized_pnl_for_position_native := r\<rparr>, lots, 0, pnl)))))))"

definition update_trade_stats ::
  "fixed_ops \<Rightarrow> PerpPosition \<Rightarrow> i64 \<Rightarrow> i80f48 \<Rightarrow> PerpMarket \<Rightarrow> (PerpPosition \<times> i80f48) res" where
  "update_trade_stats F pp base_change quote_change_native market =
     (if base_change = 0 then Inr (pp, 0)
      else
        rbind (chk_i64 (base_position_lots pp + base_change)) (\<lambda>new_position.
        rbind (if new_position = 0 then stats_close F pp base_change quote_change_native
               else if sgn (base_position_lots pp) \<noteq> sgn new_position
               then stats_cross F pp new_position base_change quote_change_native
               else stats_same_sign F pp new_position base_change quote_change_native)
          (\<lambda>(pp1, reduced_lots, increased_lots, newly_realized_pnl).
        rbind (chk_i64 (increased_lots - reduced_lots)) (\<lambda>net_base_increase.
        rbind (abs_i64 (recurring_settle_pnl_allowance pp1)) (\<lambda>rec.
        rbind (chk_i64 (net_base_increase * base_lot_size market)) (\<lambda>native.
        rbind (pm_stable_price F market) (\<lambda>stable.
        rbind (fx_mul F (fx_of_int F native) stable) (\<lambda>x.
        rbind (fx_of_f32 F (settle_pnl_limit_factor market)) (\<lambda>factor.
        rbind (fx_mul F x factor) (\<lambda>y.
        rbind (clamp_to_i64 F y) (\<lambda>c.
        rbind (chk_i64 (rec - c)) (\<lambda>rec'.
          Inr (pp1\<lparr>recurring_settle_pnl_allowance := max rec' 0\<rparr>, newly_realized_pnl)))))))))))))"

definition unsettled_pnl :: "fixed_ops \<Rightarrow> PerpPosition \<Rightarrow> PerpMarket \<Rightarrow> i80f48 \<Rightarrow> i80f48 res" where
  "unsettled_pnl F pp market price =
     rbind (require (pp_market_index pp = perp_market_index market) RequireViolated) (\<lambda>_.
     rbind (base_position_native F pp market) (\<lambda>base_native.
     rbind (fx_mul F base_native price) (\<lambda>x.
       fx_add F (quote_position_native pp) x)))"

text \<open>\<^verbatim>\<open>.unwrap()\<close> on a result.\<close>

definition unwrap_res :: "'a res \<Rightarrow> 'a res" where
  "unwrap_res r = (case r of Inl _ \<Rightarrow> Inl Panic | Inr x \<Rightarrow> Inr x)"

definition apply_recurring_settle_pnl_allowance_constraint ::
  "fixed_ops \<Rightarrow> PerpPosition \<Rightarrow> PerpMarket \<Rightarrow> (PerpPosition \<times> i64) res" where
  "apply_recurring_settle_pnl_allowance_constraint F pp market =
     rbind (abs_i64 (recurring_settle_pnl_allowance pp)) (\<lambda>before.
     rbind (pm_stable_price F market) (\<lambda>stable.
     rbind (unwrap_res (unsettled_pnl F pp market stable)) (\<lambda>upnl.
     rbind (fx_abs F upnl) (\<lambda>a. rbind (fx_ceil F a) (\<lambda>c.
     rbind (fx_to_i64 F c) (\<lambda>upnl_abs.
       let rec = max (min before upnl_abs) 0
       in rbind (chk_i64 (rec - before)) (\<lambda>change.
            Inr (pp\<lparr>recurring_settle_pnl_allowance := rec, deprecated_realized_trade_pnl_native := 0\<rparr>, change))))))))"

definition record_trade ::
  "fixed_ops \<Rightarrow> PerpPosition \<Rightarrow> PerpMarket \<Rightarrow> i64 \<Rightarrow> i80f48 \<Rightarrow> (PerpPosition \<times> PerpMarket \<times> i80f48) res" where
  "record_trade F pp market base_change quote_change_native =
     (if perp_market_index market \<noteq> pp_market_index pp then Inl Panic
      else
        rbind (update_trade_stats F pp base_change quote_change_native market) (\<lambda>(pp1, realized_pnl).
        rbind (change_base_position pp1 market base_change) (\<lambda>(pp2, market').
        rbind (change_quote_position F pp2 quote_change_native) (\<lambda>pp3.
        rbind (apply_recurring_settle_pnl_allowance_constraint F pp3 market') (\<lambda>(pp4, _).
          Inr (pp4, market', realized_pnl))))))"

definition avg_entry_price :: "PerpPosition \<Rightarrow> PerpMarket \<Rightarrow> f64 res" where
  "avg_entry_price pp market =
     (if pp_market_index pp \<noteq> perp_market_index market then Inl Panic
      else Inr (fl_div binary64 (avg_entry_price_per_base_lot pp) (fl_of_int binary64 (base_lot_size market))))"

definition break_even_price :: "PerpPosition \<Rightarrow> PerpMarket \<Rightarrow> f64 res" where
  "break_even_price pp market =
     (if base_position_lots pp = 0 then Inr fl_zero
      else if pp_market_index pp \<noteq> perp_market_index market then Inl Panic
      else rbind (chk_i64 (base_position_lots pp * base_lot_size market)) (\<lambda>b.
             Inr (fl_div binary64 (fl_neg (fl_of_int binary64 (quote_running_native pp))) (fl_of_int binary64 b))))"

section \<open>The settle limit\<close>

definition update_settle_limit :: "PerpPosition \<Rightarrow> PerpMarket \<Rightarrow> u64 \<Rightarrow> PerpPosition res" where
  "update_settle_limit pp market now =
     (if pp_market_index pp \<noteq> perp_market_index market then Inl Panic
      else
        let window_size = settle_pnl_limit_window_size_ts market
        in rbind (chk_u64 (settle_pnl_limit_window pp * window_size)) (\<lambda>window_start.
           rbind (chk_u64 (window_start + window_size)) (\<lambda>window_end.
             if now \<ge> window_end \<or> now < window_start then
               if window_size = 0 then Inl Panic
               else rbind (chk_u32 (now div window_size)) (\<lambda>w.
                      Inr (pp\<lparr>settle_pnl_limit_window := w,
                              settle_pnl_limit_settled_in_current_window_native := 0\<rparr>))
             else Inr pp)))"

definition settle_limit :: "fixed_ops \<Rightarrow> PerpPosition \<Rightarrow> PerpMarket \<Rightarrow> (i64 \<times> i64) res" where
  "settle_limit F pp market =
     (if pp_market_index pp \<noteq> perp_market_index market then Inl Panic
      else if fl_less (settle_pnl_limit_factor market) (fl_of_int binary32 0) then Inr (i64_MIN, i64_MAX)
      else
        rbind (base_position_native F pp market) (\<lambda>base_native.
        rbind (pm_stable_price F market) (\<lambda>stable.
        rbind (fx_mul F stable base_native) (\<lambda>position_value.
        rbind (fx_abs F position_value) (\<lambda>pva.
        let unrealized = f64_clamp_to_i64
              (fl_mul binary64 (fl_cast binary64 (settle_pnl_limit_factor market)) (fx_to_f64 F pva))
        in
        rbind (fx_add F (quote_position_native pp) position_value) (\<lambda>upnl.
        rbind (fx_abs F upnl) (\<lambda>a. rbind (fx_ceil F a) (\<lambda>c.
        rbind (fx_to_i64 F c) (\<lambda>upnl_abs.
        rbind (abs_i64 (recurring_settle_pnl_allowance pp)) (\<lambda>rec.
        rbind (chk_i64 (unrealized + min rec upnl_abs)) (\<lambda>max_pnl.
        rbind (chk_i64 (- max_pnl)) (\<lambda>min_pnl.
        rbind (if oneshot_settle_pnl_allowance pp \<ge> 0 then
                 rbind (fx_ceil F (oneshot_settle_pnl_allowance pp)) (\<lambda>o'.
                 rbind (clamp_to_i64 F o') (\<lambda>os. Inr (min_pnl, sat_i64 (max_pnl + os))))
               else
                 rbind (fx_floor F (oneshot_settle_pnl_allowance pp)) (\<lambda>o'.
                 rbind (clamp_to_i64 F o') (\<lambda>os. Inr (sat_i64 (min_pnl + os), max_pnl))))
          (\<lambda>(min_pnl, max_pnl). Inr (min min_pnl 0, max max_pnl 0))))))))))))))"

definition available_settle_limit :: "fixed_ops \<Rightarrow> PerpPosition \<Rightarrow> PerpMarket \<Rightarrow> (i64 \<times> i64) res" where
  "available_settle_limit F pp market =
     (if pp_market_index pp \<noteq> perp_market_index market then Inl Panic
      else if fl_less (settle_pnl_limit_factor market) (fl_of_int binary32 0) then Inr (i64_MIN, i64_MAX)
      else
        rbind (settle_limit F pp market) (\<lambda>(min_pnl, max_pnl).
          let used = settle_pnl_limit_settled_in_current_window_native pp
          in Inr (min (sat_i64 (min_pnl - used)) 0, max (sat_i64 (max_pnl - used)) 0)))"

definition apply_pnl_settle_limit :: "fixed_ops \<Rightarrow> PerpPosition \<Rightarrow> PerpMarket \<Rightarrow> i80f48 \<Rightarrow> i80f48 res" where
  "apply_pnl_settle_limit F pp market pnl =
     (if fl_less (settle_pnl_limit_factor market) (fl_of_int binary32 0) then Inr pnl
      else
        rbind (available_settle_limit F pp market) (\<lambda>(min_pnl, max_pnl).
          if pnl < 0 then Inr (max pnl (fx_of_int F min_pnl)) else Inr (min pnl (fx_of_int F max_pnl))))"

definition record_settle :: "fixed_ops \<Rightarrow> PerpPosition \<Rightarrow> i80f48 \<Rightarrow> PerpMarket \<Rightarrow> PerpPosition res" where
  "record_settle F pp settled_pnl market =
     rbind (fx_neg F settled_pnl) (\<lambda>n.
     rbind (change_quote_position F pp n) (\<lambda>pp1.
     let oneshot_reduction =
           (if settled_pnl > 0 then max (min settled_pnl (oneshot_settle_pnl_allowance pp1)) 0
            else min (max settled_pnl (oneshot_settle_pnl_allowance pp1)) 0)
     in
     rbind (fx_sub F (oneshot_settle_pnl_allowance pp1) oneshot_reduction) (\<lambda>o'.
     rbind (fx_sub F settled_pnl oneshot_reduction) (\<lambda>u.
     rbind (fx_round_to_zero F u) (\<lambda>rz.
     rbind (clamp_to_i64 F rz) (\<lambda>used0.
     rbind (apply_recurring_settle_pnl_allowance_constraint F (pp1\<lparr>oneshot_settle_pnl_allowance := o'\<rparr>) market)
       (\<lambda>(pp2, recurring_allowance_change).
     rbind (if recurring_allowance_change < 0 then
              if used0 > 0 then
                rbind (chk_i64 (used0 + recurring_allowance_change)) (\<lambda>x. Inr (max x 0))
              else
                rbind (chk_i64 (used0 - recurring_allowance_change)) (\<lambda>x. Inr (min x 0))
            else Inr used0) (\<lambda>used_settle_limit.
     rbind (chk_i64 (settle_pnl_limit_settled_in_current_window_native pp2 + used_settle_limit)) (\<lambda>w.
       Inr (pp2\<lparr>settle_pnl_limit_settled_in_current_window_native := w\<rparr>))))))))))"

definition record_trading_fee :: "fixed_ops \<Rightarrow> PerpPosition \<Rightarrow> i80f48 \<Rightarrow> PerpPosition res" where
  "record_trading_fee F pp fee =
     rbind (fx_neg F fee) (\<lambda>n.
     rbind (change_quote_position F pp n) (\<lambda>pp1.
     rbind (fx_sub F (oneshot_settle_pnl_allowance pp1) fee) (\<lambda>o'.
     rbind (fx_sub F (realized_pnl_for_position_native pp1) fee) (\<lambda>r.
       Inr (pp1\<lparr>oneshot_settle_pnl_allowance := o', realized_pnl_for_position_native := r\<rparr>)))))"

definition record_liquidation_quote_change :: "fixed_ops \<Rightarrow> PerpPosition \<Rightarrow> i80f48 \<Rightarrow> PerpPosition res" where
  "record_liquidation_quote_change F pp change =
     rbind (change_quote_position F pp change) (\<lambda>pp1.
     rbind (fx_add F (oneshot_settle_pnl_allowance pp1) change) (\<lambda>o'.
       Inr (pp1\<lparr>oneshot_settle_pnl_allowance := o'\<rparr>)))"

definition record_liquidation_pnl_takeover ::
  "fixed_ops \<Rightarrow> PerpPosition \<Rightarrow> i80f48 \<Rightarrow> i64 \<Rightarrow> i64 \<Rightarrow> PerpPosition res" where
  "record_liquidation_pnl_takeover F pp change recurring_limit oneshot_limit =
     rbind (change_quote_position F pp change) (\<lambda>pp1.
     rbind (chk_i64 (recurring_settle_pnl_allowance pp1 + recurring_limit)) (\<lambda>r.
     rbind (fx_add F (oneshot_settle_pnl_allowance pp1) (fx_of_int F oneshot_limit)) (\<lambda>o'.
       Inr (pp1\<lparr>recurring_settle_pnl_allowance := r, oneshot_settle_pnl_allowance := o'\<rparr>))))"

section \<open>Facts\<close>

text \<open>What trades, fees and settlements leave alone.\<close>

definition same_orders :: "PerpPosition \<Rightarrow> PerpPosition \<Rightarrow> bool" where
  "same_orders pp pp' \<longleftrightarrow>
     pp_market_index pp' = pp_market_index pp \<and> bids_base_lots pp' = bids_base_lots pp \<and>
     asks_base_lots pp' = asks_base_lots pp \<and> taker_base_lots pp' = taker_base_lots pp \<and>
     taker_quote_lots pp' = taker_quote_lots pp \<and> long_settled_funding pp' = long_settled_funding pp \<and>
     short_settled_funding pp' = short_settled_funding pp"

lemma same_orders_refl [simp]: "same_orders pp pp"
  by (simp add: same_orders_def)

lemma same_orders_trans: "same_orders a b \<Longrightarrow> same_orders b c \<Longrightarrow> same_orders a c"
  by (simp add: same_orders_def)

lemma stats_close_frame:
  "stats_close F pp bc qc = Inr (pp1, r, i, pnl) \<Longrightarrow> same_orders pp pp1 \<and>
     base_position_lots pp1 = base_position_lots pp \<and> quote_position_native pp1 = quote_position_native pp"
  by (auto simp: stats_close_def rbind_eq_Inr same_orders_def)

lemma stats_cross_frame:
  "stats_cross F pp np bc qc = Inr (pp1, r, i, pnl) \<Longrightarrow> same_orders pp pp1 \<and>
     base_position_lots pp1 = base_position_lots pp \<and> quote_position_native pp1 = quote_position_native pp"
  by (auto simp: stats_cross_def Let_def rbind_eq_Inr same_orders_def)

lemma stats_same_sign_frame:
  "stats_same_sign F pp np bc qc = Inr (pp1, r, i, pnl) \<Longrightarrow> same_orders pp pp1 \<and>
     base_position_lots pp1 = base_position_lots pp \<and> quote_position_native pp1 = quote_position_native pp"
  unfolding stats_same_sign_def Let_def same_orders_def
  by (elim rbind_InrE, split if_split_asm; elim rbind_InrE; simp; elim conjE; hypsubst; simp)

lemma update_trade_stats_frame:
  assumes "update_trade_stats F pp bc qc m = Inr (pp', pnl)"
  shows "same_orders pp pp'" "base_position_lots pp' = base_position_lots pp"
    "quote_position_native pp' = quote_position_native pp"
  using assms
  by (auto simp: update_trade_stats_def rbind_eq_Inr same_orders_def
      dest!: stats_close_frame stats_cross_frame stats_same_sign_frame split: if_splits)

lemma constraint_frame:
  assumes "apply_recurring_settle_pnl_allowance_constraint F pp m = Inr (pp', c)"
  shows "pp' = pp\<lparr>recurring_settle_pnl_allowance := recurring_settle_pnl_allowance pp', deprecated_realized_trade_pnl_native := 0\<rparr>"
    "0 \<le> recurring_settle_pnl_allowance pp'" "c \<le> 0"
  using assms
  by (auto simp: apply_recurring_settle_pnl_allowance_constraint_def rbind_eq_Inr Let_def abs_i64_def)

lemma record_trade_effect:
  assumes F: "fixed_laws F" and r: "record_trade F pp m bc qc = Inr (pp', m', pnl)"
  shows "base_position_lots pp' = base_position_lots pp + bc"
    "quote_position_native pp' = quote_position_native pp + qc"
    "m' = m\<lparr>open_interest := open_interest m + \<bar>base_position_lots pp + bc\<bar> - \<bar>base_position_lots pp\<bar>\<rparr>"
    "same_orders pp pp'" "0 \<le> recurring_settle_pnl_allowance pp'"
proof -
  obtain pp1 pp2 pp3 c where u: "update_trade_stats F pp bc qc m = Inr (pp1, pnl)"
      and b: "change_base_position pp1 m bc = Inr (pp2, m')" and q: "change_quote_position F pp2 qc = Inr pp3"
      and c: "apply_recurring_settle_pnl_allowance_constraint F pp3 m' = Inr (pp', c)"
    using r by (auto simp: record_trade_def rbind_eq_Inr split: if_splits)
  note u' = update_trade_stats_frame [OF u]
  have b': "pp2 = pp1\<lparr>base_position_lots := base_position_lots pp + bc\<rparr>"
      "m' = m\<lparr>open_interest := open_interest m + (\<bar>base_position_lots pp + bc\<bar> - \<bar>base_position_lots pp\<bar>)\<rparr>"
    using b u'(2) by (auto simp: change_base_position_def rbind_eq_Inr abs_i64_def Let_def)
  have q': "pp3 = pp2\<lparr>quote_position_native := quote_position_native pp + qc\<rparr>"
    using q u'(3) b'(1) by (auto simp: change_quote_position_def rbind_eq_Inr fixed_lawsD [OF F] chk_i128_eq_Inr)
  note c' = constraint_frame [OF c]
  have "base_position_lots pp' = base_position_lots pp3" "quote_position_native pp' = quote_position_native pp3"
      "same_orders pp3 pp'"
    by (subst c'(1), simp add: same_orders_def)+
  moreover have "same_orders pp1 pp3" by (simp add: q' b' same_orders_def)
  ultimately show "base_position_lots pp' = base_position_lots pp + bc"
    "quote_position_native pp' = quote_position_native pp + qc" "same_orders pp pp'"
    using u'(1) by (auto simp: q' b' intro: same_orders_trans)
  show "m' = m\<lparr>open_interest := open_interest m + \<bar>base_position_lots pp + bc\<bar> - \<bar>base_position_lots pp\<bar>\<rparr>"
    by (simp add: b'(2) add_diff_eq)
  show "0 \<le> recurring_settle_pnl_allowance pp'" by (rule c'(2))
qed

text \<open>The funding a position owes.\<close>

definition funding_due :: "PerpPosition \<Rightarrow> PerpMarket \<Rightarrow> i80f48" where
  "funding_due pp m =
     (if base_position_lots pp > 0 then long_funding m - long_settled_funding pp
      else short_funding m - short_settled_funding pp) * base_position_lots pp"

lemma unsettled_funding_eq:
  "fixed_laws F \<Longrightarrow> unsettled_funding F pp m = Inr f \<Longrightarrow> f = funding_due pp m"
  by (auto simp: unsettled_funding_def funding_due_def rbind_eq_Inr fixed_lawsD chk_i128_eq_Inr
      mult.assoc [symmetric] split: if_splits)

lemma settle_funding_effect:
  assumes F: "fixed_laws F" and "settle_funding F pp m = Inr pp'"
  shows "quote_position_native pp' = quote_position_native pp - funding_due pp m"
    "oneshot_settle_pnl_allowance pp' = oneshot_settle_pnl_allowance pp - funding_due pp m"
    "long_settled_funding pp' = long_funding m" "short_settled_funding pp' = short_funding m"
    "base_position_lots pp' = base_position_lots pp" "pp_market_index pp' = pp_market_index pp"
    "bids_base_lots pp' = bids_base_lots pp" "asks_base_lots pp' = asks_base_lots pp"
    "taker_base_lots pp' = taker_base_lots pp" "taker_quote_lots pp' = taker_quote_lots pp"
proof -
  obtain f q u r where 1: "unsettled_funding F pp m = Inr f" "fx_sub F (quote_position_native pp) f = Inr q"
      "fx_sub F (oneshot_settle_pnl_allowance pp) f = Inr u"
      and "Inr ((if base_position_lots pp > 0
         then pp\<lparr>quote_position_native := q, oneshot_settle_pnl_allowance := u, realized_pnl_for_position_native := r,
                 cumulative_long_funding := fl_add binary64 (cumulative_long_funding pp) (fx_to_f64 F f)\<rparr>
         else pp\<lparr>quote_position_native := q, oneshot_settle_pnl_allowance := u, realized_pnl_for_position_native := r,
                 cumulative_short_funding := fl_sub binary64 (cumulative_short_funding pp) (fx_to_f64 F f)\<rparr>)
         \<lparr>long_settled_funding := long_funding m, short_settled_funding := short_funding m\<rparr>) = (Inr pp' :: PerpPosition res)"
    using assms(2) unfolding settle_funding_def Let_def by (elim rbind_InrE) (simp add: that)
  note 2 = this(4) [THEN Inr_inject, symmetric]
  have "f = funding_due pp m" by (rule unsettled_funding_eq [OF F 1(1)])
  then have "q = quote_position_native pp - funding_due pp m" "u = oneshot_settle_pnl_allowance pp - funding_due pp m"
    using 1(2,3) by (simp_all add: fixed_lawsD [OF F] chk_i128_eq_Inr)
  then show "quote_position_native pp' = quote_position_native pp - funding_due pp m"
    "oneshot_settle_pnl_allowance pp' = oneshot_settle_pnl_allowance pp - funding_due pp m"
    "long_settled_funding pp' = long_funding m" "short_settled_funding pp' = short_funding m"
    "base_position_lots pp' = base_position_lots pp" "pp_market_index pp' = pp_market_index pp"
    "bids_base_lots pp' = bids_base_lots pp" "asks_base_lots pp' = asks_base_lots pp"
    "taker_base_lots pp' = taker_base_lots pp" "taker_quote_lots pp' = taker_quote_lots pp"
    by (simp_all add: 2)
qed

lemma record_trading_fee_effect:
  assumes F: "fixed_laws F" and "record_trading_fee F pp fee = Inr pp'"
  shows "quote_position_native pp' = quote_position_native pp - fee"
    "base_position_lots pp' = base_position_lots pp" "same_orders pp pp'"
  using assms(2)
  by (auto simp: record_trading_fee_def change_quote_position_def rbind_eq_Inr fixed_lawsD [OF F] chk_i128_eq_Inr same_orders_def)

lemma in_i128_zero [simp]: "in_i128 0"
  by (simp add: in_i128_def)

lemma trunc_div_pos: "0 \<le> a \<Longrightarrow> 0 < b \<Longrightarrow> trunc_div a b = a div b"
  by (cases "a = 0") (simp_all add: trunc_div_def)

lemma trunc_div_neg: "a \<le> 0 \<Longrightarrow> 0 < b \<Longrightarrow> trunc_div a b = - (- a div b)"
  by (cases "a = 0") (simp_all add: trunc_div_def)

lemma clamp_round_bounds:
  assumes "fixed_laws F" "fx_round_to_zero F u = Inr rz" "clamp_to_i64 F rz = Inr c"
  shows "0 \<le> u \<Longrightarrow> 0 \<le> c \<and> c * fx_one \<le> u" "u \<le> 0 \<Longrightarrow> u \<le> c * fx_one \<and> c \<le> 0"
proof -
  have c: "c = max i64_MIN (min i64_MAX (trunc_div u fx_one))"
    using assms by (simp add: clamp_to_i64_eq fixed_lawsD)
  show "0 \<le> c \<and> c * fx_one \<le> u" if "0 \<le> u"
  proof -
    have "0 \<le> u div fx_one" "u div fx_one * fx_one \<le> u" using that by (simp_all add: pos_imp_zdiv_nonneg_iff div_bounds)
    then show ?thesis using that by (auto simp: c trunc_div_pos i64_MIN_def i64_MAX_def min_def max_def)
  qed
  show "u \<le> c * fx_one \<and> c \<le> 0" if "u \<le> 0"
  proof -
    have "0 \<le> - u div fx_one" "- u div fx_one * fx_one \<le> - u" using that by (simp_all add: pos_imp_zdiv_nonneg_iff div_bounds)
    then show ?thesis using that by (auto simp: c trunc_div_neg i64_MIN_def i64_MAX_def min_def max_def)
  qed
qed

lemma available_settle_limit_signs:
  "available_settle_limit F pp m = Inr (lo, hi) \<Longrightarrow> lo \<le> 0 \<and> 0 \<le> hi"
  by (auto simp: available_settle_limit_def rbind_eq_Inr i64_MIN_def i64_MAX_def Let_def split: if_splits)

lemma record_settle_effect:
  assumes F: "fixed_laws F" and r: "record_settle F pp s m = Inr pp'"
  defines "used \<equiv> settle_pnl_limit_settled_in_current_window_native pp' - settle_pnl_limit_settled_in_current_window_native pp"
  shows "quote_position_native pp' = quote_position_native pp - s"
    "base_position_lots pp' = base_position_lots pp"
    "0 < s \<Longrightarrow> 0 \<le> used \<and> used * fx_one \<le> s" "s \<le> 0 \<Longrightarrow> s \<le> used * fx_one \<and> used \<le> 0"
proof -
  let ?red = "\<lambda>a. if s > 0 then max (min s a) 0 else min (max s a) 0"
  obtain n pp1 o' u rz c pp2 ch w v where 1: "fx_neg F s = Inr n" "change_quote_position F pp n = Inr pp1"
      and u: "fx_sub F s (?red (oneshot_settle_pnl_allowance pp1)) = Inr u"
      and c: "fx_round_to_zero F u = Inr rz" "clamp_to_i64 F rz = Inr c"
      and 2: "apply_recurring_settle_pnl_allowance_constraint F (pp1\<lparr>oneshot_settle_pnl_allowance := o'\<rparr>) m = Inr (pp2, ch)"
      and w: "(if ch < 0 then if c > 0 then rbind (chk_i64 (c + ch)) (\<lambda>x. Inr (max x 0))
               else rbind (chk_i64 (c - ch)) (\<lambda>x. Inr (min x 0)) else Inr c) = Inr w"
      and v: "chk_i64 (settle_pnl_limit_settled_in_current_window_native pp2 + w) = Inr v"
      and e: "Inr (pp2\<lparr>settle_pnl_limit_settled_in_current_window_native := v\<rparr>) = (Inr pp' :: PerpPosition res)"
    using r unfolding record_settle_def Let_def by (elim rbind_InrE) (auto elim!: rbind_InrE simp: that)
  have pp1: "pp1 = pp\<lparr>quote_position_native := quote_position_native pp - s\<rparr>"
    using 1 by (auto simp: change_quote_position_def rbind_eq_Inr fixed_lawsD [OF F] chk_i128_eq_Inr)
  have uu: "u = s - ?red (oneshot_settle_pnl_allowance pp1)" using u by (simp add: fixed_lawsD [OF F] chk_i128_eq_Inr)
  have pp2: "settle_pnl_limit_settled_in_current_window_native pp2 = settle_pnl_limit_settled_in_current_window_native pp"
      "quote_position_native pp2 = quote_position_native pp - s" "base_position_lots pp2 = base_position_lots pp"
    by (subst constraint_frame(1) [OF 2], simp add: pp1)+
  have eq: "pp' = pp2\<lparr>settle_pnl_limit_settled_in_current_window_native := v\<rparr>" using e by simp
  then show "quote_position_native pp' = quote_position_native pp - s" "base_position_lots pp' = base_position_lots pp"
    by (simp_all add: pp2)
  have used: "used = w" using v pp2(1) by (simp add: used_def eq)
  have w: "0 \<le> c \<Longrightarrow> 0 \<le> w \<and> w \<le> c" "c \<le> 0 \<Longrightarrow> c \<le> w \<and> w \<le> 0"
    using w by (auto simp: rbind_eq_Inr split: if_splits)
  show "0 \<le> used \<and> used * fx_one \<le> s" if "0 < s"
  proof -
    have "0 \<le> u" "u \<le> s" using that by (auto simp: uu)
    with clamp_round_bounds(1) [OF F c] have "0 \<le> c" "c * fx_one \<le> s" by auto
    with w(1) show ?thesis unfolding used by simp
  qed
  show "s \<le> used * fx_one \<and> used \<le> 0" if "s \<le> 0"
  proof -
    have "s \<le> u" "u \<le> 0" using that by (auto simp: uu)
    with clamp_round_bounds(2) [OF F c] have "c \<le> 0" "s \<le> c * fx_one" by auto
    with w(2) show ?thesis unfolding used by simp
  qed
qed

section \<open>Properties\<close>

definition sample_position :: PerpPosition where
  "sample_position = PerpPosition_default\<lparr>pp_market_index := 0, base_position_lots := 3,
     quote_position_native := 10 * fx_one, oneshot_settle_pnl_allowance := fx_one, long_settled_funding := - 2\<rparr>"

lemmas position_eval = sample_position_def PerpPosition_default_def sample_market_def default_for_tests_def
  StablePriceModel_default_def pm_stable_price_def base_position_native_def abs_i64_def
  change_quote_position_def fixed_reference_def chk_i128_def in_i128_def trunc_div_def
  chk_i64_def in_i64_def i64_MIN_def i64_MAX_def fl_eval

text \<open>
  C18. Recording a trade changes the base position by exactly the traded base lots, the quote
  position by exactly the given quote amount, and the open interest of the market by the
  change of the absolute base position; open orders, unprocessed taker trades and settled
  funding are untouched, and the recurring settle allowance stays nonnegative.
\<close>

theorem record_trade_exact:
  assumes "fixed_laws F" "record_trade F pp m base_change quote_change = Inr (pp', m', pnl)"
  shows "base_position_lots pp' = base_position_lots pp + base_change \<and>
         quote_position_native pp' = quote_position_native pp + quote_change \<and>
         m' = m\<lparr>open_interest := open_interest m + \<bar>base_position_lots pp'\<bar> - \<bar>base_position_lots pp\<bar>\<rparr> \<and>
         same_orders pp pp' \<and> 0 \<le> recurring_settle_pnl_allowance pp'"
  using record_trade_effect [OF assms] by simp

theorem record_trade_exact_witness:
  "\<exists>pp' m' pnl. record_trade fixed_reference sample_position sample_market (- 3) (7 * fx_one) = Inr (pp', m', pnl) \<and>
     base_position_lots pp' = 0 \<and> quote_position_native pp' = 17 * fx_one \<and> open_interest m' = 1"
proof -
  obtain pp' m' pnl where r: "record_trade fixed_reference sample_position sample_market (- 3) (7 * fx_one) = Inr (pp', m', pnl)"
    by (simp add: record_trade_def update_trade_stats_def stats_close_def entry_pnl_def change_base_position_def
        apply_recurring_settle_pnl_allowance_constraint_def unsettled_pnl_def unwrap_res_def clamp_to_i64_def
        position_eval)
  with record_trade_exact [OF fixed_reference_laws this] show ?thesis
    by (simp add: sample_position_def PerpPosition_default_def sample_market_def default_for_tests_def)
qed

text \<open>
  C19. Settling funding pays exactly what is due and only once: the quote position falls by the
  funding per lot since the last settlement times the base position, and right afterwards
  nothing is due, so that settling again leaves the quote position as it is.
\<close>

theorem settle_funding_exact_once:
  assumes "fixed_laws F" "settle_funding F pp m = Inr pp'"
  shows "quote_position_native pp' = quote_position_native pp - funding_due pp m \<and>
         base_position_lots pp' = base_position_lots pp \<and> unsettled_funding F pp' m = Inr 0 \<and>
         (\<forall>pp''. settle_funding F pp' m = Inr pp'' \<longrightarrow> quote_position_native pp'' = quote_position_native pp')"
proof -
  note e = settle_funding_effect [OF assms]
  have "funding_due pp' m = 0" by (simp add: funding_due_def e)
  moreover have "unsettled_funding F pp' m = Inr 0"
    by (simp add: unsettled_funding_def e fixed_lawsD [OF assms(1)])
  ultimately show ?thesis using e settle_funding_effect(1) [OF assms(1)] by simp
qed

theorem settle_funding_exact_once_witness:
  "\<exists>pp'. settle_funding fixed_reference sample_position sample_market = Inr pp' \<and>
     quote_position_native pp' = 10 * fx_one - 6 \<and> unsettled_funding fixed_reference pp' sample_market = Inr 0"
proof -
  obtain pp' where "settle_funding fixed_reference sample_position sample_market = Inr pp'"
    by (simp add: settle_funding_def unsettled_funding_def Let_def position_eval)
  with settle_funding_exact_once [OF fixed_reference_laws this] show ?thesis
    by (simp add: funding_due_def sample_position_def PerpPosition_default_def sample_market_def default_for_tests_def)
qed

text \<open>
  C20. The settle limit only shrinks a settlement towards zero: it never changes its sign and
  never increases its size.
\<close>

theorem settle_limit_shrinks:
  assumes "fixed_laws F" "apply_pnl_settle_limit F pp m pnl = Inr r"
  shows "if pnl < 0 then pnl \<le> r \<and> r \<le> 0 else 0 \<le> r \<and> r \<le> pnl"
  using assms available_settle_limit_signs [of F pp m]
  by (auto simp: apply_pnl_settle_limit_def rbind_eq_Inr fixed_lawsD mult_le_0_iff split: if_splits)

theorem settle_limit_shrinks_witness:
  "\<exists>r. apply_pnl_settle_limit fixed_reference sample_position sample_market (5 * fx_one) = Inr r \<and> 0 \<le> r \<and> r \<le> 5 * fx_one"
proof -
  obtain r where "apply_pnl_settle_limit fixed_reference sample_position sample_market (5 * fx_one) = Inr r"
    by (simp add: apply_pnl_settle_limit_def available_settle_limit_def settle_limit_def clamp_to_i64_def
        f64_clamp_to_i64_def sat_i64_def Let_def position_eval)
  with settle_limit_shrinks [OF fixed_reference_laws this] show ?thesis by simp
qed

text \<open>
  Recording a settlement takes exactly the settled amount out of the quote position and
  counts against the window's limit in the direction of the settlement and by no more than
  was settled.
\<close>

lemma record_settle_exact:
  assumes "fixed_laws F" "record_settle F pp settled m = Inr pp'"
  shows "quote_position_native pp' = quote_position_native pp - settled \<and>
         base_position_lots pp' = base_position_lots pp \<and>
         (let used = settle_pnl_limit_settled_in_current_window_native pp' - settle_pnl_limit_settled_in_current_window_native pp
          in if settled > 0 then 0 \<le> used \<and> used * fx_one \<le> settled else settled \<le> used * fx_one \<and> used \<le> 0)"
  using record_settle_effect [OF assms] by (simp add: Let_def)

section \<open>Socialized losses\<close>

lemma socialize_loss_parts:
  assumes "fixed_laws F" "socialize_loss F m loss = Inr (m', s)"
  shows "loss \<le> 0" "long_funding m' = long_funding m - s" "short_funding m' = short_funding m + s"
    "if open_interest m = 0 then s = 0 \<and> m' = m else fx_div F loss (open_interest m * fx_one) = Inr s"
  using assms by (auto simp: socialize_loss_def rbind_eq_Inr fixed_lawsD chk_i128_eq_Inr split: if_splits)

text \<open>Every lot, long or short, owes the socialized amount more.\<close>

lemma socialized_funding:
  assumes "fixed_laws F" "socialize_loss F m loss = Inr (m', s)" "unsettled_funding F pp m = Inr u" "unsettled_funding F pp m' = Inr u'"
  shows "u' = u - s * \<bar>base_position_lots pp\<bar>"
  using assms(3,4) socialize_loss_parts(2,3) [OF assms(1,2)]
  by (auto simp: unsettled_funding_def rbind_eq_Inr fixed_lawsD [OF assms(1)] chk_i128_eq_Inr left_diff_distrib distrib_right split: if_splits)

text \<open>
  C15. Socializing a loss spreads it over the open interest. Given all positions of the market, whose sizes add up to the open
  interest, every position then owes the same amount more in funding for each of its lots, long or short; that amount is
  not negative, and over all positions the increase is the loss, up to less than one unit (\<open>2\<^sup>-\<^sup>4\<^sup>8\<close>) per lot of rounding. A
  positive amount is rejected, and without open interest nothing changes.
\<close>

theorem socialize_loss_spreads:
  assumes "fixed_laws F" "fixed_div_near F" "socialize_loss F m loss = Inr (m', s)"
    and "(\<Sum>pp \<leftarrow> pps. \<bar>base_position_lots pp\<bar>) = open_interest m"
    and "\<forall>pp \<in> set pps. unsettled_funding F pp m = Inr (u pp) \<and> unsettled_funding F pp m' = Inr (u' pp)"
  shows "loss \<le> 0 \<and> s \<le> 0 \<and> (\<forall>pp \<in> set pps. u' pp = u pp - s * \<bar>base_position_lots pp\<bar>) \<and>
         (if open_interest m = 0 then m' = m else \<bar>(\<Sum>pp \<leftarrow> pps. u' pp - u pp) + loss\<bar> < open_interest m)"
proof -
  let ?oi = "open_interest m"
  note p = socialize_loss_parts [OF assms(1,3)]
  have each: "\<forall>pp \<in> set pps. u' pp = u pp - s * \<bar>base_position_lots pp\<bar>" using assms(5) socialized_funding [OF assms(1,3)] by blast
  then have "(\<Sum>pp \<leftarrow> pps. u' pp - u pp) = (\<Sum>pp \<leftarrow> pps. - s * \<bar>base_position_lots pp\<bar>)" by (intro arg_cong [of _ _ sum_list] map_cong) auto
  then have total: "(\<Sum>pp \<leftarrow> pps. u' pp - u pp) = - s * ?oi" using sum_list_const_mult [of "- s" "\<lambda>pp. \<bar>base_position_lots pp\<bar>" pps] assms(4) by simp
  have "0 \<le> ?oi" unfolding assms(4) [symmetric] by (intro sum_list_nonneg) auto
  have near: "s \<le> 0 \<and> \<bar>s * ?oi - loss\<bar> < ?oi" if "?oi \<noteq> 0"
  proof -
    have "0 < ?oi" using that \<open>0 \<le> ?oi\<close> by simp
    then have "\<bar>s * (?oi * fx_one) - loss * fx_one\<bar> < ?oi * fx_one" using p(4) that assms(2) unfolding fixed_div_near_def by simp
    then have n: "\<bar>s * ?oi - loss\<bar> < ?oi" by (simp add: abs_less_iff algebra_simps)
    then have "s * ?oi < 1 * ?oi" using p(1) by linarith
    then show ?thesis using n \<open>0 < ?oi\<close> by (simp add: mult_less_cancel_right)
  qed
  then show ?thesis using p(1,4) each total by (auto simp: algebra_simps abs_minus_commute split: if_splits)
qed

theorem socialize_loss_spreads_witness:
  "\<exists>m' s. socialize_loss fixed_reference sample_market (- 9 * fx_one) = Inr (m', s) \<and> s < 0 \<and>
     (let long = PerpPosition_default\<lparr>base_position_lots := 2\<rparr>; short = PerpPosition_default\<lparr>base_position_lots := - 2\<rparr>
      in \<exists>a b. unsettled_funding fixed_reference long m' = Inr a \<and> unsettled_funding fixed_reference short m' = Inr b \<and> \<bar>a + b - 9 * fx_one\<bar> < 4)"
proof -
  let ?long = "PerpPosition_default\<lparr>base_position_lots := 2\<rparr>" and ?short = "PerpPosition_default\<lparr>base_position_lots := - 2\<rparr>"
  let ?s = "- 633318697598976 :: int"
  let ?m = "sample_market\<lparr>long_funding := 633318697598976, short_funding := - 633318697598976\<rparr>"
  note ev = sample_market_def default_for_tests_def fixed_reference_def chk_i128_def in_i128_def trunc_div_def PerpPosition_default_def
  have 1: "socialize_loss fixed_reference sample_market (- 9 * fx_one) = Inr (?m, ?s)"
    by (simp add: socialize_loss_def ev)
  have 2: "unsettled_funding fixed_reference pp sample_market = Inr 0 \<and> unsettled_funding fixed_reference pp ?m = Inr 1266637395197952"
    if "pp = ?long \<or> pp = ?short" for pp
    using that by (auto simp: unsettled_funding_def ev)
  have "open_interest sample_market = 4" "PerpPosition_default\<lparr>base_position_lots := 2\<rparr> \<noteq> PerpPosition_default\<lparr>base_position_lots := - 2\<rparr>"
    by (simp_all add: sample_market_def PerpPosition_default_def)
  then show ?thesis
    using socialize_loss_spreads [OF fixed_reference_laws fixed_reference_div_near 1, of "[?long, ?short]" "\<lambda>_. 0" "\<lambda>_. 1266637395197952"] 1 2
    by (auto simp: Let_def)
qed

end
