(* ===== verification/Event_Queue.thy ===== *)
theory Event_Queue
  imports Nodes Floats
begin

text \<open>
  The event queue of a perp market (\<^verbatim>\<open>state/orderbook/queue.rs\<close>): a ring buffer of fill and
  out events. The 208 bytes of an \<^verbatim>\<open>AnyEvent\<close> and the casts between the event layouts
  are a datatype with one constructor per value of \<^verbatim>\<open>event_type\<close> that the program
  writes and one for all other values. \<open>fifo_queue\<close> is the contract of the queue: a list
  that is appended to and taken from at the front.
\<close>

section \<open>Events\<close>

record FillEvent =
  taker_side :: Side
  maker_out :: bool
  maker_slot :: u8
  fill_timestamp :: u64
  fill_seq_num :: u64
  maker :: pubkey
  maker_timestamp :: u64
  taker :: pubkey
  taker_client_order_id :: u64
  maker_order_id :: u128
  fill_price :: i64
  fill_quantity :: i64
  maker_client_order_id :: u64
  fill_maker_fee :: f32
  fill_taker_fee :: f32

record OutEvent =
  out_side :: Side
  out_owner_slot :: u8
  out_timestamp :: u64
  out_seq_num :: u64
  out_owner :: pubkey
  out_quantity :: i64
  out_order_id :: u128

datatype AnyEvent = FillEv FillEvent | OutEv OutEvent | OtherEv u8

definition base_quote_change :: "FillEvent \<Rightarrow> Side \<Rightarrow> (i64 \<times> i64) res" where
  "base_quote_change f side =
     (case side of
        Bid \<Rightarrow>
          rbind (chk_i64 (- fill_price f)) (\<lambda>np.
          rbind (chk_i64 (np * fill_quantity f)) (\<lambda>q. Inr (fill_quantity f, q)))
      | Ask \<Rightarrow>
          rbind (chk_i64 (- fill_quantity f)) (\<lambda>nq.
          rbind (chk_i64 (fill_price f * fill_quantity f)) (\<lambda>q. Inr (nq, q))))"

definition fill_try_from :: "AnyEvent \<Rightarrow> FillEvent res" where
  "fill_try_from e = (case e of FillEv f \<Rightarrow> Inr f | _ \<Rightarrow> Inl (MangoErr SomeError))"

definition out_try_from :: "AnyEvent \<Rightarrow> OutEvent res" where
  "out_try_from e = (case e of OutEv f \<Rightarrow> Inr f | _ \<Rightarrow> Inl (MangoErr SomeError))"

definition OutEvent_from_leaf_node :: "Side \<Rightarrow> u64 \<Rightarrow> u64 \<Rightarrow> LeafNode \<Rightarrow> OutEvent" where
  "OutEvent_from_leaf_node side ts seq nd =
     \<lparr>out_side = side, out_owner_slot = owner_slot nd, out_timestamp = ts, out_seq_num = seq,
      out_owner = leaf_owner nd, out_quantity = quantity nd, out_order_id = leaf_key nd\<rparr>"

section \<open>The queue\<close>

definition MAX_NUM_EVENTS :: nat where
  "MAX_NUM_EVENTS = 488"

record EventQueueHeader =
  eq_head :: u32
  eq_count :: u32
  eq_seq_num :: u64

record EventQueue =
  eq_header :: EventQueueHeader
  eq_buf :: "AnyEvent list"

definition eq_len :: "EventQueue \<Rightarrow> nat" where
  "eq_len q = eq_count (eq_header q)"

definition eq_is_empty :: "EventQueue \<Rightarrow> bool" where
  "eq_is_empty q \<longleftrightarrow> eq_len q = 0"

definition eq_full :: "EventQueue \<Rightarrow> bool" where
  "eq_full q \<longleftrightarrow> eq_count (eq_header q) = length (eq_buf q)"

definition incr_event_id :: "EventQueueHeader \<Rightarrow> EventQueueHeader res" where
  "incr_event_id h = rbind (chk_u64 (eq_seq_num h + 1)) (\<lambda>s. Inr (h\<lparr>eq_seq_num := s\<rparr>))"

definition decr_event_id :: "EventQueueHeader \<Rightarrow> nat \<Rightarrow> EventQueueHeader res" where
  "decr_event_id h n = rbind (sub_unsigned (eq_seq_num h) n) (\<lambda>s. Inr (h\<lparr>eq_seq_num := s\<rparr>))"

text \<open>The outcome of \<^verbatim>\<open>push_back\<close> is itself a Rust result: \<open>None\<close> stands for the rejected event.\<close>

definition push_back :: "EventQueue \<Rightarrow> AnyEvent \<Rightarrow> EventQueue option res" where
  "push_back q v =
     (if eq_full q then Inr None
      else if length (eq_buf q) = 0 then Inl Panic
      else
        let slot = (eq_head (eq_header q) + eq_count (eq_header q)) mod length (eq_buf q);
            buf' = (eq_buf q)[slot := v];
            h' = (eq_header q)\<lparr>eq_count := (eq_count (eq_header q) + 1) mod 2 ^ 32\<rparr>
        in rbind (incr_event_id h') (\<lambda>h''. Inr (Some \<lparr>eq_header = h'', eq_buf = buf'\<rparr>)))"

text \<open>\<^verbatim>\<open>push_back(..).unwrap()\<close>, as every caller writes it.\<close>

definition push_back_unwrap :: "EventQueue \<Rightarrow> AnyEvent \<Rightarrow> EventQueue res" where
  "push_back_unwrap q v = rbind (push_back q v) unwrap"

definition peek_front :: "EventQueue \<Rightarrow> AnyEvent option res" where
  "peek_front q =
     (if eq_is_empty q then Inr None
      else if eq_head (eq_header q) < length (eq_buf q)
      then Inr (Some (eq_buf q ! eq_head (eq_header q))) else Inl Panic)"

definition pop_front :: "EventQueue \<Rightarrow> (EventQueue \<times> AnyEvent) res" where
  "pop_front q =
     rbind (require (\<not> eq_is_empty q) (MangoErr SomeError)) (\<lambda>_.
     if eq_head (eq_header q) < length (eq_buf q) then
       let v = eq_buf q ! eq_head (eq_header q);
           h1 = (eq_header q)\<lparr>eq_count := eq_count (eq_header q) - 1\<rparr>;
           h2 = h1\<lparr>eq_head := (eq_head h1 + 1) mod length (eq_buf q)\<rparr>
       in Inr (q\<lparr>eq_header := h2\<rparr>, v)
     else Inl Panic)"

definition revert_pushes :: "EventQueue \<Rightarrow> nat \<Rightarrow> EventQueue res" where
  "revert_pushes q desired_len =
     rbind (require (desired_len \<le> eq_count (eq_header q)) (MangoErr SomeError)) (\<lambda>_.
     let len_diff = eq_count (eq_header q) - desired_len;
         h1 = (eq_header q)\<lparr>eq_count := desired_len\<rparr>
     in rbind (decr_event_id h1 len_diff) (\<lambda>h2. Inr (q\<lparr>eq_header := h2\<rparr>)))"

text \<open>The iterator: the events at index 0 up to the length, as the list they form.\<close>

definition eq_events :: "EventQueue \<Rightarrow> AnyEvent list" where
  "eq_events q =
     map (\<lambda>i. eq_buf q ! ((eq_head (eq_header q) + i) mod length (eq_buf q))) [0..<eq_len q]"

section \<open>The contract\<close>

definition event_queue_ok :: "EventQueue \<Rightarrow> bool" where
  "event_queue_ok q \<longleftrightarrow>
     length (eq_buf q) = MAX_NUM_EVENTS \<and> eq_head (eq_header q) < MAX_NUM_EVENTS \<and>
     eq_count (eq_header q) \<le> MAX_NUM_EVENTS"

text \<open>\<open>cnt\<close> numbers the pushes; it must have room for one more.\<close>

locale fifo_queue =
  fixes ok :: "'q \<Rightarrow> bool" and elems :: "'q \<Rightarrow> 'e list" and cap :: nat and cnt :: "'q \<Rightarrow> nat"
    and push :: "'q \<Rightarrow> 'e \<Rightarrow> 'q res" and pop :: "'q \<Rightarrow> ('q \<times> 'e) res"
  assumes len_cap: "ok q \<Longrightarrow> length (elems q) \<le> cap"
    and push_ok: "ok q \<Longrightarrow> length (elems q) < cap \<Longrightarrow> cnt q < u64_MAX \<Longrightarrow>
      \<exists>q'. push q e = Inr q' \<and> ok q' \<and> elems q' = elems q @ [e] \<and> cnt q' = cnt q + 1"
    and push_full: "ok q \<Longrightarrow> length (elems q) = cap \<Longrightarrow> push q e = Inl Panic"
    and pop_ok: "ok q \<Longrightarrow> elems q = e # es \<Longrightarrow> \<exists>q'. pop q = Inr (q', e) \<and> ok q' \<and> elems q' = es \<and> cnt q' = cnt q"
    and pop_empty: "ok q \<Longrightarrow> elems q = [] \<Longrightarrow> pop q = Inl (MangoErr SomeError)"
begin

text \<open>Pushing a whole list: it succeeds exactly when it fits, and appends in order.\<close>

primrec push_all :: "'q \<Rightarrow> 'e list \<Rightarrow> 'q res" where
  "push_all q [] = Inr q"
| "push_all q (e # es) = rbind (push q e) (\<lambda>q'. push_all q' es)"

lemma push_all_ok:
  "ok q \<Longrightarrow> length (elems q) + length es \<le> cap \<Longrightarrow> cnt q + length es \<le> u64_MAX \<Longrightarrow>
     \<exists>q'. push_all q es = Inr q' \<and> ok q' \<and> elems q' = elems q @ es \<and> cnt q' = cnt q + length es"
proof (induction es arbitrary: q)
  case (Cons e es)
  obtain q1 where q1: "push q e = Inr q1" "ok q1" "elems q1 = elems q @ [e]" "cnt q1 = cnt q + 1"
    using push_ok [of q e] Cons.prems by auto
  with Cons.IH [of q1] Cons.prems show ?case by auto
qed simp

primrec pop_all :: "'q \<Rightarrow> nat \<Rightarrow> ('q \<times> 'e list) res" where
  "pop_all q 0 = Inr (q, [])"
| "pop_all q (Suc n) = rbind (pop q) (\<lambda>(q', e). rbind (pop_all q' n) (\<lambda>(q'', es). Inr (q'', e # es)))"

lemma pop_all_ok:
  "ok q \<Longrightarrow> elems q = es @ fs \<Longrightarrow>
     \<exists>q'. pop_all q (length es) = Inr (q', es) \<and> ok q' \<and> elems q' = fs \<and> cnt q' = cnt q"
proof (induction es arbitrary: q)
  case (Cons e es)
  obtain q1 where q1: "pop q = Inr (q1, e)" "ok q1" "elems q1 = es @ fs" "cnt q1 = cnt q"
    using pop_ok [of q e "es @ fs"] Cons.prems by auto
  with Cons.IH [of q1] show ?case by auto
qed simp

lemma push_all_pop_all:
  assumes "ok q" "length (elems q) + length es \<le> cap" "cnt q + length es \<le> u64_MAX"
  shows "\<exists>q1 q2. push_all q es = Inr q1 \<and> pop_all q1 (length (elems q @ es)) = Inr (q2, elems q @ es) \<and>
           ok q2 \<and> elems q2 = []"
proof -
  obtain q1 where q1: "push_all q es = Inr q1" "ok q1" "elems q1 = elems q @ es"
    using push_all_ok [OF assms] by blast
  then show ?thesis using pop_all_ok [OF q1(2), of "elems q @ es" "[]"] by auto
qed

end

lemma eq_events_length [simp]: "length (eq_events q) = eq_count (eq_header q)"
  by (simp add: eq_events_def eq_len_def)

lemma push_back_events:
  assumes ok: "event_queue_ok q" and room: "\<not> eq_full q" and seq: "eq_seq_num (eq_header q) < u64_MAX"
  shows "\<exists>q'. push_back_unwrap q e = Inr q' \<and> event_queue_ok q' \<and> eq_events q' = eq_events q @ [e] \<and>
           eq_seq_num (eq_header q') = eq_seq_num (eq_header q) + 1"
proof -
  let ?h = "eq_header q" and ?n = "length (eq_buf q)"
  let ?slot = "(eq_head ?h + eq_count ?h) mod ?n"
  let ?q = "\<lparr>eq_header = ?h\<lparr>eq_count := eq_count ?h + 1, eq_seq_num := eq_seq_num ?h + 1\<rparr>, eq_buf = (eq_buf q)[?slot := e]\<rparr>"
  have n: "?n = MAX_NUM_EVENTS" "eq_head ?h < ?n" "eq_count ?h < ?n"
    using ok room by (auto simp: event_queue_ok_def eq_full_def)
  have "(eq_count ?h + 1) mod 2 ^ 32 = eq_count ?h + 1"
    using n by (simp add: MAX_NUM_EVENTS_def)
  then have run: "push_back_unwrap q e = Inr ?q"
    using room seq n by (auto simp: push_back_unwrap_def push_back_def incr_event_id_def Let_def)
  have "(eq_buf q)[?slot := e] ! ((eq_head ?h + i) mod ?n) = eq_buf q ! ((eq_head ?h + i) mod ?n)"
    if "i < eq_count ?h" for i
  proof -
    have "(eq_head ?h + i) mod ?n \<noteq> ?slot" using ring_index [of "eq_head ?h" ?n i "eq_count ?h"] n that by simp
    then show ?thesis by (metis nth_list_update_neq)
  qed
  moreover have "?slot < ?n" using n by (intro mod_less_divisor) simp
  ultimately have "eq_events ?q = eq_events q @ [e]" by (simp add: eq_events_def eq_len_def)
  moreover have "event_queue_ok ?q" using ok n by (simp add: event_queue_ok_def)
  ultimately show ?thesis using run by auto
qed

lemma push_back_full: "event_queue_ok q \<Longrightarrow> eq_full q \<Longrightarrow> push_back_unwrap q e = Inl Panic"
  by (simp add: push_back_unwrap_def push_back_def)

lemma pop_front_events:
  assumes ok: "event_queue_ok q" and ne: "eq_events q = e # es"
  shows "\<exists>q'. pop_front q = Inr (q', e) \<and> event_queue_ok q' \<and> eq_events q' = es \<and>
           eq_seq_num (eq_header q') = eq_seq_num (eq_header q)"
proof -
  let ?h = "eq_header q" and ?n = "length (eq_buf q)"
  let ?q = "q\<lparr>eq_header := ?h\<lparr>eq_count := eq_count ?h - 1, eq_head := (eq_head ?h + 1) mod ?n\<rparr>\<rparr>"
  have n: "?n = MAX_NUM_EVENTS" "eq_head ?h < ?n" "eq_count ?h \<le> ?n" using ok by (auto simp: event_queue_ok_def)
  have c: "eq_count ?h = Suc (length es)" using ne eq_events_length [of q] by simp
  have e: "eq_buf q ! eq_head ?h = e"
    using arg_cong [OF ne, of "\<lambda>xs. xs ! 0"] c n
    by (simp add: eq_events_def eq_len_def upt_conv_Cons del: upt_Suc)
  have "eq_events ?q = tl (eq_events q)"
  proof (rule nth_equalityI)
    show "length (eq_events ?q) = length (tl (eq_events q))" by simp
    fix i assume "i < length (eq_events ?q)"
    then have i: "i < length es" using c by simp
    have "((eq_head ?h + 1) mod ?n + i) mod ?n = (eq_head ?h + Suc i) mod ?n" by (simp add: mod_simps)
    then show "eq_events ?q ! i = tl (eq_events q) ! i"
      using i c by (simp add: eq_events_def eq_len_def nth_tl del: upt_Suc)
  qed
  moreover have "event_queue_ok ?q" using ok n by (auto simp: event_queue_ok_def MAX_NUM_EVENTS_def)
  moreover have "pop_front q = Inr (?q, e)"
    using c n e by (simp add: pop_front_def eq_is_empty_def eq_len_def Let_def)
  ultimately show ?thesis using ne by auto
qed

interpretation event_queue: fifo_queue event_queue_ok eq_events MAX_NUM_EVENTS
    "\<lambda>q. eq_seq_num (eq_header q)" push_back_unwrap pop_front
proof
  fix q e es
  assume ok: "event_queue_ok q"
  then show "length (eq_events q) \<le> MAX_NUM_EVENTS" by (simp add: event_queue_ok_def)
  show "\<exists>q'. push_back_unwrap q e = Inr q' \<and> event_queue_ok q' \<and> eq_events q' = eq_events q @ [e] \<and>
      eq_seq_num (eq_header q') = eq_seq_num (eq_header q) + 1"
    if "length (eq_events q) < MAX_NUM_EVENTS" "eq_seq_num (eq_header q) < u64_MAX"
    using push_back_events [OF ok] that ok by (simp add: eq_full_def event_queue_ok_def)
  show "push_back_unwrap q e = Inl Panic" if "length (eq_events q) = MAX_NUM_EVENTS"
    using push_back_full [OF ok] that ok by (simp add: eq_full_def event_queue_ok_def)
  show "\<exists>q'. pop_front q = Inr (q', e) \<and> event_queue_ok q' \<and> eq_events q' = es \<and>
      eq_seq_num (eq_header q') = eq_seq_num (eq_header q)" if "eq_events q = e # es"
    using pop_front_events [OF ok that] .
  show "pop_front q = Inl (MangoErr SomeError)" if "eq_events q = []"
    using that eq_events_length [of q] by (simp add: pop_front_def eq_is_empty_def eq_len_def)
qed

text \<open>Reverting pushes restores the events and the numbering as they were before them.\<close>

lemma revert_pushes_events:
  assumes "event_queue_ok q" "n \<le> length (eq_events q)" "length (eq_events q) - n \<le> eq_seq_num (eq_header q)"
  shows "\<exists>q'. revert_pushes q n = Inr q' \<and> event_queue_ok q' \<and> eq_events q' = take n (eq_events q) \<and>
           eq_seq_num (eq_header q') = eq_seq_num (eq_header q) - (length (eq_events q) - n)"
  using assms
  by (auto simp: revert_pushes_def decr_event_id_def sub_unsigned_def Let_def event_queue_ok_def eq_events_def eq_len_def take_map)

lemma peek_front_events:
  "event_queue_ok q \<Longrightarrow> peek_front q = Inr (case eq_events q of [] \<Rightarrow> None | e # _ \<Rightarrow> Some e)"
proof (cases "eq_events q")
  case Nil
  then show ?thesis using eq_events_length [of q] by (simp add: peek_front_def eq_is_empty_def eq_len_def)
next
  case (Cons e es)
  assume "event_queue_ok q"
  with Cons pop_front_events [of q e es] have "pop_front q \<noteq> Inl (MangoErr SomeError)" "\<exists>q'. pop_front q = Inr (q', e)"
    by auto
  with Cons show ?thesis by (auto simp: peek_front_def pop_front_def require_def Let_def split: if_splits)
qed

section \<open>Properties\<close>

definition empty_event_queue :: EventQueue where
  "empty_event_queue =
     \<lparr>eq_header = \<lparr>eq_head = 485, eq_count = 0, eq_seq_num = 7\<rparr>, eq_buf = replicate MAX_NUM_EVENTS (OtherEv 0)\<rparr>"

lemma empty_event_queue_ok [simp]:
  "event_queue_ok empty_event_queue" "eq_events empty_event_queue = []" "eq_len empty_event_queue = 0"
  "eq_seq_num (eq_header empty_event_queue) = 7"
  by (simp_all add: empty_event_queue_def event_queue_ok_def eq_events_def eq_len_def MAX_NUM_EVENTS_def)

text \<open>
  C12. The event queue is first in, first out across the wrap of its ring buffer: pushing any
  events that fit behind those already queued succeeds, and popping as many then returns the
  earlier events followed by the new ones in the order they were pushed, and leaves the queue
  empty.
\<close>

theorem event_queue_fifo:
  assumes "event_queue_ok q" "length (eq_events q) + length es \<le> MAX_NUM_EVENTS"
    "eq_seq_num (eq_header q) + length es \<le> u64_MAX"
  shows "\<exists>q1 q2. event_queue.push_all q es = Inr q1 \<and>
           event_queue.pop_all q1 (length (eq_events q @ es)) = Inr (q2, eq_events q @ es) \<and>
           event_queue_ok q2 \<and> eq_events q2 = []"
  by (rule event_queue.push_all_pop_all [OF assms])

theorem event_queue_fifo_witness:
  "\<exists>q1 q2. event_queue.push_all empty_event_queue [OtherEv 3, OtherEv 5] = Inr q1 \<and>
     event_queue.pop_all q1 (Suc (Suc 0)) = Inr (q2, [OtherEv 3, OtherEv 5]) \<and> eq_events q2 = []"
  using event_queue_fifo [of empty_event_queue "[OtherEv 3, OtherEv 5]"]
  by (auto simp: MAX_NUM_EVENTS_def u64_MAX_def simp del: event_queue.pop_all.simps event_queue.push_all.simps)

text \<open>
  C13. \<^verbatim>\<open>revert_pushes\<close> undoes pushes: after pushing events that fit, reverting to the earlier
  length restores the earlier events and the earlier event counter.
\<close>

theorem revert_pushes_undoes:
  assumes "event_queue_ok q" "length (eq_events q) + length es \<le> MAX_NUM_EVENTS"
    "eq_seq_num (eq_header q) + length es \<le> u64_MAX"
  shows "\<exists>q1 q2. event_queue.push_all q es = Inr q1 \<and> revert_pushes q1 (eq_len q) = Inr q2 \<and>
           event_queue_ok q2 \<and> eq_events q2 = eq_events q \<and>
           eq_seq_num (eq_header q2) = eq_seq_num (eq_header q)"
proof -
  obtain q1 where q1: "event_queue.push_all q es = Inr q1" "event_queue_ok q1" "eq_events q1 = eq_events q @ es"
      "eq_seq_num (eq_header q1) = eq_seq_num (eq_header q) + length es"
    using event_queue.push_all_ok [OF assms] by blast
  moreover have "length (eq_events q1) = eq_len q + length es" using q1(3) by (simp add: eq_len_def)
  ultimately show ?thesis using revert_pushes_events [OF q1(2), of "eq_len q"] by (auto simp: eq_len_def)
qed

theorem revert_pushes_undoes_witness:
  "\<exists>q1 q2. event_queue.push_all empty_event_queue [OtherEv 1] = Inr q1 \<and> revert_pushes q1 0 = Inr q2 \<and>
     eq_events q2 = [] \<and> eq_seq_num (eq_header q2) = 7"
  using revert_pushes_undoes [of empty_event_queue "[OtherEv 1]"]
  by (auto simp: MAX_NUM_EVENTS_def u64_MAX_def simp del: event_queue.push_all.simps)

end
