(* ===== verification/Group.thy ===== *)
theory Group
  imports Floats Key_Bits
begin

text \<open>
  The group account (\<^verbatim>\<open>state/group.rs\<close>): feature switches, the key of the continuum that
  orders the queued operations, and the gate that enables and disables instructions, with
  the instruction that sets it (\<^verbatim>\<open>instructions/ix_gate_set.rs\<close>).
\<close>

section \<open>Data\<close>

record Group =
  creator :: pubkey
  group_num :: u32
  admin :: pubkey
  fast_listing_admin :: pubkey
  mngo_token_index :: u16
  insurance_vault :: pubkey
  insurance_mint :: pubkey
  testing :: u8
  group_version :: u8
  group_buyback_fees :: u8
  buyback_fees_mngo_bonus_factor :: f32
  address_lookup_tables :: "pubkey list"
  security_admin :: pubkey
  deposit_limit_quote :: u64
  ix_gate :: u128
  buyback_fees_swap_mango_account :: pubkey
  buyback_fees_expiry_interval :: u64
  fast_listing_interval_start :: u64
  fast_listings_in_interval :: u16
  allowed_fast_listings_per_interval :: u16
  collateral_fee_interval :: u64
  group_reserved :: "8 word list"

text \<open>The instructions that can be gated, with the discriminants of the source.\<close>

datatype (plugins only: size) IxGate =
    GateAccountClose
  | GateAccountCreate
  | GateAccountEdit
  | GateAccountExpand
  | GateAccountToggleFreeze
  | GateAltExtend
  | GateAltSet
  | GateFlashLoan
  | GateGroupClose
  | GateGroupCreate
  | GateHealthRegion
  | GatePerpCancelAllOrders
  | GatePerpCancelAllOrdersBySide
  | GatePerpCancelOrder
  | GatePerpCancelOrderByClientOrderId
  | GatePerpCloseMarket
  | GatePerpConsumeEvents
  | GatePerpCreateMarket
  | GatePerpDeactivatePosition
  | GatePerpLiqBaseOrPositivePnl
  | GatePerpLiqForceCancelOrders
  | GatePerpLiqNegativePnlOrBankruptcy
  | GatePerpPlaceOrder
  | GatePerpSettleFees
  | GatePerpSettlePnl
  | GatePerpUpdateFunding
  | GateSerum3CancelAllOrders
  | GateSerum3CancelOrder
  | GateSerum3CloseOpenOrders
  | GateSerum3CreateOpenOrders
  | GateSerum3DeregisterMarket
  | GateSerum3EditMarket
  | GateSerum3LiqForceCancelOrders
  | GateSerum3PlaceOrder
  | GateSerum3RegisterMarket
  | GateSerum3SettleFunds
  | GateStubOracleClose
  | GateStubOracleCreate
  | GateStubOracleSet
  | GateTokenAddBank
  | GateTokenDeposit
  | GateTokenDeregister
  | GateTokenLiqBankruptcy
  | GateTokenLiqWithToken
  | GateTokenRegister
  | GateTokenRegisterTrustless
  | GateTokenUpdateIndexAndRate
  | GateTokenWithdraw
  | GateAccountBuybackFeesWithMngo
  | GateTokenForceCloseBorrowsWithToken
  | GatePerpForceClosePosition
  | GateGroupWithdrawInsuranceFund
  | GateTokenConditionalSwapCreate
  | GateTokenConditionalSwapTrigger
  | GateTokenConditionalSwapCancel
  | GateOpenbookV2CancelOrder
  | GateOpenbookV2CloseOpenOrders
  | GateOpenbookV2CreateOpenOrders
  | GateOpenbookV2DeregisterMarket
  | GateOpenbookV2EditMarket
  | GateOpenbookV2LiqForceCancelOrders
  | GateOpenbookV2PlaceOrder
  | GateOpenbookV2PlaceTakeOrder
  | GateOpenbookV2RegisterMarket
  | GateOpenbookV2SettleFunds
  | GateAdminTokenWithdrawFees
  | GateAdminPerpWithdrawFees
  | GateAccountSizeMigration
  | GateTokenConditionalSwapStart
  | GateTokenConditionalSwapCreatePremiumAuction
  | GateTokenConditionalSwapCreateLinearAuction
  | GateSerum3PlaceOrderV2
  | GateTokenForceWithdraw
  | GateSequenceCheck
  | GateHealthCheck
  | GateGroupChangeInsuranceFund
  | GatePerpForceCloseUnmatched
  | GatePerpSettleUnmatched
  | GatePerpEnqueueEvent
  | GateCrankFifoQueue
  | GatePerpCrankQueuedOperations

fun ix_index :: "IxGate \<Rightarrow> nat" where
  "ix_index GateAccountClose = 0"
| "ix_index GateAccountCreate = 1"
| "ix_index GateAccountEdit = 2"
| "ix_index GateAccountExpand = 3"
| "ix_index GateAccountToggleFreeze = 4"
| "ix_index GateAltExtend = 5"
| "ix_index GateAltSet = 6"
| "ix_index GateFlashLoan = 7"
| "ix_index GateGroupClose = 8"
| "ix_index GateGroupCreate = 9"
| "ix_index GateHealthRegion = 10"
| "ix_index GatePerpCancelAllOrders = 11"
| "ix_index GatePerpCancelAllOrdersBySide = 12"
| "ix_index GatePerpCancelOrder = 13"
| "ix_index GatePerpCancelOrderByClientOrderId = 14"
| "ix_index GatePerpCloseMarket = 15"
| "ix_index GatePerpConsumeEvents = 16"
| "ix_index GatePerpCreateMarket = 17"
| "ix_index GatePerpDeactivatePosition = 18"
| "ix_index GatePerpLiqBaseOrPositivePnl = 19"
| "ix_index GatePerpLiqForceCancelOrders = 20"
| "ix_index GatePerpLiqNegativePnlOrBankruptcy = 21"
| "ix_index GatePerpPlaceOrder = 22"
| "ix_index GatePerpSettleFees = 23"
| "ix_index GatePerpSettlePnl = 24"
| "ix_index GatePerpUpdateFunding = 25"
| "ix_index GateSerum3CancelAllOrders = 26"
| "ix_index GateSerum3CancelOrder = 27"
| "ix_index GateSerum3CloseOpenOrders = 28"
| "ix_index GateSerum3CreateOpenOrders = 29"
| "ix_index GateSerum3DeregisterMarket = 30"
| "ix_index GateSerum3EditMarket = 31"
| "ix_index GateSerum3LiqForceCancelOrders = 32"
| "ix_index GateSerum3PlaceOrder = 33"
| "ix_index GateSerum3RegisterMarket = 34"
| "ix_index GateSerum3SettleFunds = 35"
| "ix_index GateStubOracleClose = 36"
| "ix_index GateStubOracleCreate = 37"
| "ix_index GateStubOracleSet = 38"
| "ix_index GateTokenAddBank = 39"
| "ix_index GateTokenDeposit = 40"
| "ix_index GateTokenDeregister = 41"
| "ix_index GateTokenLiqBankruptcy = 42"
| "ix_index GateTokenLiqWithToken = 43"
| "ix_index GateTokenRegister = 44"
| "ix_index GateTokenRegisterTrustless = 45"
| "ix_index GateTokenUpdateIndexAndRate = 46"
| "ix_index GateTokenWithdraw = 47"
| "ix_index GateAccountBuybackFeesWithMngo = 48"
| "ix_index GateTokenForceCloseBorrowsWithToken = 49"
| "ix_index GatePerpForceClosePosition = 50"
| "ix_index GateGroupWithdrawInsuranceFund = 51"
| "ix_index GateTokenConditionalSwapCreate = 52"
| "ix_index GateTokenConditionalSwapTrigger = 53"
| "ix_index GateTokenConditionalSwapCancel = 54"
| "ix_index GateOpenbookV2CancelOrder = 55"
| "ix_index GateOpenbookV2CloseOpenOrders = 56"
| "ix_index GateOpenbookV2CreateOpenOrders = 57"
| "ix_index GateOpenbookV2DeregisterMarket = 58"
| "ix_index GateOpenbookV2EditMarket = 59"
| "ix_index GateOpenbookV2LiqForceCancelOrders = 60"
| "ix_index GateOpenbookV2PlaceOrder = 61"
| "ix_index GateOpenbookV2PlaceTakeOrder = 62"
| "ix_index GateOpenbookV2RegisterMarket = 63"
| "ix_index GateOpenbookV2SettleFunds = 64"
| "ix_index GateAdminTokenWithdrawFees = 65"
| "ix_index GateAdminPerpWithdrawFees = 66"
| "ix_index GateAccountSizeMigration = 67"
| "ix_index GateTokenConditionalSwapStart = 68"
| "ix_index GateTokenConditionalSwapCreatePremiumAuction = 69"
| "ix_index GateTokenConditionalSwapCreateLinearAuction = 70"
| "ix_index GateSerum3PlaceOrderV2 = 71"
| "ix_index GateTokenForceWithdraw = 72"
| "ix_index GateSequenceCheck = 73"
| "ix_index GateHealthCheck = 74"
| "ix_index GateGroupChangeInsuranceFund = 76"
| "ix_index GatePerpForceCloseUnmatched = 77"
| "ix_index GatePerpSettleUnmatched = 78"
| "ix_index GatePerpEnqueueEvent = 79"
| "ix_index GateCrankFifoQueue = 80"
| "ix_index GatePerpCrankQueuedOperations = 81"

section \<open>Switches\<close>

definition buyback_fees :: "Group \<Rightarrow> bool" where
  "buyback_fees g \<longleftrightarrow> group_buyback_fees g = 1"

definition is_testing :: "Group \<Rightarrow> bool" where
  "is_testing g \<longleftrightarrow> testing g = 1"

definition multiple_banks_supported :: "Group \<Rightarrow> bool" where
  "multiple_banks_supported g \<longleftrightarrow> is_testing g \<or> group_version g > 1"

definition GROUP_CONTINUUM_KEY_OFFSET :: nat where
  "GROUP_CONTINUUM_KEY_OFFSET = 0"

definition GROUP_CONTINUUM_KEY_SIZE :: nat where
  "GROUP_CONTINUUM_KEY_SIZE = 32"

definition continuum_key :: "Group \<Rightarrow> pubkey option" where
  "continuum_key g =
     (let key = take GROUP_CONTINUUM_KEY_SIZE (drop GROUP_CONTINUUM_KEY_OFFSET (group_reserved g))
      in if key = replicate 32 0 then None else Some key)"

definition serum3_supported :: "Group \<Rightarrow> bool" where
  "serum3_supported g \<longleftrightarrow> is_testing g \<or> group_version g > 0"

definition perps_supported :: "Group \<Rightarrow> bool" where
  "perps_supported g \<longleftrightarrow> is_testing g \<or> group_version g > 1"

definition openbook_v2_supported :: "Group \<Rightarrow> bool" where
  "openbook_v2_supported g \<longleftrightarrow> is_testing g"

definition is_ix_enabled :: "Group \<Rightarrow> IxGate \<Rightarrow> bool" where
  "is_ix_enabled g ix \<longleftrightarrow> ix_gate g AND push_bit (ix_index ix) 1 = 0"

definition ix_gate_set :: "Group \<Rightarrow> pubkey \<Rightarrow> u128 \<Rightarrow> Group res" where
  "ix_gate_set g signer gate =
     (let require_group_admin =
            fold (\<lambda>i acc. if ix_gate g AND push_bit i 1 \<noteq> 0 \<and> gate AND push_bit i 1 = 0 then True else acc)
              [0..<128] False;
          g' = g\<lparr>ix_gate := gate\<rparr>
      in rbind (if require_group_admin then require (admin g' = signer) (MangoErr SomeError)
                else require (admin g' = signer \<or> security_admin g' = signer) (MangoErr SomeError)) (\<lambda>_.
           Inr g'))"

section \<open>Facts\<close>

lemma fold_or: "fold (\<lambda>i acc. if P i then True else acc) xs b = (b \<or> (\<exists>i \<in> set xs. P i))"
  by (induction xs arbitrary: b) auto

lemma ix_index_less: "ix_index ix < 128"
  by (cases ix) simp_all

lemma is_ix_enabled_bit: "is_ix_enabled g ix \<longleftrightarrow> \<not> bit (ix_gate g) (ix_index ix)"
  using crit_bit_mask [OF ix_index_less, of "ix_gate g" ix] by (auto simp: is_ix_enabled_def)

text \<open>Some instruction that the old gate disables is enabled by the new one.\<close>

definition reenables :: "u128 \<Rightarrow> u128 \<Rightarrow> bool" where
  "reenables old new \<longleftrightarrow> (\<exists>i<128. bit old i \<and> \<not> bit new i)"

lemma ix_gate_set_eq:
  "ix_gate_set g signer gate =
     (if signer = admin g \<or> \<not> reenables (ix_gate g) gate \<and> signer = security_admin g
      then Inr (g\<lparr>ix_gate := gate\<rparr>) else Inl (MangoErr SomeError))"
proof -
  let ?P = "\<lambda>i. ix_gate g AND push_bit i 1 \<noteq> 0 \<and> gate AND push_bit i 1 = 0"
  have "fold (\<lambda>i acc. if ?P i then True else acc) [0..<128] False \<longleftrightarrow> (\<exists>i<128. ?P i)"
    by (simp only: fold_or set_upt atLeastLessThan_iff Bex_def) blast
  also have "\<dots> \<longleftrightarrow> reenables (ix_gate g) gate"
    unfolding reenables_def using crit_bit_mask [of _ "ix_gate g"] crit_bit_mask [of _ gate] by metis
  finally have e: "fold (\<lambda>i acc. if ?P i then True else acc) [0..<128] False \<longleftrightarrow> reenables (ix_gate g) gate" .
  show ?thesis
    unfolding ix_gate_set_def Let_def e by (auto simp: require_def)
qed

lemma is_ix_enabled_reenables:
  "is_ix_enabled (g\<lparr>ix_gate := gate\<rparr>) ix \<Longrightarrow> \<not> is_ix_enabled g ix \<Longrightarrow> reenables (ix_gate g) gate"
  using ix_index_less [of ix] by (auto simp: reenables_def is_ix_enabled_bit)

section \<open>Properties\<close>

text \<open>
  C25. Only the group's admin can enable an instruction: if setting the gate succeeds and an
  instruction that was disabled is enabled afterwards, the signer is the admin; in every case
  the signer is the admin or the security admin, and nothing but the gate changes.
\<close>

theorem only_admin_enables:
  assumes "ix_gate_set g signer gate = Inr g'"
  shows "(signer = admin g \<or> signer = security_admin g) \<and> g' = g\<lparr>ix_gate := gate\<rparr> \<and>
         (\<forall>ix. is_ix_enabled g' ix \<and> \<not> is_ix_enabled g ix \<longrightarrow> signer = admin g)"
  using assms is_ix_enabled_reenables by (auto simp: ix_gate_set_eq split: if_splits)

definition sample_group :: Group where
  "sample_group =
     \<lparr>creator = [1], group_num = 0, admin = [1], fast_listing_admin = [], mngo_token_index = 0,
      insurance_vault = [], insurance_mint = [], testing = 0, group_version = 2, group_buyback_fees = 0,
      buyback_fees_mngo_bonus_factor = fl_of_int binary32 1, address_lookup_tables = [], security_admin = [2],
      deposit_limit_quote = 0, ix_gate = 5, buyback_fees_swap_mango_account = [], buyback_fees_expiry_interval = 0,
      fast_listing_interval_start = 0, fast_listings_in_interval = 0, allowed_fast_listings_per_interval = 0,
      collateral_fee_interval = 0, group_reserved = replicate 32 7 @ replicate 1768 0\<rparr>"

theorem only_admin_enables_witness:
  "\<exists>g'. ix_gate_set sample_group [1] 4 = Inr g' \<and> is_ix_enabled g' GateAccountClose \<and> \<not> is_ix_enabled sample_group GateAccountClose \<and>
     [1] = admin sample_group"
proof -
  have "admin sample_group = [1]" by (simp add: sample_group_def)
  then obtain g' where "ix_gate_set sample_group [1] 4 = Inr g'" by (simp add: ix_gate_set_eq)
  with only_admin_enables [OF this] show ?thesis by (simp add: is_ix_enabled_def sample_group_def)
qed

end
