(* ===== verification/Mango_Account.thy ===== *)
theory Mango_Account
  imports Perp_Position Event_Queue Group
begin

text \<open>
  Mango accounts (\<^verbatim>\<open>state/mango_account.rs\<close> and the position types of
  \<^verbatim>\<open>state/mango_account_components.rs\<close>). The dynamic part of an account, a byte region with one
  section per kind of position, is a record with one list per section. An unchecked access by raw
  index beyond the end of a section ends with a panic here; the source would look at the bytes of
  the section that follows. The program only passes the indices it took from these sections. The
  wall clock that some methods read is an argument.
\<close>

section \<open>Data\<close>

record MangoAccountFixed =
  ma_group :: pubkey
  ma_owner :: pubkey
  ma_name :: "8 word list"
  delegate :: pubkey
  account_num :: u32
  being_liquidated_flag :: u8
  in_health_region_flag :: u8
  sequence_number :: u8
  net_deposits :: i64
  fixed_perp_spot_transfers :: i64
  health_region_begin_init_health :: i64
  frozen_until :: u64
  buyback_fees_accrued_current :: u64
  buyback_fees_accrued_previous :: u64
  buyback_fees_expiry_timestamp :: u64
  next_token_conditional_swap_id :: u64
  temporary_delegate :: pubkey
  temporary_delegate_expiry :: u64
  last_collateral_fee_charge :: u64

record TokenPosition =
  indexed_position :: i80f48
  tp_token_index :: u16
  in_use_count :: u16
  previous_index :: i80f48
  cumulative_deposit_interest :: f64
  cumulative_borrow_interest :: f64

record Serum3Orders =
  s3_open_orders :: pubkey
  base_borrows_without_fee :: u64
  quote_borrows_without_fee :: u64
  s3_market_index :: u16
  s3_base_token_index :: u16
  s3_quote_token_index :: u16
  highest_placed_bid_inv :: f64
  lowest_placed_ask :: f64
  potential_base_tokens :: u64
  potential_quote_tokens :: u64
  lowest_placed_bid_inv :: f64
  highest_placed_ask :: f64

record PerpOpenOrder =
  oo_side_and_tree :: SideAndOrderTree
  oo_market :: u16
  oo_client_id :: u64
  oo_id :: u128
  oo_quantity :: i64

record MangoAccount =
  fixed_part :: MangoAccountFixed
  token_positions :: "TokenPosition list"
  serum3_orders_list :: "Serum3Orders list"
  perp_positions :: "PerpPosition list"
  perp_open_orders :: "PerpOpenOrder list"

definition FREE_ORDER_SLOT :: u16 where
  "FREE_ORDER_SLOT = u16_MAX"

text \<open>\<^verbatim>\<open>Iterator::position\<close>.\<close>

fun position :: "('a \<Rightarrow> bool) \<Rightarrow> 'a list \<Rightarrow> nat option" where
  "position P [] = None"
| "position P (x # xs) = (if P x then Some 0 else map_option Suc (position P xs))"

section \<open>The fixed part\<close>

text \<open>\<^verbatim>\<open>Clock::get().unwrap().unix_timestamp.try_into().unwrap()\<close> for a clock that reads \<open>ts\<close>.\<close>

definition clock_u64 :: "i64 \<Rightarrow> u64 res" where
  "clock_u64 ts = (if ts \<ge> 0 then Inr (nat ts) else Inl Panic)"

definition is_operational :: "MangoAccountFixed \<Rightarrow> i64 \<Rightarrow> bool res" where
  "is_operational a ts = rbind (clock_u64 ts) (\<lambda>now. Inr (frozen_until a < now))"

definition is_delegate :: "MangoAccountFixed \<Rightarrow> pubkey \<Rightarrow> i64 \<Rightarrow> bool res" where
  "is_delegate a ix_signer ts =
     (if delegate a = ix_signer then Inr True
      else rbind (clock_u64 ts) (\<lambda>now.
             if now > temporary_delegate_expiry a then Inr False
             else Inr (temporary_delegate a = ix_signer)))"

definition is_owner_or_delegate :: "MangoAccountFixed \<Rightarrow> pubkey \<Rightarrow> i64 \<Rightarrow> bool res" where
  "is_owner_or_delegate a ix_signer ts =
     (if ma_owner a = ix_signer then Inr True else is_delegate a ix_signer ts)"

definition being_liquidated :: "MangoAccountFixed \<Rightarrow> bool" where
  "being_liquidated a \<longleftrightarrow> being_liquidated_flag a = 1"

definition set_being_liquidated :: "MangoAccountFixed \<Rightarrow> bool \<Rightarrow> MangoAccountFixed" where
  "set_being_liquidated a b = a\<lparr>being_liquidated_flag := (if b then 1 else 0)\<rparr>"

definition is_in_health_region :: "MangoAccountFixed \<Rightarrow> bool" where
  "is_in_health_region a \<longleftrightarrow> in_health_region_flag a = 1"

definition set_in_health_region :: "MangoAccountFixed \<Rightarrow> bool \<Rightarrow> MangoAccountFixed" where
  "set_in_health_region a b = a\<lparr>in_health_region_flag := (if b then 1 else 0)\<rparr>"

definition maybe_recover_from_being_liquidated :: "MangoAccountFixed \<Rightarrow> i80f48 \<Rightarrow> MangoAccountFixed \<times> bool" where
  "maybe_recover_from_being_liquidated a liq_end_health =
     (if being_liquidated a \<and> liq_end_health > - fx_one then (set_being_liquidated a False, True)
      else (a, False))"

definition expire_buyback_fees :: "MangoAccountFixed \<Rightarrow> u64 \<Rightarrow> u64 \<Rightarrow> MangoAccountFixed res" where
  "expire_buyback_fees a now interval =
     (if interval = 0 \<or> now < buyback_fees_expiry_timestamp a then Inr a
      else
        rbind (chk_u64 (buyback_fees_expiry_timestamp a + interval)) (\<lambda>e.
        rbind (chk_u64 (now div interval + 1)) (\<lambda>k.
        rbind (chk_u64 (k * interval)) (\<lambda>t.
          Inr (a\<lparr>buyback_fees_accrued_previous := (if now < e then buyback_fees_accrued_current a else 0),
                 buyback_fees_accrued_current := 0, buyback_fees_expiry_timestamp := t\<rparr>)))))"

definition buyback_fees_accrued :: "MangoAccountFixed \<Rightarrow> u64" where
  "buyback_fees_accrued a = sat_u64 (buyback_fees_accrued_current a + buyback_fees_accrued_previous a)"

definition accrue_buyback_fees :: "MangoAccountFixed \<Rightarrow> u64 \<Rightarrow> MangoAccountFixed" where
  "accrue_buyback_fees a amount =
     a\<lparr>buyback_fees_accrued_current := sat_u64 (buyback_fees_accrued_current a + amount)\<rparr>"

definition reduce_buyback_fees_accrued :: "MangoAccountFixed \<Rightarrow> u64 \<Rightarrow> MangoAccountFixed res" where
  "reduce_buyback_fees_accrued a amount =
     (if amount > buyback_fees_accrued_previous a then
        let remaining_amount = amount - buyback_fees_accrued_previous a
        in if remaining_amount \<le> buyback_fees_accrued_current a then
             Inr (a\<lparr>buyback_fees_accrued_current := buyback_fees_accrued_current a - remaining_amount,
                    buyback_fees_accrued_previous := 0\<rparr>)
           else Inl Panic
      else Inr (a\<lparr>buyback_fees_accrued_previous := buyback_fees_accrued_previous a - amount\<rparr>))"

section \<open>Token positions\<close>

definition TokenPosition_default :: TokenPosition where
  "TokenPosition_default =
     \<lparr>indexed_position = 0, tp_token_index = u16_MAX, in_use_count = 0, previous_index = 0,
      cumulative_deposit_interest = fl_zero, cumulative_borrow_interest = fl_zero\<rparr>"

definition tp_is_active :: "TokenPosition \<Rightarrow> bool" where
  "tp_is_active p \<longleftrightarrow> tp_token_index p \<noteq> u16_MAX"

definition is_active_for_token :: "TokenPosition \<Rightarrow> u16 \<Rightarrow> bool" where
  "is_active_for_token p ti \<longleftrightarrow> tp_token_index p = ti"

definition is_in_use :: "TokenPosition \<Rightarrow> bool" where
  "is_in_use p \<longleftrightarrow> in_use_count p > 0"

definition increment_in_use :: "TokenPosition \<Rightarrow> TokenPosition res" where
  "increment_in_use p =
     (if in_use_count p + 1 \<le> u16_MAX then Inr (p\<lparr>in_use_count := in_use_count p + 1\<rparr>) else Inl Panic)"

definition decrement_in_use :: "TokenPosition \<Rightarrow> TokenPosition" where
  "decrement_in_use p = p\<lparr>in_use_count := in_use_count p - 1\<rparr>"

definition token_position_and_raw_index :: "MangoAccount \<Rightarrow> u16 \<Rightarrow> (TokenPosition \<times> nat) res" where
  "token_position_and_raw_index a ti =
     (case position (\<lambda>p. is_active_for_token p ti) (token_positions a) of
        Some i \<Rightarrow> Inr (token_positions a ! i, i)
      | None \<Rightarrow> Inl (MangoErr TokenPositionDoesNotExist))"

text \<open>The loop of \<^verbatim>\<open>ensure_token_position\<close>: the first position of the token, or else the first free
  one, each with the number of active positions before it.\<close>

fun ensure_scan :: "u16 \<Rightarrow> TokenPosition list \<Rightarrow> nat \<Rightarrow> nat \<Rightarrow> (nat \<times> nat) option \<Rightarrow> (nat \<times> nat) option" where
  "ensure_scan ti [] raw_index active_index match_or_free = match_or_free"
| "ensure_scan ti (p # ps) raw_index active_index match_or_free =
     (if is_active_for_token p ti then Some (raw_index, active_index)
      else if tp_is_active p then ensure_scan ti ps (raw_index + 1) (active_index + 1) match_or_free
      else ensure_scan ti ps (raw_index + 1) active_index
             (if match_or_free = None then Some (raw_index, active_index) else match_or_free))"

definition ensure_token_position :: "MangoAccount \<Rightarrow> u16 \<Rightarrow> (MangoAccount \<times> nat \<times> nat) res" where
  "ensure_token_position a ti =
     (case ensure_scan ti (token_positions a) 0 0 None of
        Some (raw_index, bank_index) \<Rightarrow>
          (if is_active_for_token (token_positions a ! raw_index) ti then Inr (a, raw_index, bank_index)
           else Inr (a\<lparr>token_positions := (token_positions a)[raw_index := TokenPosition_default\<lparr>tp_token_index := ti\<rparr>]\<rparr>,
                     raw_index, bank_index))
      | None \<Rightarrow> Inl (MangoErr NoFreeTokenPositionIndex))"

definition deactivate_token_position :: "MangoAccount \<Rightarrow> nat \<Rightarrow> MangoAccount res" where
  "deactivate_token_position a raw_index =
     (if raw_index < length (token_positions a) then
        let p = token_positions a ! raw_index
        in if in_use_count p = 0
           then Inr (a\<lparr>token_positions := (token_positions a)[raw_index := p\<lparr>tp_token_index := u16_MAX\<rparr>]\<rparr>)
           else Inl Panic
      else Inl Panic)"

section \<open>Spot market orders\<close>

definition Serum3Orders_default :: Serum3Orders where
  "Serum3Orders_default =
     \<lparr>s3_open_orders = replicate 32 0, base_borrows_without_fee = 0, quote_borrows_without_fee = 0,
      s3_market_index = u16_MAX, s3_base_token_index = u16_MAX, s3_quote_token_index = u16_MAX,
      highest_placed_bid_inv = fl_zero, lowest_placed_ask = fl_zero, potential_base_tokens = 0,
      potential_quote_tokens = 0, lowest_placed_bid_inv = fl_zero, highest_placed_ask = fl_zero\<rparr>"

definition s3_is_active :: "Serum3Orders \<Rightarrow> bool" where
  "s3_is_active o' \<longleftrightarrow> s3_market_index o' \<noteq> u16_MAX"

definition s3_is_active_for_market :: "Serum3Orders \<Rightarrow> u16 \<Rightarrow> bool" where
  "s3_is_active_for_market o' mi \<longleftrightarrow> s3_market_index o' = mi"

definition serum3_orders :: "MangoAccount \<Rightarrow> u16 \<Rightarrow> Serum3Orders res" where
  "serum3_orders a mi =
     (case position (\<lambda>p. s3_is_active_for_market p mi) (serum3_orders_list a) of
        Some i \<Rightarrow> Inr (serum3_orders_list a ! i)
      | None \<Rightarrow> Inl (MangoErr SomeError))"

definition create_serum3_orders :: "MangoAccount \<Rightarrow> u16 \<Rightarrow> (MangoAccount \<times> nat) res" where
  "create_serum3_orders a mi =
     (case serum3_orders a mi of
        Inr _ \<Rightarrow> Inl (MangoErr Serum3OpenOrdersExistAlready)
      | Inl _ \<Rightarrow>
          (case position (\<lambda>p. \<not> s3_is_active p) (serum3_orders_list a) of
             Some i \<Rightarrow> Inr (a\<lparr>serum3_orders_list := (serum3_orders_list a)[i := Serum3Orders_default\<lparr>s3_market_index := mi\<rparr>]\<rparr>, i)
           | None \<Rightarrow> Inl (MangoErr NoFreeSerum3OpenOrdersIndex)))"

definition deactivate_serum3_orders :: "MangoAccount \<Rightarrow> u16 \<Rightarrow> MangoAccount res" where
  "deactivate_serum3_orders a mi =
     (case position (\<lambda>p. s3_is_active_for_market p mi) (serum3_orders_list a) of
        Some i \<Rightarrow> Inr (a\<lparr>serum3_orders_list := (serum3_orders_list a)[i := (serum3_orders_list a ! i)\<lparr>s3_market_index := u16_MAX\<rparr>]\<rparr>)
      | None \<Rightarrow> Inl (MangoErr SomeError))"

section \<open>Perp positions and orders\<close>

definition PerpOpenOrder_default :: PerpOpenOrder where
  "PerpOpenOrder_default =
     \<lparr>oo_side_and_tree = BidFixed, oo_market = FREE_ORDER_SLOT, oo_client_id = 0, oo_id = 0, oo_quantity = 0\<rparr>"

definition oo_is_active_for_market :: "PerpOpenOrder \<Rightarrow> u16 \<Rightarrow> bool" where
  "oo_is_active_for_market o' mi \<longleftrightarrow> oo_market o' = mi"

definition oo_is_active :: "PerpOpenOrder \<Rightarrow> bool" where
  "oo_is_active o' \<longleftrightarrow> oo_market o' \<noteq> FREE_ORDER_SLOT"

definition oo_clear :: "PerpOpenOrder \<Rightarrow> PerpOpenOrder" where
  "oo_clear o' =
     o'\<lparr>oo_market := FREE_ORDER_SLOT, oo_side_and_tree := BidFixed, oo_id := 0, oo_client_id := 0, oo_quantity := 0\<rparr>"

text \<open>The raw index that \<^verbatim>\<open>perp_position\<close> and \<^verbatim>\<open>perp_position_mut\<close> find.\<close>

definition perp_raw_index :: "MangoAccount \<Rightarrow> u16 \<Rightarrow> nat res" where
  "perp_raw_index a mi =
     ok_or (position (\<lambda>p. pp_is_active_for_market p mi) (perp_positions a)) (MangoErr PerpPositionDoesNotExist)"

definition perp_position :: "MangoAccount \<Rightarrow> u16 \<Rightarrow> PerpPosition res" where
  "perp_position a mi = rbind (perp_raw_index a mi) (\<lambda>i. Inr (perp_positions a ! i))"

definition set_perp_position :: "MangoAccount \<Rightarrow> nat \<Rightarrow> PerpPosition \<Rightarrow> MangoAccount" where
  "set_perp_position a i pp = a\<lparr>perp_positions := (perp_positions a)[i := pp]\<rparr>"

definition perp_order :: "MangoAccount \<Rightarrow> nat \<Rightarrow> PerpOpenOrder res" where
  "perp_order a slot = (if slot < length (perp_open_orders a) then Inr (perp_open_orders a ! slot) else Inl Panic)"

definition set_perp_order :: "MangoAccount \<Rightarrow> nat \<Rightarrow> PerpOpenOrder \<Rightarrow> MangoAccount" where
  "set_perp_order a slot oo = a\<lparr>perp_open_orders := (perp_open_orders a)[slot := oo]\<rparr>"

definition perp_next_order_slot :: "MangoAccount \<Rightarrow> nat res" where
  "perp_next_order_slot a =
     ok_or (position (\<lambda>oo. oo_market oo = FREE_ORDER_SLOT) (perp_open_orders a)) (MangoErr SomeError)"

definition perp_find_order_with_client_order_id :: "MangoAccount \<Rightarrow> u16 \<Rightarrow> u64 \<Rightarrow> (nat \<times> PerpOpenOrder) option" where
  "perp_find_order_with_client_order_id a mi cid =
     map_option (\<lambda>i. (i, perp_open_orders a ! i))
       (position (\<lambda>oo. oo_is_active_for_market oo mi \<and> oo_client_id oo = cid) (perp_open_orders a))"

definition perp_find_order_with_order_id :: "MangoAccount \<Rightarrow> u16 \<Rightarrow> u128 \<Rightarrow> (nat \<times> PerpOpenOrder) option" where
  "perp_find_order_with_order_id a mi oid =
     map_option (\<lambda>i. (i, perp_open_orders a ! i))
       (position (\<lambda>oo. oo_is_active_for_market oo mi \<and> oo_id oo = oid) (perp_open_orders a))"

definition ensure_perp_position :: "MangoAccount \<Rightarrow> u16 \<Rightarrow> u16 \<Rightarrow> (MangoAccount \<times> nat) res" where
  "ensure_perp_position a mi settle_ti =
     (case position (\<lambda>p. pp_is_active_for_market p mi) (perp_positions a) of
        Some i \<Rightarrow> Inr (a, i)
      | None \<Rightarrow>
          (case position (\<lambda>p. \<not> pp_is_active p) (perp_positions a) of
             Some i \<Rightarrow>
               rbind (ensure_token_position (set_perp_position a i (PerpPosition_default\<lparr>pp_market_index := mi\<rparr>)) settle_ti)
                 (\<lambda>(a', ti, _).
               rbind (increment_in_use (token_positions a' ! ti)) (\<lambda>p.
                 Inr (a'\<lparr>token_positions := (token_positions a')[ti := p]\<rparr>, i)))
           | None \<Rightarrow> Inl (MangoErr NoFreePerpPositionIndex)))"

text \<open>Also \<^verbatim>\<open>deactivate_perp_position_and_log\<close>, which only adds a log entry.\<close>

definition deactivate_perp_position :: "MangoAccount \<Rightarrow> u16 \<Rightarrow> u16 \<Rightarrow> MangoAccount res" where
  "deactivate_perp_position a mi settle_ti =
     rbind (perp_raw_index a mi) (\<lambda>i.
     let a' = set_perp_position a i ((perp_positions a ! i)\<lparr>pp_market_index := u16_MAX\<rparr>)
     in rbind (token_position_and_raw_index a' settle_ti) (\<lambda>(p, ti).
          Inr (a'\<lparr>token_positions := (token_positions a')[ti := decrement_in_use p]\<rparr>)))"

definition find_first_active_unused_perp_position :: "MangoAccount \<Rightarrow> PerpPosition option" where
  "find_first_active_unused_perp_position a =
     find (\<lambda>p. pp_is_active p \<and> base_position_lots p = 0 \<and> quote_position_native p = 0 \<and>
               bids_base_lots p = 0 \<and> asks_base_lots p = 0 \<and> taker_base_lots p = 0 \<and> taker_quote_lots p = 0)
       (perp_positions a)"

definition add_perp_order :: "MangoAccount \<Rightarrow> u16 \<Rightarrow> Side \<Rightarrow> BookSideOrderTree \<Rightarrow> LeafNode \<Rightarrow> MangoAccount res" where
  "add_perp_order a mi side order_tree order =
     rbind (perp_raw_index a mi) (\<lambda>i.
     rbind (adjust_maker_lots (perp_positions a ! i) side (quantity order)) (\<lambda>pp.
     let a1 = set_perp_position a i pp; slot = owner_slot order
     in rbind (perp_order a1 slot) (\<lambda>oo.
          Inr (set_perp_order a1 slot
            (oo\<lparr>oo_market := mi, oo_side_and_tree := side_and_order_tree_new side order_tree, oo_id := leaf_key order,
                oo_client_id := leaf_client_order_id order, oo_quantity := quantity order\<rparr>)))))"

definition remove_perp_order :: "MangoAccount \<Rightarrow> nat \<Rightarrow> i64 \<Rightarrow> MangoAccount res" where
  "remove_perp_order a slot lots =
     rbind (require (length (perp_open_orders a) > slot) RequireViolated) (\<lambda>_.
     let oo = perp_open_orders a ! slot
     in rbind (require (oo_market oo \<noteq> FREE_ORDER_SLOT) RequireViolated) (\<lambda>_.
        rbind (perp_raw_index a (oo_market oo)) (\<lambda>i.
        rbind (chk_i64 (- lots)) (\<lambda>n.
        rbind (adjust_maker_lots (perp_positions a ! i) (sat_side (oo_side_and_tree oo)) n) (\<lambda>pp.
          Inr (set_perp_order (set_perp_position a i pp) slot (oo_clear oo)))))))"

text \<open>The parts of \<^verbatim>\<open>execute_perp_maker\<close>: the fees that can be bought back, the position, and the
  open order slot.\<close>

definition accrue_maker_fees :: "fixed_ops \<Rightarrow> MangoAccountFixed \<Rightarrow> i80f48 \<Rightarrow> Group \<Rightarrow> i64 \<Rightarrow> MangoAccountFixed res" where
  "accrue_maker_fees F f fees grp clock_ts =
     (if fees > 0 then
        rbind (clock_u64 clock_ts) (\<lambda>now.
        rbind (expire_buyback_fees f now (buyback_fees_expiry_interval grp)) (\<lambda>f1.
        rbind (fx_floor F fees) (\<lambda>ff.
        rbind (fx_to_u64 F ff) (\<lambda>amount. Inr (accrue_buyback_fees f1 amount)))))
      else Inr f)"

definition fill_maker_position ::
  "fixed_ops \<Rightarrow> PerpPosition \<Rightarrow> PerpMarket \<Rightarrow> Side \<Rightarrow> i64 \<Rightarrow> i80f48 \<Rightarrow> i80f48 \<Rightarrow> (PerpPosition \<times> PerpMarket \<times> i80f48) res" where
  "fill_maker_position F pp market side base_change quote fees =
     rbind (settle_funding F pp market) (\<lambda>pp1.
     rbind (record_trading_fee F pp1 fees) (\<lambda>pp2.
     rbind (record_trade F pp2 market base_change quote) (\<lambda>(pp3, market', realized_pnl).
     rbind (fx_abs F quote) (\<lambda>qa.
     rbind (fx_to_u64 F qa) (\<lambda>qv.
     rbind (chk_u64 (maker_volume pp3 + qv)) (\<lambda>vol.
     rbind (abs_i64 base_change) (\<lambda>quantity_filled.
     rbind (chk_i64 (- quantity_filled)) (\<lambda>n.
     rbind (adjust_maker_lots (pp3\<lparr>maker_volume := vol\<rparr>) side n) (\<lambda>pp4.
       Inr (pp4, market', realized_pnl))))))))))"

definition fill_maker_order :: "PerpOpenOrder \<Rightarrow> u16 \<Rightarrow> FillEvent \<Rightarrow> i64 \<Rightarrow> PerpOpenOrder res" where
  "fill_maker_order oo mi fill quantity_filled =
     (if oo_is_active_for_market oo mi \<and> (maker_order_id fill = 0 \<or> oo_id oo = maker_order_id fill) then
        rbind (chk_i64 (oo_quantity oo - quantity_filled)) (\<lambda>q.
          let oo' = oo\<lparr>oo_quantity := max q 0\<rparr> in Inr (if maker_out fill then oo_clear oo' else oo'))
      else Inr oo)"

definition execute_perp_maker ::
  "fixed_ops \<Rightarrow> MangoAccount \<Rightarrow> u16 \<Rightarrow> PerpMarket \<Rightarrow> FillEvent \<Rightarrow> Group \<Rightarrow> i64 \<Rightarrow> (MangoAccount \<times> PerpMarket \<times> i80f48) res" where
  "execute_perp_maker F a mi market fill grp clock_ts =
     (let side = invert_side (taker_side fill) in
      rbind (base_quote_change fill side) (\<lambda>(base_change, quote_change).
      rbind (fx_mul F (fx_of_int F (quote_lot_size market)) (fx_of_int F quote_change)) (\<lambda>quote.
      rbind (fx_abs F quote) (\<lambda>quote_abs.
      rbind (fx_of_f32 F (fill_maker_fee fill)) (\<lambda>fee_rate.
      rbind (fx_mul F quote_abs fee_rate) (\<lambda>fees.
      rbind (accrue_maker_fees F (fixed_part a) fees grp clock_ts) (\<lambda>f.
      rbind (perp_raw_index a mi) (\<lambda>i.
      rbind (fill_maker_position F (perp_positions a ! i) market side base_change quote fees) (\<lambda>(pp, market', realized_pnl).
      rbind (perp_order a (maker_slot fill)) (\<lambda>oo.
      rbind (fill_maker_order oo mi fill \<bar>base_change\<bar>) (\<lambda>oo'.
        Inr (set_perp_order (set_perp_position (a\<lparr>fixed_part := f\<rparr>) i pp) (maker_slot fill) oo', market', realized_pnl))))))))))))"

definition execute_perp_taker ::
  "fixed_ops \<Rightarrow> MangoAccount \<Rightarrow> u16 \<Rightarrow> PerpMarket \<Rightarrow> FillEvent \<Rightarrow> (MangoAccount \<times> PerpMarket \<times> i80f48) res" where
  "execute_perp_taker F a mi market fill =
     rbind (perp_raw_index a mi) (\<lambda>i.
     rbind (settle_funding F (perp_positions a ! i) market) (\<lambda>pp1.
     rbind (base_quote_change fill (taker_side fill)) (\<lambda>(base_change, quote_change).
     rbind (remove_taker_trade pp1 base_change quote_change) (\<lambda>pp2.
     rbind (fx_mul F (fx_of_int F (quote_lot_size market)) (fx_of_int F quote_change)) (\<lambda>quote_change_native.
     rbind (record_trade F pp2 market base_change quote_change_native) (\<lambda>(pp3, market', realized_pnl).
     rbind (fx_abs F quote_change_native) (\<lambda>qa.
     rbind (fx_to_u64 F qa) (\<lambda>qv.
     rbind (chk_u64 (taker_volume pp3 + qv)) (\<lambda>vol.
       Inr (set_perp_position a i (pp3\<lparr>taker_volume := vol\<rparr>), market', realized_pnl))))))))))"

definition execute_perp_out_event :: "MangoAccount \<Rightarrow> u16 \<Rightarrow> Side \<Rightarrow> nat \<Rightarrow> i64 \<Rightarrow> u128 \<Rightarrow> MangoAccount res" where
  "execute_perp_out_event a mi side slot lots order_id =
     rbind (perp_raw_index a mi) (\<lambda>i.
     rbind (chk_i64 (- lots)) (\<lambda>n.
     rbind (adjust_maker_lots (perp_positions a ! i) side n) (\<lambda>pp.
     let a1 = set_perp_position a i pp
     in rbind (perp_order a1 slot) (\<lambda>oo.
          if oo_is_active_for_market oo mi \<and> (order_id = 0 \<or> oo_id oo = order_id)
          then Inr (set_perp_order a1 slot (oo_clear oo)) else Inr a1))))"

section \<open>Health checks\<close>

text \<open>Health values come from the health cache; the ones that are only computed on demand are
  passed as results.\<close>

definition check_health_pre_checks :: "MangoAccount \<Rightarrow> i80f48 res \<Rightarrow> i80f48 \<Rightarrow> MangoAccount res" where
  "check_health_pre_checks a liq_end_health pre_init_health =
     (let f1 = fst (maybe_recover_from_being_liquidated (fixed_part a) pre_init_health)
      in rbind (if being_liquidated f1 then
                  rbind liq_end_health (\<lambda>h. Inr (fst (maybe_recover_from_being_liquidated f1 h)))
                else Inr f1) (\<lambda>f2.
         rbind (require (\<not> being_liquidated f2) (MangoErr BeingLiquidated)) (\<lambda>_.
           Inr (a\<lparr>fixed_part := f2\<rparr>))))"

definition check_health_post_checks :: "fixed_ops \<Rightarrow> i80f48 \<Rightarrow> i80f48 \<Rightarrow> unit res" where
  "check_health_post_checks F pre_init_health post_init_health =
     rbind (if post_init_health < fx_of_int F (- 1000) then
              rbind (fx_ceil F post_init_health) (\<lambda>p.
              rbind (fx_ceil F pre_init_health) (\<lambda>q. Inr (p \<ge> q)))
            else Inr (post_init_health \<ge> pre_init_health)) (\<lambda>health_does_not_decrease.
       require (post_init_health \<ge> 0 \<or> health_does_not_decrease) (MangoErr HealthMustBePositiveOrIncrease))"

definition check_health_post_checks_strict :: "i80f48 \<Rightarrow> unit res" where
  "check_health_post_checks_strict post_init_health =
     require (post_init_health \<ge> 0) (MangoErr HealthMustBePositive)"

datatype CheckLiquidatable = NotLiquidatable | Liquidatable | BecameNotLiquidatable

definition check_liquidatable :: "MangoAccount \<Rightarrow> i80f48 res \<Rightarrow> i80f48 res \<Rightarrow> (MangoAccount \<times> CheckLiquidatable) res" where
  "check_liquidatable a liq_end_health maint_health =
     (if being_liquidated (fixed_part a) then
        rbind liq_end_health (\<lambda>h.
          let (f, recovered) = maybe_recover_from_being_liquidated (fixed_part a) h
          in Inr (a\<lparr>fixed_part := f\<rparr>, if recovered then BecameNotLiquidatable else Liquidatable))
      else
        rbind maint_health (\<lambda>h.
          if h \<ge> 0 then Inr (a, NotLiquidatable)
          else Inr (a\<lparr>fixed_part := set_being_liquidated (fixed_part a) True\<rparr>, Liquidatable)))"

section \<open>Facts\<close>

lemma position_Some:
  "position P xs = Some i \<Longrightarrow> i < length xs \<and> P (xs ! i) \<and> (\<forall>j<i. \<not> P (xs ! j))"
proof (induction xs arbitrary: i)
  case (Cons x xs)
  then show ?case by (auto simp: less_Suc_eq_0_disj split: if_splits)
qed simp

lemma position_None: "position P xs = None \<longleftrightarrow> (\<forall>x \<in> set xs. \<not> P x)"
  by (induction xs) auto

text \<open>Replacing the found element by one that is found too does not move the position.\<close>

lemma position_update:
  "position P xs = Some i \<Longrightarrow> P y \<Longrightarrow> position P (xs[i := y]) = Some i"
proof (induction xs arbitrary: i)
  case (Cons x xs)
  then show ?case by (cases i) (auto split: if_splits)
qed simp

lemma perp_raw_index_ok:
  "perp_raw_index a mi = Inr i \<Longrightarrow> i < length (perp_positions a) \<and> pp_market_index (perp_positions a ! i) = mi"
  by (auto simp: perp_raw_index_def ok_or_eq_Inr pp_is_active_for_market_def dest!: position_Some)

lemma perp_raw_index_set:
  "perp_raw_index a mi = Inr i \<Longrightarrow> pp_market_index pp = mi \<Longrightarrow> perp_raw_index (set_perp_position a i pp) mi = Inr i"
  by (auto simp: perp_raw_index_def set_perp_position_def ok_or_eq_Inr pp_is_active_for_market_def intro: position_update)

lemma perp_raw_index_simps [simp]:
  "perp_raw_index (set_perp_order a s oo) mi = perp_raw_index a mi"
  "perp_raw_index (a\<lparr>fixed_part := f\<rparr>) mi = perp_raw_index a mi"
  by (simp_all add: perp_raw_index_def set_perp_order_def)

lemma set_perp_simps [simp]:
  "perp_open_orders (set_perp_position a i pp) = perp_open_orders a"
  "perp_positions (set_perp_order a s oo) = perp_positions a"
  "perp_positions (set_perp_position a i pp) = (perp_positions a)[i := pp]"
  "perp_open_orders (set_perp_order a s oo) = (perp_open_orders a)[s := oo]"
  "fixed_part (set_perp_position a i pp) = fixed_part a" "fixed_part (set_perp_order a s oo) = fixed_part a"
  by (simp_all add: set_perp_position_def set_perp_order_def)

lemma perp_position_set:
  assumes "perp_raw_index a mi = Inr i" "pp_market_index pp = mi"
  shows "perp_position (set_perp_position a i pp) mi = Inr pp"
  using perp_raw_index_ok [OF assms(1)] perp_raw_index_set [OF assms] by (simp add: perp_position_def)

lemma perp_position_set_order [simp]: "perp_position (set_perp_order a s oo) mi = perp_position a mi"
  by (simp add: perp_position_def)

lemma adjust_maker_lots_effect:
  assumes "adjust_maker_lots pp side n = Inr pp'"
  shows "pp' = (case side of Bid \<Rightarrow> pp\<lparr>bids_base_lots := bids_base_lots pp + n\<rparr>
                            | Ask \<Rightarrow> pp\<lparr>asks_base_lots := asks_base_lots pp + n\<rparr>)"
  using assms by (cases side) (auto simp: adjust_maker_lots_def rbind_eq_Inr)

text \<open>The open lots of a side.\<close>

definition maker_lots :: "PerpPosition \<Rightarrow> Side \<Rightarrow> int" where
  "maker_lots pp side = (case side of Bid \<Rightarrow> bids_base_lots pp | Ask \<Rightarrow> asks_base_lots pp)"

lemma adjust_maker_lots_frame:
  assumes "adjust_maker_lots pp side n = Inr pp'"
  shows "maker_lots pp' s = maker_lots pp s + (if s = side then n else 0)"
    "pp_market_index pp' = pp_market_index pp" "base_position_lots pp' = base_position_lots pp"
    "quote_position_native pp' = quote_position_native pp" "taker_base_lots pp' = taker_base_lots pp"
    "taker_quote_lots pp' = taker_quote_lots pp"
  unfolding adjust_maker_lots_effect [OF assms] by (cases side; cases s; simp add: maker_lots_def)+

lemma base_quote_change_eq:
  assumes "base_quote_change fill side = Inr (b, q)"
  shows "b = (if side = Bid then fill_quantity fill else - fill_quantity fill)"
    "q = (if side = Bid then - (fill_price fill * fill_quantity fill) else fill_price fill * fill_quantity fill)"
  using assms by (cases side; auto simp: base_quote_change_def rbind_eq_Inr)+

lemma fill_maker_position_effect:
  assumes F: "fixed_laws F" and x: "fill_maker_position F pp m side b quote fees = Inr (pp', m', pnl)"
  shows "base_position_lots pp' = base_position_lots pp + b"
    "quote_position_native pp' = quote_position_native pp - funding_due pp m + quote - fees"
    "maker_lots pp' s = maker_lots pp s - (if s = side then \<bar>b\<bar> else 0)"
    "taker_base_lots pp' = taker_base_lots pp" "taker_quote_lots pp' = taker_quote_lots pp"
    "pp_market_index pp' = pp_market_index pp"
    "m' = m\<lparr>open_interest := open_interest m + \<bar>base_position_lots pp + b\<bar> - \<bar>base_position_lots pp\<bar>\<rparr>"
proof -
  obtain pp1 pp2 pp3 vol n where pp1: "settle_funding F pp m = Inr pp1"
      and pp2: "record_trading_fee F pp1 fees = Inr pp2" and pp3: "record_trade F pp2 m b quote = Inr (pp3, m', pnl)"
      and n: "n = - \<bar>b\<bar>" and pp4: "adjust_maker_lots (pp3\<lparr>maker_volume := vol\<rparr>) side n = Inr pp'"
    using x unfolding fill_maker_position_def abs_i64_def by (elim rbind_InrE) (auto elim!: rbind_InrE)
  note e = settle_funding_effect [OF F pp1] record_trading_fee_effect [OF F pp2]
    record_trade_effect [OF F pp3] adjust_maker_lots_frame [OF pp4]
  have [simp]: "maker_lots (pp3\<lparr>maker_volume := vol\<rparr>) s = maker_lots pp3 s" for s
    by (cases s) (simp_all add: maker_lots_def)
  have lots: "maker_lots pp3 s = maker_lots pp s"
    using e(1-10) record_trading_fee_effect(3) [OF F pp2] record_trade_effect(4) [OF F pp3]
    by (cases s) (simp_all add: maker_lots_def same_orders_def)
  show "base_position_lots pp' = base_position_lots pp + b"
    "quote_position_native pp' = quote_position_native pp - funding_due pp m + quote - fees"
    "maker_lots pp' s = maker_lots pp s - (if s = side then \<bar>b\<bar> else 0)"
    "m' = m\<lparr>open_interest := open_interest m + \<bar>base_position_lots pp + b\<bar> - \<bar>base_position_lots pp\<bar>\<rparr>"
    using e by (simp_all add: n lots)
  show "taker_base_lots pp' = taker_base_lots pp" "taker_quote_lots pp' = taker_quote_lots pp"
    "pp_market_index pp' = pp_market_index pp"
    using e by (simp_all add: same_orders_def)
qed

lemma execute_perp_maker_effect:
  assumes F: "fixed_laws F" and x: "execute_perp_maker F a mi m fill grp ts = Inr (a', m', pnl)"
    and side: "b = (if taker_side fill = Bid then - fill_quantity fill else fill_quantity fill)"
  obtains pp pp' fee_rate where "perp_position a mi = Inr pp" "perp_position a' mi = Inr pp'"
    "fx_of_f32 F (fill_maker_fee fill) = Inr fee_rate"
    "base_position_lots pp' = base_position_lots pp + b"
    "quote_position_native pp' = quote_position_native pp - funding_due pp m - quote_lot_size m * fill_price fill * b * fx_one
       - \<bar>quote_lot_size m * fill_price fill * b\<bar> * fee_rate"
    "\<And>s. maker_lots pp' s = maker_lots pp s - (if s = taker_side fill then 0 else \<bar>b\<bar>)"
    "taker_base_lots pp' = taker_base_lots pp" "taker_quote_lots pp' = taker_quote_lots pp"
    "m' = m\<lparr>open_interest := open_interest m + \<bar>base_position_lots pp + b\<bar> - \<bar>base_position_lots pp\<bar>\<rparr>"
proof -
  let ?s = "invert_side (taker_side fill)"
  obtain b' q quote qa rate fees f i pp oo where bq: "base_quote_change fill ?s = Inr (b', q)"
      and quote: "fx_mul F (fx_of_int F (quote_lot_size m)) (fx_of_int F q) = Inr quote"
      and qa: "fx_abs F quote = Inr qa" and rate: "fx_of_f32 F (fill_maker_fee fill) = Inr rate"
      and fees: "fx_mul F qa rate = Inr fees" and i: "perp_raw_index a mi = Inr i"
      and pp: "fill_maker_position F (perp_positions a ! i) m ?s b' quote fees = Inr (pp, m', pnl)"
      and a': "a' = set_perp_order (set_perp_position (a\<lparr>fixed_part := f\<rparr>) i pp) (maker_slot fill) oo"
    using x unfolding execute_perp_maker_def Let_def by (elim rbind_InrE) (auto elim!: rbind_InrE)
  have b': "b' = b" "q = - (fill_price fill * b)"
    using base_quote_change_eq [OF bq] side by (cases "taker_side fill"; simp)+
  have quote': "quote = - (quote_lot_size m * fill_price fill * b) * fx_one"
    using quote by (simp add: fixed_lawsD [OF F] chk_i128_eq_Inr b' mult.assoc)
  have fees': "fees = \<bar>quote_lot_size m * fill_price fill * b\<bar> * rate"
    using qa fees by (simp add: fixed_lawsD [OF F] chk_i128_eq_Inr quote' abs_mult)
  have inv: "(s = ?s) = (s \<noteq> taker_side fill)" for s by (cases s; cases "taker_side fill") simp_all
  note e = fill_maker_position_effect [OF F pp]
  have pm: "pp_market_index pp = mi" using e(6) perp_raw_index_ok [OF i] by simp
  show thesis
  proof (rule that [of "perp_positions a ! i" pp rate])
    show "perp_position a mi = Inr (perp_positions a ! i)" using i by (simp add: perp_position_def)
    show "perp_position a' mi = Inr pp" unfolding a' using i pm by (simp add: perp_position_set)
    show "maker_lots pp s = maker_lots (perp_positions a ! i) s - (if s = taker_side fill then 0 else \<bar>b\<bar>)" for s
      using e(3) [of s] by (simp add: b' inv)
  qed (use e rate in \<open>simp_all add: b' quote' fees'\<close>)
qed

lemma execute_perp_taker_effect:
  assumes F: "fixed_laws F" and x: "execute_perp_taker F a mi m fill = Inr (a', m', pnl)"
    and side: "b = (if taker_side fill = Bid then fill_quantity fill else - fill_quantity fill)"
  obtains pp pp' where "perp_position a mi = Inr pp" "perp_position a' mi = Inr pp'"
    "base_position_lots pp' = base_position_lots pp + b"
    "quote_position_native pp' = quote_position_native pp - funding_due pp m - quote_lot_size m * fill_price fill * b * fx_one"
    "\<And>s. maker_lots pp' s = maker_lots pp s"
    "taker_base_lots pp' = taker_base_lots pp - b" "taker_quote_lots pp' = taker_quote_lots pp + fill_price fill * b"
    "m' = m\<lparr>open_interest := open_interest m + \<bar>base_position_lots pp + b\<bar> - \<bar>base_position_lots pp\<bar>\<rparr>"
    "perp_open_orders a' = perp_open_orders a"
proof -
  obtain i pp1 b' q pp2 quote pp3 vol where i: "perp_raw_index a mi = Inr i"
      and pp1: "settle_funding F (perp_positions a ! i) m = Inr pp1"
      and bq: "base_quote_change fill (taker_side fill) = Inr (b', q)"
      and pp2: "remove_taker_trade pp1 b' q = Inr pp2"
      and quote: "fx_mul F (fx_of_int F (quote_lot_size m)) (fx_of_int F q) = Inr quote"
      and pp3: "record_trade F pp2 m b' quote = Inr (pp3, m', pnl)"
      and a': "a' = set_perp_position a i (pp3\<lparr>taker_volume := vol\<rparr>)"
    using x unfolding execute_perp_taker_def by (elim rbind_InrE) (auto elim!: rbind_InrE)
  have b': "b' = b" "q = - (fill_price fill * b)"
    using base_quote_change_eq [OF bq] side by (cases "taker_side fill"; simp)+
  have quote': "quote = - (quote_lot_size m * fill_price fill * b) * fx_one"
    using quote by (simp add: fixed_lawsD [OF F] chk_i128_eq_Inr b' mult.assoc)
  have pp2': "pp2 = pp1\<lparr>taker_base_lots := taker_base_lots pp1 - b, taker_quote_lots := taker_quote_lots pp1 + fill_price fill * b\<rparr>"
    using pp2 by (auto simp: remove_taker_trade_def rbind_eq_Inr b')
  note e = settle_funding_effect [OF F pp1] record_trade_effect [OF F pp3]
  have pm: "pp_market_index (pp3\<lparr>taker_volume := vol\<rparr>) = mi"
    using e perp_raw_index_ok [OF i] by (simp add: same_orders_def pp2')
  show thesis
  proof (rule that)
    show "perp_position a mi = Inr (perp_positions a ! i)" using i by (simp add: perp_position_def)
    show "perp_position a' mi = Inr (pp3\<lparr>taker_volume := vol\<rparr>)" unfolding a' by (rule perp_position_set [OF i pm])
    show "maker_lots (pp3\<lparr>taker_volume := vol\<rparr>) s = maker_lots (perp_positions a ! i) s" for s
      using e by (cases s) (simp_all add: maker_lots_def same_orders_def pp2')
  qed (use e in \<open>simp_all add: same_orders_def pp2' b' quote' a'\<close>)
qed

section \<open>Properties\<close>

definition sample_account :: MangoAccount where
  "sample_account =
     \<lparr>fixed_part = \<lparr>ma_group = [], ma_owner = [1], ma_name = [], delegate = [], account_num = 0, being_liquidated_flag = 0,
        in_health_region_flag = 0, sequence_number = 0, net_deposits = 0, fixed_perp_spot_transfers = 0,
        health_region_begin_init_health = 0, frozen_until = 0, buyback_fees_accrued_current = 0,
        buyback_fees_accrued_previous = 0, buyback_fees_expiry_timestamp = 0, next_token_conditional_swap_id = 0,
        temporary_delegate = [], temporary_delegate_expiry = 0, last_collateral_fee_charge = 0\<rparr>,
      token_positions = [], serum3_orders_list = [],
      perp_positions = [sample_position\<lparr>asks_base_lots := 3, taker_base_lots := 3, taker_quote_lots := - 6\<rparr>],
      perp_open_orders = [PerpOpenOrder_default\<lparr>oo_market := 0, oo_id := 7, oo_side_and_tree := AskFixed, oo_quantity := 3\<rparr>,
                          PerpOpenOrder_default]\<rparr>"

definition sample_fill :: FillEvent where
  "sample_fill =
     \<lparr>taker_side = Bid, maker_out = True, maker_slot = 0, fill_timestamp = 0, fill_seq_num = 0, maker = [1],
      maker_timestamp = 0, taker = [2], taker_client_order_id = 0, maker_order_id = 7, fill_price = 2,
      fill_quantity = 3, maker_client_order_id = 0, fill_maker_fee = fl_zero, fill_taker_fee = fl_zero\<rparr>"

definition sample_order :: LeafNode where
  "sample_order = \<lparr>owner_slot = 1, leaf_order_type = Limit, time_in_force = 0, leaf_key = 9, leaf_owner = [1],
     quantity = 4, timestamp = 0, peg_limit = - 1, leaf_client_order_id = 0\<rparr>"

lemma sample_account_simps:
  "perp_positions sample_account = [sample_position\<lparr>asks_base_lots := 3, taker_base_lots := 3, taker_quote_lots := - 6\<rparr>]"
  "perp_open_orders sample_account =
     [PerpOpenOrder_default\<lparr>oo_market := 0, oo_id := 7, oo_side_and_tree := AskFixed, oo_quantity := 3\<rparr>, PerpOpenOrder_default]"
  by (simp_all add: sample_account_def)

lemma sample_raw_index: "perp_raw_index sample_account 0 = Inr 0"
  by (simp add: perp_raw_index_def sample_account_def pp_is_active_for_market_def sample_position_def)

lemmas account_eval = sample_account_simps sample_fill_def base_quote_change_def accrue_maker_fees_def
  fill_maker_position_def settle_funding_def unsettled_funding_def record_trading_fee_def record_trade_def
  update_trade_stats_def stats_close_def stats_cross_def stats_same_sign_def entry_pnl_def change_base_position_def
  apply_recurring_settle_pnl_allowance_constraint_def unsettled_pnl_def unwrap_res_def clamp_to_i64_def
  adjust_maker_lots_def perp_order_def fill_maker_order_def oo_is_active_for_market_def PerpOpenOrder_default_def
  chk_u64_def u64_MAX_def Let_def

text \<open>
  C21. A fill is zero sum between maker and taker. When a fill event is executed for the maker
  and then for the taker, the base lots the one gains are those the other loses, and together
  the two quote positions lose exactly the funding that was due and the maker's fee, the fee
  rate times the traded native quote. The maker's open lots on its side and the taker's pending
  fill fall by the filled quantity, and everything else of the pending state is kept.
\<close>

theorem fill_zero_sum:
  assumes "fixed_laws F" "execute_perp_maker F a mi m fill grp ts = Inr (a', m', pnl)"
    and "execute_perp_taker F b mi m' fill = Inr (b', m'', pnl')"
  shows "\<exists>pa pa' pb pb' rate.
     perp_position a mi = Inr pa \<and> perp_position a' mi = Inr pa' \<and>
     perp_position b mi = Inr pb \<and> perp_position b' mi = Inr pb' \<and> fx_of_f32 F (fill_maker_fee fill) = Inr rate \<and>
     base_position_lots pa' + base_position_lots pb' = base_position_lots pa + base_position_lots pb \<and>
     quote_position_native pa' + quote_position_native pb' =
       quote_position_native pa + quote_position_native pb - funding_due pa m - funding_due pb m
       - \<bar>quote_lot_size m * fill_price fill * fill_quantity fill\<bar> * rate \<and>
     maker_lots pa' (invert_side (taker_side fill)) = maker_lots pa (invert_side (taker_side fill)) - \<bar>fill_quantity fill\<bar> \<and>
     maker_lots pa' (taker_side fill) = maker_lots pa (taker_side fill) \<and>
     base_position_lots pb' + taker_base_lots pb' = base_position_lots pb + taker_base_lots pb \<and>
     (\<forall>s. maker_lots pb' s = maker_lots pb s)"
proof -
  have m': "quote_lot_size m' = quote_lot_size m \<and> funding_due pp m' = funding_due pp m"
    if "m' = m\<lparr>open_interest := oi\<rparr>" for pp oi using that by (simp add: funding_due_def)
  have side: "(invert_side s = s) = False" for s by (cases s) simp_all
  show ?thesis
    apply (rule execute_perp_maker_effect [OF assms(1,2) refl])
    apply (rule execute_perp_taker_effect [OF assms(1,3) refl])
    subgoal for pa pa' rate pb pb'
      apply (rule exI [of _ pa], rule exI [of _ pa'], rule exI [of _ pb], rule exI [of _ pb'], rule exI [of _ rate])
      using m' by (cases "taker_side fill") (simp_all add: side abs_mult)
    done
qed

theorem fill_zero_sum_witness:
  "\<exists>a' m' pnl b' m'' pnl' pa' pb'. execute_perp_maker fixed_reference sample_account 0 sample_market sample_fill sample_group 0 = Inr (a', m', pnl) \<and>
     execute_perp_taker fixed_reference sample_account 0 m' sample_fill = Inr (b', m'', pnl') \<and>
     perp_position a' 0 = Inr pa' \<and> perp_position b' 0 = Inr pb' \<and>
     base_position_lots pa' + base_position_lots pb' = 6"
proof -
  obtain a' m' pnl where 1: "execute_perp_maker fixed_reference sample_account 0 sample_market sample_fill sample_group 0 = Inr (a', m', pnl)"
      and m': "m' = sample_market\<lparr>open_interest := 1\<rparr>"
    by (simp add: execute_perp_maker_def sample_raw_index account_eval position_eval)
  obtain b' m'' pnl' where 2: "execute_perp_taker fixed_reference sample_account 0 m' sample_fill = Inr (b', m'', pnl')"
    by (simp add: execute_perp_taker_def sample_raw_index m' remove_taker_trade_def account_eval position_eval)
  from fill_zero_sum [OF fixed_reference_laws 1 2] 1 2 show ?thesis
    by (auto simp: perp_position_def [of sample_account] sample_raw_index sample_account_simps sample_position_def)
qed

text \<open>
  C22. Adding an order to an account and removing it again with the same quantity gives the
  account back, when the order's slot was free and the position's counters were in range.
\<close>

theorem add_remove_perp_order:
  assumes "add_perp_order a mi side tree order = Inr a'" "perp_order a (owner_slot order) = Inr PerpOpenOrder_default"
    and "mi \<noteq> FREE_ORDER_SLOT" "0 \<le> quantity order" "quantity order \<le> i64_MAX"
    and "perp_position a mi = Inr pp" "in_i64 (bids_base_lots pp)" "in_i64 (asks_base_lots pp)"
  shows "remove_perp_order a' (owner_slot order) (quantity order) = Inr a"
proof -
  obtain i pp' oo where i: "perp_raw_index a mi = Inr i"
      and pp': "adjust_maker_lots (perp_positions a ! i) side (quantity order) = Inr pp'"
      and a': "a' = set_perp_order (set_perp_position a i pp') (owner_slot order) oo"
      and oo: "oo_market oo = mi" "oo_side_and_tree oo = side_and_order_tree_new side tree"
    using assms(1) unfolding add_perp_order_def Let_def by (elim rbind_InrE) auto
  have slot: "owner_slot order < length (perp_open_orders a)" "perp_open_orders a ! owner_slot order = PerpOpenOrder_default"
    using assms(2) by (auto simp: perp_order_def split: if_splits)
  have pp: "pp = perp_positions a ! i" using assms(6) i by (simp add: perp_position_def)
  have "pp_market_index pp' = mi"
    using adjust_maker_lots_frame [OF pp'] perp_raw_index_ok [OF i] by simp
  then have i': "perp_raw_index a' mi = Inr i" unfolding a' using perp_raw_index_set [OF i] by simp
  have undo: "adjust_maker_lots pp' side (- quantity order) = Inr pp"
    using assms(7,8) adjust_maker_lots_effect [OF pp'] by (cases side) (simp_all add: adjust_maker_lots_def chk_i64_def pp)
  have neg: "chk_i64 (- quantity order) = Inr (- quantity order)"
    using assms(4,5) by (simp add: chk_i64_def in_i64_def i64_MIN_def i64_MAX_def)
  have cl: "oo_clear oo' = PerpOpenOrder_default" for oo' by (simp add: oo_clear_def PerpOpenOrder_default_def)
  have [simp]: "i < length (perp_positions a)" using perp_raw_index_ok [OF i] by simp
  have "remove_perp_order a' (owner_slot order) (quantity order) =
      Inr (set_perp_order (set_perp_position a' i pp) (owner_slot order) PerpOpenOrder_default)"
    using slot oo i' assms(3) undo neg by (simp add: remove_perp_order_def a' cl require_def)
  also have "set_perp_order (set_perp_position a' i pp) (owner_slot order) PerpOpenOrder_default = a"
    using list_update_id [of "perp_open_orders a" "owner_slot order"] slot(2)
    by (simp add: a' set_perp_order_def set_perp_position_def pp)
  finally show ?thesis .
qed

theorem add_remove_perp_order_witness:
  "\<exists>a'. add_perp_order sample_account 0 Bid Fixed (sample_order) = Inr a' \<and>
     remove_perp_order a' 1 (quantity sample_order) = Inr sample_account"
proof -
  let ?o = "sample_order"
  obtain a' where 1: "add_perp_order sample_account 0 Bid Fixed ?o = Inr a'"
    by (simp add: add_perp_order_def sample_raw_index sample_order_def account_eval position_eval)
  show ?thesis
    using add_remove_perp_order [OF 1, of "perp_positions sample_account ! 0"] 1
    by (simp add: perp_position_def sample_raw_index sample_order_def FREE_ORDER_SLOT_def u16_MAX_def account_eval position_eval)
qed

text \<open>
  C23. An out event gives its lots back to the account whatever the slot holds, and frees the
  slot only when the order there is the one of the event: an order of another market, or a
  later order that reuses the slot, is not touched, and neither is any other slot.
\<close>

theorem out_event_frees_only_its_order:
  assumes "execute_perp_out_event a mi side slot lots order_id = Inr a'"
  shows "\<exists>pp pp' oo. perp_position a mi = Inr pp \<and> perp_position a' mi = Inr pp' \<and> perp_order a slot = Inr oo \<and>
     (\<forall>s. maker_lots pp' s = maker_lots pp s - (if s = side then lots else 0)) \<and>
     base_position_lots pp' = base_position_lots pp \<and> quote_position_native pp' = quote_position_native pp \<and>
     perp_order a' slot = Inr (if oo_market oo = mi \<and> (order_id = 0 \<or> oo_id oo = order_id) then PerpOpenOrder_default else oo) \<and>
     (\<forall>j. j \<noteq> slot \<longrightarrow> perp_order a' j = perp_order a j) \<and> fixed_part a' = fixed_part a"
proof -
  obtain i n pp oo where i: "perp_raw_index a mi = Inr i" and n: "n = - lots"
      and pp: "adjust_maker_lots (perp_positions a ! i) side n = Inr pp"
      and oo: "perp_order (set_perp_position a i pp) slot = Inr oo"
      and a': "a' = (if oo_is_active_for_market oo mi \<and> (order_id = 0 \<or> oo_id oo = order_id)
                     then set_perp_order (set_perp_position a i pp) slot (oo_clear oo) else set_perp_position a i pp)"
    using assms unfolding execute_perp_out_event_def Let_def by (elim rbind_InrE) (auto split: if_splits)
  note e = adjust_maker_lots_frame [OF pp]
  have "pp_market_index pp = mi" using e perp_raw_index_ok [OF i] by simp
  then have pos: "perp_position a' mi = Inr pp" unfolding a' using i by (simp add: perp_position_set)
  have "perp_position a mi = Inr (perp_positions a ! i)" using i by (simp add: perp_position_def)
  moreover have "perp_order a slot = Inr oo" using oo by (auto simp: perp_order_def split: if_splits)
  moreover have "perp_order a' slot = Inr (if oo_market oo = mi \<and> (order_id = 0 \<or> oo_id oo = order_id) then PerpOpenOrder_default else oo)"
    using oo by (auto simp: perp_order_def a' oo_is_active_for_market_def oo_clear_def PerpOpenOrder_default_def split: if_splits)
  moreover have "\<forall>j. j \<noteq> slot \<longrightarrow> perp_order a' j = perp_order a j" "fixed_part a' = fixed_part a"
    by (auto simp: perp_order_def a')
  ultimately show ?thesis using pos e by (auto simp: n)
qed

theorem out_event_frees_only_its_order_witness:
  "\<exists>a' pp'. execute_perp_out_event sample_account 0 Ask 0 3 7 = Inr a' \<and> perp_position a' 0 = Inr pp' \<and>
     maker_lots pp' Ask = 0 \<and> perp_order a' 0 = Inr PerpOpenOrder_default"
proof -
  obtain a' where 1: "execute_perp_out_event sample_account 0 Ask 0 3 7 = Inr a'"
    by (simp add: execute_perp_out_event_def sample_raw_index account_eval position_eval)
  from out_event_frees_only_its_order [OF 1] 1 show ?thesis
    by (auto simp: perp_position_def [of sample_account] perp_order_def [of sample_account] sample_raw_index maker_lots_def sample_account_simps
        dest: spec [of _ Ask])
qed

text \<open>
  C24. A health check that passes after an instruction bounds what the instruction may have cost. The account's initial health
  is then not negative, or it was lowered by less than one native unit; and where it is not below minus one thousand native
  units, it is not negative or was not lowered at all. A decrease of a fraction of a unit is let through below that mark.
\<close>

theorem passing_health_check_bounds_decrease:
  assumes "fixed_laws F" "check_health_post_checks F pre_init_health post_init_health = Inr ()"
  shows "(post_init_health \<ge> 0 \<or> post_init_health > pre_init_health - fx_one) \<and>
     (post_init_health \<ge> - 1000 * fx_one \<longrightarrow> post_init_health \<ge> 0 \<or> post_init_health \<ge> pre_init_health)"
proof -
  have "post > pre - fx_one" if "- (- pre div fx_one) * fx_one \<le> - (- post div fx_one) * fx_one" for pre post :: int
    using that div_bounds [of fx_one "- pre"] div_bounds [of fx_one "- post"] by (simp add: algebra_simps)
  with assms show ?thesis
    by (auto simp: check_health_post_checks_def rbind_eq_Inr require_def fixed_lawsD chk_i128_eq_Inr split: if_splits)
qed

theorem passing_health_check_bounds_decrease_witness:
  "check_health_post_checks fixed_reference (- 2000 * fx_one) (- 2000 * fx_one - 5) = Inr () \<and>
   - 2000 * fx_one - 5 > - 2000 * fx_one - (fx_one :: int)"
  using passing_health_check_bounds_decrease [of fixed_reference "- 2000 * fx_one" "- 2000 * fx_one - 5"]
  by (simp add: check_health_post_checks_def require_def fixed_reference_def chk_i128_def in_i128_def)

end
