(* ===== verification/Orders.thy ===== *)
theory Orders
  imports Mango_Account
begin

text \<open>
  The parameters of a perp order (\<^verbatim>\<open>state/orderbook/order.rs\<close>): what may be matched and posted, and
  the price at which the order is placed. The constructors of \<open>OrderParams\<close> carry the fields of
  the source's variants in their order.
\<close>

section \<open>Data\<close>

datatype OrderParams =
    MarketParams
  | ImmediateOrCancelParams i64
  | FixedParams i64 PostOrderType
  | OraclePeggedParams i64 PostOrderType i64 int

record Order =
  order_side :: Side
  max_base_lots :: i64
  max_quote_lots :: i64
  order_client_order_id :: u64
  order_reduce_only :: bool
  order_time_in_force :: u16
  self_trade_behavior :: SelfTradeBehavior
  params :: OrderParams

section \<open>Operations\<close>

definition tif_from_expiry :: "u64 \<Rightarrow> i64 \<Rightarrow> u16 option res" where
  "tif_from_expiry expiry_timestamp clock_ts =
     rbind (clock_u64 clock_ts) (\<lambda>now.
       if expiry_timestamp \<noteq> 0 then
         let tif = min (expiry_timestamp - now) u16_MAX
         in Inr (if tif = 0 then None else Some tif)
       else Inr (Some 0))"

definition needs_penalty_fee :: "Order \<Rightarrow> bool" where
  "needs_penalty_fee o' = (case params o' of ImmediateOrCancelParams _ \<Rightarrow> True | _ \<Rightarrow> False)"

definition is_post_only :: "Order \<Rightarrow> bool" where
  "is_post_only o' =
     (case params o' of
        FixedParams _ t \<Rightarrow> t = PostOnly \<or> t = PostOnlySlide
      | OraclePeggedParams _ t _ _ \<Rightarrow> t = PostOnly \<or> t = PostOnlySlide
      | _ \<Rightarrow> False)"

definition post_target :: "Order \<Rightarrow> BookSideOrderTree option" where
  "post_target o' =
     (case params o' of
        FixedParams _ _ \<Rightarrow> Some Fixed
      | OraclePeggedParams _ _ _ _ \<Rightarrow> Some OraclePegged
      | _ \<Rightarrow> None)"

definition market_order_limit_for_side :: "Side \<Rightarrow> i64" where
  "market_order_limit_for_side side = (case side of Bid \<Rightarrow> i64_MAX | Ask \<Rightarrow> 1)"

definition post_only_slide_limit :: "Side \<Rightarrow> i64 \<Rightarrow> i64 \<Rightarrow> i64 res" where
  "post_only_slide_limit side best_other_side limit =
     (case side of
        Bid \<Rightarrow> rbind (chk_i64 (best_other_side - 1)) (\<lambda>p. Inr (min limit p))
      | Ask \<Rightarrow> rbind (chk_i64 (best_other_side + 1)) (\<lambda>p. Inr (max limit p)))"

definition price_for_order_type :: "Order \<Rightarrow> u64 \<Rightarrow> i64 \<Rightarrow> i64 \<Rightarrow> PostOrderType \<Rightarrow> Orderbook \<Rightarrow> i64 res" where
  "price_for_order_type o' now oracle_px price t book =
     (if t = PostOnlySlide then
        rbind (best_price (bookside book (invert_side (order_side o'))) now oracle_px) (\<lambda>best. case best of
          Some best_other_price \<Rightarrow> post_only_slide_limit (order_side o') best_other_price price
        | None \<Rightarrow> Inr price)
      else Inr price)"

definition order_price_lots :: "Order \<Rightarrow> u64 \<Rightarrow> i64 \<Rightarrow> Orderbook \<Rightarrow> i64 res" where
  "order_price_lots o' now oracle_px book =
     (case params o' of
        MarketParams \<Rightarrow> Inr (market_order_limit_for_side (order_side o'))
      | ImmediateOrCancelParams p \<Rightarrow> Inr p
      | FixedParams p t \<Rightarrow> price_for_order_type o' now oracle_px p t book
      | OraclePeggedParams off t _ _ \<Rightarrow>
          rbind (chk_i64 (oracle_px + off)) (\<lambda>p. price_for_order_type o' now oracle_px p t book))"

definition order_price_of :: "Order \<Rightarrow> u64 \<Rightarrow> i64 \<Rightarrow> Orderbook \<Rightarrow> (i64 \<times> 64 word) res" where
  "order_price_of o' now oracle_px book =
     rbind (order_price_lots o' now oracle_px book) (\<lambda>price.
     rbind (case params o' of
              OraclePeggedParams _ _ _ _ \<Rightarrow>
                rbind (chk_i64 (price - oracle_px)) (\<lambda>off. Inr (oracle_pegged_price_data off))
            | _ \<Rightarrow> fixed_price_data price) (\<lambda>pd.
     rbind (require (price \<ge> 1) RequireViolated) (\<lambda>_. Inr (price, pd))))"

definition order_peg_limit :: "Order \<Rightarrow> i64" where
  "order_peg_limit o' = (case params o' of OraclePeggedParams _ _ peg _ \<Rightarrow> peg | _ \<Rightarrow> - 1)"

end
