(* ===== verification/Matching.thy ===== *)
theory Matching
  imports Orders
begin

text \<open>
  Matching, posting and cancelling orders (\<^verbatim>\<open>state/orderbook/book.rs\<close>). The loop of
  \<^verbatim>\<open>new_order\<close> runs over the opposing side without changing it; the changes are collected and
  applied after the loop, here as in the source.
\<close>

section \<open>Fees\<close>

definition FillEvent_new ::
  "fixed_ops \<Rightarrow> Side \<Rightarrow> bool \<Rightarrow> u8 \<Rightarrow> u64 \<Rightarrow> u64 \<Rightarrow> pubkey \<Rightarrow> u128 \<Rightarrow> u64 \<Rightarrow> i80f48 \<Rightarrow> u64 \<Rightarrow> pubkey \<Rightarrow> u64 \<Rightarrow> i80f48 \<Rightarrow>
     i64 \<Rightarrow> i64 \<Rightarrow> FillEvent" where
  "FillEvent_new F side out slot ts seq mk mid mcid mfee mts tk tcid tfee price q =
     \<lparr>taker_side = side, maker_out = out, maker_slot = slot, fill_timestamp = ts, fill_seq_num = seq,
      maker = mk, maker_timestamp = mts, taker = tk, taker_client_order_id = tcid, maker_order_id = mid,
      fill_price = price, fill_quantity = q, maker_client_order_id = mcid,
      fill_maker_fee = fx_to_f32 F mfee, fill_taker_fee = fx_to_f32 F tfee\<rparr>"

definition apply_fees ::
  "fixed_ops \<Rightarrow> PerpMarket \<Rightarrow> MangoAccount \<Rightarrow> i64 \<Rightarrow> (PerpMarket \<times> MangoAccount \<times> i80f48) res" where
  "apply_fees F market account quote_lots =
     rbind (require (quote_lots \<ge> 0) Panic) (\<lambda>_.
     rbind (chk_i64 (quote_lot_size market * quote_lots)) (\<lambda>native.
     let quote_native = fx_of_int F native in
     rbind (fx_mul F quote_native (maker_fee market)) (\<lambda>maker_fees.
     rbind (fx_mul F quote_native (taker_fee market)) (\<lambda>taker_fees.
     rbind (require (taker_fees \<ge> 0) RequireViolated) (\<lambda>_.
     rbind (fx_add F taker_fees (min maker_fees 0)) (\<lambda>d.
     rbind (fx_floor F (max d 0)) (\<lambda>fl.
     rbind (fx_to_u64 F fl) (\<lambda>amount.
     let a1 = account\<lparr>fixed_part := accrue_buyback_fees (fixed_part account) amount\<rparr> in
     rbind (perp_raw_index a1 (perp_market_index market)) (\<lambda>i.
     rbind (record_trading_fee F (perp_positions a1 ! i) taker_fees) (\<lambda>pp.
     rbind (fx_to_u64 F taker_fees) (\<lambda>tv.
     rbind (chk_u64 (taker_volume pp + tv)) (\<lambda>vol.
     rbind (fx_add F taker_fees maker_fees) (\<lambda>total.
     rbind (fx_add F (fees_accrued market) total) (\<lambda>accrued.
       Inr (market\<lparr>fees_accrued := accrued\<rparr>, set_perp_position a1 i (pp\<lparr>taker_volume := vol\<rparr>), taker_fees)))))))))))))))"

definition apply_penalty :: "fixed_ops \<Rightarrow> PerpMarket \<Rightarrow> MangoAccount \<Rightarrow> (PerpMarket \<times> MangoAccount \<times> i80f48) res" where
  "apply_penalty F market account =
     rbind (fx_of_f32 F (fee_penalty market)) (\<lambda>penalty.
     rbind (fx_floor F penalty) (\<lambda>fl.
     rbind (fx_to_u64 F fl) (\<lambda>amount.
     let a1 = account\<lparr>fixed_part := accrue_buyback_fees (fixed_part account) amount\<rparr> in
     rbind (perp_raw_index a1 (perp_market_index market)) (\<lambda>i.
     rbind (record_trading_fee F (perp_positions a1 ! i) penalty) (\<lambda>pp.
     rbind (fx_add F (fees_accrued market) penalty) (\<lambda>accrued.
       Inr (market\<lparr>fees_accrued := accrued\<rparr>, set_perp_position a1 i pp, penalty)))))))"

section \<open>The matching loop\<close>

definition DROP_EXPIRED_ORDER_LIMIT :: nat where
  "DROP_EXPIRED_ORDER_LIMIT = 5"

text \<open>The variables of the loop.\<close>

record MatchState =
  remaining_base_lots :: i64
  remaining_quote_lots :: i64
  decremented_base_lots :: i64
  decremented_quote_lots :: i64
  orders_to_change :: "(BookSideOrderHandle \<times> i64) list"
  orders_to_delete :: "(BookSideOrderTree \<times> u128) list"
  number_of_dropped_expired_orders :: nat
  match_limit :: u8
  match_post_target :: "BookSideOrderTree option"
  match_event_queue :: EventQueue

text \<open>Take an order off the book with an out event.\<close>

definition match_drop :: "Side \<Rightarrow> u64 \<Rightarrow> BookSideIterItem \<Rightarrow> MatchState \<Rightarrow> MatchState res" where
  "match_drop other_side now best st =
     (let q = match_event_queue st
      in rbind (push_back_unwrap q (OutEv (OutEvent_from_leaf_node other_side now (eq_seq_num (eq_header q)) (item_node best)))) (\<lambda>q'.
         Inr (st\<lparr>match_event_queue := q',
                 orders_to_delete := orders_to_delete st @ [(handle_order_tree (item_handle best), leaf_key (item_node best))]\<rparr>)))"

text \<open>Fill against an order.\<close>

definition match_fill ::
  "fixed_ops \<Rightarrow> Order \<Rightarrow> PerpMarket \<Rightarrow> pubkey \<Rightarrow> u64 \<Rightarrow> BookSideIterItem \<Rightarrow> bool \<Rightarrow> i64 \<Rightarrow> i64 \<Rightarrow> MatchState \<Rightarrow> MatchState res" where
  "match_fill F order market pk now best self match_base match_quote st =
     rbind (chk_i64 (remaining_base_lots st - match_base)) (\<lambda>rb.
     rbind (chk_i64 (remaining_quote_lots st - match_quote)) (\<lambda>rq.
     rbind (require (rq \<ge> 0) Panic) (\<lambda>_.
     rbind (chk_i64 (quantity (item_node best) - match_base)) (\<lambda>new_quantity.
     let nd = item_node best; q = match_event_queue st;
         out = (new_quantity = 0);
         fill = FillEvent_new F (order_side order) out (owner_slot nd) now (eq_seq_num (eq_header q)) (leaf_owner nd)
                  (leaf_key nd) (leaf_client_order_id nd) (if self then 0 else maker_fee market) (timestamp nd) pk
                  (order_client_order_id order) (if self then 0 else taker_fee market) (price_lots best) match_base
     in rbind (push_back_unwrap q (FillEv fill)) (\<lambda>q'.
        rbind (sub_unsigned (match_limit st) 1) (\<lambda>l.
          Inr (st\<lparr>remaining_base_lots := rb, remaining_quote_lots := rq,
                  orders_to_change := (if out then orders_to_change st else orders_to_change st @ [(item_handle best, new_quantity)]),
                  orders_to_delete := (if out then orders_to_delete st @ [(handle_order_tree (item_handle best), leaf_key nd)]
                                       else orders_to_delete st),
                  match_limit := l, match_event_queue := q'\<rparr>)))))))"

text \<open>One round: \<open>Inl\<close> continues the loop and \<open>Inr\<close> breaks out of it.\<close>

definition match_step ::
  "fixed_ops \<Rightarrow> Order \<Rightarrow> PerpMarket \<Rightarrow> pubkey \<Rightarrow> u64 \<Rightarrow> i64 \<Rightarrow> BookSideIterItem \<Rightarrow> MatchState \<Rightarrow> (MatchState + MatchState) res" where
  "match_step F order market pk now price best st =
     (let side = order_side order; other_side = invert_side side in
      if remaining_base_lots st = 0 \<or> remaining_quote_lots st = 0 then Inr (Inr st)
      else if \<not> is_valid best then
        if number_of_dropped_expired_orders st < DROP_EXPIRED_ORDER_LIMIT then
          rbind (match_drop other_side now best
                   (st\<lparr>number_of_dropped_expired_orders := number_of_dropped_expired_orders st + 1\<rparr>)) (\<lambda>st'. Inr (Inl st'))
        else Inr (Inl st)
      else if \<not> is_price_within_limit side (price_lots best) price then Inr (Inr st)
      else if is_post_only order then Inr (Inr (st\<lparr>match_post_target := None\<rparr>))
      else if match_limit st = 0 then Inr (Inr (st\<lparr>match_post_target := None\<rparr>))
      else
        rbind (div_i64 (remaining_quote_lots st) (price_lots best)) (\<lambda>max_match_by_quote.
        if max_match_by_quote = 0 then Inr (Inr st)
        else
          let match_base = min (min (remaining_base_lots st) (quantity (item_node best))) max_match_by_quote
          in rbind (chk_i64 (match_base * price_lots best)) (\<lambda>match_quote.
             if pk = leaf_owner (item_node best) then
               (case self_trade_behavior order of
                  DecrementTake \<Rightarrow>
                    rbind (chk_i64 (decremented_quote_lots st + match_quote)) (\<lambda>dq.
                    rbind (chk_i64 (decremented_base_lots st + match_base)) (\<lambda>db.
                    rbind (match_fill F order market pk now best True match_base match_quote
                             (st\<lparr>decremented_quote_lots := dq, decremented_base_lots := db\<rparr>)) (\<lambda>st'. Inr (Inl st'))))
                | CancelProvide \<Rightarrow> rbind (match_drop other_side now best st) (\<lambda>st'. Inr (Inl st'))
                | AbortTransaction \<Rightarrow> Inl (MangoErr WouldSelfTrade))
             else rbind (match_fill F order market pk now best False match_base match_quote st) (\<lambda>st'. Inr (Inl st')))))"

definition match_order ::
  "fixed_ops \<Rightarrow> BookSide \<Rightarrow> Order \<Rightarrow> PerpMarket \<Rightarrow> pubkey \<Rightarrow> u64 \<Rightarrow> i64 \<Rightarrow> i64 \<Rightarrow> MatchState \<Rightarrow> MatchState res" where
  "match_order F opposing order market pk now oracle_px price st =
     rbind (BookSideIter_new opposing now oracle_px) (\<lambda>it.
     rbind (for_loop (iter_fuel it) book_iter_next (match_step F order market pk now price) it st)
       (\<lambda>r. Inr (case r of Inl s \<Rightarrow> s | Inr s \<Rightarrow> s)))"

section \<open>Applying the changes\<close>

definition apply_change :: "BookSide \<Rightarrow> BookSideOrderHandle \<times> i64 \<Rightarrow> BookSide res" where
  "apply_change bs ch =
     (case ch of (h, new_quantity) \<Rightarrow>
        rbind (node (book_nodes bs) (handle_node h)) (\<lambda>n.
        rbind (unwrap n) (\<lambda>nd.
        rbind (unwrap (as_leaf nd)) (\<lambda>l.
          Inr (bs\<lparr>book_nodes := set_node (book_nodes bs) (handle_node h) (Leaf (l\<lparr>quantity := new_quantity\<rparr>))\<rparr>)))))"

definition apply_delete :: "BookSide \<Rightarrow> BookSideOrderTree \<times> u128 \<Rightarrow> BookSide res" where
  "apply_delete bs d =
     (case d of (c, k) \<Rightarrow>
        rbind (book_remove_by_key bs c k) (\<lambda>(bs', r). rbind (unwrap r) (\<lambda>_. Inr bs')))"

fun for_each :: "('s \<Rightarrow> 'x \<Rightarrow> 's res) \<Rightarrow> 's \<Rightarrow> 'x list \<Rightarrow> 's res" where
  "for_each f s [] = Inr s"
| "for_each f s (x # xs) = rbind (f s x) (\<lambda>s'. for_each f s' xs)"

section \<open>Posting\<close>

text \<open>Make room on the side the order is posted to: drop an expired order, and the worst one
  when the side is still full.\<close>

definition push_out :: "EventQueue \<Rightarrow> Side \<Rightarrow> u64 \<Rightarrow> LeafNode \<Rightarrow> EventQueue res" where
  "push_out q side now l = push_back_unwrap q (OutEv (OutEvent_from_leaf_node side now (eq_seq_num (eq_header q)) l))"

definition make_room ::
  "BookSide \<Rightarrow> EventQueue \<Rightarrow> Side \<Rightarrow> BookSideOrderTree \<Rightarrow> u64 \<Rightarrow> i64 \<Rightarrow> i64 \<Rightarrow> (BookSide \<times> EventQueue) res" where
  "make_room bs q side c now oracle_px price =
     rbind (book_remove_one_expired bs c now) (\<lambda>(bs1, expired).
     rbind (case expired of Some l \<Rightarrow> push_out q side now l | None \<Rightarrow> Inr q) (\<lambda>q1.
     if book_is_full bs1 then
       rbind (book_remove_worst bs1 now oracle_px) (\<lambda>(bs2, w).
       rbind (unwrap w) (\<lambda>(worst_order, worst_price).
       rbind (require (is_price_better side price worst_price) (MangoErr SomeError)) (\<lambda>_.
       rbind (push_out q1 side now worst_order) (\<lambda>q2. Inr (bs2, q2)))))
     else Inr (bs1, q1)))"

definition post_order ::
  "Order \<Rightarrow> BookSide \<Rightarrow> EventQueue \<Rightarrow> MangoAccount \<Rightarrow> u16 \<Rightarrow> pubkey \<Rightarrow> BookSideOrderTree \<Rightarrow> u128 \<Rightarrow> i64 \<Rightarrow> u64 \<Rightarrow> i64 \<Rightarrow> i64 \<Rightarrow>
     (BookSide \<times> EventQueue \<times> MangoAccount) res" where
  "post_order order bs q account mi pk c order_id book_base_quantity now oracle_px price =
     rbind (make_room bs q (order_side order) c now oracle_px price) (\<lambda>(bs1, q1).
     rbind (perp_next_order_slot account) (\<lambda>slot.
     let new_leaf = LeafNode_new (slot mod 256) order_id pk book_base_quantity now Limit
                      (order_time_in_force order) (order_peg_limit order) (order_client_order_id order)
     in rbind (book_insert_leaf bs1 c new_leaf) (\<lambda>(bs2, _, _).
        rbind (add_perp_order account mi (order_side order) c new_leaf) (\<lambda>account'.
          Inr (bs2, q1, account')))))"

section \<open>A new order\<close>

text \<open>Record what was taken: the lots in the position and the fees.\<close>

definition record_taken ::
  "fixed_ops \<Rightarrow> PerpMarket \<Rightarrow> MangoAccount \<Rightarrow> Side \<Rightarrow> i64 \<Rightarrow> i64 \<Rightarrow> i64 \<Rightarrow> (PerpMarket \<times> MangoAccount) res" where
  "record_taken F market account side base_taken quote_taken decremented_quote =
     (if quote_taken > 0 \<or> base_taken > 0 then
        rbind (perp_raw_index account (perp_market_index market)) (\<lambda>i.
        rbind (add_taker_trade (perp_positions account ! i) side base_taken quote_taken) (\<lambda>pp.
        rbind (chk_i64 (quote_taken - decremented_quote)) (\<lambda>fee_lots.
        rbind (apply_fees F market (set_perp_position account i pp) fee_lots) (\<lambda>(market', account', _).
          Inr (market', account')))))
      else Inr (market, account))"

definition posting_allowed :: "fixed_ops \<Rightarrow> PerpMarket \<Rightarrow> Side \<Rightarrow> i64 \<Rightarrow> i80f48 \<Rightarrow> i64 \<Rightarrow> BookSideOrderTree option \<Rightarrow> BookSideOrderTree option res" where
  "posting_allowed F market side price oracle_price book_base_quantity target =
     (case (if book_base_quantity \<le> 0 then None else target) of
        None \<Rightarrow> Inr None
      | Some c \<Rightarrow>
          rbind (lot_to_native_price F market price) (\<lambda>native_price.
          rbind (inside_price_limit F market side native_price oracle_price) (\<lambda>inside.
            Inr (if inside then Some c else None))))"

definition new_order ::
  "fixed_ops \<Rightarrow> Orderbook \<Rightarrow> Order \<Rightarrow> PerpMarket \<Rightarrow> EventQueue \<Rightarrow> i80f48 \<Rightarrow> MangoAccount \<Rightarrow> pubkey \<Rightarrow> u64 \<Rightarrow> u8 \<Rightarrow>
     (Orderbook \<times> PerpMarket \<times> EventQueue \<times> MangoAccount \<times> u128 option) res" where
  "new_order F book order market q oracle_price account pk now limit =
     (let side = order_side order; other_side = invert_side side in
      rbind (native_price_to_lot F market oracle_price) (\<lambda>oracle_px.
      rbind (order_price_of order now oracle_px book) (\<lambda>(price, pd).
      rbind (gen_order_id market side pd) (\<lambda>(m1, order_id).
      rbind (if needs_penalty_fee order then rbind (apply_penalty F m1 account) (\<lambda>(m, a, _). Inr (m, a))
             else Inr (m1, account)) (\<lambda>(m2, a2).
      rbind (perp_raw_index a2 (perp_market_index m2)) (\<lambda>_.
      rbind (match_order F (bookside book other_side) order m2 pk now oracle_px price
               \<lparr>remaining_base_lots = max_base_lots order, remaining_quote_lots = max_quote_lots order,
                decremented_base_lots = 0, decremented_quote_lots = 0, orders_to_change = [], orders_to_delete = [],
                number_of_dropped_expired_orders = 0, match_limit = limit, match_post_target = post_target order,
                match_event_queue = q\<rparr>) (\<lambda>st.
      rbind (chk_i64 (max_quote_lots order - remaining_quote_lots st)) (\<lambda>quote_taken.
      rbind (chk_i64 (max_base_lots order - remaining_base_lots st)) (\<lambda>base_taken.
      rbind (require (quote_taken \<ge> 0 \<and> base_taken \<ge> 0) Panic) (\<lambda>_.
      rbind (record_taken F m2 a2 side base_taken quote_taken (decremented_quote_lots st)) (\<lambda>(m3, a3).
      rbind (for_each apply_change (bookside book other_side) (orders_to_change st)) (\<lambda>bs1.
      rbind (for_each apply_delete bs1 (orders_to_delete st)) (\<lambda>bs2.
      let book1 = set_bookside book other_side bs2 in
      rbind (div_i64 (remaining_quote_lots st) price) (\<lambda>by_quote.
      let book_base_quantity = min (remaining_base_lots st) by_quote in
      rbind (posting_allowed F m3 side price oracle_price book_base_quantity (match_post_target st)) (\<lambda>target.
      case target of
        None \<Rightarrow> Inr (book1, m3, match_event_queue st, a3, None)
      | Some c \<Rightarrow>
          rbind (post_order order (bookside book1 side) (match_event_queue st) a3 (perp_market_index m3) pk c order_id
                   book_base_quantity now oracle_px price) (\<lambda>(bs3, q3, a4).
            Inr (set_bookside book1 side bs3, m3, q3, a4, Some order_id)))))))))))))))))"

section \<open>Cancelling\<close>

definition cancel_order_by_slot ::
  "Orderbook \<Rightarrow> MangoAccount \<Rightarrow> pubkey \<Rightarrow> nat \<Rightarrow> u16 \<Rightarrow> (Orderbook \<times> MangoAccount) res" where
  "cancel_order_by_slot book account pk slot mi =
     rbind (require (length (perp_open_orders account) > slot) RequireViolated) (\<lambda>_.
     let oo = perp_open_orders account ! slot in
     rbind (require (oo_is_active_for_market oo mi) (MangoErr SomeError)) (\<lambda>_.
     let side = sat_side (oo_side_and_tree oo); c = sat_order_tree (oo_side_and_tree oo) in
     rbind (book_remove_by_key (bookside book side) c (oo_id oo)) (\<lambda>(bs', leaf_node_opt).
     rbind (case leaf_node_opt of
              Some l \<Rightarrow>
                rbind (require (owner_slot l = slot) RequireViolated) (\<lambda>_.
                rbind (require (leaf_owner l = pk) RequireViolated) (\<lambda>_. Inr (quantity l)))
            | None \<Rightarrow> if oo_quantity oo = 0 then Inl (MangoErr PerpOrderIdNotFound) else Inr 0) (\<lambda>on_book_quantity.
     rbind (remove_perp_order account slot on_book_quantity) (\<lambda>account'.
       Inr (set_bookside book side bs', account'))))))"

text \<open>The loop of \<^verbatim>\<open>cancel_all_orders\<close>, from slot \<open>i\<close> with \<open>n\<close> slots to go. The error that the loop
  goes on after is raised before anything has changed.\<close>

fun cancel_all_loop ::
  "nat \<Rightarrow> nat \<Rightarrow> Orderbook \<Rightarrow> MangoAccount \<Rightarrow> pubkey \<Rightarrow> u16 \<Rightarrow> u8 \<Rightarrow> Side option \<Rightarrow> (Orderbook \<times> MangoAccount) res" where
  "cancel_all_loop 0 i book account pk mi limit side_opt = Inr (book, account)"
| "cancel_all_loop (Suc n) i book account pk mi limit side_opt =
     rbind (require (length (perp_open_orders account) > i) RequireViolated) (\<lambda>_.
     let oo = perp_open_orders account ! i in
     if \<not> oo_is_active_for_market oo mi then cancel_all_loop n (i + 1) book account pk mi limit side_opt
     else if side_opt \<noteq> None \<and> side_opt \<noteq> Some (sat_side (oo_side_and_tree oo))
     then cancel_all_loop n (i + 1) book account pk mi limit side_opt
     else
       rbind (case cancel_order_by_slot book account pk i mi of
                Inl e \<Rightarrow> if e = MangoErr PerpOrderIdNotFound then Inr (book, account) else Inl e
              | Inr r \<Rightarrow> Inr r) (\<lambda>(book', account').
       rbind (sub_unsigned limit 1) (\<lambda>l.
         if l = 0 then Inr (book', account')
         else cancel_all_loop n (i + 1) book' account' pk mi l side_opt)))"

definition cancel_all_orders ::
  "Orderbook \<Rightarrow> MangoAccount \<Rightarrow> pubkey \<Rightarrow> u16 \<Rightarrow> u8 \<Rightarrow> Side option \<Rightarrow> (Orderbook \<times> MangoAccount) res" where
  "cancel_all_orders book account pk mi limit side_opt =
     cancel_all_loop (length (perp_open_orders account)) 0 book account pk mi limit side_opt"

definition cancel_order_by_id ::
  "Orderbook \<Rightarrow> MangoAccount \<Rightarrow> u128 \<Rightarrow> SideAndOrderTree \<Rightarrow> pubkey option \<Rightarrow> (Orderbook \<times> MangoAccount \<times> LeafNode) res" where
  "cancel_order_by_id book account order_id side_and_tree expected_owner =
     (let side = sat_side side_and_tree in
      rbind (book_remove_by_key (bookside book side) (sat_order_tree side_and_tree) order_id) (\<lambda>(bs', leaf_node_opt).
      rbind (ok_or leaf_node_opt (MangoErr PerpOrderIdNotFound)) (\<lambda>l.
      rbind (require (case expected_owner of Some own \<Rightarrow> leaf_owner l = own | None \<Rightarrow> True) RequireViolated) (\<lambda>_.
      rbind (remove_perp_order account (owner_slot l) (quantity l)) (\<lambda>account'.
        Inr (set_bookside book side bs', account', l))))))"

end
