(* ===== verification/Perp_Instructions.thy ===== *)
theory Perp_Instructions
  imports Matching
begin

text \<open>
  The instructions of a perp market that work on its book, its event queue and the accounts that
  trade on it: placing orders (\<^verbatim>\<open>instructions/perp_place_order.rs\<close>), cancelling them
  (\<^verbatim>\<open>instructions/perp_cancel_*.rs\<close>) and consuming events (\<^verbatim>\<open>instructions/perp_consume_events.rs\<close>),
  with the account constraints of \<^verbatim>\<open>accounts_ix/\<close>. The accounts an instruction is given are named by
  their keys; what is stored under them is the state of the market. An instruction that fails
  leaves the state as it was, since the runtime drops its changes.
\<close>

section \<open>State and accounts\<close>

record PerpState =
  ps_group :: Group
  ps_market :: PerpMarket
  ps_book :: Orderbook
  ps_events :: EventQueue
  ps_accounts :: "pubkey \<Rightarrow> MangoAccount option"

text \<open>The keys of the accounts of an instruction, and the signer.\<close>

record PerpKeys =
  key_group :: pubkey
  key_account :: pubkey
  key_owner :: pubkey
  key_bids :: pubkey
  key_asks :: pubkey
  key_event_queue :: pubkey
  key_oracle :: pubkey

definition load_account :: "PerpState \<Rightarrow> pubkey \<Rightarrow> MangoAccount res" where
  "load_account S k = ok_or (ps_accounts S k) RuntimeError"

definition store_account :: "PerpState \<Rightarrow> pubkey \<Rightarrow> MangoAccount \<Rightarrow> PerpState" where
  "store_account S k a = S\<lparr>ps_accounts := (ps_accounts S)(k := Some a)\<rparr>"

text \<open>The constraint on the group, and the ones on a mango account: that it belongs to the group
  and, where the instruction asks for it, is not frozen. Cancelling by client order id and
  cancelling all orders do not ask for it.\<close>

definition group_constraint :: "Group \<Rightarrow> IxGate \<Rightarrow> unit res" where
  "group_constraint g ix = require (is_ix_enabled g ix) (MangoErr IxIsDisabled)"

definition account_constraint :: "bool \<Rightarrow> PerpState \<Rightarrow> PerpKeys \<Rightarrow> i64 \<Rightarrow> unit res" where
  "account_constraint operational S K ts =
     rbind (load_account S (key_account K)) (\<lambda>a.
     rbind (require (ma_group (fixed_part a) = key_group K) RequireViolated) (\<lambda>_.
     if operational then rbind (is_operational (fixed_part a) ts) (\<lambda>op. require op (MangoErr AccountIsFrozen))
     else Inr ()))"

definition market_has_book :: "PerpMarket \<Rightarrow> PerpKeys \<Rightarrow> unit res" where
  "market_has_book m K =
     rbind (require (pm_group m = key_group K) RequireViolated) (\<lambda>_.
     rbind (require (pm_bids m = key_bids K) RequireViolated) (\<lambda>_.
       require (pm_asks m = key_asks K) RequireViolated))"

definition PerpPlaceOrder_accounts :: "PerpState \<Rightarrow> PerpKeys \<Rightarrow> i64 \<Rightarrow> unit res" where
  "PerpPlaceOrder_accounts S K ts =
     rbind (group_constraint (ps_group S) GatePerpPlaceOrder) (\<lambda>_.
     rbind (account_constraint True S K ts) (\<lambda>_.
     rbind (market_has_book (ps_market S) K) (\<lambda>_.
     rbind (require (pm_event_queue (ps_market S) = key_event_queue K) RequireViolated) (\<lambda>_.
       require (pm_oracle (ps_market S) = key_oracle K) RequireViolated))))"

definition PerpCancel_accounts :: "IxGate \<Rightarrow> bool \<Rightarrow> PerpState \<Rightarrow> PerpKeys \<Rightarrow> i64 \<Rightarrow> unit res" where
  "PerpCancel_accounts ix operational S K ts =
     rbind (group_constraint (ps_group S) ix) (\<lambda>_.
     rbind (account_constraint operational S K ts) (\<lambda>_. market_has_book (ps_market S) K))"

definition PerpCancelOrder_accounts :: "PerpState \<Rightarrow> PerpKeys \<Rightarrow> i64 \<Rightarrow> unit res" where
  "PerpCancelOrder_accounts S K ts = PerpCancel_accounts GatePerpCancelOrder True S K ts"

definition PerpCancelOrderByClientOrderId_accounts :: "PerpState \<Rightarrow> PerpKeys \<Rightarrow> i64 \<Rightarrow> unit res" where
  "PerpCancelOrderByClientOrderId_accounts S K ts = PerpCancel_accounts GatePerpCancelOrderByClientOrderId False S K ts"

definition PerpCancelAllOrders_accounts :: "PerpState \<Rightarrow> PerpKeys \<Rightarrow> i64 \<Rightarrow> unit res" where
  "PerpCancelAllOrders_accounts S K ts = PerpCancel_accounts GatePerpCancelAllOrders False S K ts"

definition PerpCancelAllOrdersBySide_accounts :: "PerpState \<Rightarrow> PerpKeys \<Rightarrow> i64 \<Rightarrow> unit res" where
  "PerpCancelAllOrdersBySide_accounts S K ts = PerpCancel_accounts GatePerpCancelAllOrdersBySide True S K ts"

lemmas PerpCancel_defs = PerpCancel_accounts_def PerpCancelOrder_accounts_def PerpCancelOrderByClientOrderId_accounts_def
  PerpCancelAllOrders_accounts_def PerpCancelAllOrdersBySide_accounts_def

definition PerpConsumeEvents_accounts :: "PerpState \<Rightarrow> PerpKeys \<Rightarrow> unit res" where
  "PerpConsumeEvents_accounts S K =
     rbind (group_constraint (ps_group S) GatePerpConsumeEvents) (\<lambda>_.
     rbind (require (pm_group (ps_market S) = key_group K) RequireViolated) (\<lambda>_.
       require (pm_event_queue (ps_market S) = key_event_queue K) RequireViolated))"

section \<open>Placing an order\<close>

text \<open>What placing an order asks of the health computation (\<^verbatim>\<open>health/\<close>), which is not part of this
  theory: to build the cache for an account, to look up a token, the health of a kind, and to
  take a changed perp position into account.\<close>

datatype HealthType = HealthInit | HealthMaint | HealthLiquidationEnd

record 'c health_ops =
  hc_new :: "MangoAccount \<Rightarrow> u64 \<Rightarrow> u64 \<Rightarrow> 'c res"
  hc_token_info_index :: "'c \<Rightarrow> u16 \<Rightarrow> nat res"
  hc_health :: "'c \<Rightarrow> HealthType \<Rightarrow> i80f48 res"
  hc_recompute_perp_info :: "'c \<Rightarrow> PerpPosition \<Rightarrow> PerpMarket \<Rightarrow> 'c res"

definition check_health_pre :: "'c health_ops \<Rightarrow> MangoAccount \<Rightarrow> 'c \<Rightarrow> (MangoAccount \<times> i80f48) res" where
  "check_health_pre H a c =
     rbind (hc_health H c HealthInit) (\<lambda>pre_init_health.
     rbind (check_health_pre_checks a (hc_health H c HealthLiquidationEnd) pre_init_health) (\<lambda>a'.
       Inr (a', pre_init_health)))"

definition check_health_post :: "fixed_ops \<Rightarrow> 'c health_ops \<Rightarrow> 'c \<Rightarrow> i80f48 \<Rightarrow> i80f48 res" where
  "check_health_post F H c pre_init_health =
     rbind (hc_health H c HealthInit) (\<lambda>post_init_health.
     rbind (check_health_post_checks F pre_init_health post_init_health) (\<lambda>_. Inr post_init_health))"

definition reduce_only_max_base_lots :: "PerpPosition \<Rightarrow> Order \<Rightarrow> bool \<Rightarrow> i64 res" where
  "reduce_only_max_base_lots pp order market_reduce_only =
     rbind (effective_base_position_lots pp) (\<lambda>effective_pos.
     rbind (if (order_side order = Bid \<and> effective_pos \<ge> 0) \<or> (order_side order = Ask \<and> effective_pos \<le> 0) then Inr 0
            else if market_reduce_only then
              if order_side order = Bid
              then rbind (chk_i64 (effective_pos + bids_base_lots pp)) (\<lambda>x. chk_i64 \<bar>min x 0\<bar>)
              else rbind (chk_i64 (effective_pos - asks_base_lots pp)) (\<lambda>x. Inr (max x 0))
            else chk_i64 \<bar>effective_pos\<bar>) (\<lambda>allowed_base_lots.
       Inr (min allowed_base_lots (max_base_lots order))))"

text \<open>The health check before the order, when the account is not in a health region.\<close>

definition place_order_pre_health ::
  "'c health_ops \<Rightarrow> MangoAccount \<Rightarrow> u16 \<Rightarrow> u64 \<Rightarrow> u64 \<Rightarrow> (MangoAccount \<times> ('c \<times> i80f48) option) res" where
  "place_order_pre_health H a settle_ti now slot =
     (if \<not> is_in_health_region (fixed_part a) then
        rbind (hc_new H a now slot) (\<lambda>health_cache.
        rbind (hc_token_info_index H health_cache settle_ti) (\<lambda>_.
        rbind (check_health_pre H a health_cache) (\<lambda>(a', pre_init_health).
          Inr (a', Some (health_cache, pre_init_health)))))
      else Inr (a, None))"

definition place_order_post_health ::
  "fixed_ops \<Rightarrow> 'c health_ops \<Rightarrow> MangoAccount \<Rightarrow> PerpMarket \<Rightarrow> ('c \<times> i80f48) option \<Rightarrow> unit res" where
  "place_order_post_health F H a m pre =
     (case pre of
        Some (health_cache, pre_init_health) \<Rightarrow>
          rbind (perp_position a (perp_market_index m)) (\<lambda>pp.
          rbind (hc_recompute_perp_info H health_cache pp m) (\<lambda>c.
          rbind (check_health_post F H c pre_init_health) (\<lambda>_. Inr ())))
      | None \<Rightarrow> Inr ())"

text \<open>The base lots that may be traded, when the order or the market only reduces.\<close>

definition place_order_max_base :: "PerpMarket \<Rightarrow> PerpPosition \<Rightarrow> Order \<Rightarrow> i64 res" where
  "place_order_max_base m pp order =
     rbind (effective_base_position_lots pp) (\<lambda>_.
     rbind (if order_reduce_only order \<or> is_reduce_only m then reduce_only_max_base_lots pp order (is_reduce_only m)
            else Inr (max_base_lots order)) (\<lambda>mb.
     rbind (if is_reduce_only m
            then require (order_reduce_only order \<or> mb = max_base_lots order) (MangoErr MarketInReduceOnlyMode)
            else Inr ()) (\<lambda>_. Inr mb)))"

definition perp_place_order_logic ::
  "fixed_ops \<Rightarrow> 'c health_ops \<Rightarrow> PerpState \<Rightarrow> PerpKeys \<Rightarrow> OracleState res \<Rightarrow> i64 \<Rightarrow> u64 \<Rightarrow> Order \<Rightarrow> u8 \<Rightarrow>
     (PerpState \<times> u128 option) res" where
  "perp_place_order_logic F H S K oracle ts slot order limit =
     rbind (require (max_base_lots order \<ge> 0) RequireViolated) (\<lambda>_.
     rbind (require (max_quote_lots order \<ge> 0) RequireViolated) (\<lambda>_.
     rbind (clock_u64 ts) (\<lambda>now.
     rbind (pm_oracle_state F (ps_market S) (key_oracle K) oracle None) (\<lambda>oracle_state.
     rbind (update_funding_and_stable_price F (ps_market S) (ps_book S) oracle_state now) (\<lambda>m.
     rbind (load_account S (key_account K)) (\<lambda>a0.
     rbind (is_owner_or_delegate (fixed_part a0) (key_owner K) ts) (\<lambda>allowed.
     rbind (require allowed (MangoErr SomeError)) (\<lambda>_.
     rbind (ensure_perp_position a0 (perp_market_index m) (settle_token_index m)) (\<lambda>(a1, _).
     rbind (place_order_pre_health H a1 (settle_token_index m) now slot) (\<lambda>(a2, pre_health).
     rbind (expire_buyback_fees (fixed_part a2) now (buyback_fees_expiry_interval (ps_group S))) (\<lambda>f.
     let a3 = a2\<lparr>fixed_part := f\<rparr> in
     rbind (perp_position a3 (perp_market_index m)) (\<lambda>pp.
     rbind (place_order_max_base m pp order) (\<lambda>mb.
     rbind (new_order F (ps_book S) (order\<lparr>max_base_lots := mb\<rparr>) m (ps_events S) (os_price oracle_state) a3
              (key_account K) now limit) (\<lambda>(book, m', events, a4, order_id_opt).
     rbind (place_order_post_health F H a4 m' pre_health) (\<lambda>_.
       Inr ((store_account S (key_account K) a4)\<lparr>ps_market := m', ps_book := book, ps_events := events\<rparr>, order_id_opt))))))))))))))))"

definition perp_place_order ::
  "fixed_ops \<Rightarrow> 'c health_ops \<Rightarrow> PerpState \<Rightarrow> PerpKeys \<Rightarrow> OracleState res \<Rightarrow> i64 \<Rightarrow> u64 \<Rightarrow> Order \<Rightarrow> u8 \<Rightarrow>
     (PerpState \<times> u128 option) res" where
  "perp_place_order F H S K oracle ts slot order limit =
     rbind (PerpPlaceOrder_accounts S K ts) (\<lambda>_. perp_place_order_logic F H S K oracle ts slot order limit)"

section \<open>Cancelling\<close>

definition load_owned :: "PerpState \<Rightarrow> PerpKeys \<Rightarrow> i64 \<Rightarrow> MangoAccount res" where
  "load_owned S K ts =
     rbind (load_account S (key_account K)) (\<lambda>a.
     rbind (is_owner_or_delegate (fixed_part a) (key_owner K) ts) (\<lambda>allowed.
     rbind (require allowed (MangoErr SomeError)) (\<lambda>_. Inr a)))"

definition cancelled :: "PerpState \<Rightarrow> PerpKeys \<Rightarrow> Orderbook \<times> MangoAccount \<Rightarrow> PerpState" where
  "cancelled S K r = (store_account S (key_account K) (snd r))\<lparr>ps_book := fst r\<rparr>"

definition perp_cancel_order_logic :: "PerpState \<Rightarrow> PerpKeys \<Rightarrow> i64 \<Rightarrow> u128 \<Rightarrow> PerpState res" where
  "perp_cancel_order_logic S K ts order_id =
     rbind (load_owned S K ts) (\<lambda>a.
     rbind (ok_or (perp_find_order_with_order_id a (perp_market_index (ps_market S)) order_id) (MangoErr PerpOrderIdNotFound)) (\<lambda>(slot, _).
     rbind (cancel_order_by_slot (ps_book S) a (key_account K) slot (perp_market_index (ps_market S))) (\<lambda>r.
       Inr (cancelled S K r))))"

definition perp_cancel_order :: "PerpState \<Rightarrow> PerpKeys \<Rightarrow> i64 \<Rightarrow> u128 \<Rightarrow> PerpState res" where
  "perp_cancel_order S K ts order_id =
     rbind (PerpCancelOrder_accounts S K ts) (\<lambda>_. perp_cancel_order_logic S K ts order_id)"

definition perp_cancel_order_by_client_order_id_logic :: "PerpState \<Rightarrow> PerpKeys \<Rightarrow> i64 \<Rightarrow> u64 \<Rightarrow> PerpState res" where
  "perp_cancel_order_by_client_order_id_logic S K ts client_order_id =
     rbind (load_owned S K ts) (\<lambda>a.
     rbind (ok_or (perp_find_order_with_client_order_id a (perp_market_index (ps_market S)) client_order_id)
              (MangoErr PerpOrderIdNotFound)) (\<lambda>(slot, _).
     rbind (cancel_order_by_slot (ps_book S) a (key_account K) slot (perp_market_index (ps_market S))) (\<lambda>r.
       Inr (cancelled S K r))))"

definition perp_cancel_order_by_client_order_id :: "PerpState \<Rightarrow> PerpKeys \<Rightarrow> i64 \<Rightarrow> u64 \<Rightarrow> PerpState res" where
  "perp_cancel_order_by_client_order_id S K ts client_order_id =
     rbind (PerpCancelOrderByClientOrderId_accounts S K ts) (\<lambda>_.
       perp_cancel_order_by_client_order_id_logic S K ts client_order_id)"

definition perp_cancel_all_orders :: "PerpState \<Rightarrow> PerpKeys \<Rightarrow> i64 \<Rightarrow> u8 \<Rightarrow> PerpState res" where
  "perp_cancel_all_orders S K ts limit =
     rbind (PerpCancelAllOrders_accounts S K ts) (\<lambda>_.
     rbind (load_owned S K ts) (\<lambda>a.
     rbind (cancel_all_orders (ps_book S) a (key_account K) (perp_market_index (ps_market S)) limit None) (\<lambda>r.
       Inr (cancelled S K r))))"

definition perp_cancel_all_orders_by_side :: "PerpState \<Rightarrow> PerpKeys \<Rightarrow> i64 \<Rightarrow> Side option \<Rightarrow> u8 \<Rightarrow> PerpState res" where
  "perp_cancel_all_orders_by_side S K ts side_option limit =
     rbind (PerpCancelAllOrdersBySide_accounts S K ts) (\<lambda>_.
     rbind (load_owned S K ts) (\<lambda>a.
     rbind (cancel_all_orders (ps_book S) a (key_account K) (perp_market_index (ps_market S)) limit side_option) (\<lambda>r.
       Inr (cancelled S K r))))"

section \<open>Consuming events\<close>

text \<open>The accounts an instruction is given besides the named ones: their key, and whether the
  program owns them.\<close>

record AccountInfo =
  ai_key :: pubkey
  ai_program_owned :: bool

text \<open>The three outcomes of \<^verbatim>\<open>load_mango_account!\<close>: the instruction returns, the event is skipped, or
  the account is there.\<close>

datatype LoadedAccount = ReturnOk | SkipEvent | Loaded MangoAccount

definition load_mango_account :: "PerpState \<Rightarrow> AccountInfo list \<Rightarrow> pubkey \<Rightarrow> LoadedAccount res" where
  "load_mango_account S ais k =
     (case find (\<lambda>ai. ai_key ai = k) ais of
        None \<Rightarrow> Inr ReturnOk
      | Some ai \<Rightarrow>
          if is_testing (ps_group S) \<and> \<not> ai_program_owned ai then Inr SkipEvent
          else rbind (require (ai_program_owned ai) RuntimeError) (\<lambda>_.
               rbind (load_account S k) (\<lambda>a. Inr (Loaded a))))"

text \<open>What handling an event leaves to do: stop, or take the event off the queue and go on.\<close>

datatype EventOutcome = StopConsuming PerpState | Consume PerpState

text \<open>Run on a loaded account, with the other two outcomes as the macro has them.\<close>

definition with_account :: "PerpState \<Rightarrow> AccountInfo list \<Rightarrow> pubkey \<Rightarrow> (MangoAccount \<Rightarrow> EventOutcome res) \<Rightarrow> EventOutcome res" where
  "with_account S ais k f =
     rbind (load_mango_account S ais k) (\<lambda>l. case l of
       ReturnOk \<Rightarrow> Inr (StopConsuming S)
     | SkipEvent \<Rightarrow> Inr (Consume S)
     | Loaded a \<Rightarrow> f a)"

definition consume_fill :: "fixed_ops \<Rightarrow> PerpState \<Rightarrow> AccountInfo list \<Rightarrow> i64 \<Rightarrow> FillEvent \<Rightarrow> EventOutcome res" where
  "consume_fill F S ais ts fill =
     (let mi = perp_market_index (ps_market S) in
      if maker fill = taker fill then
        with_account S ais (maker fill) (\<lambda>maker_taker.
        rbind (execute_perp_maker F maker_taker mi (ps_market S) fill (ps_group S) ts) (\<lambda>(a1, m1, maker_realized_pnl).
        rbind (execute_perp_taker F a1 mi m1 fill) (\<lambda>(a2, m2, taker_realized_pnl).
        rbind (fx_add F maker_realized_pnl taker_realized_pnl) (\<lambda>_.
          Inr (Consume ((store_account S (maker fill) a2)\<lparr>ps_market := m2\<rparr>))))))
      else
        with_account S ais (maker fill) (\<lambda>maker_acc.
        with_account S ais (taker fill) (\<lambda>taker_acc.
        rbind (execute_perp_maker F maker_acc mi (ps_market S) fill (ps_group S) ts) (\<lambda>(a1, m1, _).
        rbind (execute_perp_taker F taker_acc mi m1 fill) (\<lambda>(a2, m2, _).
          Inr (Consume ((store_account (store_account S (maker fill) a1) (taker fill) a2)\<lparr>ps_market := m2\<rparr>)))))))"

definition consume_out :: "PerpState \<Rightarrow> AccountInfo list \<Rightarrow> OutEvent \<Rightarrow> EventOutcome res" where
  "consume_out S ais e =
     with_account S ais (out_owner e) (\<lambda>owner.
     rbind (execute_perp_out_event owner (perp_market_index (ps_market S)) (out_side e) (out_owner_slot e) (out_quantity e) (out_order_id e)) (\<lambda>a.
       Inr (Consume (store_account S (out_owner e) a))))"

definition consume_event :: "fixed_ops \<Rightarrow> PerpState \<Rightarrow> AccountInfo list \<Rightarrow> i64 \<Rightarrow> AnyEvent \<Rightarrow> EventOutcome res" where
  "consume_event F S ais ts event =
     (case event of
        FillEv fill \<Rightarrow> consume_fill F S ais ts fill
      | OutEv e \<Rightarrow> consume_out S ais e
      | OtherEv n \<Rightarrow> if n = 2 then Inr (Consume S) else Inl (MangoErr SomeError))"

fun consume_loop :: "nat \<Rightarrow> fixed_ops \<Rightarrow> PerpState \<Rightarrow> AccountInfo list \<Rightarrow> i64 \<Rightarrow> PerpState res" where
  "consume_loop 0 F S ais ts = Inr S"
| "consume_loop (Suc n) F S ais ts =
     rbind (peek_front (ps_events S)) (\<lambda>front. case front of
       None \<Rightarrow> Inr S
     | Some event \<Rightarrow>
         rbind (consume_event F S ais ts event) (\<lambda>r. case r of
           StopConsuming S' \<Rightarrow> Inr S'
         | Consume S' \<Rightarrow>
             rbind (pop_front (ps_events S')) (\<lambda>(q, _). consume_loop n F (S'\<lparr>ps_events := q\<rparr>) ais ts)))"

definition perp_consume_events :: "fixed_ops \<Rightarrow> PerpState \<Rightarrow> PerpKeys \<Rightarrow> AccountInfo list \<Rightarrow> i64 \<Rightarrow> nat \<Rightarrow> PerpState res" where
  "perp_consume_events F S K ais ts limit =
     rbind (PerpConsumeEvents_accounts S K) (\<lambda>_. consume_loop (min limit 8) F S ais ts)"

end
