(* ===== verification/Enqueue.thy ===== *)
theory Enqueue
  imports Ed25519 Perp_Instructions
begin

text \<open>
  The two instructions that append to the FIFO queue of a perp market
  (\<^verbatim>\<open>instructions/perp_enqueue_operation.rs\<close>, \<^verbatim>\<open>instructions/enqueue_perp_event.rs\<close>) with their
  account constraints. The lemmas describe what an accepted operation appends, that it has
  been signed by its user and by the continuum, and that the sequence numbers keep growing.
\<close>

section \<open>State\<close>

text \<open>A market together with its queue, and the keys of the accounts of an instruction on both.\<close>

record FifoState =
  fs_perp :: PerpState
  fs_queue :: QueueFifo

record QueueKeys =
  qk_perp :: PerpKeys
  key_queue :: pubkey
  key_perp_market :: pubkey

record PerpEnqueueOperationArgs =
  arg_order_intent :: OrderIntent
  arg_queued_order_intent :: QueuedOrderIntent

record EnqueuePerpEventArgs =
  arg_seq_no :: u64
  arg_user :: pubkey
  arg_event_type :: QueueEventType
  arg_params :: CompactOrderParams
  arg_user_signature :: bytes
  arg_continuum_signature :: bytes

section \<open>Account constraints\<close>

definition market_has_queue :: "PerpMarket \<Rightarrow> QueueKeys \<Rightarrow> unit res" where
  "market_has_queue m K =
     rbind (require (pm_group m = key_group (qk_perp K)) RequireViolated) (\<lambda>_.
       require (pm_queue m = key_queue K) RequireViolated)"

definition PerpEnqueueOperation_accounts :: "FifoState \<Rightarrow> QueueKeys \<Rightarrow> unit res" where
  "PerpEnqueueOperation_accounts FS K =
     (let S = fs_perp FS in
      rbind (group_constraint (ps_group S) GatePerpEnqueueEvent) (\<lambda>_.
      rbind (load_account S (key_account (qk_perp K))) (\<lambda>a.
      rbind (require (ma_group (fixed_part a) = key_group (qk_perp K)) RequireViolated) (\<lambda>_.
        market_has_queue (ps_market S) K))))"

definition EnqueuePerpEvent_accounts :: "FifoState \<Rightarrow> QueueKeys \<Rightarrow> unit res" where
  "EnqueuePerpEvent_accounts FS K =
     rbind (group_constraint (ps_group (fs_perp FS)) GatePerpEnqueueEvent) (\<lambda>_.
       market_has_queue (ps_market (fs_perp FS)) K)"

section \<open>The instructions\<close>

definition signature_blob :: "bytes \<Rightarrow> SignatureBlob" where
  "signature_blob bs = \<lparr>sig_bytes = bs, is_present = 1\<rparr>"

text \<open>The sequence number has to exceed the one at the tail of a queue with room.\<close>

definition check_queue :: "QueueFifo \<Rightarrow> u64 \<Rightarrow> unit res" where
  "check_queue q seq =
     rbind (require (\<not> qf_is_full q) (MangoErr QueueIsFull)) (\<lambda>_.
     rbind (tail_seq q) (\<lambda>tail.
       require (\<not> seq \<le> tail) (MangoErr SequenceNumberTooLow)))"

definition intent_event :: "OrderIntent \<Rightarrow> u64 \<Rightarrow> u64 \<Rightarrow> pubkey \<Rightarrow> bytes \<Rightarrow> bytes \<Rightarrow> QueueFifoEvent" where
  "intent_event oi seq slot continuum user_sig continuum_sig =
     \<lparr>seq_no = seq, submitted_slot = slot, ev_user = oi_owner oi, ev_continuum = continuum,
      event_type = queue_event_type_as_u8 (oi_event_type oi), ev_params = oi_params oi,
      user_signature = signature_blob user_sig, continuum_signature = signature_blob continuum_sig\<rparr>"

text \<open>The expiry of an intent: 0 stands for none.\<close>

definition not_expired :: "i64 \<Rightarrow> u64 \<Rightarrow> bool" where
  "not_expired ts expiry_ts \<longleftrightarrow> expiry_ts = 0 \<or> nat (max ts 0) \<le> expiry_ts"

definition perp_enqueue_operation ::
  "codec \<Rightarrow> instructions_sysvar \<Rightarrow> FifoState \<Rightarrow> QueueKeys \<Rightarrow> i64 \<Rightarrow> u64 \<Rightarrow> PerpEnqueueOperationArgs \<Rightarrow> FifoState res" where
  "perp_enqueue_operation cd sysvar FS K ts slot args =
     (let oi = arg_order_intent args; qi = arg_queued_order_intent args; S = fs_perp FS in
      rbind (PerpEnqueueOperation_accounts FS K) (\<lambda>_.
      rbind (require (to_perp_action (oi_event_type oi) \<noteq> None) (MangoErr UnsupportedQueueEventType)) (\<lambda>_.
      rbind (require (oi_group oi = key_group (qk_perp K)) (MangoErr IntentGroupMismatch)) (\<lambda>_.
      rbind (require (oi_account oi = key_account (qk_perp K)) (MangoErr IntentAccountMismatch)) (\<lambda>_.
      rbind (require (oi_perp_market oi = key_perp_market K) (MangoErr IntentMarketMismatch)) (\<lambda>_.
      rbind (require (perp_market_index (ps_market S) = cp_market_index (oi_params oi)) (MangoErr IntentMarketMismatch)) (\<lambda>_.
      rbind (ok_or (continuum_key (ps_group S)) (MangoErr ContinuumKeyMissing)) (\<lambda>continuum.
      rbind (order_intent_hash_of cd oi) (\<lambda>hash.
      rbind (require (hash = order_intent_hash qi) (MangoErr OrderIntentHashMismatch)) (\<lambda>_.
      rbind (require (not_expired ts (oi_expiry_ts oi)) (MangoErr OrderIntentExpired)) (\<lambda>_.
      rbind (require (not_expired ts (qi_expiry_ts qi)) (MangoErr QueuedOrderIntentExpired)) (\<lambda>_.
      rbind (check_queue (fs_queue FS) (qi_seq_no qi)) (\<lambda>_.
      rbind (order_intent_message_bytes cd oi) (\<lambda>order_intent_bytes.
      rbind (queued_intent_message_bytes cd qi) (\<lambda>queued_order_intent_bytes.
      rbind (find_two_ed25519_signatures sysvar (oi_owner oi) order_intent_bytes continuum queued_order_intent_bytes) (\<lambda>(user_sig, continuum_sig).
      rbind (ok_or user_sig (MangoErr MissingIntentSignature)) (\<lambda>user_sig.
      rbind (ok_or continuum_sig (MangoErr MissingContinuumSignature)) (\<lambda>continuum_sig.
      rbind (qf_push (fs_queue FS) (intent_event oi (qi_seq_no qi) slot continuum user_sig continuum_sig)) (\<lambda>q.
        Inr (FS\<lparr>fs_queue := q\<rparr>))))))))))))))))))))"

definition args_event :: "EnqueuePerpEventArgs \<Rightarrow> u64 \<Rightarrow> pubkey \<Rightarrow> QueueFifoEvent" where
  "args_event args slot continuum =
     \<lparr>seq_no = arg_seq_no args, submitted_slot = slot, ev_user = arg_user args, ev_continuum = continuum,
      event_type = queue_event_type_as_u8 (arg_event_type args), ev_params = arg_params args,
      user_signature = signature_blob (arg_user_signature args),
      continuum_signature = signature_blob (arg_continuum_signature args)\<rparr>"

definition enqueue_perp_event ::
  "codec \<Rightarrow> instructions_sysvar \<Rightarrow> FifoState \<Rightarrow> QueueKeys \<Rightarrow> u64 \<Rightarrow> EnqueuePerpEventArgs \<Rightarrow> FifoState res" where
  "enqueue_perp_event cd sysvar FS K slot args =
     (let S = fs_perp FS in
      rbind (EnqueuePerpEvent_accounts FS K) (\<lambda>_.
      rbind (require (to_perp_action (arg_event_type args) \<noteq> None) (MangoErr UnsupportedQueueEventType)) (\<lambda>_.
      rbind (require (perp_market_index (ps_market S) = cp_market_index (arg_params args)) (MangoErr InvalidQueueParams)) (\<lambda>_.
      rbind (ok_or (continuum_key (ps_group S)) (MangoErr ContinuumKeyMissing)) (\<lambda>continuum.
      rbind (check_queue (fs_queue FS) (arg_seq_no args)) (\<lambda>_.
      let event = args_event args slot continuum in
      rbind (find_ed25519_signature sysvar (ev_user event) (event_intent_hash cd event)) (\<lambda>intent_sig.
      rbind (ok_or intent_sig (MangoErr MissingIntentSignature)) (\<lambda>intent_sig.
      let event = event\<lparr>user_signature := (user_signature event)\<lparr>sig_bytes := intent_sig\<rparr>\<rparr> in
      rbind (find_ed25519_signature sysvar (ev_continuum event) (event_payload_hash cd event)) (\<lambda>continuum_sig.
      rbind (ok_or continuum_sig (MangoErr MissingContinuumSignature)) (\<lambda>continuum_sig.
      let event = event\<lparr>continuum_signature := (continuum_signature event)\<lparr>sig_bytes := continuum_sig\<rparr>\<rparr> in
      rbind (qf_push (fs_queue FS) event) (\<lambda>q.
        Inr (FS\<lparr>fs_queue := q\<rparr>))))))))))))"

section \<open>What is appended\<close>

text \<open>An event of a market as the enqueue instructions write it.\<close>

definition event_ok :: "PerpState \<Rightarrow> QueueFifoEvent \<Rightarrow> bool" where
  "event_ok S e \<longleftrightarrow>
     (\<exists>ty. queue_event_type e = Inr ty \<and> to_perp_action ty \<noteq> None) \<and>
     cp_market_index (ev_params e) = perp_market_index (ps_market S) \<and>
     continuum_key (ps_group S) = Some (ev_continuum e) \<and>
     is_present (user_signature e) = 1 \<and> is_present (continuum_signature e) = 1"

lemma queue_event_type_roundtrip [simp]: "queue_event_type_try_from (queue_event_type_as_u8 ty) = Some ty"
  by (cases ty) (simp_all add: queue_event_type_try_from_def)

lemma check_queue_Inr:
  assumes "check_queue q s = Inr ()" "queue_fifo_ok q"
  shows "\<not> qf_is_full q" "\<forall>x \<in> set (last_executed_seq (qf_header q) # map seq_no (qf_events q)). x < s"
proof -
  let ?xs = "last_executed_seq (qf_header q) # map seq_no (qf_events q)"
  have r: "qf_ring q" and o: "sorted_wrt (<) ?xs" using assms(2) by (simp_all add: queue_fifo_ok_def)
  show "\<not> qf_is_full q" using assms(1) by (simp add: check_queue_def rbind_eq_Inr)
  have "last ?xs < s" using assms(1) by (simp add: check_queue_def rbind_eq_Inr tail_seq_eq [OF r])
  moreover have "x \<le> last ?xs" if "x \<in> set ?xs" for x
    using o that sorted_wrt_append [of "(<)" "butlast ?xs" "[last ?xs]"] append_butlast_last_id [of ?xs]
    by (metis Un_iff less_imp_le list.distinct(1) list.set_intros(1) order_refl set_ConsD set_append empty_iff list.set(1))
  ultimately show "\<forall>x \<in> set ?xs. x < s" by fastforce
qed

lemma qf_push_ok:
  assumes "qf_push q e = Inr q'" "queue_fifo_ok q" "check_queue q (seq_no e) = Inr ()"
  shows "queue_fifo_ok q' \<and> qf_events q' = qf_events q @ [e] \<and> last_executed_seq (qf_header q') = last_executed_seq (qf_header q) \<and>
    max_lag_slots (qf_header q') = max_lag_slots (qf_header q)"
proof -
  note c = check_queue_Inr [OF assms(3,2)]
  have r: "qf_ring q" using assms(2) by (simp add: queue_fifo_ok_def)
  show ?thesis using qf_push_events [OF r c(1), of e] assms(1,2) c(2) by (auto simp: queue_fifo_ok_def sorted_wrt_append)
qed

text \<open>Both instructions append one event and change nothing else.\<close>

definition appended :: "FifoState \<Rightarrow> QueueFifoEvent \<Rightarrow> FifoState \<Rightarrow> bool" where
  "appended FS e FS' \<longleftrightarrow>
     fs_perp FS' = fs_perp FS \<and> event_ok (fs_perp FS) e \<and> queue_fifo_ok (fs_queue FS') \<and>
     qf_events (fs_queue FS') = qf_events (fs_queue FS) @ [e] \<and>
     last_executed_seq (qf_header (fs_queue FS')) = last_executed_seq (qf_header (fs_queue FS)) \<and>
     max_lag_slots (qf_header (fs_queue FS')) = max_lag_slots (qf_header (fs_queue FS))"

lemma enqueue_operation_parts:
  assumes "perp_enqueue_operation cd sysvar FS K ts slot args = Inr FS'"
  defines "oi \<equiv> arg_order_intent args" and "qi \<equiv> arg_queued_order_intent args"
  obtains continuum bs qbs s1 s2 q where "continuum_key (ps_group (fs_perp FS)) = Some continuum"
    "to_perp_action (oi_event_type oi) \<noteq> None" "perp_market_index (ps_market (fs_perp FS)) = cp_market_index (oi_params oi)"
    "oi_group oi = key_group (qk_perp K)" "oi_account oi = key_account (qk_perp K)" "oi_perp_market oi = key_perp_market K"
    "not_expired ts (oi_expiry_ts oi)" "not_expired ts (qi_expiry_ts qi)"
    "borsh_order_intent cd oi = Some bs" "borsh_queued_intent cd qi = Some qbs" "order_intent_hash qi = hashv cd [bs]"
    "check_queue (fs_queue FS) (qi_seq_no qi) = Inr ()"
    "find_two_ed25519_signatures sysvar (oi_owner oi) bs continuum qbs = Inr (Some s1, Some s2)"
    "qf_push (fs_queue FS) (intent_event oi (qi_seq_no qi) slot continuum s1 s2) = Inr q" "FS' = FS\<lparr>fs_queue := q\<rparr>"
  using assms(1) that unfolding perp_enqueue_operation_def Let_def oi_def [symmetric] qi_def [symmetric]
  by (auto simp: rbind_eq_Inr ok_or_eq_Inr order_intent_hash_of_def order_intent_message_bytes_def queued_intent_message_bytes_def)

lemma enqueue_operation_appends:
  assumes "perp_enqueue_operation cd sysvar FS K ts slot args = Inr FS'" "queue_fifo_ok (fs_queue FS)"
  obtains e where "appended FS e FS'" "qf_push (fs_queue FS) e = Inr (fs_queue FS')" "seq_no e = qi_seq_no (arg_queued_order_intent args)" "ev_params e = oi_params (arg_order_intent args)"
proof (rule enqueue_operation_parts [OF assms(1)])
  let ?oi = "arg_order_intent args" and ?qi = "arg_queued_order_intent args"
  fix continuum bs qbs s1 s2 q
  let ?e = "intent_event ?oi (qi_seq_no ?qi) slot continuum s1 s2"
  assume p: "continuum_key (ps_group (fs_perp FS)) = Some continuum" "to_perp_action (oi_event_type ?oi) \<noteq> None"
    "perp_market_index (ps_market (fs_perp FS)) = cp_market_index (oi_params ?oi)" "check_queue (fs_queue FS) (qi_seq_no ?qi) = Inr ()"
    "qf_push (fs_queue FS) ?e = Inr q" "FS' = FS\<lparr>fs_queue := q\<rparr>"
  have e: "seq_no ?e = qi_seq_no ?qi" "ev_params ?e = oi_params ?oi" by (simp_all add: intent_event_def)
  have "appended FS ?e FS'"
    using qf_push_ok [OF p(5) assms(2)] p
    by (simp add: e appended_def event_ok_def) (simp add: intent_event_def queue_event_type_def signature_blob_def)
  then show ?thesis using that e p(5,6) by simp
qed

lemma enqueue_event_parts:
  assumes "enqueue_perp_event cd sysvar FS K slot args = Inr FS'"
  obtains continuum s1 s2 q where "continuum_key (ps_group (fs_perp FS)) = Some continuum"
    "to_perp_action (arg_event_type args) \<noteq> None" "perp_market_index (ps_market (fs_perp FS)) = cp_market_index (arg_params args)"
    "check_queue (fs_queue FS) (arg_seq_no args) = Inr ()"
    "find_ed25519_signature sysvar (arg_user args) (event_intent_hash cd (args_event args slot continuum)) = Inr (Some s1)"
    "find_ed25519_signature sysvar continuum (event_payload_hash cd (args_event args slot continuum)) = Inr (Some s2)"
    "qf_push (fs_queue FS) ((args_event args slot continuum)\<lparr>user_signature := signature_blob s1, continuum_signature := signature_blob s2\<rparr>) = Inr q"
    "FS' = FS\<lparr>fs_queue := q\<rparr>"
  using assms that
  by (auto simp: enqueue_perp_event_def Let_def rbind_eq_Inr ok_or_eq_Inr args_event_def event_intent_hash_def event_payload_hash_def
      signature_flags_def signature_blob_def)

lemma enqueue_event_appends:
  assumes "enqueue_perp_event cd sysvar FS K slot args = Inr FS'" "queue_fifo_ok (fs_queue FS)"
  obtains e where "appended FS e FS'" "qf_push (fs_queue FS) e = Inr (fs_queue FS')" "seq_no e = arg_seq_no args" "ev_params e = arg_params args"
proof (rule enqueue_event_parts [OF assms(1)])
  fix continuum s1 s2 q
  let ?e = "(args_event args slot continuum)\<lparr>user_signature := signature_blob s1, continuum_signature := signature_blob s2\<rparr>"
  assume p: "continuum_key (ps_group (fs_perp FS)) = Some continuum" "to_perp_action (arg_event_type args) \<noteq> None"
    "perp_market_index (ps_market (fs_perp FS)) = cp_market_index (arg_params args)" "check_queue (fs_queue FS) (arg_seq_no args) = Inr ()"
    "qf_push (fs_queue FS) ?e = Inr q" "FS' = FS\<lparr>fs_queue := q\<rparr>"
  have e: "seq_no ?e = arg_seq_no args" "ev_params ?e = arg_params args" by (simp_all add: args_event_def)
  have "appended FS ?e FS'"
    using qf_push_ok [OF p(5) assms(2)] p
    by (simp add: e appended_def event_ok_def) (simp add: args_event_def queue_event_type_def signature_blob_def)
  then show ?thesis using that e p(5,6) by simp
qed

end
