(* ===== verification/Crank.thy ===== *)
theory Crank
  imports Enqueue
begin

text \<open>
  The two instructions that execute the operations on the FIFO queue of a perp market
  (\<^verbatim>\<open>instructions/perp_crank_queued_operations.rs\<close>, \<^verbatim>\<open>instructions/crank_fifo_queue.rs\<close>) with their
  account constraints. Both have the same loop around different dispatching, so the loop has
  the dispatching as an argument. When dispatching fails, both instructions put the queue's header
  back and return the error; the runtime then discards all changes, and the model returns the
  error only.
\<close>

section \<open>Dispatching\<close>

definition order_params_of :: "CompactOrderParams \<Rightarrow> PlaceOrderType \<Rightarrow> OrderParams res" where
  "order_params_of p ty =
     (case ty of
        PImmediateOrCancel \<Rightarrow> Inr (ImmediateOrCancelParams (cp_price_lots p))
      | PMarket \<Rightarrow> Inr (ImmediateOrCancelParams i64_MAX)
      | _ \<Rightarrow> rbind (to_post_order_type ty) (\<lambda>order_type. Inr (FixedParams (cp_price_lots p) order_type)))"

definition order_from_params :: "CompactOrderParams \<Rightarrow> (Order \<times> u8) res" where
  "order_from_params p =
     rbind (cp_side_of p) (\<lambda>side.
     rbind (cp_place_order_type p) (\<lambda>place_order_type.
     rbind (cp_self_trade_behavior_of p) (\<lambda>behavior.
     rbind (order_params_of p place_order_type) (\<lambda>order_params.
       Inr (\<lparr>order_side = side, max_base_lots = cp_max_base_lots p, max_quote_lots = cp_max_quote_lots p,
             order_client_order_id = cp_client_order_id p, order_reduce_only = cp_is_reduce_only p,
             order_time_in_force = cp_tif_offset p, self_trade_behavior = behavior, params = order_params\<rparr>, cp_limit p)))))"

definition validate_event_targets :: "PerpKeys \<Rightarrow> i64 \<Rightarrow> QueueFifoEvent \<Rightarrow> PerpState \<Rightarrow> unit res" where
  "validate_event_targets K ts event S =
     rbind (load_account S (key_account K)) (\<lambda>account.
     rbind (is_owner_or_delegate (fixed_part account) (ev_user event) ts) (\<lambda>allowed.
     rbind (require allowed (MangoErr SomeError)) (\<lambda>_.
       require (perp_market_index (ps_market S) = cp_market_index (ev_params event)) (MangoErr InvalidQueueParams))))"

text \<open>A queued market order becomes an order with the highest price on either side. As a sell order it is therefore limited to
  bids at that price, and matches no other.\<close>

lemma queued_market_sell_matches_nothing:
  assumes "order_from_params p = Inr (order, limit)" "cp_place_order_type p = Inr PMarket" "cp_side_of p = Inr Ask" "best < i64_MAX"
  shows "params order = ImmediateOrCancelParams i64_MAX \<and> \<not> is_price_within_limit (order_side order) best i64_MAX"
  using assms by (auto simp: order_from_params_def order_params_of_def elim!: rbind_InrE)

text \<open>What an instruction brings along besides the queue and the market: the oracle, the clock, and
  the health computation, which depends on the state of the market.\<close>

record 'c crank_env =
  ce_fixed :: fixed_ops
  ce_health :: "PerpState \<Rightarrow> 'c health_ops"
  ce_keys :: PerpKeys
  ce_oracle :: "OracleState res"
  ce_ts :: i64
  ce_slot :: u64

definition execute_place :: "'c crank_env \<Rightarrow> QueueFifoEvent \<Rightarrow> PerpState \<Rightarrow> PerpState res" where
  "execute_place E event S =
     rbind (order_from_params (ev_params event)) (\<lambda>(order, limit).
     rbind (perp_place_order_logic (ce_fixed E) (ce_health E S) S ((ce_keys E)\<lparr>key_owner := ev_user event\<rparr>) (ce_oracle E)
              (ce_ts E) (ce_slot E) order limit) (\<lambda>(S', _).
       Inr S'))"

definition execute_cancel :: "'c crank_env \<Rightarrow> QueueFifoEvent \<Rightarrow> PerpState \<Rightarrow> PerpState res" where
  "execute_cancel E event S =
     perp_cancel_order_by_client_order_id_logic S ((ce_keys E)\<lparr>key_owner := ev_user event\<rparr>) (ce_ts E)
       (cp_client_order_id (ev_params event))"

definition execute_modify :: "'c crank_env \<Rightarrow> QueueFifoEvent \<Rightarrow> PerpState \<Rightarrow> PerpState res" where
  "execute_modify E event S = rbind (execute_cancel E event S) (execute_place E event)"

definition dispatch_event :: "'c crank_env \<Rightarrow> QueueFifoEvent \<Rightarrow> PerpState \<Rightarrow> PerpState res" where
  "dispatch_event E event S =
     rbind (queue_event_type event) (\<lambda>ty. case ty of
       PerpPlaceOrder \<Rightarrow> execute_place E event S
     | PerpCancelOrder \<Rightarrow> execute_cancel E event S
     | PerpModifyOrder \<Rightarrow> execute_modify E event S
     | _ \<Rightarrow> Inl (MangoErr UnsupportedQueueEventType))"

text \<open>\<^verbatim>\<open>crank_fifo_queue\<close> knows placing and cancelling only.\<close>

definition fifo_dispatch_event :: "'c crank_env \<Rightarrow> QueueFifoEvent \<Rightarrow> PerpState \<Rightarrow> PerpState res" where
  "fifo_dispatch_event E event S =
     rbind (queue_event_type event) (\<lambda>ty. case ty of
       PerpPlaceOrder \<Rightarrow> execute_place E event S
     | PerpCancelOrder \<Rightarrow> execute_cancel E event S
     | _ \<Rightarrow> Inl (MangoErr UnsupportedQueueEventType))"

definition run_event :: "'c crank_env \<Rightarrow> QueueFifoEvent \<Rightarrow> PerpState \<Rightarrow> PerpState res" where
  "run_event E event S =
     rbind (validate_event_targets (ce_keys E) (ce_ts E) event S) (\<lambda>_. dispatch_event E event S)"

definition fifo_run_event :: "'c crank_env \<Rightarrow> QueueFifoEvent \<Rightarrow> PerpState \<Rightarrow> PerpState res" where
  "fifo_run_event E event S =
     rbind (validate_event_targets (ce_keys E) (ce_ts E) event S) (\<lambda>_. fifo_dispatch_event E event S)"

section \<open>The loop\<close>

text \<open>What to do about the event at the head of the queue: leave the loop, declare the missing
  sequence numbers lost, drop an event that has been passed over, or execute it.\<close>

datatype HeadDecision = StopCranking | JumpGap u64 | SkipStale | ExecuteHead QueueFifoEvent

definition crank_head :: "u64 \<Rightarrow> u64 \<Rightarrow> QueueFifo \<Rightarrow> HeadDecision res" where
  "crank_head current_slot last_executed q =
     (let head_index = qf_head (qf_header q) in
      if head_index \<ge> length (entries q) then Inl Panic
      else
        let event = entries q ! head_index; expected_seq = min u64_MAX (last_executed + 1) in
        Inr (if seq_no event \<noteq> expected_seq then
               if seq_no event > expected_seq then
                 if current_slot - submitted_slot event \<ge> max_lag_slots (qf_header q) then JumpGap (seq_no event - 1)
                 else StopCranking
               else SkipStale
             else ExecuteHead event))"

definition set_last_executed :: "QueueFifo \<Rightarrow> u64 \<Rightarrow> QueueFifo" where
  "set_last_executed q s = q\<lparr>qf_header := (qf_header q)\<lparr>last_executed_seq := s\<rparr>\<rparr>"

definition drop_head :: "QueueFifo \<Rightarrow> QueueFifo res" where
  "drop_head q = rbind (advance_head (qf_header q)) (\<lambda>h. Inr (q\<lparr>qf_header := h\<rparr>))"

partial_function (option) crank_loop ::
  "(QueueFifoEvent \<Rightarrow> PerpState \<Rightarrow> PerpState res) \<Rightarrow> u64 \<Rightarrow> u8 \<Rightarrow> u8 \<Rightarrow> u64 \<Rightarrow> PerpState \<Rightarrow> QueueFifo \<Rightarrow>
     (PerpState \<times> QueueFifo) res option" where
  "crank_loop run current_slot max_events processed last_executed S q =
     (if processed < max_events \<and> qf_count (qf_header q) > 0 then
        (case crank_head current_slot last_executed q of
           Inl e \<Rightarrow> Some (Inl e)
         | Inr StopCranking \<Rightarrow> Some (Inr (S, q))
         | Inr (JumpGap s) \<Rightarrow> crank_loop run current_slot max_events processed s S (set_last_executed q s)
         | Inr SkipStale \<Rightarrow>
             (case drop_head q of
                Inl e \<Rightarrow> Some (Inl e)
              | Inr q' \<Rightarrow> crank_loop run current_slot max_events processed last_executed S q')
         | Inr (ExecuteHead event) \<Rightarrow>
             (case run event S of
                Inl e \<Rightarrow> Some (Inl e)
              | Inr S' \<Rightarrow>
                  (case drop_head q of
                     Inl e \<Rightarrow> Some (Inl e)
                   | Inr q' \<Rightarrow> crank_loop run current_slot max_events (min 255 (processed + 1)) (seq_no event) S'
                                (set_last_executed q' (seq_no event)))))
      else Some (Inr (S, q)))"

text \<open>A loop that does not return runs into the compute limit of the runtime.\<close>

definition crank :: "(QueueFifoEvent \<Rightarrow> PerpState \<Rightarrow> PerpState res) \<Rightarrow> u64 \<Rightarrow> u8 \<Rightarrow> FifoState \<Rightarrow> FifoState res" where
  "crank run current_slot max_events FS =
     (case crank_loop run current_slot max_events 0 (last_executed_seq (qf_header (fs_queue FS))) (fs_perp FS) (fs_queue FS) of
        None \<Rightarrow> Inl RuntimeError
      | Some (Inl e) \<Rightarrow> Inl e
      | Some (Inr (S, q)) \<Rightarrow>
          Inr (FS\<lparr>fs_perp := S\<lparr>ps_market := (ps_market S)\<lparr>queue_last_executed_seq := last_executed_seq (qf_header q)\<rparr>\<rparr>,
                  fs_queue := q\<rparr>))"

section \<open>The instructions\<close>

definition crank_accounts :: "IxGate \<Rightarrow> FifoState \<Rightarrow> QueueKeys \<Rightarrow> i64 \<Rightarrow> unit res" where
  "crank_accounts ix FS K ts =
     (let S = fs_perp FS; m = ps_market S; P = qk_perp K in
      rbind (group_constraint (ps_group S) ix) (\<lambda>_.
      rbind (account_constraint True S P ts) (\<lambda>_.
      rbind (market_has_book m P) (\<lambda>_.
      rbind (require (pm_event_queue m = key_event_queue P) RequireViolated) (\<lambda>_.
      rbind (require (pm_oracle m = key_oracle P) RequireViolated) (\<lambda>_.
        require (pm_queue m = key_queue K) RequireViolated))))))"

definition PerpCrankQueuedOperations_accounts :: "FifoState \<Rightarrow> QueueKeys \<Rightarrow> i64 \<Rightarrow> unit res" where
  "PerpCrankQueuedOperations_accounts = crank_accounts GatePerpCrankQueuedOperations"

definition CrankFifoQueue_accounts :: "FifoState \<Rightarrow> QueueKeys \<Rightarrow> i64 \<Rightarrow> unit res" where
  "CrankFifoQueue_accounts = crank_accounts GateCrankFifoQueue"

definition MAX_QUEUED_OPS_PER_CALL :: u8 where
  "MAX_QUEUED_OPS_PER_CALL = 8"

definition make_env :: "fixed_ops \<Rightarrow> (PerpState \<Rightarrow> 'c health_ops) \<Rightarrow> QueueKeys \<Rightarrow> OracleState res \<Rightarrow> i64 \<Rightarrow> u64 \<Rightarrow> 'c crank_env" where
  "make_env F H K oracle ts slot =
     \<lparr>ce_fixed = F, ce_health = H, ce_keys = qk_perp K, ce_oracle = oracle, ce_ts = ts, ce_slot = slot\<rparr>"

definition perp_crank_queued_operations ::
  "fixed_ops \<Rightarrow> (PerpState \<Rightarrow> 'c health_ops) \<Rightarrow> FifoState \<Rightarrow> QueueKeys \<Rightarrow> OracleState res \<Rightarrow> i64 \<Rightarrow> u64 \<Rightarrow> u8 \<Rightarrow> FifoState res" where
  "perp_crank_queued_operations F H FS K oracle ts slot max_operations =
     rbind (PerpCrankQueuedOperations_accounts FS K ts) (\<lambda>_.
       crank (run_event (make_env F H K oracle ts slot)) slot (min max_operations MAX_QUEUED_OPS_PER_CALL) FS)"

definition crank_fifo_queue ::
  "fixed_ops \<Rightarrow> (PerpState \<Rightarrow> 'c health_ops) \<Rightarrow> FifoState \<Rightarrow> QueueKeys \<Rightarrow> OracleState res \<Rightarrow> i64 \<Rightarrow> u64 \<Rightarrow> u8 \<Rightarrow> FifoState res" where
  "crank_fifo_queue F H FS K oracle ts slot max_events =
     rbind (CrankFifoQueue_accounts FS K ts) (\<lambda>_.
       crank (fifo_run_event (make_env F H K oracle ts slot)) slot max_events FS)"

declare crank_loop.simps [code]

end
