(* ===== verification/State_Machine.thy ===== *)
theory State_Machine
  imports Main
begin

text \<open>
  State machines: a step relation on states and an invariant that every step keeps. The markets
  and the queues of the program are instances of this interface.
\<close>

locale state_machine =
  fixes step :: "'s \<Rightarrow> 's \<Rightarrow> bool"
    and inv :: "'s \<Rightarrow> bool"
  assumes step_inv: "inv s \<Longrightarrow> step s t \<Longrightarrow> inv t"
begin

lemma run_inv: "step\<^sup>*\<^sup>* s t \<Longrightarrow> inv s \<Longrightarrow> inv t"
  by (induction rule: rtranclp_induct) (auto intro: step_inv)

lemma run_mono:
  assumes "step\<^sup>*\<^sup>* s t" "inv s" and m: "\<And>s t. inv s \<Longrightarrow> step s t \<Longrightarrow> f s \<le> (f t :: 'a::preorder)"
  shows "f s \<le> f t"
  using assms(1)
proof (induction rule: rtranclp_induct)
  case (step t u)
  then show ?case using m [OF run_inv [OF step(1) assms(2)] step(2)] by (blast intro: order_trans)
qed simp

lemma run_const:
  assumes "step\<^sup>*\<^sup>* s t" "inv s" and "\<And>s t. inv s \<Longrightarrow> step s t \<Longrightarrow> f t = f s"
  shows "f t = f s"
  using assms(1)
proof (induction rule: rtranclp_induct)
  case (step t u)
  then show ?case using assms(3) [OF run_inv [OF step(1) assms(2)] step(2)] by simp
qed simp

end

end
