(* ===== verification/Matching_Book.thy ===== *)
theory Matching_Book
  imports Matching
begin

text \<open>
  What matching does to the opposing side of the book: the collected changes and deletions can
  always be applied, and the lots every owner has on the side change by exactly what the changed
  and deleted orders lose.
\<close>

section \<open>Replacing a leaf\<close>

primrec replace_leaf :: "NodeHandle \<Rightarrow> LeafNode \<Rightarrow> ctree \<Rightarrow> ctree" where
  "replace_leaf h l (CLeaf h' l') = CLeaf h' (if h' = h then l else l')"
| "replace_leaf h l (CInner h' n a b) = CInner h' n (replace_leaf h l a) (replace_leaf h l b)"

lemma replace_leaf_simps [simp]:
  "ct_handle (replace_leaf h l t) = ct_handle t" "handles (replace_leaf h l t) = handles t"
  "leaves (replace_leaf h l t) = map (\<lambda>(h', l'). (h', if h' = h then l else l')) (leaves t)"
  by (induction t) auto

lemma replace_leaf_id: "h \<notin> set (handles t) \<Longrightarrow> replace_leaf h l t = t"
  by (induction t) auto

lemma tree_at_replace_leaf:
  "tree_at ns t \<Longrightarrow> h \<in> fst ` set (leaves t) \<Longrightarrow> distinct (handles t) \<Longrightarrow> tree_at (ns[h := Leaf l]) (replace_leaf h l t)"
proof (induction t)
  case (CInner h' n a b)
  have sub: "fst ` set (leaves a) \<subseteq> set (handles a)" "fst ` set (leaves b) \<subseteq> set (handles b)" by (rule leaf_handles)+
  have d: "distinct (handles a)" "distinct (handles b)" "h' \<notin> set (handles a)" "h' \<notin> set (handles b)"
    "set (handles a) \<inter> set (handles b) = {}" and at: "tree_at ns a" "tree_at ns b"
    using CInner.prems by simp_all
  have "h \<in> fst ` set (leaves a) \<or> h \<in> fst ` set (leaves b)" using CInner.prems(2) by (simp add: image_Un)
  then show ?case
  proof
    assume h: "h \<in> fst ` set (leaves a)"
    then have "h \<in> set (handles a)" using sub(1) by (rule_tac subsetD)
    then have n: "h \<notin> set (handles b)" "h \<noteq> h'" using d by auto
    show ?thesis using CInner.IH(1) [OF at(1) h d(1)] n at CInner.prems(1) by (simp add: replace_leaf_id)
  next
    assume h: "h \<in> fst ` set (leaves b)"
    then have "h \<in> set (handles b)" using sub(2) by (rule_tac subsetD)
    then have n: "h \<notin> set (handles a)" "h \<noteq> h'" using d by auto
    show ?thesis using CInner.IH(2) [OF at(2) h d(2)] n at CInner.prems(1) by (simp add: replace_leaf_id)
  qed
qed simp

lemma replace_leaf_inv:
  assumes "\<forall>(h', l') \<in> set (leaves t). h' = h \<longrightarrow> leaf_key l = leaf_key l' \<and> leaf_expiry l = leaf_expiry l' \<and> leaf_ok l"
  shows "keys (replace_leaf h l t) = keys t \<and> earliest (replace_leaf h l t) = earliest t \<and>
         (crit_ok t \<longrightarrow> crit_ok (replace_leaf h l t))"
  using assms by (induction t) auto

text \<open>The orders of a component with the slots they are in.\<close>

definition book_slots :: "BookSideOrderTree \<Rightarrow> BookSide \<Rightarrow> (NodeHandle \<times> LeafNode) list" where
  "book_slots c bs = (case component (trees_of bs) c of None \<Rightarrow> [] | Some t \<Rightarrow> leaves t)"

lemma book_slots_orders: "snd ` set (book_slots c bs) = book_orders c bs"
  by (cases "component (trees_of bs) c") (simp_all add: book_slots_def book_orders_def)

lemma book_slots_distinct:
  assumes "book_ok bs"
  shows "distinct (map fst (book_slots c bs))" "distinct (map (leaf_key \<circ> snd) (book_slots c bs))"
proof -
  have inv: "book_inv bs (trees_of bs)" using assms by (simp add: book_ok_def)
  have *: "distinct (handles t) \<Longrightarrow> distinct (map fst (leaves t))" for t
  proof (induction t)
    case (CInner h n a b)
    with leaf_handles [of a] leaf_handles [of b] show ?case by fastforce
  qed simp
  show "distinct (map fst (book_slots c bs))"
    using inv * unfolding book_inv_comp [where c = c]
    by (cases "component (trees_of bs) c") (simp_all add: book_slots_def tree_inv_Some)
  show "distinct (map (leaf_key \<circ> snd) (book_slots c bs))"
    using book_inv_crit [OF inv, of c] leaves_distinct_keys
    by (cases "component (trees_of bs) c") (simp_all add: book_slots_def tree_crit_def)
qed

lemma apply_change_ok:
  assumes ok: "book_ok bs" and m: "(h, l) \<in> set (book_slots c bs)"
  shows "\<exists>bs'. apply_change bs (\<lparr>handle_node = h, handle_order_tree = d\<rparr>, q) = Inr bs' \<and> book_ok bs' \<and> book_side bs' = book_side bs \<and>
     book_slots c bs' = map (\<lambda>(h', l'). (h', if h' = h then l\<lparr>quantity := q\<rparr> else l')) (book_slots c bs) \<and>
     book_slots (other_component c) bs' = book_slots (other_component c) bs"
proof -
  let ?ts = "trees_of bs" and ?ot = "book_nodes bs" and ?l = "l\<lparr>quantity := q\<rparr>"
  let ?R = "tree_slots (component ?ts (other_component c))"
  have inv: "book_inv bs ?ts" using ok by (simp add: book_ok_def)
  obtain t where t: "component ?ts c = Some t" "(h, l) \<in> set (leaves t)"
    using m by (cases "component ?ts c") (auto simp: book_slots_def)
  have ti: "tree_inv ?ot (book_root bs c) (Some t) ?R"
    using inv t(1) unfolding book_inv_comp [where c = c] by simp
  let ?t = "replace_leaf h ?l t" and ?ot' = "set_node ?ot h (Leaf ?l)"
  have uniq: "l' = l" if "(h, l') \<in> set (leaves t)" for l'
  proof -
    have "tree_at (nodes ?ot) t" using ti by (simp add: tree_inv_Some)
    then have "nodes ?ot ! h = Leaf l" "nodes ?ot ! h = Leaf l'" using tree_at_leaf t(2) that by blast+
    then show ?thesis by simp
  qed
  have hin: "h \<in> fst ` set (leaves t)" "h \<in> set (handles t)" using t(2) leaf_handles [of t] by force+
  have lk: "leaf_ok l" using ti t(2) by (auto simp: tree_inv_Some dest: crit_ok_leaf)
  have same: "leaf_key ?l = leaf_key l" "leaf_expiry ?l = leaf_expiry l" "leaf_ok ?l" using lk
    by (simp_all add: leaf_expiry_def leaf_ok_def)
  have ri: "keys ?t = keys t \<and> earliest ?t = earliest t \<and> (crit_ok t \<longrightarrow> crit_ok ?t)"
    by (rule replace_leaf_inv) (use uniq same in auto)
  have "tree_inv ?ot' (book_root bs c) (Some ?t) ?R"
    using ti hin ri tree_at_replace_leaf [of "nodes ?ot" t h ?l] alloc_ok_set_node [of ?ot _ h "Leaf ?l"]
    by (simp add: tree_inv_Some set_node_def)
  moreover have "same_slots ?R ?ot ?ot'"
  proof -
    have "h \<noteq> i" if "i \<in> ?R" for i using hin(2) ti that by (auto simp: tree_inv_Some)
    then show ?thesis by (simp add: same_slots_def set_node_def)
  qed
  moreover have "\<forall>x \<in> orders (Some ?t). fixed_ok x" if "c = Fixed"
  proof -
    have "fixed_ok x" if "(i, x) \<in> set (leaves t)" for i x using inv t(1) \<open>c = Fixed\<close> that by (force simp: book_inv_def)
    moreover have "fixed_ok ?l = fixed_ok l" by (simp add: fixed_ok_def price_data_def)
    ultimately show ?thesis using t(2) by auto
  qed
  ultimately have inv': "book_inv (book_update bs c ?ot' (book_root bs c)) (component_upd c (Some ?t) ?ts)"
    by (intro book_inv_update [OF inv]) simp_all
  have upd: "book_update bs c ?ot' (book_root bs c) = bs\<lparr>book_nodes := ?ot'\<rparr>"
    by (cases c) (simp_all add: book_update_def book_root_def component_index_def sel2_def upd2_def)
  have "node ?ot h = Inr (Some (Leaf l))" using ti t(2) tree_at_leaf [of "nodes ?ot" t h l]
    by (simp add: node_def tree_inv_Some)
  then have "apply_change bs (\<lparr>handle_node = h, handle_order_tree = d\<rparr>, q) = Inr (bs\<lparr>book_nodes := ?ot'\<rparr>)"
    by (simp add: apply_change_def)
  moreover have "trees_of (bs\<lparr>book_nodes := ?ot'\<rparr>) = component_upd c (Some ?t) ?ts"
    using book_inv_trees [OF inv'] unfolding upd .
  ultimately show ?thesis using inv' book_inv_ok [OF inv'] t unfolding upd
    by (auto simp: book_slots_def book_side_def set_node_def)
qed

section \<open>Lots by owner\<close>

definition order_lots :: "pubkey \<Rightarrow> LeafNode \<Rightarrow> int" where
  "order_lots own l = (if leaf_owner l = own then quantity l else 0)"

definition side_lots :: "BookSide \<Rightarrow> pubkey \<Rightarrow> int" where
  "side_lots bs own = (\<Sum>l \<in> book_orders Fixed bs. order_lots own l) + (\<Sum>l \<in> book_orders OraclePegged bs. order_lots own l)"

text \<open>Every order on the side still has lots.\<close>

definition side_positive :: "BookSide \<Rightarrow> bool" where
  "side_positive bs \<longleftrightarrow> (\<forall>c. \<forall>l \<in> book_orders c bs. 0 < quantity l)"

definition book_keys :: "BookSideOrderTree \<Rightarrow> BookSide \<Rightarrow> u128 set" where
  "book_keys c bs = leaf_key ` book_orders c bs"

lemma book_orders_finite [simp]: "finite (book_orders c bs)"
  unfolding book_slots_orders [symmetric] by simp

lemma side_lots_comp:
  "side_lots bs own = (\<Sum>l \<in> book_orders c bs. order_lots own l) + (\<Sum>l \<in> book_orders (other_component c) bs. order_lots own l)"
  by (cases c) (simp_all add: side_lots_def)

lemma book_orders_map:
  assumes "book_ok bs"
  shows "l \<in> book_orders c bs \<longleftrightarrow> book_map c bs (leaf_key l) = Some l"
    and "book_map c bs k = Some l \<Longrightarrow> leaf_key l = k"
  using order_map_eq [OF book_inv_crit [of bs "trees_of bs" c]] assms
  by (auto simp: book_ok_def book_map_def book_orders_def)

lemma book_orders_upd_map:
  assumes "book_ok bs" "book_ok bs'" "book_map c bs' = book_map c bs"
  shows "book_orders c bs' = book_orders c bs"
  using assms by (intro set_eqI) (simp add: book_orders_map(1) [OF assms(1)] book_orders_map(1) [OF assms(2)])

lemma side_lots_remove:
  assumes ok: "book_ok bs" and r: "book_remove_by_key bs c k = Inr (bs', rm)"
  shows "side_lots bs' own = side_lots bs own - (case rm of None \<Rightarrow> 0 | Some l \<Rightarrow> order_lots own l)"
proof -
  note m = book_remove_map [OF ok, of c k, unfolded r, simplified]
  have ok': "book_ok bs'" and rm: "rm = book_map c bs k" using m by simp_all
  have other: "book_orders (other_component c) bs' = book_orders (other_component c) bs"
    using m by (intro book_orders_upd_map [OF ok ok']) simp
  have "book_orders c bs' = book_orders c bs - set_option rm"
    using m by (auto simp: book_orders_map(1) [OF ok'] book_orders_map(1) [OF ok] dest: book_orders_map(2) [OF ok] split: if_splits)
  moreover have "set_option rm \<subseteq> book_orders c bs"
    using book_orders_map(2) [OF ok, of c k] rm by (auto simp: book_orders_map(1) [OF ok])
  ultimately show ?thesis
    by (cases rm) (simp_all add: side_lots_comp [of _ _ c] other sum_diff1)
qed

lemma side_lots_insert:
  assumes ok: "book_ok bs" "component_ok c l" and fresh: "book_map c bs (leaf_key l) = None"
    and r: "book_insert_leaf bs c l = Inr (bs', h, old)"
  shows "side_lots bs' own = side_lots bs own + order_lots own l"
proof -
  have ok': "book_ok bs'" and m: "book_map c bs' = (book_map c bs)(leaf_key l \<mapsto> l)"
      "book_map (other_component c) bs' = book_map (other_component c) bs"
    using book_insert_done [OF ok r] by auto
  have other: "book_orders (other_component c) bs' = book_orders (other_component c) bs"
    by (rule book_orders_upd_map [OF ok(1) ok' m(2)])
  have "x \<in> book_orders c bs' \<longleftrightarrow> x = l \<or> x \<in> book_orders c bs" for x
    unfolding book_orders_map(1) [OF ok'] book_orders_map(1) [OF ok(1)] m(1) using fresh
    by (cases "leaf_key x = leaf_key l") auto
  then have "book_orders c bs' = insert l (book_orders c bs)" by auto
  moreover have "l \<notin> book_orders c bs" using fresh by (simp add: book_orders_map(1) [OF ok(1)])
  ultimately show ?thesis by (simp add: side_lots_comp [of _ _ c] other)
qed

section \<open>The items of an iteration\<close>

abbreviation item_tree :: "BookSideIterItem \<Rightarrow> BookSideOrderTree" where
  "item_tree i \<equiv> handle_order_tree (item_handle i)"

definition on_side :: "BookSide \<Rightarrow> BookSideIterItem \<Rightarrow> bool" where
  "on_side bs i \<longleftrightarrow> (handle_node (item_handle i), item_node i) \<in> set (book_slots (item_tree i) bs)"

definition item_ref :: "BookSideIterItem \<Rightarrow> BookSideOrderTree \<times> u128" where
  "item_ref i = (item_tree i, leaf_key (item_node i))"

lemma set_best_first_slots: "set (best_first ot (component (trees_of bs) c)) = set (book_slots c bs)"
  by (cases "component (trees_of bs) c") (auto simp: best_first_def dir_leaves_def book_slots_def)

lemma book_items_on_side:
  assumes "i \<in> set (book_items bs now oracle_px)"
  shows "on_side bs i"
proof -
  have "set (merge_items side xs ys) = set xs \<union> set ys" for side xs ys
    using mset_merge_items [of side xs ys] by (metis set_mset_mset set_mset_union)
  then show ?thesis
    using assms by (auto simp: book_items_def walk_items_def on_side_def set_best_first_slots fixed_item_def pegged_item_def)
qed

lemma on_side_map: "book_ok bs \<Longrightarrow> on_side bs i \<Longrightarrow> book_map (item_tree i) bs (leaf_key (item_node i)) = Some (item_node i)"
  using book_slots_orders [of "item_tree i" bs] book_orders_map(1) [of bs "item_node i" "item_tree i"]
  by (force simp: on_side_def)

lemma on_side_unique:
  assumes "book_ok bs" "on_side bs i" "on_side bs j"
  shows "item_handle i = item_handle j \<longleftrightarrow> item_ref i = item_ref j"
proof -
  let ?s = "book_slots (item_tree i) bs"
  have d: "inj_on fst (set ?s)" "inj_on (leaf_key \<circ> snd) (set ?s)"
    using book_slots_distinct [OF assms(1), of "item_tree i"] by (simp_all add: distinct_map)
  show ?thesis
  proof (cases "item_tree i = item_tree j")
    case True
    then have m: "(handle_node (item_handle i), item_node i) \<in> set ?s" "(handle_node (item_handle j), item_node j) \<in> set ?s"
      using assms by (simp_all add: on_side_def)
    show ?thesis using inj_onD [OF d(1) _ m] inj_onD [OF d(2) _ m] True
      by (cases "item_handle i"; cases "item_handle j") (auto simp: item_ref_def)
  qed (auto simp: item_ref_def)
qed

lemma book_items_distinct:
  assumes ok: "book_ok bs"
  shows "distinct (map item_ref (book_items bs now oracle_px))"
proof -
  have inv: "book_inv bs (trees_of bs)" using ok by (simp add: book_ok_def)
  let ?b = "\<lambda>c. best_first (book_nodes bs) (component (trees_of bs) c)"
  have d: "distinct (map (leaf_key \<circ> snd) (?b c))" for c
    using book_slots_distinct(2) [OF ok, of c]
    by (cases "component (trees_of bs) c") (simp_all add: best_first_def dir_leaves_def book_slots_def rev_map [symmetric])
  let ?fs = "map (fixed_item now) (?b Fixed)"
  let ?ps = "map (pegged_item (book_side bs) now oracle_px) (filter (shown (book_side bs) oracle_px) (?b OraclePegged))"
  have "map item_ref ?fs = map (Pair Fixed) (map (leaf_key \<circ> snd) (?b Fixed))"
    by (auto simp: item_ref_def fixed_item_def)
  then have 1: "distinct (map item_ref ?fs)" using d [of Fixed] by (simp only: distinct_map inj_on_def) auto
  have "map item_ref ?ps = map (Pair OraclePegged) (map (leaf_key \<circ> snd) (filter (shown (book_side bs) oracle_px) (?b OraclePegged)))"
    by (auto simp: item_ref_def pegged_item_def)
  moreover have "distinct (map (leaf_key \<circ> snd) (filter (shown (book_side bs) oracle_px) (?b OraclePegged)))"
    using d [of OraclePegged] by (rule distinct_map_filter)
  ultimately have 2: "distinct (map item_ref ?ps)" by (simp only: distinct_map inj_on_def) auto
  have "distinct (map item_ref (?fs @ ?ps))" using 1 2
    by (auto simp: item_ref_def fixed_item_def pegged_item_def)
  moreover have "mset (map item_ref (book_items bs now oracle_px)) = mset (map item_ref (?fs @ ?ps))"
    by (simp add: book_items_def walk_items_def mset_merge_items multiset.map_comp)
  ultimately show ?thesis by (metis mset_eq_imp_distinct_iff)
qed

section \<open>Applying the collected changes\<close>

lemma side_lots_slots:
  assumes "book_ok bs"
  shows "side_lots bs own = (\<Sum>(h, l) \<leftarrow> book_slots c bs. order_lots own l) + (\<Sum>(h, l) \<leftarrow> book_slots (other_component c) bs. order_lots own l)"
proof -
  have "(\<Sum>l \<in> book_orders d bs. order_lots own l) = (\<Sum>(h, l) \<leftarrow> book_slots d bs. order_lots own l)" for d
  proof -
    have "distinct (map snd (book_slots d bs))"
      using book_slots_distinct(2) [OF assms, of d] by (metis distinct_map map_map)
    then have "sum (order_lots own) (set (map snd (book_slots d bs))) = sum_list (map (order_lots own) (map snd (book_slots d bs)))"
      by (rule sum.distinct_set_conv_list)
    then show ?thesis by (simp add: book_slots_orders comp_def case_prod_unfold)
  qed
  then show ?thesis by (simp add: side_lots_comp [of _ _ c])
qed

lemma sum_list_replace:
  fixes f :: "'b \<Rightarrow> int"
  assumes "distinct (map fst xs)" "(h, l) \<in> set xs"
  shows "(\<Sum>(i, x) \<leftarrow> map (\<lambda>(i, x). (i, if i = h then y else x)) xs. f x) = (\<Sum>(i, x) \<leftarrow> xs. f x) - f l + f y"
  using assms
proof (induction xs)
  case (Cons z xs)
  obtain i x where z: "z = (i, x)" by (cases z)
  show ?case
  proof (cases "i = h")
    case True
    then have nin: "h \<notin> fst ` set xs" using Cons.prems z by simp
    then have "map (\<lambda>(i, x). (i, if i = h then y else x)) xs = xs" by (intro map_idI) force
    moreover have "x = l" using Cons.prems z True nin by force
    ultimately show ?thesis using z True by simp
  next
    case False
    then have "(h, l) \<in> set xs" "distinct (map fst xs)" using Cons.prems z by auto
    then show ?thesis using Cons.IH z False by simp
  qed
qed simp

lemma apply_change_item:
  assumes ok: "book_ok bs" and i: "on_side bs i"
  shows "\<exists>bs'. apply_change bs (item_handle i, q) = Inr bs' \<and> book_ok bs' \<and> book_side bs' = book_side bs \<and>
     (\<forall>j. on_side bs j \<longrightarrow> item_handle j \<noteq> item_handle i \<longrightarrow> on_side bs' j) \<and>
     (\<forall>d. book_keys d bs' \<subseteq> book_keys d bs) \<and>
     (side_positive bs \<longrightarrow> 0 < q \<longrightarrow> side_positive bs') \<and>
     (\<forall>own. side_lots bs' own = side_lots bs own + (if leaf_owner (item_node i) = own then q - quantity (item_node i) else 0))"
proof -
  let ?h = "handle_node (item_handle i)" and ?c = "item_tree i" and ?l = "item_node i"
  have m: "(?h, ?l) \<in> set (book_slots ?c bs)" using i by (simp add: on_side_def)
  have hd: "item_handle i = \<lparr>handle_node = ?h, handle_order_tree = ?c\<rparr>" by simp
  obtain bs' where r: "apply_change bs (item_handle i, q) = Inr bs'" "book_ok bs'" "book_side bs' = book_side bs"
      "book_slots ?c bs' = map (\<lambda>(h', l'). (h', if h' = ?h then ?l\<lparr>quantity := q\<rparr> else l')) (book_slots ?c bs)"
      "book_slots (other_component ?c) bs' = book_slots (other_component ?c) bs"
    using apply_change_ok [OF ok m, of ?c q] unfolding hd [symmetric] by blast
  have "on_side bs' j" if j: "on_side bs j" "item_handle j \<noteq> item_handle i" for j
  proof (cases "item_tree j = ?c")
    case True
    with j(2) have "handle_node (item_handle j) \<noteq> ?h" by (cases "item_handle i"; cases "item_handle j") auto
    with j(1) True r(4) show ?thesis by (force simp: on_side_def)
  next
    case False
    then have "item_tree j = other_component ?c" by (cases ?c; cases "item_tree j") auto
    with j(1) r(5) show ?thesis by (simp add: on_side_def)
  qed
  moreover have "side_lots bs' own = side_lots bs own + (if leaf_owner ?l = own then q - quantity ?l else 0)" for own
    unfolding side_lots_slots [OF ok, of own ?c] side_lots_slots [OF r(2), of own ?c] r(4,5)
      sum_list_replace [OF book_slots_distinct(1) [OF ok] m]
    by (simp add: order_lots_def)
  moreover have "book_keys d bs' \<subseteq> book_keys d bs" for d
  proof -
    have "d = ?c \<or> d = other_component ?c" by (cases d; cases ?c) simp_all
    then show ?thesis using r(4,5) m by (force simp: book_keys_def book_slots_orders [symmetric] image_iff)
  qed
  moreover have "side_positive bs'" if "side_positive bs" "0 < q"
  proof -
    have "0 < quantity x" if x: "(h, x) \<in> set (book_slots d bs')" for d h x
    proof -
      have "d = ?c \<or> d = other_component ?c" by (cases d; cases ?c) simp_all
      then have "(h, x) \<in> set (book_slots d bs) \<or> x = ?l\<lparr>quantity := q\<rparr>" using x r(4,5) by (auto split: if_splits)
      then show ?thesis
        using \<open>side_positive bs\<close> \<open>0 < q\<close> by (force simp: side_positive_def book_slots_orders [symmetric])
    qed
    then show ?thesis by (auto simp: side_positive_def book_slots_orders [symmetric])
  qed
  ultimately show ?thesis using r by blast
qed

lemma apply_changes_ok:
  assumes "book_ok bs" "\<forall>(i, q) \<in> set cs. on_side bs i" "distinct (map (item_handle \<circ> fst) cs)"
  shows "\<exists>bs'. for_each apply_change bs (map (\<lambda>(i, q). (item_handle i, q)) cs) = Inr bs' \<and> book_ok bs' \<and> book_side bs' = book_side bs \<and>
     (\<forall>j. on_side bs j \<longrightarrow> item_handle j \<notin> (item_handle \<circ> fst) ` set cs \<longrightarrow> on_side bs' j) \<and>
     (\<forall>d. book_keys d bs' \<subseteq> book_keys d bs) \<and>
     (side_positive bs \<longrightarrow> (\<forall>z \<in> set cs. 0 < snd z) \<longrightarrow> side_positive bs') \<and>
     (\<forall>own. side_lots bs' own = side_lots bs own + (\<Sum>(i, q) \<leftarrow> cs. if leaf_owner (item_node i) = own then q - quantity (item_node i) else 0))"
  using assms
proof (induction cs arbitrary: bs)
  case (Cons z cs)
  obtain i q where z: "z = (i, q)" by (cases z)
  obtain bs1 where r: "apply_change bs (item_handle i, q) = Inr bs1" "book_ok bs1" "book_side bs1 = book_side bs"
      "\<forall>j. on_side bs j \<longrightarrow> item_handle j \<noteq> item_handle i \<longrightarrow> on_side bs1 j"
      "\<forall>d. book_keys d bs1 \<subseteq> book_keys d bs" "side_positive bs \<longrightarrow> 0 < q \<longrightarrow> side_positive bs1"
      "\<forall>own. side_lots bs1 own = side_lots bs own + (if leaf_owner (item_node i) = own then q - quantity (item_node i) else 0)"
    using apply_change_item [OF Cons.prems(1)] Cons.prems(2) z by fastforce
  have "item_handle i \<notin> (item_handle \<circ> fst) ` set cs" using Cons.prems(3) z by simp
  then have "item_handle j \<noteq> item_handle i" if "(j, p) \<in> set cs" for j p using that by force
  then have "\<forall>(j, p) \<in> set cs. on_side bs1 j" using Cons.prems(2) r(4) by fastforce
  moreover have "distinct (map (item_handle \<circ> fst) cs)" using Cons.prems(3) by (simp add: comp_def)
  ultimately obtain bs' where r': "for_each apply_change bs1 (map (\<lambda>(i, q). (item_handle i, q)) cs) = Inr bs'" "book_ok bs'"
      "book_side bs' = book_side bs1" "\<forall>j. on_side bs1 j \<longrightarrow> item_handle j \<notin> (item_handle \<circ> fst) ` set cs \<longrightarrow> on_side bs' j"
      "\<forall>d. book_keys d bs' \<subseteq> book_keys d bs1" "side_positive bs1 \<longrightarrow> (\<forall>z \<in> set cs. 0 < snd z) \<longrightarrow> side_positive bs'"
      "\<forall>own. side_lots bs' own = side_lots bs1 own + (\<Sum>(i, q) \<leftarrow> cs. if leaf_owner (item_node i) = own then q - quantity (item_node i) else 0)"
    using Cons.IH [OF r(2)] by blast
  have "\<forall>d. book_keys d bs' \<subseteq> book_keys d bs" using r(5) r'(5) by (blast intro: order_trans)
  then show ?case using r r' z by (intro exI [of _ bs']) auto
qed simp

text \<open>Deletion by key: the order was on the side, and the other orders stay.\<close>

definition refs_on :: "BookSide \<Rightarrow> BookSideIterItem \<Rightarrow> bool" where
  "refs_on bs i \<longleftrightarrow> book_map (item_tree i) bs (leaf_key (item_node i)) = Some (item_node i)"

lemma apply_delete_item:
  assumes ok: "book_ok bs" and i: "refs_on bs i"
  shows "\<exists>bs'. apply_delete bs (item_ref i) = Inr bs' \<and> book_ok bs' \<and> book_side bs' = book_side bs \<and>
     (\<forall>c k. book_map c bs' k = (if (c, k) = item_ref i then None else book_map c bs k)) \<and>
     (\<forall>own. side_lots bs' own = side_lots bs own - order_lots own (item_node i))"
proof -
  let ?c = "item_tree i" and ?k = "leaf_key (item_node i)"
  obtain bs' where r: "book_remove_by_key bs ?c ?k = Inr (bs', Some (item_node i))" "book_ok bs'" "book_side bs' = book_side bs"
      "book_map ?c bs' = (book_map ?c bs)(?k := None)" "book_map (other_component ?c) bs' = book_map (other_component ?c) bs"
    using book_remove_map [OF ok, of ?c ?k] i by (auto simp: refs_on_def)
  have "book_map c bs' k = (if (c, k) = item_ref i then None else book_map c bs k)" for c k
  proof (cases "c = ?c")
    case False
    then have "c = other_component ?c" by (cases c; cases ?c) auto
    with r(5) False show ?thesis by (simp add: item_ref_def)
  qed (simp add: r(4) item_ref_def)
  then show ?thesis using r side_lots_remove [OF ok r(1)] by (auto simp: apply_delete_def item_ref_def)
qed

lemma apply_deletes_ok:
  assumes "book_ok bs" "\<forall>i \<in> set ds. refs_on bs i" "distinct (map item_ref ds)"
  shows "\<exists>bs'. for_each apply_delete bs (map item_ref ds) = Inr bs' \<and> book_ok bs' \<and> book_side bs' = book_side bs \<and>
     (\<forall>c k. book_map c bs' k = (if (c, k) \<in> item_ref ` set ds then None else book_map c bs k)) \<and>
     (\<forall>own. side_lots bs' own = side_lots bs own - (\<Sum>i \<leftarrow> ds. order_lots own (item_node i)))"
  using assms
proof (induction ds arbitrary: bs)
  case (Cons i ds)
  obtain bs1 where r: "apply_delete bs (item_ref i) = Inr bs1" "book_ok bs1" "book_side bs1 = book_side bs"
      "\<forall>c k. book_map c bs1 k = (if (c, k) = item_ref i then None else book_map c bs k)"
      "\<forall>own. side_lots bs1 own = side_lots bs own - order_lots own (item_node i)"
    using apply_delete_item [OF Cons.prems(1)] Cons.prems(2) by fastforce
  have "refs_on bs1 j" if "j \<in> set ds" for j
  proof -
    have "item_ref i \<notin> set (map item_ref ds)" using Cons.prems(3) by simp
    then have "item_ref j \<noteq> item_ref i" using that by (metis image_eqI set_map)
    moreover have "refs_on bs j" using Cons.prems(2) that by simp
    ultimately show ?thesis using r(4) by (simp add: refs_on_def item_ref_def)
  qed
  moreover have "distinct (map item_ref ds)" using Cons.prems(3) by simp
  ultimately obtain bs' where r': "for_each apply_delete bs1 (map item_ref ds) = Inr bs'" "book_ok bs'" "book_side bs' = book_side bs1"
      "\<forall>c k. book_map c bs' k = (if (c, k) \<in> item_ref ` set ds then None else book_map c bs1 k)"
      "\<forall>own. side_lots bs' own = side_lots bs1 own - (\<Sum>i \<leftarrow> ds. order_lots own (item_node i))"
    using Cons.IH [OF r(2)] by blast
  show ?case
  proof (intro exI [of _ bs'] conjI allI)
    show "for_each apply_delete bs (map item_ref (i # ds)) = Inr bs'" using r(1) r'(1) by simp
    show "book_map c bs' k = (if (c, k) \<in> item_ref ` set (i # ds) then None else book_map c bs k)" for c k
      using r(4) r'(4) by (cases "(c, k) \<in> item_ref ` set ds") simp_all
    show "side_lots bs' own = side_lots bs own - (\<Sum>i \<leftarrow> i # ds. order_lots own (item_node i))" for own
      using r(5) r'(5) by simp
  qed (use r r' in simp_all)
qed simp

lemma apply_matched_ok:
  assumes ok: "book_ok bs" and on: "\<forall>i \<in> fst ` set cs \<union> set ds. on_side bs i"
    and d: "distinct (map item_ref (map fst cs @ ds))"
  shows "\<exists>bs1 bs2. for_each apply_change bs (map (\<lambda>(i, q). (item_handle i, q)) cs) = Inr bs1 \<and>
     for_each apply_delete bs1 (map item_ref ds) = Inr bs2 \<and> book_ok bs2 \<and> book_side bs2 = book_side bs \<and>
     (\<forall>i \<in> set ds. book_map (item_tree i) bs2 (leaf_key (item_node i)) = None) \<and>
     (\<forall>d. book_keys d bs2 \<subseteq> book_keys d bs) \<and>
     (side_positive bs \<longrightarrow> (\<forall>z \<in> set cs. 0 < snd z) \<longrightarrow> side_positive bs2) \<and>
     (\<forall>own. side_lots bs2 own = side_lots bs own +
        (\<Sum>(i, q) \<leftarrow> cs. if leaf_owner (item_node i) = own then q - quantity (item_node i) else 0) -
        (\<Sum>i \<leftarrow> ds. order_lots own (item_node i)))"
proof -
  have inj: "inj_on item_ref (fst ` set cs \<union> set ds)"
    using d unfolding distinct_map [of item_ref] by (simp only: set_append set_map)
  have hnd: "item_handle i = item_handle j \<longleftrightarrow> item_ref i = item_ref j" if "i \<in> fst ` set cs \<union> set ds" "j \<in> fst ` set cs \<union> set ds" for i j
    using on_side_unique [OF ok] on that by blast
  then have "inj_on item_handle (fst ` set cs)" using inj_onD [OF inj] by (intro inj_onI) blast
  moreover have "distinct (map fst cs)" using d unfolding distinct_map [of item_ref] by (simp only: distinct_append)
  ultimately have "distinct (map (item_handle \<circ> fst) cs)" by (metis distinct_map list.set_map map_map)
  moreover have "\<forall>(i, q) \<in> set cs. on_side bs i" using on by force
  ultimately obtain bs1 where 1: "for_each apply_change bs (map (\<lambda>(i, q). (item_handle i, q)) cs) = Inr bs1" "book_ok bs1"
      "book_side bs1 = book_side bs" "\<forall>j. on_side bs j \<longrightarrow> item_handle j \<notin> (item_handle \<circ> fst) ` set cs \<longrightarrow> on_side bs1 j"
      "\<forall>d. book_keys d bs1 \<subseteq> book_keys d bs" "side_positive bs \<longrightarrow> (\<forall>z \<in> set cs. 0 < snd z) \<longrightarrow> side_positive bs1"
      "\<forall>own. side_lots bs1 own = side_lots bs own + (\<Sum>(i, q) \<leftarrow> cs. if leaf_owner (item_node i) = own then q - quantity (item_node i) else 0)"
    using apply_changes_ok [OF ok] by blast
  have "refs_on bs1 i" if i: "i \<in> set ds" for i
  proof -
    have "item_ref i \<notin> item_ref ` fst ` set cs" 
    proof -
      have "item_ref ` fst ` set cs \<inter> item_ref ` set ds = {}" using d by (simp only: map_append distinct_append set_map)
      then show ?thesis using i by blast
    qed
    then have "item_handle i \<notin> item_handle ` fst ` set cs" using hnd i by blast
    then have "item_handle i \<notin> (item_handle \<circ> fst) ` set cs" unfolding image_comp [symmetric] .
    with 1(4) on i have "on_side bs1 i" by blast
    then show ?thesis using on_side_map [OF 1(2)] by (simp add: refs_on_def)
  qed
  moreover have "distinct (map item_ref ds)" using d by simp
  ultimately obtain bs2 where 2: "for_each apply_delete bs1 (map item_ref ds) = Inr bs2" "book_ok bs2" "book_side bs2 = book_side bs1"
      "\<forall>c k. book_map c bs2 k = (if (c, k) \<in> item_ref ` set ds then None else book_map c bs1 k)"
      "\<forall>own. side_lots bs2 own = side_lots bs1 own - (\<Sum>i \<leftarrow> ds. order_lots own (item_node i))"
    using apply_deletes_ok [OF 1(2)] by blast
  have "book_map (item_tree i) bs2 (leaf_key (item_node i)) = None" if "i \<in> set ds" for i
  proof -
    have "(item_tree i, leaf_key (item_node i)) \<in> item_ref ` set ds" using that by (auto simp: item_ref_def)
    then show ?thesis using 2(4) by simp
  qed
  moreover have "side_lots bs2 own = side_lots bs own +
        (\<Sum>(i, q) \<leftarrow> cs. if leaf_owner (item_node i) = own then q - quantity (item_node i) else 0) -
        (\<Sum>i \<leftarrow> ds. order_lots own (item_node i))" for own
    using 1(7) 2(5) by simp
  moreover have sub: "l \<in> book_orders c bs1" if "l \<in> book_orders c bs2" for c l
    using that 2(4) by (auto simp: book_orders_map(1) [OF 1(2)] book_orders_map(1) [OF 2(2)] split: if_splits)
  moreover have "side_positive bs2" if "side_positive bs" "\<forall>z \<in> set cs. 0 < snd z"
    using sub 1(6) that by (auto simp: side_positive_def)
  moreover have "book_keys d bs2 \<subseteq> book_keys d bs" for d
    using sub 1(5) by (fastforce simp: book_keys_def)
  moreover have "book_side bs2 = book_side bs" using 1(3) 2(3) by simp
  ultimately show ?thesis using 1(1) 2(1,2) by blast
qed

end
