(* ===== verification/Matching_Loop.thy ===== *)
theory Matching_Loop
  imports Matching_Book
begin

text \<open>
  The matching loop of \<^verbatim>\<open>new_order\<close>: what every round does, and what the whole loop has collected
  and put on the event queue when it ends.
\<close>

section \<open>One round of the loop\<close>

text \<open>What a round does with an order of the book: nothing, drop it, or fill against it.\<close>

inductive match_effect :: "fixed_ops \<Rightarrow> Order \<Rightarrow> PerpMarket \<Rightarrow> pubkey \<Rightarrow> u64 \<Rightarrow> i64 \<Rightarrow> BookSideIterItem \<Rightarrow> MatchState \<Rightarrow> MatchState \<Rightarrow> bool"
  for F order market pk now price best where
  skip: "t = None \<or> t = match_post_target st \<Longrightarrow> match_effect F order market pk now price best st (st\<lparr>match_post_target := t\<rparr>)"
| drop: "push_back_unwrap (match_event_queue st)
           (OutEv (OutEvent_from_leaf_node (invert_side (order_side order)) now (eq_seq_num (eq_header (match_event_queue st))) (item_node best))) = Inr q \<Longrightarrow>
         \<not> is_valid best \<or> leaf_owner (item_node best) = pk \<Longrightarrow>
         match_effect F order market pk now price best st
           (st\<lparr>number_of_dropped_expired_orders := n, match_event_queue := q, orders_to_delete := orders_to_delete st @ [item_ref best]\<rparr>)"
| fill: "is_valid best \<Longrightarrow> is_price_within_limit (order_side order) (price_lots best) price \<Longrightarrow> \<not> is_post_only order \<Longrightarrow>
         match_limit st = Suc l \<Longrightarrow> div_i64 (remaining_quote_lots st) (price_lots best) = Inr by_quote \<Longrightarrow> by_quote \<noteq> 0 \<Longrightarrow>
         m = min (min (remaining_base_lots st) (quantity (item_node best))) by_quote \<Longrightarrow>
         remaining_base_lots st \<noteq> 0 \<Longrightarrow> remaining_quote_lots st - m * price_lots best \<ge> 0 \<Longrightarrow>
         self = (leaf_owner (item_node best) = pk) \<Longrightarrow>
         f = FillEvent_new F (order_side order) (quantity (item_node best) = m) (owner_slot (item_node best)) now
               (eq_seq_num (eq_header (match_event_queue st))) (leaf_owner (item_node best)) (leaf_key (item_node best))
               (leaf_client_order_id (item_node best)) (if self then 0 else maker_fee market) (timestamp (item_node best)) pk
               (order_client_order_id order) (if self then 0 else taker_fee market) (price_lots best) m \<Longrightarrow>
         push_back_unwrap (match_event_queue st) (FillEv f) = Inr q \<Longrightarrow>
         dq = (if self then decremented_quote_lots st + m * price_lots best else decremented_quote_lots st) \<Longrightarrow>
         match_effect F order market pk now price best st
           (st\<lparr>decremented_quote_lots := dq, decremented_base_lots := db,
               remaining_base_lots := remaining_base_lots st - m, remaining_quote_lots := remaining_quote_lots st - m * price_lots best,
               orders_to_change := (if quantity (item_node best) = m then orders_to_change st
                                    else orders_to_change st @ [(item_handle best, quantity (item_node best) - m)]),
               orders_to_delete := (if quantity (item_node best) = m then orders_to_delete st @ [item_ref best] else orders_to_delete st),
               match_limit := l, match_event_queue := q\<rparr>)"

lemma match_drop_effect:
  assumes "match_drop (invert_side (order_side order)) now best (st\<lparr>number_of_dropped_expired_orders := n\<rparr>) = Inr st'"
    and "\<not> is_valid best \<or> leaf_owner (item_node best) = pk"
  shows "match_effect F order market pk now price best st st'"
  using assms match_effect.drop [of st order now best _ pk F market price n]
  by (auto simp: match_drop_def Let_def rbind_eq_Inr item_ref_def)

lemma match_fill_effect:
  assumes f: "match_fill F order market pk now best self m (m * price_lots best) (st\<lparr>decremented_quote_lots := dq, decremented_base_lots := db\<rparr>) = Inr st'"
    and "is_valid best" "is_price_within_limit (order_side order) (price_lots best) price" "\<not> is_post_only order"
    and "div_i64 (remaining_quote_lots st) (price_lots best) = Inr by_quote" "by_quote \<noteq> 0"
    and "m = min (min (remaining_base_lots st) (quantity (item_node best))) by_quote" "remaining_base_lots st \<noteq> 0"
    and "self = (leaf_owner (item_node best) = pk)"
    and "dq = (if self then decremented_quote_lots st + m * price_lots best else decremented_quote_lots st)"
  shows "match_effect F order market pk now price best st st'"
proof -
  let ?f = "FillEvent_new F (order_side order) (quantity (item_node best) = m) (owner_slot (item_node best)) now
               (eq_seq_num (eq_header (match_event_queue st))) (leaf_owner (item_node best)) (leaf_key (item_node best))
               (leaf_client_order_id (item_node best)) (if self then 0 else maker_fee market) (timestamp (item_node best)) pk
               (order_client_order_id order) (if self then 0 else taker_fee market) (price_lots best) m"
  have zero: "(quantity (item_node best) - m = 0) = (quantity (item_node best) = m)" by auto
  obtain q l where q: "push_back_unwrap (match_event_queue st) (FillEv ?f) = Inr q"
      "sub_unsigned (match_limit st) 1 = Inr l" "remaining_quote_lots st - m * price_lots best \<ge> 0"
      "st' = st\<lparr>decremented_quote_lots := dq, decremented_base_lots := db,
               remaining_base_lots := remaining_base_lots st - m, remaining_quote_lots := remaining_quote_lots st - m * price_lots best,
               orders_to_change := (if quantity (item_node best) = m then orders_to_change st
                                    else orders_to_change st @ [(item_handle best, quantity (item_node best) - m)]),
               orders_to_delete := (if quantity (item_node best) = m then orders_to_delete st @ [item_ref best] else orders_to_delete st),
               match_limit := l, match_event_queue := q\<rparr>"
    using f unfolding match_fill_def Let_def zero
    by (elim rbind_InrE) (simp add: require_eq_Inr item_ref_def zero split: if_splits)
  have "match_limit st = Suc l" using q(2) by (auto simp: sub_unsigned_def split: if_splits)
  show ?thesis unfolding q(4) using assms(2-) q(1,3) \<open>match_limit st = Suc l\<close>
    by (intro match_effect.fill [where f = ?f and self = self]) simp_all
qed

lemma match_step_trade:
  assumes s: "match_step F order market pk now price best st = Inr r"
    and c: "\<not> (remaining_base_lots st = 0 \<or> remaining_quote_lots st = 0)" "is_valid best"
      "is_price_within_limit (order_side order) (price_lots best) price \<and> \<not> is_post_only order \<and> match_limit st \<noteq> 0"
  shows "r = Inr st \<or> (\<exists>st'. r = Inl st' \<and> match_effect F order market pk now price best st st')"
proof -
  from s c obtain d where d: "div_i64 (remaining_quote_lots st) (price_lots best) = Inr d"
    by (auto simp: match_step_def Let_def rbind_eq_Inr)
  let ?m = "min (min (remaining_base_lots st) (quantity (item_node best))) d"
  show ?thesis
  proof (cases "d = 0")
    case True
    then show ?thesis using s c d by (simp add: match_step_def)
  next
    case nz: False
    show ?thesis
    proof (cases "pk = leaf_owner (item_node best)")
      case False
      then obtain st' where "r = Inl st'" "match_fill F order market pk now best False ?m (?m * price_lots best) st = Inr st'"
        using s c d nz by (auto simp: match_step_def Let_def rbind_eq_Inr)
      then show ?thesis
        using match_fill_effect [where self = False and m = ?m and st = st and dq = "decremented_quote_lots st"
            and db = "decremented_base_lots st" and st' = st' and by_quote = d] c d nz False by auto
    next
      case True
      have st: "st\<lparr>number_of_dropped_expired_orders := number_of_dropped_expired_orders st\<rparr> = st" by simp
      show ?thesis
      proof (cases "self_trade_behavior order")
        case DecrementTake
        then obtain st' db where "r = Inl st'" "match_fill F order market pk now best True ?m (?m * price_lots best)
            (st\<lparr>decremented_quote_lots := decremented_quote_lots st + ?m * price_lots best, decremented_base_lots := db\<rparr>) = Inr st'"
          using s c d nz True by (auto simp: match_step_def Let_def rbind_eq_Inr)
        then show ?thesis using match_fill_effect [where self = True and m = ?m and st = st and db = db and st' = st' and by_quote = d] c d nz True by auto
      next
        case CancelProvide
        then obtain st' where "r = Inl st'" "match_drop (invert_side (order_side order)) now best st = Inr st'"
          using s c d nz True by (auto simp: match_step_def Let_def rbind_eq_Inr)
        then show ?thesis using match_drop_effect [where st = st and n = "number_of_dropped_expired_orders st"] True st by auto
      next
        case AbortTransaction
        then show ?thesis using s c d nz True by (auto simp: match_step_def Let_def rbind_eq_Inr)
      qed
    qed
  qed
qed

lemma match_step_effect:
  assumes s: "match_step F order market pk now price best st = Inr r"
  obtains st' where "r = Inl st' \<or> r = Inr st'" "match_effect F order market pk now price best st st'"
proof -
  have self: "match_effect F order market pk now price best st st"
    and skip: "match_effect F order market pk now price best st (st\<lparr>match_post_target := None\<rparr>)"
    using match_effect.skip [of "match_post_target st" st F] match_effect.skip [of None st F] by simp_all
  show thesis
  proof (cases "remaining_base_lots st = 0 \<or> remaining_quote_lots st = 0")
    case True
    then have "r = Inr st" using s by (auto simp: match_step_def Let_def)
    then show thesis using self that by blast
  next
    case ne: False
    show thesis
    proof (cases "is_valid best")
      case False
      show thesis
      proof (cases "number_of_dropped_expired_orders st < DROP_EXPIRED_ORDER_LIMIT")
        case True
        then obtain st' where "r = Inl st'"
            "match_drop (invert_side (order_side order)) now best (st\<lparr>number_of_dropped_expired_orders := number_of_dropped_expired_orders st + 1\<rparr>) = Inr st'"
          using s ne False by (auto simp: match_step_def Let_def rbind_eq_Inr)
        then show thesis using match_drop_effect False that by blast
      next
        case F2: False
        then have "r = Inl st" using s ne False by (simp add: match_step_def)
        then show thesis using self that by blast
      qed
    next
      case valid: True
      show thesis
      proof (cases "is_price_within_limit (order_side order) (price_lots best) price \<and> \<not> is_post_only order \<and> match_limit st \<noteq> 0")
        case False
        then have "r = Inr st \<or> r = Inr (st\<lparr>match_post_target := None\<rparr>)"
          using s ne valid by (auto simp: match_step_def Let_def split: if_splits)
        then show thesis using self skip that by blast
      next
        case True
        then show thesis using match_step_trade [OF s] ne valid self that by blast
      qed
    qed
  qed
qed

section \<open>Lots on the event queue\<close>

text \<open>The lots of an owner on a side that an event has taken from the book and that its
  consumption will take from the owner's position.\<close>

fun event_lots :: "pubkey \<Rightarrow> Side \<Rightarrow> AnyEvent \<Rightarrow> int" where
  "event_lots own s (FillEv f) = (if maker f = own \<and> taker_side f = invert_side s then fill_quantity f else 0)"
| "event_lots own s (OutEv e) = (if out_owner e = own \<and> out_side e = s then out_quantity e else 0)"
| "event_lots own s (OtherEv n) = 0"

definition queue_lots :: "EventQueue \<Rightarrow> pubkey \<Rightarrow> Side \<Rightarrow> int" where
  "queue_lots q own s = (\<Sum>e \<leftarrow> eq_events q. event_lots own s e)"

fun event_base :: "AnyEvent \<Rightarrow> int" where
  "event_base (FillEv f) = fill_quantity f"
| "event_base (OutEv e) = 0"
| "event_base (OtherEv n) = 0"

fun event_quote :: "AnyEvent \<Rightarrow> int" where
  "event_quote (FillEv f) = fill_quantity f * fill_price f"
| "event_quote (OutEv e) = 0"
| "event_quote (OtherEv n) = 0"

fun is_fill :: "AnyEvent \<Rightarrow> bool" where
  "is_fill (FillEv f) = True"
| "is_fill (OutEv e) = False"
| "is_fill (OtherEv n) = False"

text \<open>A fill is a trade of the taker with an order of the book at that order's price.\<close>

fun good_fill :: "Order \<Rightarrow> pubkey \<Rightarrow> i64 \<Rightarrow> BookSideIterItem list \<Rightarrow> AnyEvent \<Rightarrow> bool" where
  "good_fill order pk price items (FillEv f) \<longleftrightarrow>
     taker_side f = order_side order \<and> taker f = pk \<and> is_price_within_limit (order_side order) (fill_price f) price \<and> 0 < fill_quantity f \<and>
     \<not> is_post_only order \<and>
     (\<exists>i \<in> set items. is_valid i \<and> maker f = leaf_owner (item_node i) \<and> maker_order_id f = leaf_key (item_node i) \<and>
        fill_price f = price_lots i \<and> fill_quantity f \<le> quantity (item_node i))"
| "good_fill order pk price items (OutEv e) \<longleftrightarrow>
     out_side e = invert_side (order_side order) \<and> 0 < out_quantity e \<and>
     (\<exists>i \<in> set items. out_owner e = leaf_owner (item_node i) \<and> out_order_id e = leaf_key (item_node i) \<and>
        out_quantity e = quantity (item_node i) \<and> (\<not> is_valid i \<or> out_owner e = pk))"
| "good_fill order pk price items (OtherEv n) \<longleftrightarrow> False"

lemma good_fill_mono: "good_fill order pk price xs e \<Longrightarrow> set xs \<subseteq> set ys \<Longrightarrow> good_fill order pk price ys e"
  by (cases e) (auto; blast)+

lemma push_back_unwrap_events:
  assumes "event_queue_ok q" "push_back_unwrap q e = Inr q'"
  shows "event_queue_ok q'" "eq_events q' = eq_events q @ [e]"
proof -
  have "\<not> eq_full q" using assms push_back_full [of q e] by auto
  moreover have "eq_seq_num (eq_header q) < u64_MAX"
    using assms(2) \<open>\<not> eq_full q\<close>
    by (auto simp: push_back_unwrap_def push_back_def incr_event_id_def chk_u64_def Let_def rbind_eq_Inr split: if_splits)
  ultimately show "event_queue_ok q'" "eq_events q' = eq_events q @ [e]"
    using push_back_events [OF assms(1), of e] assms(2) by auto
qed

section \<open>What the loop has done\<close>

definition item_change :: "pubkey \<Rightarrow> BookSideIterItem \<times> i64 \<Rightarrow> int" where
  "item_change own z = (case z of (i, q) \<Rightarrow> if leaf_owner (item_node i) = own then q - quantity (item_node i) else 0)"

text \<open>After the orders \<open>xs\<close>: \<open>cs\<close> are to be changed, \<open>ds\<close> to be deleted, and \<open>evs\<close> are new events.\<close>

record Matched =
  changed :: "(BookSideIterItem \<times> i64) list"
  deleted :: "BookSideIterItem list"
  new_events :: "AnyEvent list"

definition matched :: "Order \<Rightarrow> pubkey \<Rightarrow> i64 \<Rightarrow> MatchState \<Rightarrow> BookSideIterItem list \<Rightarrow> Matched \<Rightarrow> MatchState \<Rightarrow> bool" where
  "matched order pk price st0 xs M st \<longleftrightarrow>
     orders_to_change st = map (\<lambda>(i, q). (item_handle i, q)) (changed M) \<and> orders_to_delete st = map item_ref (deleted M) \<and>
     distinct (map item_ref (map fst (changed M) @ deleted M)) \<and> fst ` set (changed M) \<union> set (deleted M) \<subseteq> set xs \<and>
     event_queue_ok (match_event_queue st) \<and>
     eq_events (match_event_queue st) = eq_events (match_event_queue st0) @ new_events M \<and>
     (\<forall>e \<in> set (new_events M). good_fill order pk price xs e) \<and>
     (\<forall>own. (\<Sum>z \<leftarrow> changed M. item_change own z) - (\<Sum>i \<leftarrow> deleted M. order_lots own (item_node i)) =
              - (\<Sum>e \<leftarrow> new_events M. event_lots own (invert_side (order_side order)) e)) \<and>
     (\<forall>z \<in> set (changed M). 0 < snd z) \<and>
     remaining_base_lots st = remaining_base_lots st0 - (\<Sum>e \<leftarrow> new_events M. event_base e) \<and>
     remaining_quote_lots st = remaining_quote_lots st0 - (\<Sum>e \<leftarrow> new_events M. event_quote e) \<and>
     0 \<le> remaining_base_lots st \<and> 0 \<le> remaining_quote_lots st \<and>
     (match_post_target st = None \<or> match_post_target st = match_post_target st0) \<and>
     match_limit st + length (filter is_fill (new_events M)) = match_limit st0"

lemma matched_mono:
  assumes "matched order pk price st0 xs M st" "set xs \<subseteq> set ys"
  shows "matched order pk price st0 ys M st"
proof -
  have "\<forall>e \<in> set (new_events M). good_fill order pk price ys e"
    using assms good_fill_mono [OF _ assms(2)] unfolding matched_def by blast
  then show ?thesis using assms unfolding matched_def by (simp add: subset_iff)
qed

lemma matched_skip:
  "matched order pk price st0 xs M st \<Longrightarrow> t = None \<or> t = match_post_target st \<Longrightarrow>
     matched order pk price st0 xs M (st\<lparr>match_post_target := t\<rparr>)"
  by (auto simp: matched_def)

lemma matched_start:
  assumes "event_queue_ok (match_event_queue st)" "orders_to_change st = []" "orders_to_delete st = []"
    "0 \<le> remaining_base_lots st" "0 \<le> remaining_quote_lots st"
  shows "matched order pk price st [] \<lparr>changed = [], deleted = [], new_events = []\<rparr> st"
  using assms by (simp add: matched_def)

lemma fresh_ref:
  assumes "fst ` set cs \<union> set ds \<subseteq> set xs" "item_ref i \<notin> item_ref ` set xs"
  shows "item_ref i \<notin> set (map item_ref (map fst cs @ ds))"
  using assms by (auto simp: image_iff)

lemma matched_drop:
  assumes m: "matched order pk price st0 xs M st" and i: "item_ref i \<notin> item_ref ` set xs"
    and q: "push_back_unwrap (match_event_queue st) (OutEv (OutEvent_from_leaf_node (invert_side (order_side order)) now seq (item_node i))) = Inr q"
    and c: "\<not> is_valid i \<or> leaf_owner (item_node i) = pk" and pos: "0 < quantity (item_node i)"
  shows "\<exists>M'. matched order pk price st0 (xs @ [i]) M'
     (st\<lparr>number_of_dropped_expired_orders := n, match_event_queue := q, orders_to_delete := orders_to_delete st @ [item_ref i]\<rparr>)"
proof -
  let ?e = "OutEv (OutEvent_from_leaf_node (invert_side (order_side order)) now seq (item_node i))"
  let ?M = "M\<lparr>deleted := deleted M @ [i], new_events := new_events M @ [?e]\<rparr>"
  have m': "matched order pk price st0 (xs @ [i]) M st" by (rule matched_mono [OF m]) auto
  have "fst ` set (changed M) \<union> set (deleted M) \<subseteq> set xs" using m by (simp add: matched_def)
  note fresh = fresh_ref [OF this i]
  have qe: "event_queue_ok q" "eq_events q = eq_events (match_event_queue st) @ [?e]"
    using push_back_unwrap_events [OF _ q] m by (simp_all add: matched_def)
  have g: "good_fill order pk price (xs @ [i]) ?e" using c pos by (auto simp: OutEvent_from_leaf_node_def)
  have l: "event_lots own (invert_side (order_side order)) ?e = order_lots own (item_node i)" for own
    by (simp add: OutEvent_from_leaf_node_def order_lots_def)
  show ?thesis
    by (rule exI [of _ ?M], use m' fresh qe g l in \<open>simp add: matched_def\<close>)
qed

lemma div_i64_nonneg: "div_i64 a b = Inr d \<Longrightarrow> 0 \<le> a \<Longrightarrow> 0 < b \<Longrightarrow> d = a div b"
  by (cases "a = 0") (auto simp: div_i64_def sgn_if split: if_splits)

lemma match_size:
  fixes rb rq p qty' :: int
  assumes "div_i64 rq p = Inr d" "d \<noteq> 0" "m = min (min rb qty') d" "rb \<noteq> 0" "0 \<le> rb" "0 \<le> rq" "1 \<le> p" "0 < qty'"
  shows "0 < m" "m \<le> rb" "m \<le> qty'" "m * p \<le> rq"
proof -
  have d: "d = rq div p" using div_i64_nonneg assms by simp
  then have "0 < d" using assms by (simp add: order.strict_iff_order pos_imp_zdiv_nonneg_iff)
  with assms show "0 < m" "m \<le> rb" "m \<le> qty'" by auto
  have "m * p \<le> d * p" using assms by (intro mult_right_mono) auto
  also have "\<dots> \<le> rq" unfolding d using assms(7) div_bounds [of p rq] by (simp add: algebra_simps)
  finally show "m * p \<le> rq" .
qed

lemma matched_fill:
  assumes m: "matched order pk price st0 xs M st" and i: "item_ref i \<notin> item_ref ` set xs"
    and pos: "0 < quantity (item_node i)" "1 \<le> price_lots i"
    and c: "is_valid i" "is_price_within_limit (order_side order) (price_lots i) price" "\<not> is_post_only order"
      "match_limit st = Suc l" "remaining_base_lots st \<noteq> 0"
    and d: "div_i64 (remaining_quote_lots st) (price_lots i) = Inr d" "d \<noteq> 0" "k = min (min (remaining_base_lots st) (quantity (item_node i))) d"
    and f: "taker_side f = order_side order" "taker f = pk" "maker f = leaf_owner (item_node i)" "maker_order_id f = leaf_key (item_node i)"
      "fill_price f = price_lots i" "fill_quantity f = k"
    and q: "push_back_unwrap (match_event_queue st) (FillEv f) = Inr q"
  shows "\<exists>M'. matched order pk price st0 (xs @ [i]) M'
     (st\<lparr>decremented_quote_lots := dq, decremented_base_lots := db,
         remaining_base_lots := remaining_base_lots st - k, remaining_quote_lots := remaining_quote_lots st - k * price_lots i,
         orders_to_change := (if quantity (item_node i) = k then orders_to_change st
                              else orders_to_change st @ [(item_handle i, quantity (item_node i) - k)]),
         orders_to_delete := (if quantity (item_node i) = k then orders_to_delete st @ [item_ref i] else orders_to_delete st),
         match_limit := l, match_event_queue := q\<rparr>)"
proof -
  have m': "matched order pk price st0 (xs @ [i]) M st" by (rule matched_mono [OF m]) auto
  have "fst ` set (changed M) \<union> set (deleted M) \<subseteq> set xs" using m by (simp add: matched_def)
  note fresh = fresh_ref [OF this i]
  have qe: "event_queue_ok q" "eq_events q = eq_events (match_event_queue st) @ [FillEv f]"
    using push_back_unwrap_events [OF _ q] m by (simp_all add: matched_def)
  have "0 \<le> remaining_base_lots st" "0 \<le> remaining_quote_lots st" using m by (simp_all add: matched_def)
  note sz = match_size [OF d(1,2,3) c(5) this pos(2,1)]
  have g: "good_fill order pk price (xs @ [i]) (FillEv f)" using c f sz by auto
  have l: "event_lots own (invert_side (order_side order)) (FillEv f) = (if leaf_owner (item_node i) = own then k else 0)" for own
    by (simp add: f)
  let ?out = "quantity (item_node i) = k"
  let ?M = "\<lparr>changed = (if ?out then changed M else changed M @ [(i, quantity (item_node i) - k)]),
             deleted = (if ?out then deleted M @ [i] else deleted M), new_events = new_events M @ [FillEv f]\<rparr>"
  show ?thesis
    by (rule exI [of _ ?M], cases ?out)
      (use m' fresh qe g l sz c(4) f in \<open>simp add: matched_def item_change_def order_lots_def algebra_simps\<close>)+
qed

section \<open>The whole loop\<close>

lemma book_items_price:
  assumes "book_ok bs" "i \<in> set (book_items bs now oracle_px)"
  shows "1 \<le> price_lots i"
  using assms(2)
proof (cases rule: book_items_cases)
  case (1 x)
  have "book_inv bs (trees_of bs)" using assms(1) by (simp add: book_ok_def)
  then have "fixed_ok (snd x)" using 1(2) by (simp add: book_inv_def book_orders_def)
  with 1(1) show ?thesis by (simp add: fixed_item_def fixed_ok_def split_beta)
next
  case (2 x)
  then show ?thesis using shown_price [of "book_side bs" oracle_px x] by (auto simp: pegged_item_def split_beta)
qed

lemma book_items_quantity:
  assumes "side_positive bs" "i \<in> set (book_items bs now oracle_px)"
  shows "0 < quantity (item_node i)"
proof -
  have "item_node i \<in> book_orders (item_tree i) bs"
    using book_items_on_side [OF assms(2)] book_slots_orders [of "item_tree i" bs] by (force simp: on_side_def)
  then show ?thesis using assms(1) by (simp add: side_positive_def)
qed

lemma matched_effect:
  assumes e: "match_effect F order market pk now price i st st'" and m: "matched order pk price st0 xs M st"
    and i: "item_ref i \<notin> item_ref ` set xs" and pos: "0 < quantity (item_node i)" "1 \<le> price_lots i"
  shows "\<exists>M'. matched order pk price st0 (xs @ [i]) M' st'"
  using e
proof cases
  case (skip t)
  have "matched order pk price st0 (xs @ [i]) M st" by (rule matched_mono [OF m]) auto
  then show ?thesis using matched_skip [OF _ skip(2)] skip(1) by blast
next
  case (drop q n)
  show ?thesis unfolding drop(1) by (rule matched_drop [OF m i drop(2,3) pos(1)])
next
  case (fill l d k self f q dq db)
  show ?thesis unfolding fill(1)
    by (rule matched_fill [OF m i pos fill(2,3,4,5) fill(9) fill(6,7,8) _ _ _ _ _ _ fill(13)]) (simp_all add: fill(12) FillEvent_new_def)
qed

lemma matched_loop:
  assumes "for_list (match_step F order market pk now price) ys st = Inr r" "matched order pk price st0 xs M st"
    and "distinct (map item_ref (xs @ ys))" "\<forall>i \<in> set ys. 0 < quantity (item_node i) \<and> 1 \<le> price_lots i"
  shows "\<exists>M'. matched order pk price st0 (xs @ ys) M' (case r of Inl s \<Rightarrow> s | Inr s \<Rightarrow> s)"
  using assms
proof (induction ys arbitrary: xs M st)
  case (Cons i ys)
  obtain r1 where r1: "match_step F order market pk now price i st = Inr r1"
      "(case r1 of Inl s' \<Rightarrow> for_list (match_step F order market pk now price) ys s' | Inr v \<Rightarrow> Inr (Inr v)) = Inr r"
    using Cons.prems(1) by (auto simp: rbind_eq_Inr)
  obtain st' where st': "r1 = Inl st' \<or> r1 = Inr st'" "match_effect F order market pk now price i st st'"
    using match_step_effect [OF r1(1)] by blast
  have "item_ref i \<notin> item_ref ` set xs" using Cons.prems(3) by auto
  then obtain M1 where M1: "matched order pk price st0 (xs @ [i]) M1 st'"
    using matched_effect [OF st'(2) Cons.prems(2)] Cons.prems(4) by auto
  show ?case
  proof (cases r1)
    case (Inl s)
    then have "\<exists>M'. matched order pk price st0 ((xs @ [i]) @ ys) M' (case r of Inl s \<Rightarrow> s | Inr s \<Rightarrow> s)"
      using r1(2) st'(1) M1 Cons.prems(3,4) by (intro Cons.IH [of st' "xs @ [i]" M1]) auto
    then show ?thesis by simp
  next
    case (Inr s)
    then have "r = Inr st'" using r1(2) st'(1) by auto
    then show ?thesis using matched_mono [OF M1, of "xs @ i # ys"] by auto
  qed
qed auto

lemma match_order_matched:
  assumes ok: "book_ok bs" "side_positive bs" and r: "match_order F bs order market pk now oracle_px price st = Inr st'"
    and st: "event_queue_ok (match_event_queue st)" "orders_to_change st = []" "orders_to_delete st = []"
      "0 \<le> remaining_base_lots st" "0 \<le> remaining_quote_lots st"
  shows "\<exists>M. matched order pk price st (book_items bs now oracle_px) M st'"
proof -
  obtain it where it: "BookSideIter_new bs now oracle_px = Inr it" "book_rest it (book_items bs now oracle_px)"
      "length (book_items bs now oracle_px) < iter_fuel it"
    using BookSideIter_new_ok [OF ok(1)] by blast
  obtain x where x: "for_list (match_step F order market pk now price) (book_items bs now oracle_px) st = Inr x"
      "st' = (case x of Inl s \<Rightarrow> s | Inr s \<Rightarrow> s)"
    using r it(1) by (auto simp: match_order_def book_iter.for_loop_eq [OF it(2,3)] rbind_eq_Inr)
  show ?thesis
    using matched_loop [OF x(1) matched_start [OF st]] book_items_distinct [OF ok(1)]
      book_items_price [OF ok(1)] book_items_quantity [OF ok(2)] x(2) by auto
qed

end
