(* ===== verification/New_Order.thy ===== *)
theory New_Order
  imports Matching_Loop
begin

text \<open>
  A whole new order: posting and the fees, and the lots that every owner has on the book and on
  the event queue. Whatever leaves the book goes to the queue as a fill or an out event, and
  whatever is posted is added to the account's open lots.
\<close>

section \<open>Taking one order off a side\<close>

definition order_removed :: "BookSide \<Rightarrow> BookSideOrderTree \<Rightarrow> LeafNode \<Rightarrow> BookSide \<Rightarrow> bool" where
  "order_removed bs c l bs' \<longleftrightarrow>
     book_ok bs' \<and> book_side bs' = book_side bs \<and> l \<in> book_orders c bs \<and> book_orders c bs' = book_orders c bs - {l} \<and>
     book_orders (other_component c) bs' = book_orders (other_component c) bs"

lemma order_removedI:
  assumes ok: "book_ok bs" and inv: "book_inv bs' (component_upd c to' (trees_of bs))" "book_side bs' = book_side bs"
    and l: "l \<in> book_orders c bs" and o: "orders to' = {x \<in> book_orders c bs. leaf_key x \<noteq> leaf_key l}"
  shows "order_removed bs c l bs'"
proof -
  have t: "trees_of bs' = component_upd c to' (trees_of bs)" using book_inv_trees [OF inv(1)] .
  have "x = l" if "x \<in> book_orders c bs" "leaf_key x = leaf_key l" for x
    using that l book_orders_map(1) [OF ok] by (metis option.inject)
  then have "{x \<in> book_orders c bs. leaf_key x \<noteq> leaf_key l} = book_orders c bs - {l}" by auto
  then show ?thesis using book_inv_ok [OF inv(1)] inv(2) l o t by (simp add: order_removed_def book_orders_def)
qed

lemma order_removed_facts:
  assumes "order_removed bs c l bs'"
  shows "book_ok bs'" "book_side bs' = book_side bs" "side_lots bs' own = side_lots bs own - order_lots own l"
    "book_orders d bs' \<subseteq> book_orders d bs"
proof -
  note r = assms [unfolded order_removed_def]
  show "book_ok bs'" "book_side bs' = book_side bs" using r by simp_all
  show "side_lots bs' own = side_lots bs own - order_lots own l"
    using r by (simp add: side_lots_comp [of _ _ c] sum_diff1)
  have "d = c \<or> d = other_component c" by (cases c; cases d) simp_all
  then show "book_orders d bs' \<subseteq> book_orders d bs" using r by auto
qed

lemma remove_one_expired_cases:
  assumes ok: "book_ok bs" and r: "book_remove_one_expired bs c now = Inr (bs', n)"
  shows "(n = None \<and> bs' = bs) \<or> (\<exists>d l. n = Some l \<and> order_removed bs d l bs')"
proof -
  have inv: "book_inv bs (trees_of bs)" using ok by (simp add: book_ok_def)
  have *: "order_removed bs d l b" if "expired_removed bs (trees_of bs) d now b l" for d l b
  proof -
    have "l \<in> book_orders d bs"
      using that order_map_eq [OF book_inv_crit [OF inv, of d]] by (auto simp: expired_removed_def book_orders_def)
    then show ?thesis using that order_removedI [OF ok, of b d] by (auto simp: expired_removed_def book_orders_def)
  qed
  from book_remove_one_expired_ok [OF inv, of c now] r * show ?thesis by (fastforce intro: *)
qed

lemma remove_worst_cases:
  assumes ok: "book_ok bs" and r: "book_remove_worst bs now px = Inr (bs', Some (l, p))"
  shows "\<exists>d. order_removed bs d l bs'"
proof -
  have inv: "book_inv bs (trees_of bs)" using ok by (simp add: book_ok_def)
  obtain c to' where "l \<in> orders (component (trees_of bs) c)" "book_inv bs' (component_upd c to' (trees_of bs))"
      "book_side bs' = book_side bs" "orders to' = {x \<in> orders (component (trees_of bs) c). leaf_key x \<noteq> leaf_key l}"
    using book_remove_worst_ok [OF inv, of now px] r by (auto split: if_splits)
  then show ?thesis using order_removedI [OF ok, of bs' c to' l] by (auto simp: book_orders_def)
qed

section \<open>Posting\<close>

text \<open>The events of dropped orders of a side.\<close>

definition out_events :: "Side \<Rightarrow> AnyEvent list \<Rightarrow> bool" where
  "out_events s evs \<longleftrightarrow> (\<forall>e \<in> set evs. \<exists>o'. e = OutEv o' \<and> out_side o' = s \<and> 0 < out_quantity o')"

lemma out_events_lots:
  "out_events s evs \<Longrightarrow> s' \<noteq> s \<Longrightarrow> (\<Sum>e \<leftarrow> evs. event_lots own s' e) = 0"
  by (induction evs) (auto simp: out_events_def)

lemma push_out_events:
  assumes "event_queue_ok q" "push_out q side now l = Inr q'" "0 < quantity l"
  shows "\<exists>e. event_queue_ok q' \<and> eq_events q' = eq_events q @ [e] \<and> out_events side [e] \<and>
           (\<forall>own. event_lots own side e = order_lots own l)"
  using push_back_unwrap_events [OF assms(1)] assms(2,3)
  by (auto simp: push_out_def out_events_def OutEvent_from_leaf_node_def order_lots_def)

text \<open>What dropping orders of a side does to it and to the queue.\<close>

definition side_dropped :: "Side \<Rightarrow> BookSide \<Rightarrow> EventQueue \<Rightarrow> BookSide \<Rightarrow> EventQueue \<Rightarrow> bool" where
  "side_dropped side bs q bs' q' \<longleftrightarrow>
     book_ok bs' \<and> book_side bs' = book_side bs \<and> event_queue_ok q' \<and> (\<forall>d. book_orders d bs' \<subseteq> book_orders d bs) \<and>
     (\<exists>evs. eq_events q' = eq_events q @ evs \<and> out_events side evs \<and>
        (\<forall>own. side_lots bs' own + (\<Sum>e \<leftarrow> evs. event_lots own side e) = side_lots bs own))"

lemma side_dropped_refl: "book_ok bs \<Longrightarrow> event_queue_ok q \<Longrightarrow> side_dropped side bs q bs q"
  by (auto simp: side_dropped_def out_events_def)

lemma side_dropped_step:
  assumes d: "side_dropped side bs q bs1 q1" and r: "order_removed bs1 c l bs2" and p: "push_out q1 side now l = Inr q2"
    and pos: "side_positive bs"
  shows "side_dropped side bs q bs2 q2"
proof -
  obtain evs where e: "eq_events q1 = eq_events q @ evs" "out_events side evs"
      "\<forall>own. side_lots bs1 own + (\<Sum>e \<leftarrow> evs. event_lots own side e) = side_lots bs own"
    and ok: "book_side bs1 = book_side bs" "event_queue_ok q1" "\<forall>d. book_orders d bs1 \<subseteq> book_orders d bs"
    using d unfolding side_dropped_def by blast
  have "l \<in> book_orders c bs" using r ok(3) by (auto simp: order_removed_def)
  then have "0 < quantity l" using pos by (simp add: side_positive_def)
  then obtain e2 where e2: "event_queue_ok q2" "eq_events q2 = eq_events q1 @ [e2]" "out_events side [e2]"
      "\<forall>own. event_lots own side e2 = order_lots own l"
    using push_out_events [OF ok(2) p] by blast
  note f = order_removed_facts [OF r]
  have "eq_events q2 = eq_events q @ evs @ [e2] \<and> out_events side (evs @ [e2]) \<and>
      (\<forall>own. side_lots bs2 own + (\<Sum>e \<leftarrow> evs @ [e2]. event_lots own side e) = side_lots bs own)"
    using e e2 f(3) by (auto simp: out_events_def)
  moreover have "\<forall>d. book_orders d bs2 \<subseteq> book_orders d bs" using f(4) ok(3) by blast
  ultimately show ?thesis unfolding side_dropped_def using f(1,2) ok(1) e2(1) by auto
qed

lemma make_room_dropped:
  assumes ok: "book_ok bs" "event_queue_ok q" and r: "make_room bs q side c now px price = Inr (bs', q')" and pos: "side_positive bs"
  shows "side_dropped side bs q bs' q'"
proof -
  obtain bs1 n q1 where 1: "book_remove_one_expired bs c now = Inr (bs1, n)"
      "(case n of Some l \<Rightarrow> push_out q side now l | None \<Rightarrow> Inr q) = Inr q1"
      "if book_is_full bs1 then \<exists>l p. book_remove_worst bs1 now px = Inr (bs', Some (l, p)) \<and> push_out q1 side now l = Inr q'
       else bs' = bs1 \<and> q' = q1"
    using r unfolding make_room_def by (elim rbind_InrE) (auto simp: rbind_eq_Inr unwrap_eq_Inr split: if_splits)
  have d1: "side_dropped side bs q bs1 q1"
    using remove_one_expired_cases [OF ok(1) 1(1)] 1(2) side_dropped_refl [OF ok, of side]
      side_dropped_step [OF side_dropped_refl [OF ok] _ _ pos] by auto
  then have "book_ok bs1" by (simp add: side_dropped_def)
  show ?thesis
  proof (cases "book_is_full bs1")
    case True
    then obtain l p where "book_remove_worst bs1 now px = Inr (bs', Some (l, p))" "push_out q1 side now l = Inr q'" using 1(3) by auto
    then show ?thesis using remove_worst_cases [OF \<open>book_ok bs1\<close>] side_dropped_step [OF d1 _ _ pos] by blast
  qed (use 1(3) d1 in simp)
qed

lemma add_perp_order_effect:
  assumes "add_perp_order a mi side c order = Inr a'"
  obtains pp pp' where "perp_position a mi = Inr pp" "perp_position a' mi = Inr pp'"
    "\<And>s. maker_lots pp' s = maker_lots pp s + (if s = side then quantity order else 0)"
    "base_position_lots pp' = base_position_lots pp" "taker_base_lots pp' = taker_base_lots pp"
    "taker_quote_lots pp' = taker_quote_lots pp"
proof -
  obtain i pp oo where i: "perp_raw_index a mi = Inr i"
      and pp: "adjust_maker_lots (perp_positions a ! i) side (quantity order) = Inr pp"
      and a': "a' = set_perp_order (set_perp_position a i pp) (owner_slot order) oo"
    using assms unfolding add_perp_order_def Let_def by (elim rbind_InrE) auto
  note e = adjust_maker_lots_frame [OF pp]
  have "pp_market_index pp = mi" using e perp_raw_index_ok [OF i] by simp
  then have "perp_position a' mi = Inr pp" unfolding a' using i by (simp add: perp_position_set)
  moreover have "perp_position a mi = Inr (perp_positions a ! i)" using i by (simp add: perp_position_def)
  ultimately show thesis using that e by auto
qed

lemma side_positive_insert:
  assumes "book_ok bs" "component_ok c l" "book_insert_leaf bs c l = Inr (bs', h, old)" "side_positive bs" "0 < quantity l"
  shows "side_positive bs'"
  unfolding side_positive_def
proof (intro allI ballI)
  fix d x
  note i = book_insert_done [OF assms(1-3)]
  assume x: "x \<in> book_orders d bs'"
  have "d = c \<or> d = other_component c" by (cases c; cases d) simp_all
  then have "book_map d bs (leaf_key x) = Some x \<or> x = l"
    using x i(3,4) book_orders_map(1) [OF i(2), of x d] by (auto split: if_splits)
  then show "0 < quantity x" using assms(4,5) book_orders_map(1) [OF assms(1), of x d] by (auto simp: side_positive_def)
qed

lemma book_keys_insert:
  assumes "book_ok bs" "component_ok c l" "book_insert_leaf bs c l = Inr (bs', h, old)"
  shows "book_keys d bs' \<subseteq> insert (leaf_key l) (book_keys d bs)"
proof
  fix k
  note i = book_insert_done [OF assms]
  assume "k \<in> book_keys d bs'"
  then obtain x where x: "x \<in> book_orders d bs'" "leaf_key x = k" by (auto simp: book_keys_def)
  have "d = c \<or> d = other_component c" by (cases c; cases d) simp_all
  then have "book_map d bs (leaf_key x) = Some x \<or> leaf_key x = leaf_key l"
    using x(1) i(3,4) book_orders_map(1) [OF i(2), of x d] by (auto split: if_splits)
  then have "x \<in> book_orders d bs \<or> leaf_key x = leaf_key l" using book_orders_map(1) [OF assms(1), of x d] by blast
  then show "k \<in> insert (leaf_key l) (book_keys d bs)" using x(2) by (auto simp: book_keys_def)
qed

lemma side_positive_sub: "side_positive bs \<Longrightarrow> \<forall>d. book_orders d bs' \<subseteq> book_orders d bs \<Longrightarrow> side_positive bs'"
  by (auto simp: side_positive_def)

lemma book_map_sub:
  assumes "book_ok bs" "book_ok bs'" "book_orders c bs' \<subseteq> book_orders c bs" "book_map c bs k = None"
  shows "book_map c bs' k = None"
proof (cases "book_map c bs' k")
  case (Some l)
  then have "l \<in> book_orders c bs'" "leaf_key l = k" using book_orders_map [OF assms(2)] by blast+
  then show ?thesis using assms(3,4) book_orders_map(1) [OF assms(1), of l c] by auto
qed

text \<open>An order that can be put on component \<open>c\<close> of a side at time \<open>now\<close>.\<close>

definition postable :: "BookSideOrderTree \<Rightarrow> u128 \<Rightarrow> u16 \<Rightarrow> u64 \<Rightarrow> bool" where
  "postable c k tif now \<longleftrightarrow> tif \<le> u16_MAX \<and> now + tif \<le> u64_MAX \<and>
     (c = Fixed \<longrightarrow> 1 \<le> uint (ucast (drop_bit 64 k) :: 64 word) \<and> uint (ucast (drop_bit 64 k) :: 64 word) < 2 ^ 63)"

lemma postable_ok: "postable c (leaf_key l) (time_in_force l) (timestamp l) \<Longrightarrow> component_ok c l"
  by (simp add: postable_def component_ok_def leaf_ok_def fixed_ok_def price_data_def)

lemma post_order_effect:
  assumes r: "post_order order bs q account mi pk c order_id n now px price = Inr (bs', q', account')"
    and ok: "book_ok bs" "event_queue_ok q" "postable c order_id (order_time_in_force order) now" "book_map c bs order_id = None"
      "side_positive bs"
  obtains evs pp pp' where "book_ok bs'" "book_side bs' = book_side bs" "event_queue_ok q'" "eq_events q' = eq_events q @ evs"
    "out_events (order_side order) evs"
    "\<And>own. side_lots bs' own + (\<Sum>e \<leftarrow> evs. event_lots own (order_side order) e) = side_lots bs own + (if own = pk then n else 0)"
    "0 < n \<Longrightarrow> side_positive bs'" "\<And>d. book_keys d bs' \<subseteq> insert order_id (book_keys d bs)"
    "perp_position account mi = Inr pp" "perp_position account' mi = Inr pp'"
    "\<And>s. maker_lots pp' s = maker_lots pp s + (if s = order_side order then n else 0)"
    "base_position_lots pp' = base_position_lots pp" "taker_base_lots pp' = taker_base_lots pp"
    "taker_quote_lots pp' = taker_quote_lots pp"
proof -
  obtain bs1 slot h old where 1: "make_room bs q (order_side order) c now px price = Inr (bs1, q')"
      "book_insert_leaf bs1 c (LeafNode_new (slot mod 256) order_id pk n now Limit (order_time_in_force order)
         (order_peg_limit order) (order_client_order_id order)) = Inr (bs', h, old)"
      "add_perp_order account mi (order_side order) c (LeafNode_new (slot mod 256) order_id pk n now Limit
         (order_time_in_force order) (order_peg_limit order) (order_client_order_id order)) = Inr account'"
    using r unfolding post_order_def Let_def by (elim rbind_InrE) (auto elim!: rbind_InrE)
  let ?l = "LeafNode_new (slot mod 256) order_id pk n now Limit (order_time_in_force order)
         (order_peg_limit order) (order_client_order_id order)"
  have l: "leaf_key ?l = order_id" "quantity ?l = n" "leaf_owner ?l = pk" "time_in_force ?l = order_time_in_force order" "timestamp ?l = now"
    by (simp_all add: LeafNode_new_def)
  then have cok: "component_ok c ?l" using postable_ok [of c ?l] ok(3) by simp
  note d = make_room_dropped [OF ok(1,2) 1(1) ok(5)]
  obtain evs where e: "eq_events q' = eq_events q @ evs" "out_events (order_side order) evs"
      "\<forall>own. side_lots bs1 own + (\<Sum>e \<leftarrow> evs. event_lots own (order_side order) e) = side_lots bs own"
    and d': "book_ok bs1" "book_side bs1 = book_side bs" "event_queue_ok q'" "\<forall>d. book_orders d bs1 \<subseteq> book_orders d bs"
    using d unfolding side_dropped_def by blast
  have fresh: "book_map c bs1 (leaf_key ?l) = None" using book_map_sub [OF ok(1) d'(1)] d'(4) ok(4) l by simp
  note i = book_insert_done [OF d'(1) cok 1(2)] and lots = side_lots_insert [OF d'(1) cok fresh 1(2)]
  obtain pp pp' where pp: "perp_position account mi = Inr pp" "perp_position account' mi = Inr pp'"
    "\<And>s. maker_lots pp' s = maker_lots pp s + (if s = order_side order then n else 0)"
    "base_position_lots pp' = base_position_lots pp" "taker_base_lots pp' = taker_base_lots pp"
    "taker_quote_lots pp' = taker_quote_lots pp"
    using add_perp_order_effect [OF 1(3)] l(2) by metis
  show thesis
  proof (rule that [OF i(2) _ d'(3) e(1,2) _ _ _ pp])
    show "book_side bs' = book_side bs" using i(5) d'(2) by simp
    show "side_lots bs' own + (\<Sum>e \<leftarrow> evs. event_lots own (order_side order) e) = side_lots bs own + (if own = pk then n else 0)" for own
      using lots [of own] e(3) l by (auto simp: order_lots_def)
    show "side_positive bs'" if "0 < n"
      using side_positive_insert [OF d'(1) cok 1(2)] side_positive_sub [OF ok(5)] d'(4) that l by simp
    show "book_keys d bs' \<subseteq> insert order_id (book_keys d bs)" for d
      using book_keys_insert [OF d'(1) cok 1(2)] d'(4) l by (fastforce simp: book_keys_def)
  qed
qed

section \<open>Fees and the taker's position\<close>

lemma record_trading_fee_frame:
  "record_trading_fee F pp fee = Inr pp' \<Longrightarrow> same_orders pp pp' \<and> base_position_lots pp' = base_position_lots pp"
  by (auto simp: record_trading_fee_def change_quote_position_def rbind_eq_Inr same_orders_def)

lemma same_orders_lots: "same_orders pp pp' \<Longrightarrow> maker_lots pp' s = maker_lots pp s"
  by (cases s) (simp_all add: same_orders_def maker_lots_def)

text \<open>A change of an account that touches neither orders nor open lots of a market.\<close>

definition orders_kept :: "u16 \<Rightarrow> MangoAccount \<Rightarrow> MangoAccount \<Rightarrow> bool" where
  "orders_kept mi a a' \<longleftrightarrow> perp_open_orders a' = perp_open_orders a \<and>
     (\<forall>pp. perp_position a mi = Inr pp \<longrightarrow>
        (\<exists>pp'. perp_position a' mi = Inr pp' \<and> same_orders pp pp' \<and> base_position_lots pp' = base_position_lots pp))"

lemma orders_kept_refl [simp]: "orders_kept mi a a"
  by (simp add: orders_kept_def)

lemma orders_keptI:
  assumes "perp_raw_index a mi = Inr i" "same_orders (perp_positions a ! i) pp" "base_position_lots pp = base_position_lots (perp_positions a ! i)"
    and "perp_positions a1 = perp_positions a" "perp_open_orders a1 = perp_open_orders a"
  shows "orders_kept mi a (set_perp_position a1 i pp)"
proof -
  have "perp_raw_index a1 mi = Inr i" using assms(1,4) by (simp add: perp_raw_index_def)
  moreover have "pp_market_index pp = mi" using assms(1,2) perp_raw_index_ok by (auto simp: same_orders_def)
  ultimately have "perp_position (set_perp_position a1 i pp) mi = Inr pp" by (rule perp_position_set)
  then show ?thesis using assms by (auto simp: orders_kept_def perp_position_def)
qed

lemma apply_fees_frame:
  assumes "apply_fees F m a lots = Inr (m', a', fees)"
  shows "orders_kept (perp_market_index m) a a'" "\<exists>x. m' = m\<lparr>fees_accrued := x\<rparr>"
proof -
  obtain i f pp vol x where r: "perp_raw_index (a\<lparr>fixed_part := f\<rparr>) (perp_market_index m) = Inr i"
      "record_trading_fee F (perp_positions a ! i) fees = Inr pp"
      "a' = set_perp_position (a\<lparr>fixed_part := f\<rparr>) i (pp\<lparr>taker_volume := vol\<rparr>)" "m' = m\<lparr>fees_accrued := x\<rparr>"
    using assms unfolding apply_fees_def Let_def by (elim rbind_InrE) (auto elim!: rbind_InrE)
  show "\<exists>x. m' = m\<lparr>fees_accrued := x\<rparr>" using r(4) by blast
  show "orders_kept (perp_market_index m) a a'" unfolding r(3)
    by (rule orders_keptI) (use r(1) record_trading_fee_frame [OF r(2)] in \<open>simp_all add: same_orders_def\<close>)
qed

lemma apply_penalty_frame:
  assumes "apply_penalty F m a = Inr (m', a', fees)"
  shows "orders_kept (perp_market_index m) a a'" "\<exists>x. m' = m\<lparr>fees_accrued := x\<rparr>"
proof -
  obtain i f pp x where r: "perp_raw_index (a\<lparr>fixed_part := f\<rparr>) (perp_market_index m) = Inr i"
      "record_trading_fee F (perp_positions a ! i) fees = Inr pp"
      "a' = set_perp_position (a\<lparr>fixed_part := f\<rparr>) i pp" "m' = m\<lparr>fees_accrued := x\<rparr>"
    using assms unfolding apply_penalty_def Let_def by (elim rbind_InrE) (auto elim!: rbind_InrE)
  show "\<exists>x. m' = m\<lparr>fees_accrued := x\<rparr>" using r(4) by blast
  show "orders_kept (perp_market_index m) a a'" unfolding r(3)
    by (rule orders_keptI) (use r(1) record_trading_fee_frame [OF r(2)] in \<open>simp_all add: same_orders_def\<close>)
qed

lemma all_Side: "(\<forall>s. P s) \<longleftrightarrow> P Bid \<and> P Ask"
  by (metis Side.exhaust)

lemma add_taker_trade_effect:
  assumes "add_taker_trade pp side b q = Inr pp'"
  shows "taker_base_lots pp' = taker_base_lots pp + (if side = Bid then b else - b)"
    "taker_quote_lots pp' = taker_quote_lots pp - (if side = Bid then q else - q)"
    "maker_lots pp' s = maker_lots pp s" "base_position_lots pp' = base_position_lots pp" "pp_market_index pp' = pp_market_index pp"
  using assms by (cases side; cases s; auto simp: add_taker_trade_def rbind_eq_Inr maker_lots_def)+

text \<open>What a taker's position records of the trades that were matched.\<close>

definition taker_recorded :: "Side \<Rightarrow> int \<Rightarrow> int \<Rightarrow> PerpPosition \<Rightarrow> PerpPosition \<Rightarrow> bool" where
  "taker_recorded side b q pp pp' \<longleftrightarrow>
     taker_base_lots pp' = taker_base_lots pp + (if side = Bid then b else - b) \<and>
     taker_quote_lots pp' = taker_quote_lots pp - (if side = Bid then q else - q) \<and>
     (\<forall>s. maker_lots pp' s = maker_lots pp s) \<and> base_position_lots pp' = base_position_lots pp"

lemma taker_recorded_kept:
  "taker_recorded side b q pp pp1 \<Longrightarrow> same_orders pp1 pp2 \<Longrightarrow> base_position_lots pp2 = base_position_lots pp1 \<Longrightarrow>
     taker_recorded side b q pp pp2"
  "same_orders pp0 pp \<Longrightarrow> base_position_lots pp = base_position_lots pp0 \<Longrightarrow> taker_recorded side b q pp pp1 \<Longrightarrow>
     taker_recorded side b q pp0 pp1"
  by (auto simp: taker_recorded_def same_orders_def maker_lots_def all_Side)

lemma record_taken_effect:
  assumes r: "record_taken F m a side b q dq = Inr (m', a')" and n: "0 \<le> b" "0 \<le> q"
    and pp: "perp_position a (perp_market_index m) = Inr pp"
  shows "\<exists>pp'. perp_position a' (perp_market_index m) = Inr pp' \<and> taker_recorded side b q pp pp'"
    "perp_open_orders a' = perp_open_orders a" "\<exists>x. m' = m\<lparr>fees_accrued := x\<rparr>"
proof -
  let ?mi = "perp_market_index m"
  have "(\<exists>pp'. perp_position a' ?mi = Inr pp' \<and> taker_recorded side b q pp pp') \<and>
      perp_open_orders a' = perp_open_orders a \<and> (\<exists>x. m' = m\<lparr>fees_accrued := x\<rparr>)"
  proof (cases "q > 0 \<or> b > 0")
    case True
    then obtain i pp1 fee_lots fees where 1: "perp_raw_index a ?mi = Inr i"
        "add_taker_trade (perp_positions a ! i) side b q = Inr pp1"
        "apply_fees F m (set_perp_position a i pp1) fee_lots = Inr (m', a', fees)"
      using r unfolding record_taken_def by (auto simp: rbind_eq_Inr)
    note t = add_taker_trade_effect [OF 1(2)] and f = apply_fees_frame [OF 1(3)]
    have "pp = perp_positions a ! i" using pp 1(1) by (simp add: perp_position_def)
    moreover have "perp_position (set_perp_position a i pp1) ?mi = Inr pp1"
      using 1(1) t(5) perp_raw_index_ok by (intro perp_position_set) auto
    ultimately show ?thesis
      using f t(1-4) taker_recorded_kept(1) [of side b q pp pp1] by (auto simp: orders_kept_def taker_recorded_def)
  next
    case False
    then have "m' = m" "a' = a" "b = 0" "q = 0" using r n by (auto simp: record_taken_def)
    then show ?thesis using pp by (auto simp: taker_recorded_def intro: exI [of _ "fees_accrued m"])
  qed
  then show "\<exists>pp'. perp_position a' ?mi = Inr pp' \<and> taker_recorded side b q pp pp'"
    "perp_open_orders a' = perp_open_orders a" "\<exists>x. m' = m\<lparr>fees_accrued := x\<rparr>" by blast+
qed

section \<open>The parts of a new order\<close>

abbreviation match_start :: "Order \<Rightarrow> u8 \<Rightarrow> EventQueue \<Rightarrow> MatchState" where
  "match_start order limit q \<equiv>
     \<lparr>remaining_base_lots = max_base_lots order, remaining_quote_lots = max_quote_lots order,
      decremented_base_lots = 0, decremented_quote_lots = 0, orders_to_change = [], orders_to_delete = [],
      number_of_dropped_expired_orders = 0, match_limit = limit, match_post_target = post_target order,
      match_event_queue = q\<rparr>"

lemma posting_allowed_target:
  "posting_allowed F m side price oracle_price n t = Inr target \<Longrightarrow> target = None \<or> (target = t \<and> 0 < n)"
  by (auto simp: posting_allowed_def rbind_eq_Inr split: if_splits option.splits)

lemma new_order_parts:
  assumes "new_order F book order m q oracle_price a pk now limit = Inr (book', m', q', a', oid)"
  defines "side \<equiv> order_side order" and "other \<equiv> invert_side (order_side order)"
  obtains px price pd m1 order_id m2 a2 st a3 bs1 bs2 n where
    "native_price_to_lot F m oracle_price = Inr px" "order_price_of order now px book = Inr (price, pd)"
    "gen_order_id m side pd = Inr (m1, order_id)"
    "(m2 = m1 \<and> a2 = a) \<or> (\<exists>pen. apply_penalty F m1 a = Inr (m2, a2, pen))"
    "match_order F (bookside book other) order m2 pk now px price (match_start order limit q) = Inr st"
    "0 \<le> max_quote_lots order - remaining_quote_lots st" "0 \<le> max_base_lots order - remaining_base_lots st"
    "record_taken F m2 a2 side (max_base_lots order - remaining_base_lots st)
       (max_quote_lots order - remaining_quote_lots st) (decremented_quote_lots st) = Inr (m', a3)"
    "for_each apply_change (bookside book other) (orders_to_change st) = Inr bs1"
    "for_each apply_delete bs1 (orders_to_delete st) = Inr bs2"
    "(oid = None \<and> book' = set_bookside book other bs2 \<and> q' = match_event_queue st \<and> a' = a3) \<or>
     (\<exists>c bs3. oid = Some order_id \<and> match_post_target st = Some c \<and> 0 < n \<and>
        (\<exists>d. div_i64 (remaining_quote_lots st) price = Inr d \<and> n = min (remaining_base_lots st) d) \<and>
        post_order order (bookside book side) (match_event_queue st) a3 (perp_market_index m') pk c order_id n now px price = Inr (bs3, q', a') \<and>
        book' = set_bookside (set_bookside book other bs2) side bs3)"
  using assms(1) unfolding new_order_def Let_def side_def other_def
  apply (elim rbind_InrE)
  apply (clarsimp simp: rbind_eq_Inr split del: if_split)
  subgoal premises p for px price pd m1 order_id m2 a2 i st m3 a3 bs1 bs2 by_quote target
  proof -
    have pen: "(m2 = m1 \<and> a2 = a) \<or> (\<exists>pen. apply_penalty F m1 a = Inr (m2, a2, pen))"
      using p(5) by (auto simp: rbind_eq_Inr split: if_splits)
    note t = posting_allowed_target [OF p(16)]
    have m': "m3 = m'" using p(17) by (auto simp: rbind_eq_Inr split: option.splits)
    have fin: "(oid = None \<and> book' = set_bookside book (invert_side (order_side order)) bs2 \<and> q' = match_event_queue st \<and> a' = a3) \<or>
      oid = Some order_id \<and> (\<exists>c. match_post_target st = Some c \<and> 0 < min (remaining_base_lots st) by_quote \<and>
        (\<exists>d. div_i64 (remaining_quote_lots st) price = Inr d \<and> min (remaining_base_lots st) by_quote = min (remaining_base_lots st) d) \<and>
        (\<exists>bs3. post_order order (bookside book (order_side order)) (match_event_queue st) a3 (perp_market_index m') pk c order_id
             (min (remaining_base_lots st) by_quote) now px price = Inr (bs3, q', a') \<and>
           book' = set_bookside (set_bookside book (invert_side (order_side order)) bs2) (order_side order) bs3))"
    proof (cases target)
      case (Some c)
      have mt: "match_post_target st = Some c" "0 < min (remaining_base_lots st) by_quote" using t Some by auto
      obtain bs3 where "post_order order (bookside book (order_side order)) (match_event_queue st) a3 (perp_market_index m') pk c order_id
             (min (remaining_base_lots st) by_quote) now px price = Inr (bs3, q', a')" "oid = Some order_id"
          "book' = set_bookside (set_bookside book (invert_side (order_side order)) bs2) (order_side order) bs3"
        using p(17) Some m' by (auto simp: rbind_eq_Inr)
      then show ?thesis using mt p(15) by blast
    qed (use p(17) in auto)
    show thesis
      by (rule p(1) [OF refl p(3,4) pen p(7) p(10,11) _ p(13,14) fin]) (use p(12) m' in simp)
  qed
  done

end
