(* ===== verification/Order_Effect.thy ===== *)
theory Order_Effect
  imports New_Order
begin

text \<open>
  What a whole new order does to the book, the event queue and the account: the lots of every owner on the book and on the queue change exactly as the open lots in
  the owner's position.
\<close>

section \<open>Books and orders\<close>

definition book_well :: "Orderbook \<Rightarrow> bool" where
  "book_well book \<longleftrightarrow> (\<forall>s. book_ok (bookside book s) \<and> side_positive (bookside book s) \<and> book_side (bookside book s) = s)"

text \<open>The lots of an owner that are on a side of the book, or have left it with an event that is
  not yet consumed.\<close>

definition open_lots :: "Orderbook \<Rightarrow> EventQueue \<Rightarrow> pubkey \<Rightarrow> Side \<Rightarrow> int" where
  "open_lots book q own s = side_lots (bookside book s) own + queue_lots q own s"

text \<open>Every order id on the book has been made with a sequence number the market has handed out.\<close>

definition ids_below :: "nat \<Rightarrow> Orderbook \<Rightarrow> bool" where
  "ids_below n book \<longleftrightarrow>
     (\<forall>s c k. k \<in> book_keys c (bookside book s) \<longrightarrow> (\<exists>pd i. i \<le> n \<and> k = new_node_key s pd (word_of_nat i)))"

text \<open>The ranges of an order's fields.\<close>

definition order_ok :: "Order \<Rightarrow> bool" where
  "order_ok order \<longleftrightarrow> 0 \<le> max_base_lots order \<and> 0 \<le> max_quote_lots order \<and> order_time_in_force order \<le> u16_MAX \<and>
     (case params order of FixedParams p _ \<Rightarrow> in_i64 p | _ \<Rightarrow> True)"

lemma post_only_slide_in_range:
  "post_only_slide_limit side best limit = Inr p \<Longrightarrow> in_i64 limit \<Longrightarrow> in_i64 p"
  by (cases side) (auto simp: post_only_slide_limit_def rbind_eq_Inr min_def max_def)

lemma order_price_postable:
  assumes r: "order_price_of order now px book = Inr (price, pd)" and o: "order_ok order" "post_target order = Some c"
    and now: "now + u16_MAX \<le> u64_MAX"
  shows "postable c (new_node_key (order_side order) pd s) (order_time_in_force order) now"
proof -
  have "1 \<le> uint pd \<and> uint pd < 2 ^ 63" if c: "c = Fixed"
  proof -
    obtain p t where p: "params order = FixedParams p t" using o(2) c by (auto simp: post_target_def split: OrderParams.splits)
    then have pr: "price_for_order_type order now px p t book = Inr price" "fixed_price_data price = Inr pd"
      using r by (auto simp: order_price_of_def order_price_lots_def rbind_eq_Inr)
    have "in_i64 p" using o(1) p by (simp add: order_ok_def)
    then have "in_i64 price" using pr(1) post_only_slide_in_range
      by (auto simp: price_for_order_type_def rbind_eq_Inr split: if_splits option.splits)
    then show ?thesis using uint_fixed_price_data [OF pr(2)] by (auto simp: in_i64_bounds)
  qed
  moreover have "ucast (drop_bit 64 (new_node_key (order_side order) pd s)) = pd"
    using price_data_of_key [of "LeafNode_new 0 (new_node_key (order_side order) pd s) [] 0 0 Limit 0 0 0"]
    by (simp add: price_data_def LeafNode_new_def)
  ultimately show ?thesis using o(1) now by (auto simp: postable_def order_ok_def)
qed

lemma gen_order_id_fresh:
  assumes g: "gen_order_id m side pd = Inr (m', k)" and i: "ids_below (pm_seq_num m) book"
  shows "k \<notin> book_keys c (bookside book side)" "m' = m\<lparr>pm_seq_num := pm_seq_num m + 1\<rparr>"
    "k = new_node_key side pd (word_of_nat (pm_seq_num m + 1))"
proof -
  have k: "k = new_node_key side pd (word_of_nat (pm_seq_num m + 1))" "pm_seq_num m + 1 \<le> u64_MAX"
      "m' = m\<lparr>pm_seq_num := pm_seq_num m + 1\<rparr>"
    using g by (auto simp: gen_order_id_def rbind_eq_Inr chk_u64_def split: if_splits)
  show "m' = m\<lparr>pm_seq_num := pm_seq_num m + 1\<rparr>" "k = new_node_key side pd (word_of_nat (pm_seq_num m + 1))" using k by auto
  have "(word_of_nat j :: 64 word) \<noteq> word_of_nat (pm_seq_num m + 1)" if "j \<le> pm_seq_num m" for j
    using that k(2) word_of_nat_less [of j "pm_seq_num m + 1"] by (auto simp: less_imp_neq)
  moreover have "\<exists>j \<le> pm_seq_num m. (word_of_nat j :: 64 word) = word_of_nat (pm_seq_num m + 1)"
    if "k \<in> book_keys c (bookside book side)"
    using i that unfolding ids_below_def k(1) by (metis new_node_key_inject)
  ultimately show "k \<notin> book_keys c (bookside book side)" by blast
qed

lemma fresh_map:
  assumes "book_ok bs" "k \<notin> book_keys c bs"
  shows "book_map c bs k = None"
proof (rule ccontr)
  assume "book_map c bs k \<noteq> None"
  then obtain l where "book_map c bs k = Some l" by blast
  moreover from this have "leaf_key l = k" by (rule book_orders_map(2) [OF assms(1)])
  ultimately have "l \<in> book_orders c bs" using book_orders_map(1) [OF assms(1), of l c] by simp
  then show False using assms(2) \<open>leaf_key l = k\<close> by (auto simp: book_keys_def)
qed

section \<open>A new order\<close>

lemma good_fill_lots: "good_fill order pk price items e \<Longrightarrow> event_lots own (order_side order) e = 0"
  by (cases e; cases "order_side order") auto

lemma good_fills_lots:
  "\<forall>e \<in> set evs. good_fill order pk price items e \<Longrightarrow> (\<Sum>e \<leftarrow> evs. event_lots own (order_side order) e) = 0"
  by (induction evs) (auto simp: good_fill_lots)

lemma queue_lots_append:
  "eq_events q' = eq_events q @ evs \<Longrightarrow> queue_lots q' own s = queue_lots q own s + (\<Sum>e \<leftarrow> evs. event_lots own s e)"
  by (simp add: queue_lots_def)

text \<open>The matching of an order, applied to the opposing side.\<close>

lemma match_order_applied:
  assumes ok: "book_ok bs" "side_positive bs" "event_queue_ok q" "order_ok order"
    and r: "match_order F bs order m pk now px price (match_start order limit q) = Inr st"
    and ch: "for_each apply_change bs (orders_to_change st) = Inr bs1" "for_each apply_delete bs1 (orders_to_delete st) = Inr bs2"
  obtains evs where "event_queue_ok (match_event_queue st)" "eq_events (match_event_queue st) = eq_events q @ evs"
    "\<forall>e \<in> set evs. good_fill order pk price (book_items bs now px) e"
    "book_ok bs2" "side_positive bs2" "book_side bs2 = book_side bs" "\<And>d. book_keys d bs2 \<subseteq> book_keys d bs"
    "\<And>own. side_lots bs2 own + (\<Sum>e \<leftarrow> evs. event_lots own (invert_side (order_side order)) e) = side_lots bs own"
    "remaining_base_lots st = max_base_lots order - (\<Sum>e \<leftarrow> evs. event_base e)" "0 \<le> remaining_base_lots st"
    "remaining_quote_lots st = max_quote_lots order - (\<Sum>e \<leftarrow> evs. event_quote e)" "0 \<le> remaining_quote_lots st"
    "match_post_target st = None \<or> match_post_target st = post_target order"
    "length (filter is_fill evs) \<le> limit"
proof -
  obtain M where "matched order pk price (match_start order limit q) (book_items bs now px) M st"
    using match_order_matched [OF ok(1,2) r] ok(3,4) by (auto simp: order_ok_def)
  then have M: "orders_to_change st = map (\<lambda>(i, q). (item_handle i, q)) (changed M)" "orders_to_delete st = map item_ref (deleted M)"
      "distinct (map item_ref (map fst (changed M) @ deleted M))"
      "fst ` set (changed M) \<union> set (deleted M) \<subseteq> set (book_items bs now px)"
      "\<forall>own. (\<Sum>z \<leftarrow> changed M. item_change own z) - (\<Sum>i \<leftarrow> deleted M. order_lots own (item_node i)) =
              - (\<Sum>e \<leftarrow> new_events M. event_lots own (invert_side (order_side order)) e)"
      "\<forall>z \<in> set (changed M). 0 < snd z"
    and st: "event_queue_ok (match_event_queue st)" "eq_events (match_event_queue st) = eq_events q @ new_events M"
      "\<forall>e \<in> set (new_events M). good_fill order pk price (book_items bs now px) e"
      "remaining_base_lots st = max_base_lots order - (\<Sum>e \<leftarrow> new_events M. event_base e)" "0 \<le> remaining_base_lots st"
      "remaining_quote_lots st = max_quote_lots order - (\<Sum>e \<leftarrow> new_events M. event_quote e)" "0 \<le> remaining_quote_lots st"
      "match_post_target st = None \<or> match_post_target st = post_target order"
      "match_limit st + length (filter is_fill (new_events M)) = limit"
    unfolding matched_def by (elim conjE; simp only: MatchState.simps)+
  have on: "\<forall>i \<in> fst ` set (changed M) \<union> set (deleted M). on_side bs i" using M(4) book_items_on_side by blast
  obtain b1 b2 where b: "for_each apply_change bs (map (\<lambda>(i, q). (item_handle i, q)) (changed M)) = Inr b1"
     "for_each apply_delete b1 (map item_ref (deleted M)) = Inr b2" "book_ok b2" "book_side b2 = book_side bs"
     "\<forall>d. book_keys d b2 \<subseteq> book_keys d bs" "side_positive bs \<longrightarrow> (\<forall>z \<in> set (changed M). 0 < snd z) \<longrightarrow> side_positive b2"
     "\<forall>own. side_lots b2 own = side_lots bs own + (\<Sum>z \<leftarrow> changed M. item_change own z) - (\<Sum>i \<leftarrow> deleted M. order_lots own (item_node i))"
    using apply_matched_ok [OF ok(1) on M(3)] unfolding item_change_def by blast
  have eq: "b2 = bs2" using b(1,2) ch M(1,2) by simp
  have "side_positive bs2" using b(6) ok(2) M(6) eq by blast
  have lots: "side_lots bs2 own + (\<Sum>e \<leftarrow> new_events M. event_lots own (invert_side (order_side order)) e) = side_lots bs own" for own
    using spec [OF M(5), of own] spec [OF b(7), of own] unfolding eq by linarith
  show thesis
    by (rule that [OF st(1-3) b(3) [unfolded eq] \<open>side_positive bs2\<close> b(4) [unfolded eq] _ lots st(4-8)])
      (use b(5) eq st(9) in auto)
qed

text \<open>What a new order has done, with \<open>fills\<close> the events of the matching and \<open>outs\<close> those of the
  orders that made room for it.\<close>

definition order_placed ::
  "Order \<Rightarrow> pubkey \<Rightarrow> u8 \<Rightarrow> Orderbook \<Rightarrow> EventQueue \<Rightarrow> PerpPosition \<Rightarrow> AnyEvent list \<Rightarrow> AnyEvent list \<Rightarrow>
     Orderbook \<Rightarrow> EventQueue \<Rightarrow> PerpPosition \<Rightarrow> bool" where
  "order_placed order pk limit book q pp fills outs book' q' pp' \<longleftrightarrow>
     book_well book' \<and> event_queue_ok q' \<and> eq_events q' = eq_events q @ fills @ outs \<and>
     out_events (order_side order) outs \<and>
     (\<forall>own s. open_lots book' q' own s =
        open_lots book q own s + (if own = pk then maker_lots pp' s - maker_lots pp s else 0)) \<and>
     base_position_lots pp' = base_position_lots pp \<and>
     taker_base_lots pp' = taker_base_lots pp + (if order_side order = Bid then 1 else - 1) * (\<Sum>e \<leftarrow> fills. event_base e) \<and>
     taker_quote_lots pp' = taker_quote_lots pp - (if order_side order = Bid then 1 else - 1) * (\<Sum>e \<leftarrow> fills. event_quote e) \<and>
     (\<forall>s. s \<noteq> order_side order \<longrightarrow> maker_lots pp' s = maker_lots pp s) \<and>
     maker_lots pp (order_side order) \<le> maker_lots pp' (order_side order) \<and>
     (\<Sum>e \<leftarrow> fills. event_base e) + (maker_lots pp' (order_side order) - maker_lots pp (order_side order)) \<le> max_base_lots order \<and>
     (\<Sum>e \<leftarrow> fills. event_quote e) \<le> max_quote_lots order \<and>
     length (filter is_fill fills) \<le> limit"

lemma order_placedI:
  assumes well: "book_well book" and ok: "book_ok bs2" "side_positive bs2" "book_side bs2 = invert_side side"
    and ok3: "book_ok bs3" "side_positive bs3" "book_side bs3 = side"
    and q: "event_queue_ok q'" "eq_events q' = eq_events q @ fills @ outs" "out_events side outs"
    and fills: "\<forall>e \<in> set fills. good_fill order pk price items e" "side = order_side order"
    and lots: "\<And>own. side_lots bs2 own + (\<Sum>e \<leftarrow> fills. event_lots own (invert_side side) e) = side_lots (bookside book (invert_side side)) own"
      "\<And>own. side_lots bs3 own + (\<Sum>e \<leftarrow> outs. event_lots own side e) = side_lots (bookside book side) own + (if own = pk then n else 0)"
    and pp: "taker_recorded side (\<Sum>e \<leftarrow> fills. event_base e) (\<Sum>e \<leftarrow> fills. event_quote e) pp pp1"
      "\<And>s. maker_lots pp' s = maker_lots pp1 s + (if s = side then n else 0)" "base_position_lots pp' = base_position_lots pp1"
      "taker_base_lots pp' = taker_base_lots pp1" "taker_quote_lots pp' = taker_quote_lots pp1"
    and b: "0 \<le> n" "(\<Sum>e \<leftarrow> fills. event_base e) + n \<le> max_base_lots order" "(\<Sum>e \<leftarrow> fills. event_quote e) \<le> max_quote_lots order"
      "length (filter is_fill fills) \<le> limit"
  shows "order_placed order pk limit book q pp fills outs (set_bookside (set_bookside book (invert_side side) bs2) side bs3) q' pp'"
proof -
  let ?b = "set_bookside (set_bookside book (invert_side side) bs2) side bs3"
  have "s \<noteq> side \<Longrightarrow> s = invert_side side" for s by (cases s; cases side) simp_all
  moreover have "book_well ?b" using well ok ok3 by (cases side) (auto simp: book_well_def all_Side)
  moreover have "open_lots ?b q' own s = open_lots book q own s + (if own = pk then maker_lots pp' s - maker_lots pp s else 0)" for own s
  proof (cases "s = side")
    case True
    then show ?thesis
      using lots(2) [of own] pp(1,2) good_fills_lots [OF fills(1), of own] queue_lots_append [OF q(2), of own side] fills(2)
      by (auto simp: open_lots_def taker_recorded_def)
  next
    case False
    then have "s = invert_side side" by (cases s; cases side) simp_all
    then show ?thesis
      using lots(1) [of own] pp(1,2) out_events_lots [OF q(3) False, of own] queue_lots_append [OF q(2), of own s] False
      by (auto simp: open_lots_def taker_recorded_def)
  qed
  ultimately show ?thesis using q pp b fills(2) unfolding order_placed_def taker_recorded_def by auto
qed

lemma ids_below_post:
  assumes i: "ids_below n book" and k: "\<And>d. book_keys d bs2 \<subseteq> book_keys d (bookside book (invert_side side))"
    "\<And>d. book_keys d bs3 \<subseteq> insert (new_node_key side pd (word_of_nat (n + 1))) (book_keys d (bookside book side))"
  shows "ids_below (n + 1) (set_bookside (set_bookside book (invert_side side) bs2) side bs3)"
  unfolding ids_below_def
proof (intro allI impI)
  fix s c x
  assume x: "x \<in> book_keys c (bookside (set_bookside (set_bookside book (invert_side side) bs2) side bs3) s)"
  have "s = side \<or> s = invert_side side" by (cases s; cases side) simp_all
  then have "x \<in> book_keys c (bookside book s) \<or> s = side \<and> x = new_node_key side pd (word_of_nat (n + 1))"
    using x k [of c] by (auto split: if_splits)
  then show "\<exists>pd i. i \<le> n + 1 \<and> x = new_node_key s pd (word_of_nat i)"
    using i unfolding ids_below_def by (metis le_add1 le_trans order_refl)
qed

lemma set_bookside_same [simp]: "set_bookside b s (bookside b s) = b"
  by (cases s) (simp_all add: set_bookside_def bookside_def)

lemma penalty_frame:
  assumes "(m2 = m1 \<and> a2 = a) \<or> (\<exists>pen. apply_penalty F m1 a = Inr (m2, a2, pen))"
    and "perp_position a (perp_market_index m1) = Inr pp"
  shows "\<exists>x. m2 = m1\<lparr>fees_accrued := x\<rparr>"
    "\<exists>pp1. perp_position a2 (perp_market_index m1) = Inr pp1 \<and> same_orders pp pp1 \<and> base_position_lots pp1 = base_position_lots pp"
proof -
  have "\<exists>x. m1 = m1\<lparr>fees_accrued := x\<rparr>" by (rule exI [of _ "fees_accrued m1"]) simp
  with assms apply_penalty_frame [of F m1 a] show "\<exists>x. m2 = m1\<lparr>fees_accrued := x\<rparr>" by blast
  show "\<exists>pp1. perp_position a2 (perp_market_index m1) = Inr pp1 \<and> same_orders pp pp1 \<and> base_position_lots pp1 = base_position_lots pp"
    using assms apply_penalty_frame [of F m1 a] by (auto simp: orders_kept_def same_orders_def)
qed

lemma new_order_effect:
  assumes r: "new_order F book order m q oracle_price a pk now limit = Inr (book', m', q', a', oid)"
    and well: "book_well book" "event_queue_ok q" "order_ok order" "ids_below (pm_seq_num m) book" and now: "now + u16_MAX \<le> u64_MAX"
    and pp: "perp_position a (perp_market_index m) = Inr pp"
  obtains fills outs pp' px price pd where
    "order_placed order pk limit book q pp fills outs book' q' pp'" "perp_position a' (perp_market_index m) = Inr pp'"
    "native_price_to_lot F m oracle_price = Inr px" "order_price_of order now px book = Inr (price, pd)"
    "\<forall>e \<in> set fills. good_fill order pk price (book_items (bookside book (invert_side (order_side order))) now px) e"
    "ids_below (pm_seq_num m') book'" "pm_seq_num m' = pm_seq_num m + 1" "perp_market_index m' = perp_market_index m"
    "open_interest m' = open_interest m"
    "oid = None \<Longrightarrow> \<forall>s. maker_lots pp' s = maker_lots pp s"
proof -
  let ?mi = "perp_market_index m" and ?side = "order_side order" and ?other = "invert_side (order_side order)"
  obtain px price pd m1 order_id m2 a2 st a3 bs1 bs2 n where
    p: "native_price_to_lot F m oracle_price = Inr px" "order_price_of order now px book = Inr (price, pd)"
      "gen_order_id m ?side pd = Inr (m1, order_id)" "(m2 = m1 \<and> a2 = a) \<or> (\<exists>pen. apply_penalty F m1 a = Inr (m2, a2, pen))"
      "match_order F (bookside book ?other) order m2 pk now px price (match_start order limit q) = Inr st"
      "0 \<le> max_quote_lots order - remaining_quote_lots st" "0 \<le> max_base_lots order - remaining_base_lots st"
      "record_taken F m2 a2 ?side (max_base_lots order - remaining_base_lots st)
         (max_quote_lots order - remaining_quote_lots st) (decremented_quote_lots st) = Inr (m', a3)"
      "for_each apply_change (bookside book ?other) (orders_to_change st) = Inr bs1"
      "for_each apply_delete bs1 (orders_to_delete st) = Inr bs2"
    and fin: "(oid = None \<and> book' = set_bookside book ?other bs2 \<and> q' = match_event_queue st \<and> a' = a3) \<or>
     (\<exists>c bs3. oid = Some order_id \<and> match_post_target st = Some c \<and> 0 < n \<and>
        (\<exists>d. div_i64 (remaining_quote_lots st) price = Inr d \<and> n = min (remaining_base_lots st) d) \<and>
        post_order order (bookside book ?side) (match_event_queue st) a3 (perp_market_index m') pk c order_id n now px price = Inr (bs3, q', a') \<and>
        book' = set_bookside (set_bookside book ?other bs2) ?side bs3)"
    using new_order_parts [OF r] by blast
  have bok: "book_ok (bookside book s)" "side_positive (bookside book s)" "book_side (bookside book s) = s" for s
    using well(1) by (simp_all add: book_well_def)
  note g = gen_order_id_fresh [OF p(3) well(4)]
  obtain x pp1 where pen: "m2 = m1\<lparr>fees_accrued := x\<rparr>" "perp_position a2 ?mi = Inr pp1" "same_orders pp pp1" "base_position_lots pp1 = base_position_lots pp"
    using penalty_frame [OF p(4), of pp] pp g(2) by auto
  obtain evs where ev: "event_queue_ok (match_event_queue st)" "eq_events (match_event_queue st) = eq_events q @ evs"
    "\<forall>e \<in> set evs. good_fill order pk price (book_items (bookside book ?other) now px) e"
    and b2: "book_ok bs2" "side_positive bs2" "book_side bs2 = ?other" "\<And>d. book_keys d bs2 \<subseteq> book_keys d (bookside book ?other)"
    "\<And>own. side_lots bs2 own + (\<Sum>e \<leftarrow> evs. event_lots own ?other e) = side_lots (bookside book ?other) own"
    and rem: "remaining_base_lots st = max_base_lots order - (\<Sum>e \<leftarrow> evs. event_base e)" "0 \<le> remaining_base_lots st"
    "remaining_quote_lots st = max_quote_lots order - (\<Sum>e \<leftarrow> evs. event_quote e)" "0 \<le> remaining_quote_lots st"
    "match_post_target st = None \<or> match_post_target st = post_target order" "length (filter is_fill evs) \<le> limit"
    using match_order_applied [OF bok(1,2) well(2,3) p(5,9,10)] bok(3) by metis
  obtain y pp2 where tk: "m' = m2\<lparr>fees_accrued := y\<rparr>" "perp_position a3 ?mi = Inr pp2"
      "taker_recorded ?side (\<Sum>e \<leftarrow> evs. event_base e) (\<Sum>e \<leftarrow> evs. event_quote e) pp pp2"
    using record_taken_effect [OF p(8,7,6), of pp1] pen g(2) rem(1,3) taker_recorded_kept(2) [OF pen(3,4)] by auto
  have mi: "perp_market_index m' = ?mi" "pm_seq_num m' = pm_seq_num m + 1" "open_interest m' = open_interest m" using tk(1) pen(1) g(2) by simp_all
  note P = order_placedI [OF well(1) b2(1-3) _ _ _ _ _ _ ev(3) refl b2(5) _ tk(3)]
  consider (none) "oid = None" "book' = set_bookside book ?other bs2" "q' = match_event_queue st" "a' = a3"
    | (some) c bs3 d where "oid = Some order_id" "match_post_target st = Some c" "0 < n" "n = min (remaining_base_lots st) d"
      "post_order order (bookside book ?side) (match_event_queue st) a3 (perp_market_index m') pk c order_id n now px price = Inr (bs3, q', a')"
      "book' = set_bookside (set_bookside book ?other bs2) ?side bs3"
    using fin by blast
  then show thesis
  proof cases
    case none
    note f = this
    have b': "book' = set_bookside (set_bookside book ?other bs2) ?side (bookside book ?side)"
      by (cases ?side) (simp_all add: f(2) set_bookside_def bookside_def)
    have pl: "order_placed order pk limit book q pp evs [] book' q' pp2"
      unfolding b' by (rule P [where n = 0]) (use bok f ev(1,2) rem in \<open>simp_all add: out_events_def\<close>)
    have ids: "ids_below (pm_seq_num m') book'"
      unfolding b' mi(2) by (rule ids_below_post [OF well(4) b2(4), of _ pd]) blast
    show thesis by (rule that [OF pl _ p(1,2) ev(3) ids mi(2,1,3)]) (use f(4) tk(2,3) in \<open>simp_all add: taker_recorded_def\<close>)
  next
    case some
    note f = this
    have po: "postable c order_id (order_time_in_force order) now"
      using order_price_postable [OF p(2) well(3) _ now] f(2) rem(5) g(3) by auto
    obtain outs pp0 pp' where b3: "book_ok bs3" "book_side bs3 = book_side (bookside book ?side)"
      and q': "event_queue_ok q'" "eq_events q' = eq_events (match_event_queue st) @ outs" "out_events ?side outs"
      and b3': "\<And>own. side_lots bs3 own + (\<Sum>e \<leftarrow> outs. event_lots own ?side e) = side_lots (bookside book ?side) own + (if own = pk then n else 0)"
      "side_positive bs3" "\<And>d. book_keys d bs3 \<subseteq> insert order_id (book_keys d (bookside book ?side))"
      and pp': "perp_position a3 (perp_market_index m') = Inr pp0" "perp_position a' (perp_market_index m') = Inr pp'"
      "\<And>s. maker_lots pp' s = maker_lots pp0 s + (if s = ?side then n else 0)"
      "base_position_lots pp' = base_position_lots pp0" "taker_base_lots pp' = taker_base_lots pp0" "taker_quote_lots pp' = taker_quote_lots pp0"
      using post_order_effect [OF f(5) bok(1) ev(1) po fresh_map [OF bok(1) g(1)] bok(2)] f(3) by metis
    have "pp0 = pp2" using pp'(1) tk(2) mi(1) by simp
    have pl: "order_placed order pk limit book q pp evs outs book' q' pp'"
      unfolding f(6) by (rule P [where n = n]) (use bok(3) b3 b3'(1,2) q' ev(2) f(3,4) rem pp'(3-6) \<open>pp0 = pp2\<close> in simp_all)
    have ids: "ids_below (pm_seq_num m') book'"
      unfolding f(6) mi(2) by (rule ids_below_post [OF well(4) b2(4)]) (use b3'(3) g(3) in simp)
    show thesis by (rule that [OF pl _ p(1,2) ev(3) ids mi(2,1,3)]) (use f(1) pp'(2) mi(1) in simp_all)
  qed
qed

end
