(* ===== verification/Cancel_Effect.thy ===== *)
theory Cancel_Effect
  imports Order_Effect
begin

text \<open>
  What cancelling does: the lots that leave the book are those that the owner's position gives
  back, and nothing else of the position's pending state changes.
\<close>

section \<open>One order\<close>

text \<open>The part of a position that only fills change.\<close>

definition same_taker :: "PerpPosition \<Rightarrow> PerpPosition \<Rightarrow> bool" where
  "same_taker pp pp' \<longleftrightarrow> base_position_lots pp' = base_position_lots pp \<and>
     taker_base_lots pp' = taker_base_lots pp \<and> taker_quote_lots pp' = taker_quote_lots pp"

lemma same_taker_refl [simp]: "same_taker pp pp"
  by (simp add: same_taker_def)

definition order_cancelled :: "u16 \<Rightarrow> pubkey \<Rightarrow> Orderbook \<times> MangoAccount \<Rightarrow> Orderbook \<times> MangoAccount \<Rightarrow> bool" where
  "order_cancelled mi pk r r' \<longleftrightarrow>
     book_well (fst r') \<and> (\<forall>s d. book_keys d (bookside (fst r') s) \<subseteq> book_keys d (bookside (fst r) s)) \<and>
     (\<exists>pp pp'. perp_position (snd r) mi = Inr pp \<and> perp_position (snd r') mi = Inr pp' \<and> same_taker pp pp' \<and>
        (\<forall>s. maker_lots pp' s \<le> maker_lots pp s) \<and>
        (\<forall>own s. side_lots (bookside (fst r') s) own =
           side_lots (bookside (fst r) s) own + (if own = pk then maker_lots pp' s - maker_lots pp s else 0)))"

lemma remove_perp_order_effect:
  assumes "remove_perp_order a slot n = Inr a'"
  defines "oo \<equiv> perp_open_orders a ! slot"
  obtains pp pp' where "perp_position a (oo_market oo) = Inr pp" "perp_position a' (oo_market oo) = Inr pp'" "same_taker pp pp'"
    "\<And>s. maker_lots pp' s = maker_lots pp s - (if s = sat_side (oo_side_and_tree oo) then n else 0)"
    "slot < length (perp_open_orders a)" "perp_open_orders a' = (perp_open_orders a)[slot := oo_clear oo]"
proof -
  obtain i pp where i: "perp_raw_index a (oo_market oo) = Inr i" "slot < length (perp_open_orders a)"
      and pp: "adjust_maker_lots (perp_positions a ! i) (sat_side (oo_side_and_tree oo)) (- n) = Inr pp"
      and a': "a' = set_perp_order (set_perp_position a i pp) slot (oo_clear oo)"
    using assms(1) unfolding remove_perp_order_def Let_def oo_def by (elim rbind_InrE) (auto simp: require_eq_Inr)
  note e = adjust_maker_lots_frame [OF pp]
  have "pp_market_index pp = oo_market oo" using e(2) perp_raw_index_ok [OF i(1)] by simp
  then have "perp_position a' (oo_market oo) = Inr pp" unfolding a' using i by (simp add: perp_position_set)
  moreover have "perp_position a (oo_market oo) = Inr (perp_positions a ! i)" using i by (simp add: perp_position_def)
  ultimately show thesis using that e i(2) a' by (auto simp: same_taker_def)
qed

lemma book_remove_keys:
  assumes ok: "book_ok bs" and r: "book_remove_by_key bs c k = Inr (bs', rm)"
  shows "book_ok bs'" "book_side bs' = book_side bs" "rm = book_map c bs k" "book_orders d bs' \<subseteq> book_orders d bs"
proof -
  note m = book_remove_map [OF ok, of c k, unfolded r, simplified]
  show ok': "book_ok bs'" and "book_side bs' = book_side bs" "rm = book_map c bs k" using m by simp_all
  have "d = c \<or> d = other_component c" by (cases c; cases d) simp_all
  then have "book_map d bs (leaf_key x) = Some x" if "book_map d bs' (leaf_key x) = Some x" for x
    using m that by (auto split: if_splits)
  then show "book_orders d bs' \<subseteq> book_orders d bs"
    using book_orders_map(1) [OF ok, of _ d] book_orders_map(1) [OF ok', of _ d] by blast
qed

lemma book_keys_dom:
  assumes "book_ok bs"
  shows "book_keys d bs = dom (book_map d bs)"
proof (intro set_eqI iffI)
  fix x
  assume "x \<in> book_keys d bs"
  then obtain l where "l \<in> book_orders d bs" "x = leaf_key l" unfolding book_keys_def by blast
  then show "x \<in> dom (book_map d bs)" using book_orders_map(1) [OF assms] by blast
next
  fix x
  assume "x \<in> dom (book_map d bs)"
  then obtain l where l: "book_map d bs x = Some l" by blast
  then have k: "leaf_key l = x" by (rule book_orders_map(2) [OF assms])
  then have "l \<in> book_orders d bs" using book_orders_map(1) [OF assms] l by simp
  then show "x \<in> book_keys d bs" unfolding book_keys_def using k by blast
qed

text \<open>Exactly the key goes.\<close>

lemma book_remove_exact:
  assumes ok: "book_ok bs" and r: "book_remove_by_key bs c k = Inr (bs', rm)"
  shows "book_keys d bs' = (if d = c then book_keys d bs - {k} else book_keys d bs)"
proof -
  note m = book_remove_map [OF ok, of c k, unfolded r, simplified]
  consider "d = c" | "d = other_component c" "d \<noteq> c" by (cases c; cases d) simp_all
  then show ?thesis using m by cases (simp_all add: book_keys_dom ok)
qed

lemma book_well_set:
  assumes "book_well book" "book_ok bs'" "book_side bs' = s" "\<forall>d. book_orders d bs' \<subseteq> book_orders d (bookside book s)"
  shows "book_well (set_bookside book s bs')" "book_keys d (bookside (set_bookside book s bs') t) \<subseteq> book_keys d (bookside book t)"
proof -
  show "book_well (set_bookside book s bs')"
    using assms side_positive_sub [OF _ assms(4)] unfolding book_well_def by auto
  show "book_keys d (bookside (set_bookside book s bs') t) \<subseteq> book_keys d (bookside book t)"
    using assms(4) by (auto simp: book_keys_def)
qed

lemma cancel_by_slot_effect:
  assumes r: "cancel_order_by_slot book a pk slot mi = Inr r'" and well: "book_well book"
  shows "order_cancelled mi pk (book, a) r'" "perp_open_orders (snd r') = (perp_open_orders a)[slot := oo_clear (perp_open_orders a ! slot)]"
proof -
  let ?oo = "perp_open_orders a ! slot"
  let ?s = "sat_side (oo_side_and_tree ?oo)" and ?c = "sat_order_tree (oo_side_and_tree ?oo)"
  obtain bs' rm n a' where act: "oo_is_active_for_market ?oo mi"
      and rm: "book_remove_by_key (bookside book ?s) ?c (oo_id ?oo) = Inr (bs', rm)"
      and n: "case rm of Some l \<Rightarrow> leaf_owner l = pk \<and> n = quantity l | None \<Rightarrow> n = 0"
      and a': "remove_perp_order a slot n = Inr a'" and r': "r' = (set_bookside book ?s bs', a')"
    using r unfolding cancel_order_by_slot_def Let_def
    by (elim rbind_InrE) (auto simp: require_eq_Inr rbind_eq_Inr split: option.splits if_splits)
  have ok: "book_ok (bookside book s)" "book_side (bookside book s) = s" "side_positive (bookside book s)" for s
    using well by (simp_all add: book_well_def)
  note k = book_remove_keys [OF ok(1) rm] and lots = side_lots_remove [OF ok(1) rm]
  have mi: "oo_market ?oo = mi" using act by (simp add: oo_is_active_for_market_def)
  obtain pp pp' where pp: "perp_position a mi = Inr pp" "perp_position a' mi = Inr pp'" "same_taker pp pp'"
      "\<And>s. maker_lots pp' s = maker_lots pp s - (if s = ?s then n else 0)"
      "perp_open_orders a' = (perp_open_orders a)[slot := oo_clear ?oo]"
    using remove_perp_order_effect [OF a'] mi by metis
  have pos: "0 \<le> n"
  proof (cases rm)
    case (Some l)
    then have "book_map ?c (bookside book ?s) (oo_id ?oo) = Some l" using k(3) by simp
    moreover from this have "leaf_key l = oo_id ?oo" by (rule book_orders_map(2) [OF ok(1)])
    ultimately have "l \<in> book_orders ?c (bookside book ?s)" using book_orders_map(1) [OF ok(1)] by metis
    then show ?thesis using ok(3) Some n by (fastforce simp: side_positive_def)
  qed (use n in simp)
  have l: "side_lots bs' own = side_lots (bookside book ?s) own - (if own = pk then n else 0)" for own
    using lots [of own] n by (auto simp: order_lots_def split: option.splits)
  note w = book_well_set [OF well k(1), of ?s] 
  show "perp_open_orders (snd r') = (perp_open_orders a)[slot := oo_clear ?oo]" using pp(5) r' by simp
  show "order_cancelled mi pk (book, a) r'"
    unfolding order_cancelled_def r'
    using w k(2,4) ok(2) pp pos l by auto
qed

section \<open>All orders\<close>

lemma order_cancelled_trans:
  assumes "order_cancelled mi pk r0 r1" "order_cancelled mi pk r1 r2"
  shows "order_cancelled mi pk r0 r2"
proof -
  note a = assms [unfolded order_cancelled_def]
  obtain pp pp1 pp2 where p: "perp_position (snd r0) mi = Inr pp" "perp_position (snd r1) mi = Inr pp1" "perp_position (snd r2) mi = Inr pp2"
      "same_taker pp pp1" "same_taker pp1 pp2" "\<forall>s. maker_lots pp1 s \<le> maker_lots pp s" "\<forall>s. maker_lots pp2 s \<le> maker_lots pp1 s"
      "\<forall>own s. side_lots (bookside (fst r1) s) own =
           side_lots (bookside (fst r0) s) own + (if own = pk then maker_lots pp1 s - maker_lots pp s else 0)"
      "\<forall>own s. side_lots (bookside (fst r2) s) own =
           side_lots (bookside (fst r1) s) own + (if own = pk then maker_lots pp2 s - maker_lots pp1 s else 0)"
    using a by (elim conjE exE) simp
  have "same_taker pp pp2" using p(4,5) by (simp add: same_taker_def)
  moreover have "maker_lots pp2 s \<le> maker_lots pp s" for s using p(6,7) order_trans by blast
  moreover have "side_lots (bookside (fst r2) s) own =
           side_lots (bookside (fst r0) s) own + (if own = pk then maker_lots pp2 s - maker_lots pp s else 0)" for own s
    using p(8,9) by simp
  ultimately show ?thesis using a p(1,3) unfolding order_cancelled_def by (meson subset_trans)
qed

text \<open>The slots that a cancelling loop is to deal with, and the ids of their orders in a tree of the book.\<close>

definition to_cancel :: "u16 \<Rightarrow> Side option \<Rightarrow> PerpOpenOrder \<Rightarrow> bool" where
  "to_cancel mi side_opt oo \<longleftrightarrow> oo_is_active_for_market oo mi \<and> (side_opt = None \<or> side_opt = Some (sat_side (oo_side_and_tree oo)))"

definition ids_to_cancel :: "u16 \<Rightarrow> Side option \<Rightarrow> Side \<Rightarrow> BookSideOrderTree \<Rightarrow> PerpOpenOrder list \<Rightarrow> u128 set" where
  "ids_to_cancel mi side_opt s d oos =
     oo_id ` {oo \<in> set oos. to_cancel mi side_opt oo \<and> sat_side (oo_side_and_tree oo) = s \<and> sat_order_tree (oo_side_and_tree oo) = d}"

text \<open>What is left in a slot once the loop has been there: a slot whose order is not on the book stays when it does not
  know the quantity of the order.\<close>

definition slot_cancelled :: "u16 \<Rightarrow> Side option \<Rightarrow> PerpOpenOrder \<Rightarrow> PerpOpenOrder \<Rightarrow> bool" where
  "slot_cancelled mi side_opt oo oo' \<longleftrightarrow>
     (if to_cancel mi side_opt oo then oo' = oo_clear oo \<or> (oo' = oo \<and> oo_quantity oo = 0) else oo' = oo)"

lemma ids_to_cancel_Cons:
  "ids_to_cancel mi side_opt s d (oo # oos) =
     (if to_cancel mi side_opt oo \<and> sat_side (oo_side_and_tree oo) = s \<and> sat_order_tree (oo_side_and_tree oo) = d then {oo_id oo} else {}) \<union>
     ids_to_cancel mi side_opt s d oos"
  by (auto simp: ids_to_cancel_def)

lemma cancel_by_slot_keys:
  assumes r: "cancel_order_by_slot book a pk slot mi = Inr r'" and well: "book_well book"
  defines "oo \<equiv> perp_open_orders a ! slot"
  shows "book_keys d (bookside (fst r') s) =
    book_keys d (bookside book s) - (if sat_side (oo_side_and_tree oo) = s \<and> sat_order_tree (oo_side_and_tree oo) = d then {oo_id oo} else {})"
proof -
  let ?s = "sat_side (oo_side_and_tree oo)" and ?c = "sat_order_tree (oo_side_and_tree oo)"
  have "\<exists>bs' rm. book_remove_by_key (bookside book ?s) ?c (oo_id oo) = Inr (bs', rm) \<and> fst r' = set_bookside book ?s bs'"
    using r unfolding cancel_order_by_slot_def Let_def oo_def by (elim rbind_InrE) (auto elim!: rbind_InrE)
  then obtain bs' rm where rm: "book_remove_by_key (bookside book ?s) ?c (oo_id oo) = Inr (bs', rm)" "fst r' = set_bookside book ?s bs'" by blast
  have "book_ok (bookside book ?s)" using well by (simp add: book_well_def)
  note k = book_remove_exact [OF this rm(1)]
  show ?thesis by (cases "s = ?s") (auto simp: rm(2) k)
qed

text \<open>The error that the loop goes on after means that the order is not on the book.\<close>

lemma cancel_not_found:
  assumes "cancel_order_by_slot book a pk slot mi = Inl (MangoErr PerpOrderIdNotFound)" "book_well book"
  defines "oo \<equiv> perp_open_orders a ! slot"
  shows "oo_quantity oo = 0" "oo_id oo \<notin> book_keys (sat_order_tree (oo_side_and_tree oo)) (bookside book (sat_side (oo_side_and_tree oo)))"
proof -
  let ?bs = "bookside book (sat_side (oo_side_and_tree oo))" and ?c = "sat_order_tree (oo_side_and_tree oo)"
  have ok: "book_ok ?bs" using assms(2) by (simp add: book_well_def)
  obtain bs' rm where rm: "book_remove_by_key ?bs ?c (oo_id oo) = Inr (bs', rm)" using book_remove_map [OF ok] by blast
  have n: "oo_quantity oo = 0 \<and> rm = None" using assms(1) rm
    by (auto simp: cancel_order_by_slot_def remove_perp_order_def perp_raw_index_def adjust_maker_lots_def rbind_eq_Inl Let_def oo_def
        ok_or_def require_def chk_i64_def split: option.splits if_splits Side.splits)
  then show "oo_quantity oo = 0" by simp
  have "book_map ?c ?bs (oo_id oo) = None" using book_remove_keys(3) [OF ok rm] n by simp
  then show "oo_id oo \<notin> book_keys ?c ?bs" using book_orders_map(1) [OF ok] by (auto simp: book_keys_def)
qed

text \<open>What the loop over \<open>n\<close> slots from slot \<open>i\<close> on has done.\<close>

definition cancel_result ::
  "nat \<Rightarrow> nat \<Rightarrow> pubkey \<Rightarrow> u16 \<Rightarrow> u8 \<Rightarrow> Side option \<Rightarrow> Orderbook \<times> MangoAccount \<Rightarrow> Orderbook \<times> MangoAccount \<Rightarrow> bool" where
  "cancel_result n i pk mi limit side_opt r r' \<longleftrightarrow>
     (r' = r \<or> order_cancelled mi pk r r') \<and>
     length (perp_open_orders (snd r')) = length (perp_open_orders (snd r)) \<and>
     (\<forall>j < i. perp_open_orders (snd r') ! j = perp_open_orders (snd r) ! j) \<and>
     (n \<le> limit \<longrightarrow>
        (\<forall>j. i \<le> j \<longrightarrow> j < i + n \<longrightarrow> slot_cancelled mi side_opt (perp_open_orders (snd r) ! j) (perp_open_orders (snd r') ! j)) \<and>
        (\<forall>s d. book_keys d (bookside (fst r') s) =
           book_keys d (bookside (fst r) s) - ids_to_cancel mi side_opt s d (take n (drop i (perp_open_orders (snd r))))))"

text \<open>One slot of the loop.\<close>

definition slot_step :: "nat \<Rightarrow> pubkey \<Rightarrow> u16 \<Rightarrow> Side option \<Rightarrow> Orderbook \<times> MangoAccount \<Rightarrow> Orderbook \<times> MangoAccount \<Rightarrow> bool" where
  "slot_step i pk mi side_opt r r1 \<longleftrightarrow>
     (let oo = perp_open_orders (snd r) ! i in
      (r1 = r \<or> order_cancelled mi pk r r1) \<and>
      (\<exists>oo'. perp_open_orders (snd r1) = (perp_open_orders (snd r))[i := oo'] \<and> slot_cancelled mi side_opt oo oo') \<and>
      (\<forall>s d. book_keys d (bookside (fst r1) s) = book_keys d (bookside (fst r) s) - ids_to_cancel mi side_opt s d [oo]))"

lemma cancel_result_step:
  assumes c: "cancel_result n (i + 1) pk mi l side_opt r1 r2" and 1: "slot_step i pk mi side_opt r r1"
    and i: "i < length (perp_open_orders (snd r))" and l: "Suc n \<le> limit \<longrightarrow> n \<le> l"
  shows "cancel_result (Suc n) i pk mi limit side_opt r r2"
proof -
  let ?o = "\<lambda>r. perp_open_orders (snd r)"
  obtain oo' where o: "?o r1 = (?o r)[i := oo']" "slot_cancelled mi side_opt (?o r ! i) oo'"
    and r1: "r1 = r \<or> order_cancelled mi pk r r1"
    and k1: "\<forall>s d. book_keys d (bookside (fst r1) s) = book_keys d (bookside (fst r) s) - ids_to_cancel mi side_opt s d [?o r ! i]"
    using 1 unfolding slot_step_def Let_def by blast
  note c' = c [unfolded cancel_result_def]
  have "r2 = r \<or> order_cancelled mi pk r r2" using c' r1 order_cancelled_trans by blast
  moreover have "length (?o r2) = length (?o r)" "\<forall>j < i. ?o r2 ! j = ?o r ! j" using c' o(1) by simp_all
  moreover have "slot_cancelled mi side_opt (?o r ! j) (?o r2 ! j)" if "Suc n \<le> limit" "i \<le> j" "j < i + Suc n" for j
    using c' o l that i by (cases "j = i") simp_all
  moreover have "book_keys d (bookside (fst r2) s) = book_keys d (bookside (fst r) s) - ids_to_cancel mi side_opt s d (take (Suc n) (drop i (?o r)))"
    if "Suc n \<le> limit" for s d
  proof -
    have "drop (i + 1) (?o r1) = drop (i + 1) (?o r)" by (simp add: o(1))
    moreover have "take (Suc n) (drop i (?o r)) = ?o r ! i # take n (drop (i + 1) (?o r))" using i by (simp add: Cons_nth_drop_Suc [symmetric])
    ultimately show ?thesis using c' k1 l that by (auto simp: ids_to_cancel_Cons [of _ _ _ _ _ "take _ _"] ids_to_cancel_Cons [of _ _ _ _ _ "[]"] ids_to_cancel_def [of _ _ _ _ "[]"])
  qed
  ultimately show ?thesis unfolding cancel_result_def by blast
qed

lemma ids_to_cancel_one:
  "ids_to_cancel mi side_opt s d [oo] =
     (if to_cancel mi side_opt oo \<and> sat_side (oo_side_and_tree oo) = s \<and> sat_order_tree (oo_side_and_tree oo) = d then {oo_id oo} else {})"
  by (auto simp: ids_to_cancel_def)

lemma cancel_attempt:
  assumes "book_well book" "to_cancel mi side_opt (perp_open_orders a ! i)"
    and "cancel_order_by_slot book a pk i mi = Inr r1 \<or> cancel_order_by_slot book a pk i mi = Inl (MangoErr PerpOrderIdNotFound) \<and> r1 = (book, a)"
  shows "slot_step i pk mi side_opt (book, a) r1 \<and> book_well (fst r1)"
  using assms(3)
proof (elim disjE conjE)
  assume c: "cancel_order_by_slot book a pk i mi = Inr r1"
  note e = cancel_by_slot_effect [OF c assms(1)]
  have "slot_cancelled mi side_opt (perp_open_orders a ! i) (oo_clear (perp_open_orders a ! i))" using assms(2) by (simp add: slot_cancelled_def)
  then have "slot_step i pk mi side_opt (book, a) r1" unfolding slot_step_def Let_def
    using e assms(2) cancel_by_slot_keys [OF c assms(1)] by (auto simp: ids_to_cancel_one)
  then show ?thesis using e(1) by (simp add: order_cancelled_def)
next
  assume c: "cancel_order_by_slot book a pk i mi = Inl (MangoErr PerpOrderIdNotFound)" "r1 = (book, a)"
  note n = cancel_not_found [OF c(1) assms(1)]
  have "slot_cancelled mi side_opt (perp_open_orders a ! i) (perp_open_orders a ! i)" using n(1) by (simp add: slot_cancelled_def)
  moreover have "perp_open_orders a = (perp_open_orders a)[i := perp_open_orders a ! i]" by simp
  ultimately have "\<exists>oo'. perp_open_orders a = (perp_open_orders a)[i := oo'] \<and> slot_cancelled mi side_opt (perp_open_orders a ! i) oo'" by metis
  then have "slot_step i pk mi side_opt (book, a) r1" unfolding slot_step_def Let_def c(2)
    using n(2) assms(2) by (auto simp: ids_to_cancel_one)
  then show ?thesis using assms(1) by (simp add: c(2))
qed

lemma slot_step_skip: "\<not> to_cancel mi side_opt (perp_open_orders (snd r) ! i) \<Longrightarrow> slot_step i pk mi side_opt r r"
  unfolding slot_step_def Let_def by (auto simp: slot_cancelled_def ids_to_cancel_one intro!: exI [of _ "perp_open_orders (snd r) ! i"])

lemma cancel_all_effect:
  "cancel_all_loop n i book a pk mi limit side_opt = Inr r' \<Longrightarrow> book_well book \<Longrightarrow>
     cancel_result n i pk mi limit side_opt (book, a) r'"
proof (induction n arbitrary: i book a limit)
  case 0
  then show ?case by (auto simp: cancel_result_def ids_to_cancel_def)
next
  case (Suc n)
  let ?oo = "perp_open_orders a ! i"
  have i: "i < length (perp_open_orders a)" using Suc.prems(1) by (auto simp: rbind_eq_Inr require_eq_Inr)
  show ?case
  proof (cases "to_cancel mi side_opt ?oo")
    case False
    then have "cancel_all_loop n (i + 1) book a pk mi limit side_opt = Inr r'"
      using Suc.prems(1) i by (auto simp: to_cancel_def require_def Let_def split: if_splits)
    then have "cancel_result n (i + 1) pk mi limit side_opt (book, a) r'" using Suc.IH Suc.prems(2) by blast
    then show ?thesis by (rule cancel_result_step) (use False i in \<open>auto intro: slot_step_skip\<close>)
  next
    case True
    note t = True [unfolded to_cancel_def]
    obtain l where l1: "limit = Suc l"
      using Suc.prems(1) i t
      by (cases limit) (auto simp: rbind_eq_Inr require_def Let_def sub_unsigned_def split: if_splits sum.splits)
    obtain r1 where r1: "cancel_order_by_slot book a pk i mi = Inr r1 \<or>
          cancel_order_by_slot book a pk i mi = Inl (MangoErr PerpOrderIdNotFound) \<and> r1 = (book, a)"
        and l: "if l = 0 then r' = r1 else cancel_all_loop n (i + 1) (fst r1) (snd r1) pk mi l side_opt = Inr r'"
      using Suc.prems(1) i l1 t
      by (auto simp: rbind_eq_Inr require_def Let_def sub_unsigned_def split: if_splits sum.splits)
    note e = cancel_attempt [OF Suc.prems(2) True r1]
    have "cancel_result n (i + 1) pk mi l side_opt r1 r'"
    proof (cases "l = 0")
      case False
      then show ?thesis using l Suc.IH [OF _ e [THEN conjunct2]] by (metis (full_types) prod.collapse)
    qed (use l in \<open>auto simp: cancel_result_def ids_to_cancel_def\<close>)
    then show ?thesis by (rule cancel_result_step) (use e i l1 in simp_all)
  qed
qed

end
