(* ===== verification/Perp_Machine.thy ===== *)
theory Perp_Machine
  imports State_Machine Perp_Instructions Cancel_Effect
begin

text \<open>
  A perp market as a state machine whose steps are its instructions, and the invariant that ties
  the accounts to the book and to the event queue.
\<close>

section \<open>The invariant\<close>

definition position_of :: "PerpState \<Rightarrow> pubkey \<Rightarrow> PerpPosition option" where
  "position_of S k =
     (case ps_accounts S k of
        None \<Rightarrow> None
      | Some a \<Rightarrow> (case perp_position a (perp_market_index (ps_market S)) of Inr pp \<Rightarrow> Some pp | Inl _ \<Rightarrow> None))"

text \<open>A field of an account's position, zero when it has none.\<close>

definition pos_val :: "(PerpPosition \<Rightarrow> int) \<Rightarrow> PerpState \<Rightarrow> pubkey \<Rightarrow> int" where
  "pos_val f S k = (case position_of S k of None \<Rightarrow> 0 | Some pp \<Rightarrow> f pp)"

text \<open>What an event on the queue still has to bring to a taker's position.\<close>

fun event_taker_base :: "pubkey \<Rightarrow> AnyEvent \<Rightarrow> int" where
  "event_taker_base own (FillEv f) =
     (if taker f = own then (if taker_side f = Bid then fill_quantity f else - fill_quantity f) else 0)"
| "event_taker_base own (OutEv e) = 0"
| "event_taker_base own (OtherEv n) = 0"

fun event_taker_quote :: "pubkey \<Rightarrow> AnyEvent \<Rightarrow> int" where
  "event_taker_quote own (FillEv f) =
     (if taker f = own then (if taker_side f = Bid then - (fill_quantity f * fill_price f) else fill_quantity f * fill_price f) else 0)"
| "event_taker_quote own (OutEv e) = 0"
| "event_taker_quote own (OtherEv n) = 0"

fun event_positive :: "AnyEvent \<Rightarrow> bool" where
  "event_positive (FillEv f) \<longleftrightarrow> 0 < fill_quantity f"
| "event_positive (OutEv e) \<longleftrightarrow> 0 < out_quantity e"
| "event_positive (OtherEv n) \<longleftrightarrow> True"

definition lots_match :: "PerpState \<Rightarrow> bool" where
  "lots_match S \<longleftrightarrow>
     (\<forall>k s. pos_val (\<lambda>pp. maker_lots pp s) S k = open_lots (ps_book S) (ps_events S) k s) \<and>
     (\<forall>k. pos_val taker_base_lots S k = (\<Sum>e \<leftarrow> eq_events (ps_events S). event_taker_base k e)) \<and>
     (\<forall>k. pos_val taker_quote_lots S k = (\<Sum>e \<leftarrow> eq_events (ps_events S). event_taker_quote k e))"

definition zero_sum :: "PerpState \<Rightarrow> bool" where
  "zero_sum S \<longleftrightarrow> finite (dom (ps_accounts S)) \<and>
     (\<Sum>k \<in> dom (ps_accounts S). pos_val base_position_lots S k) = 0 \<and>
     (\<Sum>k \<in> dom (ps_accounts S). \<bar>pos_val base_position_lots S k\<bar>) = open_interest (ps_market S)"

definition market_inv :: "PerpState \<Rightarrow> bool" where
  "market_inv S \<longleftrightarrow> book_well (ps_book S) \<and> event_queue_ok (ps_events S) \<and>
     ids_below (pm_seq_num (ps_market S)) (ps_book S) \<and> (\<forall>e \<in> set (eq_events (ps_events S)). event_positive e) \<and>
     lots_match S \<and> zero_sum S"

section \<open>Storing an account\<close>

lemma pos_val_store:
  assumes "ps_accounts S' = (ps_accounts S)(k := Some a)" "perp_market_index (ps_market S') = perp_market_index (ps_market S)"
    and "perp_position a (perp_market_index (ps_market S)) = Inr pp"
  shows "pos_val f S' = (pos_val f S)(k := f pp)"
  unfolding pos_val_def position_of_def assms(2) by (rule ext) (simp add: assms)

lemma pos_val_at:
  "ps_accounts S k = Some a \<Longrightarrow> perp_position a (perp_market_index (ps_market S)) = Inr pp \<Longrightarrow> pos_val f S k = f pp"
  by (simp add: pos_val_def position_of_def)

lemma pos_val_events [simp]: "pos_val f (S\<lparr>ps_events := q\<rparr>) = pos_val f S"
  by (rule ext) (simp add: pos_val_def position_of_def split: option.splits)

lemma lots_matchD:
  assumes "lots_match S"
  shows "open_lots (ps_book S) (ps_events S) k s = pos_val (\<lambda>pp. maker_lots pp s) S k"
    "(\<Sum>e \<leftarrow> eq_events (ps_events S). event_taker_base k e) = pos_val taker_base_lots S k"
    "(\<Sum>e \<leftarrow> eq_events (ps_events S). event_taker_quote k e) = pos_val taker_quote_lots S k"
  using assms by (simp_all add: lots_match_def)

lemma sum_fun_upd:
  fixes f :: "'a \<Rightarrow> int"
  assumes "finite A" "k \<in> A"
  shows "(\<Sum>x \<in> A. g ((f(k := v)) x)) = (\<Sum>x \<in> A. g (f x)) - g (f k) + (g v :: int)"
proof -
  have "(\<Sum>x \<in> A. g ((f(k := v)) x)) = g v + (\<Sum>x \<in> A - {k}. g (f x))"
    using assms by (subst sum.remove [of _ k]) (auto intro!: sum.cong)
  also have "(\<Sum>x \<in> A - {k}. g (f x)) = (\<Sum>x \<in> A. g (f x)) - g (f k)" using assms by (simp add: sum_diff1)
  finally show ?thesis by simp
qed

lemma zero_sum_same:
  assumes "zero_sum S" "dom (ps_accounts S') = dom (ps_accounts S)" "pos_val base_position_lots S' = pos_val base_position_lots S"
    "open_interest (ps_market S') = open_interest (ps_market S)"
  shows "zero_sum S'"
  using assms by (simp add: zero_sum_def)

section \<open>Placing an order\<close>

lemma funding_update_frame:
  "update_funding_and_stable_price F m book os now = Inr m' \<Longrightarrow>
     perp_market_index m' = perp_market_index m \<and> pm_seq_num m' = pm_seq_num m \<and> open_interest m' = open_interest m \<and>
     pm_reduce_only m' = pm_reduce_only m"
  unfolding update_funding_and_stable_price_def by (auto simp: rbind_eq_Inr Let_def split: if_splits)

lemma ensure_token_position_frame:
  "ensure_token_position a ti = Inr (a', i, b) \<Longrightarrow> perp_positions a' = perp_positions a \<and> fixed_part a' = fixed_part a"
  by (auto simp: ensure_token_position_def split: option.splits if_splits)

lemma position_fresh:
  "position P xs = None \<Longrightarrow> j < length xs \<Longrightarrow> P y \<Longrightarrow> position P (xs[j := y]) = Some j"
proof (induction xs arbitrary: j)
  case (Cons x xs)
  then show ?case by (cases j) (auto split: if_splits)
qed simp

text \<open>The position after \<^verbatim>\<open>ensure_perp_position\<close>: the one there was, or a fresh one.\<close>

lemma ensure_perp_position_effect:
  assumes "ensure_perp_position a mi ti = Inr (a', i)"
  obtains (old) "a' = a" "perp_position a mi = Inr (perp_positions a ! i)"
    | (new) e where "perp_position a mi = Inl e" "perp_position a' mi = Inr (PerpPosition_default\<lparr>pp_market_index := mi\<rparr>)"
        "fixed_part a' = fixed_part a"
proof (cases "position (\<lambda>p. pp_is_active_for_market p mi) (perp_positions a)")
  case (Some j)
  then have "a' = a" "j = i" using assms by (simp_all add: ensure_perp_position_def)
  then show thesis using Some old by (simp add: perp_position_def perp_raw_index_def)
next
  case None
  let ?pp = "PerpPosition_default\<lparr>pp_market_index := mi\<rparr>"
  obtain j a1 t b p where j: "position (\<lambda>p. \<not> pp_is_active p) (perp_positions a) = Some j"
      "ensure_token_position (set_perp_position a j ?pp) ti = Inr (a1, t, b)"
      "a' = a1\<lparr>token_positions := (token_positions a1)[t := p]\<rparr>"
    using assms None by (auto simp: ensure_perp_position_def rbind_eq_Inr split: option.splits)
  have p: "perp_positions a' = (perp_positions a)[j := ?pp]" "fixed_part a' = fixed_part a"
    using ensure_token_position_frame [OF j(2)] j(3) by simp_all
  have "j < length (perp_positions a)" using position_Some [OF j(1)] by simp
  moreover from this have "position (\<lambda>p. pp_is_active_for_market p mi) ((perp_positions a)[j := ?pp]) = Some j"
    using position_fresh [OF None, of j ?pp] by (simp add: pp_is_active_for_market_def)
  ultimately show thesis using new p None by (simp add: perp_position_def perp_raw_index_def)
qed

lemma perp_position_cong: "perp_positions a = perp_positions b \<Longrightarrow> perp_position a mi = perp_position b mi"
  by (simp add: perp_position_def perp_raw_index_def)

lemma pre_health_frame:
  assumes "place_order_pre_health H a ti now slot = Inr (a', pre)"
  shows "perp_positions a' = perp_positions a" "perp_open_orders a' = perp_open_orders a"
  using assms by (auto simp: place_order_pre_health_def check_health_pre_def check_health_pre_checks_def rbind_eq_Inr Let_def split: if_splits)

lemma place_parts:
  assumes "perp_place_order_logic F H S K oracle ts slot order limit = Inr (S', oid)"
  defines "k \<equiv> key_account K"
  obtains os m a0 a1 i a3 pp mb book m' q a4 where "0 \<le> max_base_lots order" "0 \<le> max_quote_lots order" "0 \<le> ts"
    "update_funding_and_stable_price F (ps_market S) (ps_book S) os (nat ts) = Inr m" "ps_accounts S k = Some a0"
    "is_owner_or_delegate (fixed_part a0) (key_owner K) ts = Inr True"
    "ensure_perp_position a0 (perp_market_index m) (settle_token_index m) = Inr (a1, i)"
    "perp_positions a3 = perp_positions a1" "perp_position a3 (perp_market_index m) = Inr pp"
    "place_order_max_base m pp order = Inr mb"
    "new_order F (ps_book S) (order\<lparr>max_base_lots := mb\<rparr>) m (ps_events S) (os_price os) a3 k (nat ts) limit = Inr (book, m', q, a4, oid)"
    "S' = (store_account S k a4)\<lparr>ps_market := m', ps_book := book, ps_events := q\<rparr>"
  using assms(1) unfolding perp_place_order_logic_def Let_def k_def
  apply (clarsimp simp: rbind_eq_Inr require_eq_Inr clock_u64_def load_account_def ok_or_eq_Inr split: if_splits)
  subgoal premises p for os m a0 allowed a1 i a2 pre f pp mb book m' q a4
    by (rule p(1) [of os m a0 a1 i "a2\<lparr>fixed_part := f\<rparr>" pp mb book m' q a4]) (use p(2-) pre_health_frame(1) in auto)
  done

text \<open>The position before the order, by its fields.\<close>

lemma placed_position:
  assumes "ps_accounts S k = Some a0" "ensure_perp_position a0 (perp_market_index (ps_market S)) ti = Inr (a1, i)"
    and "perp_positions a3 = perp_positions a1" "perp_position a3 (perp_market_index (ps_market S)) = Inr pp"
    and "f (PerpPosition_default\<lparr>pp_market_index := perp_market_index (ps_market S)\<rparr>) = 0"
  shows "pos_val f S k = f pp"
proof -
  let ?mi = "perp_market_index (ps_market S)"
  have pp: "perp_position a1 ?mi = Inr pp" using assms(4) perp_position_cong [OF assms(3)] by simp
  from assms(2) show ?thesis
    by (cases rule: ensure_perp_position_effect) (use pp assms(1,5) in \<open>auto simp: pos_val_def position_of_def\<close>)
qed

lemma good_fills_taker:
  assumes "\<forall>e \<in> set fills. good_fill order pk price items e"
  shows "(\<Sum>e \<leftarrow> fills. event_taker_base k e) = (if k = pk then (if order_side order = Bid then 1 else - 1) * (\<Sum>e \<leftarrow> fills. event_base e) else 0)"
    "(\<Sum>e \<leftarrow> fills. event_taker_quote k e) = (if k = pk then - (if order_side order = Bid then 1 else - 1) * (\<Sum>e \<leftarrow> fills. event_quote e) else 0)"
    "\<forall>e \<in> set fills. event_positive e"
proof -
  have *: "event_taker_base k e = (if k = pk then (if order_side order = Bid then 1 else - 1) * event_base e else 0)"
    "event_taker_quote k e = (if k = pk then - (if order_side order = Bid then 1 else - 1) * event_quote e else 0)" "event_positive e"
    if "good_fill order pk price items e" for e using that by (cases e; auto)+
  show "(\<Sum>e \<leftarrow> fills. event_taker_base k e) = (if k = pk then (if order_side order = Bid then 1 else - 1) * (\<Sum>e \<leftarrow> fills. event_base e) else 0)"
    using assms by (induction fills) (auto simp: *(1) algebra_simps)
  show "(\<Sum>e \<leftarrow> fills. event_taker_quote k e) = (if k = pk then - (if order_side order = Bid then 1 else - 1) * (\<Sum>e \<leftarrow> fills. event_quote e) else 0)"
    using assms by (induction fills) (auto simp: *(2) algebra_simps)
  show "\<forall>e \<in> set fills. event_positive e" using assms *(3) by blast
qed

lemma out_events_taker:
  assumes "out_events s outs"
  shows "(\<Sum>e \<leftarrow> outs. event_taker_base k e) = 0" "(\<Sum>e \<leftarrow> outs. event_taker_quote k e) = 0" "\<forall>e \<in> set outs. event_positive e"
  using assms by (induction outs) (auto simp: out_events_def)

lemma place_order_max_base_bounds:
  "place_order_max_base m pp order = Inr mb \<Longrightarrow> 0 \<le> max_base_lots order \<Longrightarrow> 0 \<le> mb \<and> mb \<le> max_base_lots order"
  by (auto simp: place_order_max_base_def reduce_only_max_base_lots_def rbind_eq_Inr split: if_splits)

lemma clock_in_range: "in_i64 ts \<Longrightarrow> nat ts + u16_MAX \<le> u64_MAX"
  by (auto simp: in_i64_def i64_MAX_def u16_MAX_def u64_MAX_def)

lemma placed_effect:
  assumes inv: "market_inv S" and r: "perp_place_order_logic F H S K oracle ts slot order limit = Inr (S', oid)"
    and ok: "in_i64 ts" "order_ok order"
  defines "k \<equiv> key_account K"
  obtains m mb pp pp' fills outs price items where
    "is_reduce_only m = is_reduce_only (ps_market S)" "place_order_max_base m pp order = Inr mb" "0 \<le> mb" "mb \<le> max_base_lots order"
    "order_placed (order\<lparr>max_base_lots := mb\<rparr>) k limit (ps_book S) (ps_events S) pp fills outs (ps_book S') (ps_events S') pp'"
    "\<forall>e \<in> set fills. good_fill (order\<lparr>max_base_lots := mb\<rparr>) k price items e"
    "\<And>s. pos_val (\<lambda>pp. maker_lots pp s) S k = maker_lots pp s" "pos_val taker_base_lots S k = taker_base_lots pp"
    "pos_val taker_quote_lots S k = taker_quote_lots pp" "pos_val base_position_lots S k = base_position_lots pp"
    "\<And>f. pos_val f S' = (pos_val f S)(k := f pp')" "ids_below (pm_seq_num (ps_market S')) (ps_book S')"
    "dom (ps_accounts S') = dom (ps_accounts S)" "open_interest (ps_market S') = open_interest (ps_market S)"
    "pm_seq_num (ps_market S') = pm_seq_num (ps_market S) + 1" "perp_market_index (ps_market S') = perp_market_index (ps_market S)"
proof -
  let ?m = "ps_market S"
  obtain os m a0 a1 i a3 pp mb book m' q a4 where p: "0 \<le> max_base_lots order" "0 \<le> max_quote_lots order" "0 \<le> ts"
    "update_funding_and_stable_price F ?m (ps_book S) os (nat ts) = Inr m" "ps_accounts S k = Some a0"
    "is_owner_or_delegate (fixed_part a0) (key_owner K) ts = Inr True"
    "ensure_perp_position a0 (perp_market_index m) (settle_token_index m) = Inr (a1, i)"
    "perp_positions a3 = perp_positions a1" "perp_position a3 (perp_market_index m) = Inr pp"
    "place_order_max_base m pp order = Inr mb"
    "new_order F (ps_book S) (order\<lparr>max_base_lots := mb\<rparr>) m (ps_events S) (os_price os) a3 k (nat ts) limit = Inr (book, m', q, a4, oid)"
    and S': "S' = (store_account S k a4)\<lparr>ps_market := m', ps_book := book, ps_events := q\<rparr>"
    unfolding k_def using place_parts [OF r] by blast
  have m: "perp_market_index m = perp_market_index ?m" "pm_seq_num m = pm_seq_num ?m" "open_interest m = open_interest ?m"
      "is_reduce_only m = is_reduce_only ?m"
    using funding_update_frame [OF p(4)] by (simp_all add: is_reduce_only_def)
  note mb = place_order_max_base_bounds [OF p(10,1)]
  have oo: "order_ok (order\<lparr>max_base_lots := mb\<rparr>)" using mb ok(2) by (simp add: order_ok_def)
  have inv': "book_well (ps_book S)" "event_queue_ok (ps_events S)" "ids_below (pm_seq_num ?m) (ps_book S)"
    using inv by (simp_all add: market_inv_def)
  obtain fills outs pp' px price where
    pl: "order_placed (order\<lparr>max_base_lots := mb\<rparr>) k limit (ps_book S) (ps_events S) pp fills outs book q pp'"
    and n: "perp_position a4 (perp_market_index m) = Inr pp'" "ids_below (pm_seq_num m') book" "perp_market_index m' = perp_market_index m"
      "open_interest m' = open_interest m" "pm_seq_num m' = pm_seq_num m + 1"
    and g: "\<forall>e \<in> set fills. good_fill (order\<lparr>max_base_lots := mb\<rparr>) k price (book_items (bookside (ps_book S) (invert_side (order_side order))) (nat ts) px) e"
    by (rule new_order_effect [OF p(11) inv'(1,2) oo inv'(3) [folded m(2)] clock_in_range [OF ok(1)] p(9)]) (rule that; simp)
  have before: "pos_val f S k = f pp" if "f (PerpPosition_default\<lparr>pp_market_index := perp_market_index ?m\<rparr>) = 0" for f
    by (rule placed_position [OF p(5) p(7) [unfolded m] p(8) p(9) [unfolded m], of f]) (rule that)
  have fields: "pos_val (\<lambda>pp. maker_lots pp s) S k = maker_lots pp s" "pos_val taker_base_lots S k = taker_base_lots pp"
    "pos_val taker_quote_lots S k = taker_quote_lots pp" "pos_val base_position_lots S k = base_position_lots pp" for s
    by (rule before; cases s; simp add: PerpPosition_default_def maker_lots_def)+
  have after: "pos_val f S' = (pos_val f S)(k := f pp')" for f
    by (rule pos_val_store [of _ _ _ a4]) (simp_all add: S' store_account_def n m [symmetric])
  show thesis
    by (rule that [OF m(4) p(10) _ _ _ g fields after])
      (use mb pl n m(1,2,3) p(5) in \<open>auto simp: S' store_account_def\<close>)
qed

lemma place_order_inv:
  assumes inv: "market_inv S" and r: "perp_place_order_logic F H S K oracle ts slot order limit = Inr (S', oid)"
    and ok: "in_i64 ts" "order_ok order"
  shows "market_inv S'"
proof (rule placed_effect [OF assms])
  let ?k = "key_account K"
  fix m mb pp pp' fills outs price items
  assume pl: "order_placed (order\<lparr>max_base_lots := mb\<rparr>) ?k limit (ps_book S) (ps_events S) pp fills outs (ps_book S') (ps_events S') pp'"
    and g: "\<forall>e \<in> set fills. good_fill (order\<lparr>max_base_lots := mb\<rparr>) ?k price items e"
    and fields: "\<And>s. pos_val (\<lambda>pp. maker_lots pp s) S ?k = maker_lots pp s" "pos_val taker_base_lots S ?k = taker_base_lots pp"
      "pos_val taker_quote_lots S ?k = taker_quote_lots pp" "pos_val base_position_lots S ?k = base_position_lots pp"
    and after: "\<And>f. pos_val f S' = (pos_val f S)(?k := f pp')" and ids: "ids_below (pm_seq_num (ps_market S')) (ps_book S')"
    and dom: "dom (ps_accounts S') = dom (ps_accounts S)" and oi: "open_interest (ps_market S') = open_interest (ps_market S)"
  note inv' = inv [unfolded market_inv_def lots_match_def] and pl' = pl [unfolded order_placed_def]
    and outs = out_events_taker [of "order_side order" outs]
  have lots: "lots_match S'"
    using pl' inv' fields good_fills_taker(1,2) [OF g] outs(1,2) unfolding lots_match_def after by auto
  have base: "pos_val base_position_lots S' = pos_val base_position_lots S"
    using fields(4) pl' unfolding after by auto
  have "zero_sum S'" by (rule zero_sum_same [OF _ dom base oi]) (use inv' in simp)
  moreover have "\<forall>e \<in> set (eq_events (ps_events S')). event_positive e" using pl' inv' good_fills_taker(3) [OF g] outs(3) by auto
  ultimately show ?thesis using lots pl' ids unfolding market_inv_def by simp
qed

lemma side_lots_nonneg: "side_positive bs \<Longrightarrow> 0 \<le> side_lots bs own"
  unfolding side_lots_comp [of _ _ Fixed] by (intro add_nonneg_nonneg sum_nonneg) (auto simp: side_positive_def order_lots_def less_imp_le)

lemma event_lots_nonneg: "event_positive e \<Longrightarrow> 0 \<le> event_lots own s e"
  by (cases e) auto

lemma maker_lots_nonneg:
  assumes "market_inv S"
  shows "0 \<le> pos_val (\<lambda>pp. maker_lots pp s) S k"
proof -
  have "0 \<le> queue_lots (ps_events S) k s"
    using assms event_lots_nonneg by (auto simp: queue_lots_def market_inv_def intro!: sum_list_nonneg)
  moreover have "0 \<le> side_lots (bookside (ps_book S) s) k"
    using assms by (intro side_lots_nonneg) (simp add: market_inv_def book_well_def)
  ultimately show ?thesis using assms lots_matchD(1) [of S k s] by (simp add: market_inv_def open_lots_def)
qed

text \<open>How much a reduce-only order may trade.\<close>

lemma reduce_only_allowed:
  assumes "place_order_max_base m pp order = Inr mb" "order_reduce_only order \<or> is_reduce_only m" "0 \<le> max_base_lots order"
    and "0 \<le> maker_lots pp Bid" "0 \<le> maker_lots pp Ask"
  shows "order_side order = Bid \<Longrightarrow> mb \<le> max 0 (- (base_position_lots pp + taker_base_lots pp))"
    "order_side order = Ask \<Longrightarrow> mb \<le> max 0 (base_position_lots pp + taker_base_lots pp)"
  using assms by (auto simp: place_order_max_base_def reduce_only_max_base_lots_def effective_base_position_lots_def maker_lots_def
      rbind_eq_Inr split: if_splits)

lemma good_fills_base:
  "\<forall>e \<in> set fills. good_fill order k price items e \<Longrightarrow> 0 \<le> (\<Sum>e \<leftarrow> fills. event_base e)"
proof (induction fills)
  case (Cons e fills)
  then have "0 \<le> event_base e" by (cases e) auto
  then show ?case using Cons by simp
qed simp


section \<open>Cancelling\<close>

lemma ids_below_sub:
  "ids_below n book \<Longrightarrow> (\<And>s d. book_keys d (bookside book' s) \<subseteq> book_keys d (bookside book s)) \<Longrightarrow> ids_below n book'"
  unfolding ids_below_def by blast

lemma cancelled_inv:
  assumes inv: "market_inv S" and a: "ps_accounts S (key_account K) = Some a"
    and c: "r' = (ps_book S, a) \<or> order_cancelled (perp_market_index (ps_market S)) (key_account K) (ps_book S, a) r'"
  shows "market_inv (cancelled S K r')"
  using c
proof
  assume "r' = (ps_book S, a)"
  then have "cancelled S K r' = S" using a by (simp add: cancelled_def store_account_def fun_upd_idem)
  then show ?thesis using inv by simp
next
  let ?k = "key_account K" and ?mi = "perp_market_index (ps_market S)" and ?S = "cancelled S K r'"
  assume "order_cancelled ?mi ?k (ps_book S, a) r'"
  then obtain pp pp' where w: "book_well (fst r')" "\<And>s d. book_keys d (bookside (fst r') s) \<subseteq> book_keys d (bookside (ps_book S) s)"
      and pp: "perp_position a ?mi = Inr pp" "perp_position (snd r') ?mi = Inr pp'" "same_taker pp pp'"
      and l: "\<forall>own s. side_lots (bookside (fst r') s) own =
           side_lots (bookside (ps_book S) s) own + (if own = ?k then maker_lots pp' s - maker_lots pp s else 0)"
    by (auto simp: order_cancelled_def)
  have st: "ps_book ?S = fst r'" "ps_events ?S = ps_events S" "ps_market ?S = ps_market S" "dom (ps_accounts ?S) = dom (ps_accounts S)"
    using a by (auto simp: cancelled_def store_account_def)
  have after: "pos_val f ?S = (pos_val f S)(?k := f pp')" for f
    by (rule pos_val_store [of _ _ _ "snd r'"]) (simp_all add: cancelled_def store_account_def pp)
  note before = pos_val_at [OF a pp(1)]
  have "pos_val base_position_lots ?S = pos_val base_position_lots S"
    using before [of base_position_lots] pp(3) unfolding after by (auto simp: same_taker_def)
  then have "zero_sum ?S" by (rule zero_sum_same [rotated 2]) (use inv st in \<open>simp_all add: market_inv_def\<close>)
  moreover have lm: "lots_match S" using inv by (simp add: market_inv_def)
  have "open_lots (fst r') (ps_events S) k s = open_lots (ps_book S) (ps_events S) k s + (if k = ?k then maker_lots pp' s - maker_lots pp s else 0)" for k s
    using l by (simp add: open_lots_def)
  then have "lots_match ?S"
    using pp(3) unfolding lots_match_def after st by (simp add: lots_matchD [OF lm] before same_taker_def)
  ultimately show ?thesis
    using inv w(1) ids_below_sub [OF _ w(2)] unfolding market_inv_def st by blast
qed

lemma load_owned_account:
  "load_owned S K ts = Inr a \<Longrightarrow>
     ps_accounts S (key_account K) = Some a \<and> is_owner_or_delegate (fixed_part a) (key_owner K) ts = Inr True"
  by (auto simp: load_owned_def load_account_def rbind_eq_Inr ok_or_eq_Inr require_eq_Inr)

lemma cancel_order_inv:
  assumes inv: "market_inv S"
  shows "perp_cancel_order_logic S K ts order_id = Inr S' \<Longrightarrow> market_inv S'"
    "perp_cancel_order_by_client_order_id_logic S K ts client_order_id = Inr S' \<Longrightarrow> market_inv S'"
    "perp_cancel_all_orders S K ts limit = Inr S' \<Longrightarrow> market_inv S'"
    "perp_cancel_all_orders_by_side S K ts side_opt limit = Inr S' \<Longrightarrow> market_inv S'"
proof -
  have w: "book_well (ps_book S)" using inv by (simp add: market_inv_def)
  note slot = cancelled_inv [OF inv conjunct1 [OF load_owned_account] disjI2 [OF cancel_by_slot_effect(1) [OF _ w]]]
  show "perp_cancel_order_logic S K ts order_id = Inr S' \<Longrightarrow> market_inv S'"
    "perp_cancel_order_by_client_order_id_logic S K ts client_order_id = Inr S' \<Longrightarrow> market_inv S'"
    using slot by (auto simp: perp_cancel_order_logic_def perp_cancel_order_by_client_order_id_logic_def rbind_eq_Inr)
  have "r' = (ps_book S, a) \<or> order_cancelled mi k (ps_book S, a) r'"
    if "cancel_all_orders (ps_book S) a k mi l s = Inr r'" for a k mi l s r'
    using cancel_all_effect [OF that [unfolded cancel_all_orders_def] w] by (simp add: cancel_result_def)
  note all = cancelled_inv [OF inv conjunct1 [OF load_owned_account] this]
  show "perp_cancel_all_orders S K ts limit = Inr S' \<Longrightarrow> market_inv S'"
    "perp_cancel_all_orders_by_side S K ts side_opt limit = Inr S' \<Longrightarrow> market_inv S'"
    using all by (auto simp: perp_cancel_all_orders_def perp_cancel_all_orders_by_side_def rbind_eq_Inr)
qed

section \<open>Consuming events\<close>

lemma with_account_Consume:
  assumes "with_account S ais k f = Inr (Consume S')" "\<not> is_testing (ps_group S)"
  obtains a where "ps_accounts S k = Some a" "f a = Inr (Consume S')"
  using assms by (auto simp: with_account_def load_mango_account_def load_account_def rbind_eq_Inr require_eq_Inr ok_or_eq_Inr split: option.splits)

lemma with_account_Stop:
  "with_account S ais k f = Inr (StopConsuming S') \<Longrightarrow> S' = S \<or> (\<exists>a. f a = Inr (StopConsuming S'))"
  by (auto simp: with_account_def rbind_eq_Inr split: LoadedAccount.splits) (metis LoadedAccount.exhaust)

lemma consume_event_Stop: "consume_event F S ais ts ev = Inr (StopConsuming S') \<Longrightarrow> S' = S"
  by (auto simp: consume_event_def consume_fill_def consume_out_def rbind_eq_Inr Let_def
      split: AnyEvent.splits if_splits dest!: with_account_Stop)

lemma queue_popped:
  assumes "eq_events q = e # es" "eq_events q' = es"
  shows "open_lots book q' own s = open_lots book q own s - event_lots own s e"
  using assms by (simp add: open_lots_def queue_lots_def)

text \<open>The accounts of a state after an event has been executed, with new positions for some of them.\<close>

lemma market_inv_popped:
  assumes inv: "market_inv S" and e: "eq_events (ps_events S) = e # es" and q: "event_queue_ok q" "eq_events q = es"
    and S': "ps_book S' = ps_book S" "pm_seq_num (ps_market S') = pm_seq_num (ps_market S)" "ps_events S' = q"
    and m: "\<And>k s. pos_val (\<lambda>pp. maker_lots pp s) S' k = pos_val (\<lambda>pp. maker_lots pp s) S k - event_lots k s e"
      "\<And>k. pos_val taker_base_lots S' k = pos_val taker_base_lots S k - event_taker_base k e"
      "\<And>k. pos_val taker_quote_lots S' k = pos_val taker_quote_lots S k - event_taker_quote k e"
    and z: "zero_sum S'"
  shows "market_inv S'"
proof -
  have lm: "lots_match S" using inv by (simp add: market_inv_def)
  have "lots_match S'"
    using lots_matchD [OF lm] unfolding lots_match_def S' m queue_popped [OF e q(2)] q(2) by (simp add: e eq_diff_eq diff_eq_eq add.commute)
  then show ?thesis using inv q z e unfolding market_inv_def S' by simp
qed

lemma zero_sum_trade:
  assumes z: "zero_sum S" and d: "dom (ps_accounts S') = dom (ps_accounts S)" "mk \<in> dom (ps_accounts S)" "tk \<in> dom (ps_accounts S)" "mk \<noteq> tk"
    and b: "pos_val base_position_lots S' = (pos_val base_position_lots S)(mk := x - b, tk := y + b)"
      "pos_val base_position_lots S mk = x" "pos_val base_position_lots S tk = y"
    and o: "open_interest (ps_market S') = open_interest (ps_market S) + \<bar>x - b\<bar> - \<bar>x\<bar> + \<bar>y + b\<bar> - \<bar>y\<bar>"
  shows "zero_sum S'"
proof -
  let ?A = "dom (ps_accounts S)" and ?f = "pos_val base_position_lots S"
  have fin: "finite ?A" using z by (simp add: zero_sum_def)
  have "(\<Sum>k \<in> ?A. g ((?f(mk := x - b, tk := y + b)) k)) = (\<Sum>k \<in> ?A. g (?f k)) - g x + g (x - b) - g y + (g (y + b) :: int)" for g :: "int \<Rightarrow> int"
    using d(4) b(2,3) by (simp add: sum_fun_upd [OF fin d(3)] sum_fun_upd [OF fin d(2)] del: fun_upd_apply) (simp add: fun_upd_apply)
  from this [of "\<lambda>x. x"] this [of abs] show ?thesis using z o unfolding zero_sum_def d b(1) by simp
qed

lemma event_lots_fill:
  "event_lots k s (FillEv f) = (if maker f = k \<and> s \<noteq> taker_side f then fill_quantity f else 0)"
  by (cases s; cases "taker_side f") auto

definition trade_size :: "FillEvent \<Rightarrow> int" where
  "trade_size fill = (if taker_side fill = Bid then fill_quantity fill else - fill_quantity fill)"

lemma maker_filled:
  assumes F: "fixed_laws F" and x: "execute_perp_maker F a mi m fill grp ts = Inr (a', m', pnl)"
  obtains pp pp' where "perp_position a mi = Inr pp" "perp_position a' mi = Inr pp'"
    "base_position_lots pp' = base_position_lots pp - trade_size fill"
    "\<And>s. maker_lots pp' s = maker_lots pp s - (if s = taker_side fill then 0 else \<bar>trade_size fill\<bar>)"
    "taker_base_lots pp' = taker_base_lots pp" "taker_quote_lots pp' = taker_quote_lots pp"
    "m' = m\<lparr>open_interest := open_interest m + \<bar>base_position_lots pp - trade_size fill\<bar> - \<bar>base_position_lots pp\<bar>\<rparr>"
  by (rule execute_perp_maker_effect [OF F x, of "- trade_size fill"]) (simp_all add: trade_size_def that)

lemma taker_filled:
  assumes F: "fixed_laws F" and x: "execute_perp_taker F a mi m fill = Inr (a', m', pnl)"
  obtains pp pp' where "perp_position a mi = Inr pp" "perp_position a' mi = Inr pp'"
    "base_position_lots pp' = base_position_lots pp + trade_size fill" "\<And>s. maker_lots pp' s = maker_lots pp s"
    "taker_base_lots pp' = taker_base_lots pp - trade_size fill"
    "taker_quote_lots pp' = taker_quote_lots pp + fill_price fill * trade_size fill"
    "m' = m\<lparr>open_interest := open_interest m + \<bar>base_position_lots pp + trade_size fill\<bar> - \<bar>base_position_lots pp\<bar>\<rparr>"
  by (rule execute_perp_taker_effect [OF F x, of "trade_size fill"]) (simp_all add: trade_size_def that)

lemma event_fill:
  assumes "event_positive (FillEv f)"
  shows "event_lots k s (FillEv f) = (if maker f = k \<and> s \<noteq> taker_side f then \<bar>trade_size f\<bar> else 0)"
    "event_taker_base k (FillEv f) = (if taker f = k then trade_size f else 0)"
    "event_taker_quote k (FillEv f) = (if taker f = k then - (fill_price f * trade_size f) else 0)"
  using assms by (cases s; cases "taker_side f"; auto simp: trade_size_def)+

lemma consume_self_fill_inv:
  assumes F: "fixed_laws F" and inv: "market_inv S" and e: "eq_events (ps_events S) = FillEv fill # es"
    and q: "event_queue_ok q" "eq_events q = es" and a: "ps_accounts S (maker fill) = Some a" "maker fill = taker fill"
    and x: "execute_perp_maker F a (perp_market_index (ps_market S)) (ps_market S) fill grp ts = Inr (a1, m1, p1)"
      "execute_perp_taker F a1 (perp_market_index (ps_market S)) m1 fill = Inr (a2, m2, p2)"
  shows "market_inv ((store_account S (maker fill) a2)\<lparr>ps_market := m2, ps_events := q\<rparr>)" (is "market_inv ?S")
proof -
  let ?mi = "perp_market_index (ps_market S)" and ?m = "ps_market S" and ?k = "maker fill" and ?b = "trade_size fill"
  have pos: "event_positive (FillEv fill)" using inv e by (simp add: market_inv_def)
  obtain pp pp1 where 1: "perp_position a ?mi = Inr pp" "perp_position a1 ?mi = Inr pp1" "base_position_lots pp1 = base_position_lots pp - ?b"
        "\<And>s. maker_lots pp1 s = maker_lots pp s - (if s = taker_side fill then 0 else \<bar>?b\<bar>)"
        "taker_base_lots pp1 = taker_base_lots pp" "taker_quote_lots pp1 = taker_quote_lots pp"
        "m1 = ?m\<lparr>open_interest := open_interest ?m + \<bar>base_position_lots pp - ?b\<bar> - \<bar>base_position_lots pp\<bar>\<rparr>"
    using maker_filled [OF F x(1)] by blast
  obtain pp2 where 2: "perp_position a2 ?mi = Inr pp2" "base_position_lots pp2 = base_position_lots pp1 + ?b"
        "\<And>s. maker_lots pp2 s = maker_lots pp1 s" "taker_base_lots pp2 = taker_base_lots pp1 - ?b"
        "taker_quote_lots pp2 = taker_quote_lots pp1 + fill_price fill * ?b"
        "m2 = m1\<lparr>open_interest := open_interest m1 + \<bar>base_position_lots pp1 + ?b\<bar> - \<bar>base_position_lots pp1\<bar>\<rparr>"
    using taker_filled [OF F x(2)] 1(2) by (metis sum.inject(2))
  have after: "pos_val f ?S = (pos_val f S)(?k := f pp2)" for f
    by (rule pos_val_store [of _ _ _ a2]) (simp_all add: store_account_def 1(7) 2(1,6))
  note before = pos_val_at [OF a(1) 1(1)]
  have dom: "dom (ps_accounts ?S) = dom (ps_accounts S)" using a(1) by (auto simp: store_account_def)
  have same: "pos_val base_position_lots ?S = pos_val base_position_lots S"
    using before [of base_position_lots] 1(3) 2(2) unfolding after by auto
  have "zero_sum ?S"
    by (rule zero_sum_same [OF _ dom same]) (use inv 1(3,7) 2(6) in \<open>simp_all add: market_inv_def\<close>)
  moreover have st: "ps_book ?S = ps_book S" "pm_seq_num (ps_market ?S) = pm_seq_num ?m" "ps_events ?S = q"
    by (simp_all add: store_account_def 1(7) 2(6))
  ultimately show ?thesis
    by - (rule market_inv_popped [OF inv e q st], unfold after,
      simp_all add: before 1(4-6) 2(3-5) event_fill [OF pos] a(2) [symmetric] del: event_lots.simps event_taker_base.simps event_taker_quote.simps)
qed

lemma consume_other_fill_inv:
  assumes F: "fixed_laws F" and inv: "market_inv S" and e: "eq_events (ps_events S) = FillEv fill # es"
    and q: "event_queue_ok q" "eq_events q = es" and a: "ps_accounts S (maker fill) = Some a" "ps_accounts S (taker fill) = Some c"
      "maker fill \<noteq> taker fill"
    and x: "execute_perp_maker F a (perp_market_index (ps_market S)) (ps_market S) fill grp ts = Inr (a1, m1, p1)"
      "execute_perp_taker F c (perp_market_index (ps_market S)) m1 fill = Inr (c1, m2, p2)"
  shows "market_inv ((store_account (store_account S (maker fill) a1) (taker fill) c1)\<lparr>ps_market := m2, ps_events := q\<rparr>)"
    (is "market_inv ?S")
proof -
  let ?mi = "perp_market_index (ps_market S)" and ?m = "ps_market S" and ?b = "trade_size fill"
  have pos: "event_positive (FillEv fill)" using inv e by (simp add: market_inv_def)
  obtain pp pp1 where 1: "perp_position a ?mi = Inr pp" "perp_position a1 ?mi = Inr pp1" "base_position_lots pp1 = base_position_lots pp - ?b"
        "\<And>s. maker_lots pp1 s = maker_lots pp s - (if s = taker_side fill then 0 else \<bar>?b\<bar>)"
        "taker_base_lots pp1 = taker_base_lots pp" "taker_quote_lots pp1 = taker_quote_lots pp"
        "m1 = ?m\<lparr>open_interest := open_interest ?m + \<bar>base_position_lots pp - ?b\<bar> - \<bar>base_position_lots pp\<bar>\<rparr>"
    using maker_filled [OF F x(1)] by blast
  obtain pc pc1 where 2: "perp_position c ?mi = Inr pc" "perp_position c1 ?mi = Inr pc1" "base_position_lots pc1 = base_position_lots pc + ?b"
        "\<And>s. maker_lots pc1 s = maker_lots pc s" "taker_base_lots pc1 = taker_base_lots pc - ?b"
        "taker_quote_lots pc1 = taker_quote_lots pc + fill_price fill * ?b"
        "m2 = m1\<lparr>open_interest := open_interest m1 + \<bar>base_position_lots pc + ?b\<bar> - \<bar>base_position_lots pc\<bar>\<rparr>"
    using taker_filled [OF F x(2)] by blast
  have "pos_val f ?S = (pos_val f (store_account S (maker fill) a1))(taker fill := f pc1)" for f
    by (rule pos_val_store [of _ _ _ c1]) (simp_all add: store_account_def 1(7) 2(2,7))
  moreover have "pos_val f (store_account S (maker fill) a1) = (pos_val f S)(maker fill := f pp1)" for f
    by (rule pos_val_store [of _ _ _ a1]) (simp_all add: store_account_def 1(2))
  ultimately have after: "pos_val f ?S = (pos_val f S)(maker fill := f pp1, taker fill := f pc1)" for f by simp
  note mb = pos_val_at [OF a(1) 1(1)] and tb = pos_val_at [OF a(2) 2(1)]
  have dom: "dom (ps_accounts ?S) = dom (ps_accounts S)" using a(1,2) by (auto simp: store_account_def)
  have z: "zero_sum S" using inv by (simp add: market_inv_def)
  have "zero_sum ?S"
    by (rule zero_sum_trade [OF z dom _ _ a(3) after [of base_position_lots, unfolded 1(3) 2(3)] mb tb]) (use a(1,2) 1(7) 2(7) in auto)
  moreover have st: "ps_book ?S = ps_book S" "pm_seq_num (ps_market ?S) = pm_seq_num ?m" "ps_events ?S = q"
    by (simp_all add: store_account_def 1(7) 2(7))
  ultimately show ?thesis
    by - (rule market_inv_popped [OF inv e q st], unfold after,
      use a(3) in \<open>simp_all add: mb tb 1(4-6) 2(4-6) event_fill [OF pos] del: event_lots.simps event_taker_base.simps event_taker_quote.simps\<close>)
qed

lemma out_event_effect:
  assumes "execute_perp_out_event a mi side slot n order_id = Inr a'"
  obtains pp pp' where "perp_position a mi = Inr pp" "perp_position a' mi = Inr pp'" "same_taker pp pp'"
    "\<And>s. maker_lots pp' s = maker_lots pp s - (if s = side then n else 0)"
proof -
  obtain i pp where i: "perp_raw_index a mi = Inr i" and pp: "adjust_maker_lots (perp_positions a ! i) side (- n) = Inr pp"
      and a': "perp_position a' mi = perp_position (set_perp_position a i pp) mi"
    using assms unfolding execute_perp_out_event_def Let_def by (elim rbind_InrE) (auto simp: perp_position_def split: if_splits)
  note e = adjust_maker_lots_frame [OF pp]
  have "pp_market_index pp = mi" using e(2) perp_raw_index_ok [OF i] by simp
  then have "perp_position a' mi = Inr pp" unfolding a' using i by (simp add: perp_position_set)
  moreover have "perp_position a mi = Inr (perp_positions a ! i)" using i by (simp add: perp_position_def)
  ultimately show thesis using that e by (auto simp: same_taker_def)
qed

lemma consume_out_inv:
  assumes inv: "market_inv S" and e: "eq_events (ps_events S) = OutEv o' # es" and q: "event_queue_ok q" "eq_events q = es"
    and a: "ps_accounts S (out_owner o') = Some a"
    and x: "execute_perp_out_event a (perp_market_index (ps_market S)) (out_side o') slot (out_quantity o') order_id = Inr a1"
  shows "market_inv ((store_account S (out_owner o') a1)\<lparr>ps_events := q\<rparr>)" (is "market_inv ?S")
proof -
  obtain pp pp1 where 1: "perp_position a (perp_market_index (ps_market S)) = Inr pp" "perp_position a1 (perp_market_index (ps_market S)) = Inr pp1"
      "same_taker pp pp1" "\<And>s. maker_lots pp1 s = maker_lots pp s - (if s = out_side o' then out_quantity o' else 0)"
    using out_event_effect [OF x] by blast
  have after: "pos_val f ?S = (pos_val f S)(out_owner o' := f pp1)" for f
    by (rule pos_val_store [of _ _ _ a1]) (simp_all add: store_account_def 1(2))
  note before = pos_val_at [OF a 1(1)]
  have dom: "dom (ps_accounts ?S) = dom (ps_accounts S)" using a by (auto simp: store_account_def)
  have same: "pos_val base_position_lots ?S = pos_val base_position_lots S"
    using before [of base_position_lots] 1(3) unfolding after by (auto simp: same_taker_def)
  have "zero_sum ?S" by (rule zero_sum_same [OF _ dom same]) (use inv in \<open>simp_all add: market_inv_def store_account_def\<close>)
  moreover have st: "ps_book ?S = ps_book S" "pm_seq_num (ps_market ?S) = pm_seq_num (ps_market S)" "ps_events ?S = q"
    by (simp_all add: store_account_def)
  ultimately show ?thesis
    by - (rule market_inv_popped [OF inv e q st], unfold after, use 1(3) in \<open>simp_all add: before 1(4) same_taker_def\<close>)
qed

lemma consume_event_market_index:
  assumes "consume_event F S ais ts ev = Inr (Consume S')" "fixed_laws F" "\<not> is_testing (ps_group S)"
  shows "perp_market_index (ps_market S') = perp_market_index (ps_market S)"
proof -
  have m: "perp_market_index m' = perp_market_index m" if "execute_perp_maker F a mi m fill grp ts = Inr (a', m', pnl)" for a mi m fill grp a' m' pnl
    by (rule maker_filled [OF assms(2) that]) simp
  have t: "perp_market_index m' = perp_market_index m" if "execute_perp_taker F a mi m fill = Inr (a', m', pnl)" for a mi m fill a' m' pnl
    by (rule taker_filled [OF assms(2) that]) simp
  show ?thesis
    using assms(1,3)
    by (cases ev)
      (auto simp: consume_event_def consume_fill_def consume_out_def Let_def rbind_eq_Inr store_account_def
        elim!: with_account_Consume split: if_splits dest!: m t)
qed

lemma consume_event_inv:
  assumes F: "fixed_laws F" and inv: "market_inv S" and e: "eq_events (ps_events S) = ev # es"
    and r: "consume_event F S ais ts ev = Inr (Consume S')" and nt: "\<not> is_testing (ps_group S)"
    and q: "event_queue_ok q" "eq_events q = es"
  shows "market_inv (S'\<lparr>ps_events := q\<rparr>)" "ps_group S' = ps_group S" "ps_events S' = ps_events S"
    "perp_market_index (ps_market S') = perp_market_index (ps_market S)"
proof -
  have "market_inv (S'\<lparr>ps_events := q\<rparr>) \<and> ps_group S' = ps_group S \<and> ps_events S' = ps_events S"
  proof (cases ev)
    case (FillEv fill)
    note e' = e [unfolded FillEv]
    show ?thesis
    proof (cases "maker fill = taker fill")
      case True
      then show ?thesis using r FillEv nt consume_self_fill_inv [OF F inv e' q]
        by (auto simp: consume_event_def consume_fill_def Let_def rbind_eq_Inr store_account_def elim!: with_account_Consume)
    next
      case False
      then show ?thesis using r FillEv nt consume_other_fill_inv [OF F inv e' q]
        by (auto simp: consume_event_def consume_fill_def Let_def rbind_eq_Inr store_account_def elim!: with_account_Consume)
    qed
  next
    case (OutEv o')
    then show ?thesis using r nt consume_out_inv [OF inv e [unfolded OutEv] q]
      by (auto simp: consume_event_def consume_out_def rbind_eq_Inr store_account_def elim!: with_account_Consume)
  next
    case (OtherEv n)
    then have "S' = S" using r by (auto simp: consume_event_def split: if_splits)
    moreover have "market_inv (S\<lparr>ps_events := q\<rparr>)"
      by (rule market_inv_popped [OF inv e q]) (use inv OtherEv in \<open>simp_all add: market_inv_def zero_sum_def\<close>)
    ultimately show ?thesis by simp
  qed
  then show "market_inv (S'\<lparr>ps_events := q\<rparr>)" "ps_group S' = ps_group S" "ps_events S' = ps_events S" by simp_all
  show "perp_market_index (ps_market S') = perp_market_index (ps_market S)" by (rule consume_event_market_index [OF r F nt])
qed

lemma consume_loop_inv:
  assumes "consume_loop n F S ais ts = Inr S'" "fixed_laws F" "market_inv S" "\<not> is_testing (ps_group S)"
  shows "market_inv S' \<and> ps_group S' = ps_group S \<and> perp_market_index (ps_market S') = perp_market_index (ps_market S)"
  using assms
proof (induction n arbitrary: S)
  case (Suc n)
  have ok: "event_queue_ok (ps_events S)" using Suc.prems(3) by (simp add: market_inv_def)
  show ?case
  proof (cases "eq_events (ps_events S)")
    case Nil
    then have "S' = S" using Suc.prems(1) by (simp add: peek_front_events [OF ok])
    then show ?thesis using Suc.prems(3) by simp
  next
    case (Cons ev es)
    then obtain r where r: "consume_event F S ais ts ev = Inr r"
        "(case r of StopConsuming S' \<Rightarrow> Inr S'
          | Consume S' \<Rightarrow> rbind (pop_front (ps_events S')) (\<lambda>(q, _). consume_loop n F (S'\<lparr>ps_events := q\<rparr>) ais ts)) = Inr S'"
      using Suc.prems(1) by (auto simp: peek_front_events [OF ok] rbind_eq_Inr)
    show ?thesis
    proof (cases r)
      case (StopConsuming S1)
      then have "S1 = S" using r(1) consume_event_Stop by blast
      then show ?thesis using r(2) StopConsuming Suc.prems(3) by simp
    next
      case (Consume S1)
      obtain q where q: "pop_front (ps_events S) = Inr (q, ev)" "event_queue_ok q" "eq_events q = es"
        using pop_front_events [OF ok Cons] by blast
      note e = consume_event_inv [OF Suc.prems(2,3) Cons r(1) [unfolded Consume] Suc.prems(4) q(2,3)]
      have "consume_loop n F (S1\<lparr>ps_events := q\<rparr>) ais ts = Inr S'" using r(2) Consume q(1) e(3) by simp
      then show ?thesis using Suc.IH [OF _ Suc.prems(2) e(1)] e(2,4) Suc.prems(4) by simp
    qed
  qed
qed simp

section \<open>The machine\<close>

text \<open>The steps of a market: the instructions that succeed. The clock and the order's fields are in
  the ranges of their types. The health computation depends on the banks and oracles, which other
  instructions change (\<open>w\<close>), and on the state of the market.\<close>

inductive perp_step :: "fixed_ops \<Rightarrow> ('w \<Rightarrow> PerpState \<Rightarrow> 'c health_ops) \<Rightarrow> PerpState \<Rightarrow> PerpState \<Rightarrow> bool" for F H where
  place: "perp_place_order F (H w S) S K oracle ts slot order limit = Inr (S', oid) \<Longrightarrow> in_i64 ts \<Longrightarrow> order_ok order \<Longrightarrow> perp_step F H S S'"
| cancel: "perp_cancel_order S K ts order_id = Inr S' \<Longrightarrow> perp_step F H S S'"
| cancel_client: "perp_cancel_order_by_client_order_id S K ts client_order_id = Inr S' \<Longrightarrow> perp_step F H S S'"
| cancel_all: "perp_cancel_all_orders S K ts limit = Inr S' \<Longrightarrow> perp_step F H S S'"
| cancel_side: "perp_cancel_all_orders_by_side S K ts side_opt limit = Inr S' \<Longrightarrow> perp_step F H S S'"
| consume: "perp_consume_events F S K ais ts n = Inr S' \<Longrightarrow> perp_step F H S S'"

inductive_cases perp_stepE: "perp_step F H S S'"

lemma cancel_group:
  "perp_cancel_order_logic S K ts order_id = Inr S' \<Longrightarrow> ps_group S' = ps_group S \<and> ps_market S' = ps_market S"
  "perp_cancel_order_by_client_order_id_logic S K ts client_order_id = Inr S' \<Longrightarrow> ps_group S' = ps_group S \<and> ps_market S' = ps_market S"
  "perp_cancel_all_orders S K ts limit = Inr S' \<Longrightarrow> ps_group S' = ps_group S \<and> ps_market S' = ps_market S"
  "perp_cancel_all_orders_by_side S K ts side_opt limit = Inr S' \<Longrightarrow> ps_group S' = ps_group S \<and> ps_market S' = ps_market S"
  by (auto simp: perp_cancel_order_logic_def perp_cancel_order_by_client_order_id_logic_def perp_cancel_all_orders_def
      perp_cancel_all_orders_by_side_def rbind_eq_Inr cancelled_def store_account_def)

lemma place_group:
  "perp_place_order_logic F H S K oracle ts slot order limit = Inr (S', oid) \<Longrightarrow> ps_group S' = ps_group S"
  by (erule place_parts) (simp add: store_account_def)

lemma place_market_index:
  assumes "market_inv S" "perp_place_order_logic F H S K oracle ts slot order limit = Inr (S', oid)" "in_i64 ts" "order_ok order"
  shows "perp_market_index (ps_market S') = perp_market_index (ps_market S)"
  by (rule placed_effect [OF assms]) simp

lemma perp_step_inv:
  assumes "perp_step F H S S'" "fixed_laws F" "market_inv S" "\<not> is_testing (ps_group S)"
  shows "market_inv S' \<and> ps_group S' = ps_group S \<and> perp_market_index (ps_market S') = perp_market_index (ps_market S)"
  using assms(1)
proof cases
  case (place w K os ts slot order limit oid)
  then have r: "perp_place_order_logic F (H w S) S K os ts slot order limit = Inr (S', oid)" by (simp add: perp_place_order_def rbind_eq_Inr)
  show ?thesis using place_order_inv [OF assms(3) r place(2,3)] place_group [OF r] place_market_index [OF assms(3) r place(2,3)] by blast
next
  case (consume K ais ts n)
  then show ?thesis using consume_loop_inv assms(2-) by (auto simp: perp_consume_events_def rbind_eq_Inr)
next
  case (cancel K ts order_id)
  then have "perp_cancel_order_logic S K ts order_id = Inr S'" by (simp add: perp_cancel_order_def rbind_eq_Inr)
  then show ?thesis using cancel_order_inv(1) [OF assms(3)] cancel_group(1) by metis
next
  case (cancel_client K ts client_order_id)
  then have "perp_cancel_order_by_client_order_id_logic S K ts client_order_id = Inr S'"
    by (simp add: perp_cancel_order_by_client_order_id_def rbind_eq_Inr)
  then show ?thesis using cancel_order_inv(2) [OF assms(3)] cancel_group(2) by metis
next
  case (cancel_all K ts limit)
  then show ?thesis using cancel_order_inv(3) [OF assms(3)] cancel_group(3) by metis
next
  case (cancel_side K ts side_opt limit)
  then show ?thesis using cancel_order_inv(4) [OF assms(3)] cancel_group(4) by metis
qed

interpretation perp_machine: state_machine "perp_step F H" "\<lambda>S. fixed_laws F \<and> market_inv S \<and> \<not> is_testing (ps_group S)" for F H
  by unfold_locales (use perp_step_inv in auto)

text \<open>A market that nobody has traded on yet.\<close>

definition untouched :: "PerpState \<Rightarrow> bool" where
  "untouched S \<longleftrightarrow> book_well (ps_book S) \<and> (\<forall>s c. book_orders c (bookside (ps_book S) s) = {}) \<and>
     event_queue_ok (ps_events S) \<and> eq_events (ps_events S) = [] \<and> finite (dom (ps_accounts S)) \<and>
     (\<forall>k. position_of S k = None) \<and> open_interest (ps_market S) = 0"

lemma untouched_inv: "untouched S \<Longrightarrow> market_inv S"
  by (simp add: untouched_def market_inv_def lots_match_def zero_sum_def ids_below_def book_keys_def pos_val_def open_lots_def
      queue_lots_def side_lots_comp [of _ _ Fixed])

end
