(* ===== verification/Crank_Effect.thy ===== *)
theory Crank_Effect
  imports Crank Perp_Machine
begin

text \<open>
  The crank's loop returns on every queue, and on a well formed queue it computes what
  \<open>crank_spec\<close> says over the list of pending events: execute them in order, each one directly after
  its predecessor or when its gap has timed out, until the limit is reached. An operation that
  leaves the market's invariant intact does so in both cranks. The machine of a market with its
  queue takes all of this together.
\<close>

section \<open>The loop returns\<close>

definition seqs_typed :: "QueueFifo \<Rightarrow> bool" where
  "seqs_typed q \<longleftrightarrow> (\<forall>e \<in> set (entries q). seq_no e \<le> u64_MAX)"

text \<open>What every iteration makes smaller: the number of pending events and, when that stays, whether
  there is a gap before the first one.\<close>

definition gap_before_head :: "QueueFifo \<Rightarrow> u64 \<Rightarrow> bool" where
  "gap_before_head q last_executed \<longleftrightarrow>
     qf_head (qf_header q) < length (entries q) \<and> seq_no (entries q ! qf_head (qf_header q)) > min u64_MAX (last_executed + 1)"

definition crank_variant :: "QueueFifo \<Rightarrow> u64 \<Rightarrow> nat" where
  "crank_variant q last_executed = 2 * qf_count (qf_header q) + (if gap_before_head q last_executed then 1 else 0)"

lemma set_last_executed_simps [simp]:
  "entries (set_last_executed q s) = entries q" "qf_head (qf_header (set_last_executed q s)) = qf_head (qf_header q)"
  "qf_count (qf_header (set_last_executed q s)) = qf_count (qf_header q)" "last_executed_seq (qf_header (set_last_executed q s)) = s"
  "max_lag_slots (qf_header (set_last_executed q s)) = max_lag_slots (qf_header q)" "qf_events (set_last_executed q s) = qf_events q"
  "qf_ring (set_last_executed q s) = qf_ring q" "seqs_typed (set_last_executed q s) = seqs_typed q"
  by (simp_all add: set_last_executed_def seqs_typed_def)

lemma drop_head_frame:
  assumes "drop_head q = Inr q'"
  shows "entries q' = entries q" "qf_count (qf_header q') = qf_count (qf_header q) - 1"
  using assms by (auto simp: drop_head_def advance_head_def rbind_eq_Inr)

lemma crank_loop_returns:
  assumes "seqs_typed q"
  shows "\<exists>r. crank_loop run slot n processed last_executed S q = Some r"
  using assms
proof (induction "crank_variant q last_executed" arbitrary: q last_executed processed S rule: less_induct)
  case less
  have dropped: "\<exists>r. crank_loop run slot n processed' s S' q1 = Some r"
    if "drop_head q = Inr q'" "q1 = q' \<or> q1 = set_last_executed q' s" "0 < qf_count (qf_header q)" for q' processed' s S' q1
  proof (rule less.hyps)
    note d = drop_head_frame [OF that(1)]
    show "crank_variant q1 s < crank_variant q last_executed" using that(2,3) d(2) by (auto simp: crank_variant_def)
    show "seqs_typed q1" using that(2) d(1) less.prems by (auto simp: seqs_typed_def)
  qed
  have jumped: "\<exists>r. crank_loop run slot n processed s S (set_last_executed q s) = Some r"
    if "crank_head slot last_executed q = Inr (JumpGap s)" for s
  proof (rule less.hyps)
    let ?e = "entries q ! qf_head (qf_header q)"
    have h: "qf_head (qf_header q) < length (entries q)" "min u64_MAX (last_executed + 1) < seq_no ?e" "s = seq_no ?e - 1"
      using that by (auto simp: crank_head_def Let_def split: if_splits)
    then have "seq_no ?e \<le> u64_MAX" using less.prems by (simp add: seqs_typed_def)
    with h have "gap_before_head q last_executed" "\<not> gap_before_head (set_last_executed q s) s"
      by (auto simp: gap_before_head_def)
    then show "crank_variant (set_last_executed q s) s < crank_variant q last_executed" by (simp add: crank_variant_def)
  qed (use less.prems in simp)
  show ?case
    using dropped jumped
    by (subst crank_loop.simps) (auto split: sum.split HeadDecision.split)
qed

section \<open>Execution in order\<close>

fun crank_spec ::
  "(QueueFifoEvent \<Rightarrow> PerpState \<Rightarrow> PerpState res) \<Rightarrow> u64 \<Rightarrow> u32 \<Rightarrow> nat \<Rightarrow> u64 \<Rightarrow> QueueFifoEvent list \<Rightarrow> PerpState \<Rightarrow>
     (PerpState \<times> QueueFifoEvent list \<times> u64) res" where
  "crank_spec run slot lag (Suc n) last_executed (e # es) S =
     (if seq_no e = last_executed + 1 \<or> slot - submitted_slot e \<ge> lag
      then rbind (run e S) (crank_spec run slot lag n (seq_no e) es)
      else Inr (S, e # es, last_executed))"
| "crank_spec run slot lag n last_executed es S = Inr (S, es, last_executed)"

definition crank_result :: "QueueFifo \<Rightarrow> (PerpState \<times> QueueFifoEvent list \<times> u64) res \<Rightarrow> (PerpState \<times> QueueFifo) res option \<Rightarrow> bool" where
  "crank_result q spec r \<longleftrightarrow>
     (case spec of
        Inl e \<Rightarrow> r = Some (Inl e)
      | Inr (S', es, s) \<Rightarrow> \<exists>q'. r = Some (Inr (S', q')) \<and> queue_fifo_ok q' \<and> qf_events q' = es \<and> last_executed_seq (qf_header q') = s \<and>
          entries q' = entries q \<and> max_lag_slots (qf_header q') = max_lag_slots (qf_header q))"

lemma crank_result_refl: "queue_fifo_ok q \<Longrightarrow> crank_result q (Inr (S, qf_events q, last_executed_seq (qf_header q))) (Some (Inr (S, q)))"
  by (simp add: crank_result_def)

lemma crank_result_same:
  "entries q' = entries q \<Longrightarrow> max_lag_slots (qf_header q') = max_lag_slots (qf_header q) \<Longrightarrow> crank_result q' = crank_result q"
  by (intro ext) (simp add: crank_result_def split: sum.split)

lemma drop_head_events:
  assumes "qf_ring q" "qf_events q = e # es"
  obtains q' where "drop_head q = Inr q'" "qf_ring q'" "qf_events q' = es" "entries q' = entries q"
    "max_lag_slots (qf_header q') = max_lag_slots (qf_header q)"
  using advance_head_events [OF assms] that by (auto simp: drop_head_def)

lemma queue_head:
  assumes "queue_fifo_ok q" "qf_events q = e # es" "seqs_typed q"
  shows "qf_ring q" "qf_head (qf_header q) < length (entries q)" "entries q ! qf_head (qf_header q) = e" "0 < qf_count (qf_header q)"
    "last_executed_seq (qf_header q) < seq_no e" "seq_no e \<le> u64_MAX" "sorted_wrt (<) (seq_no e # map seq_no es)"
proof -
  show r: "qf_ring q" and "last_executed_seq (qf_header q) < seq_no e" "sorted_wrt (<) (seq_no e # map seq_no es)"
    using assms(1,2) by (simp_all add: queue_fifo_ok_def)
  show h: "entries q ! qf_head (qf_header q) = e" by (rule head_event [OF r assms(2)])
  show l: "qf_head (qf_header q) < length (entries q)" using r by (simp add: qf_ring_def)
  show "seq_no e \<le> u64_MAX" using assms(3) h l by (auto simp: seqs_typed_def)
  show "0 < qf_count (qf_header q)" using assms(2) qf_events_length [of q] by simp
qed

text \<open>One event, executed in turn.\<close>

lemma crank_loop_execute:
  assumes "queue_fifo_ok q" "qf_events q = e # es" "seqs_typed q" "processed < n" "n \<le> 255" "seq_no e = last_executed + 1"
  obtains q' where "queue_fifo_ok q'" "qf_events q' = es" "last_executed_seq (qf_header q') = seq_no e" "entries q' = entries q"
    "max_lag_slots (qf_header q') = max_lag_slots (qf_header q)" "seqs_typed q'"
    "crank_loop run slot n processed last_executed S q =
       (case run e S of Inl err \<Rightarrow> Some (Inl err) | Inr S' \<Rightarrow> crank_loop run slot n (processed + 1) (seq_no e) S' q')"
proof -
  note h = queue_head [OF assms(1-3)]
  obtain q' where q': "drop_head q = Inr q'" "qf_ring q'" "qf_events q' = es" "entries q' = entries q"
      "max_lag_slots (qf_header q') = max_lag_slots (qf_header q)"
    using drop_head_events [OF h(1) assms(2)] by blast
  have "crank_head slot last_executed q = Inr (ExecuteHead e)"
    using h assms(6) by (simp add: crank_head_def)
  moreover have "min 255 (processed + 1) = processed + 1" using assms(4,5) by simp
  ultimately have "crank_loop run slot n processed last_executed S q =
      (case run e S of Inl err \<Rightarrow> Some (Inl err) | Inr S' \<Rightarrow> crank_loop run slot n (processed + 1) (seq_no e) S' (set_last_executed q' (seq_no e)))"
    using assms(4) h(4) q'(1) by (subst crank_loop.simps) (simp del: One_nat_def split: sum.split)
  moreover have "queue_fifo_ok (set_last_executed q' (seq_no e))" using h(7) q' by (simp add: queue_fifo_ok_def)
  ultimately show thesis using that [of "set_last_executed q' (seq_no e)"] q' assms(3) by (simp add: seqs_typed_def)
qed

text \<open>An event whose gap has timed out is executed as if it were the next one.\<close>

lemma crank_loop_jump:
  assumes "queue_fifo_ok q" "qf_events q = e # es" "seqs_typed q" "processed < n"
    "seq_no e \<noteq> last_executed_seq (qf_header q) + 1" "slot - submitted_slot e \<ge> max_lag_slots (qf_header q)"
  defines "q1 \<equiv> set_last_executed q (seq_no e - 1)"
  shows "crank_loop run slot n processed (last_executed_seq (qf_header q)) S q = crank_loop run slot n processed (seq_no e - 1) S q1"
    "queue_fifo_ok q1" "qf_events q1 = e # es" "seqs_typed q1" "seq_no e = seq_no e - 1 + 1"
proof -
  note h = queue_head [OF assms(1-3)]
  have "crank_head slot (last_executed_seq (qf_header q)) q = Inr (JumpGap (seq_no e - 1))"
    using h assms(5,6) by (auto simp: crank_head_def)
  then show "crank_loop run slot n processed (last_executed_seq (qf_header q)) S q = crank_loop run slot n processed (seq_no e - 1) S q1"
    using assms(4) h(4) by (subst crank_loop.simps) (simp add: q1_def)
  show "queue_fifo_ok q1" using h(1,5,7) assms(2) by (auto simp: q1_def queue_fifo_ok_def)
  show "qf_events q1 = e # es" "seqs_typed q1" "seq_no e = seq_no e - 1 + 1" using assms(2,3) h(5) by (simp_all add: q1_def)
qed

lemma crank_loop_turn:
  assumes "queue_fifo_ok q" "qf_events q = e # es" "seqs_typed q" "processed < n"
    and turn: "seq_no e = last_executed_seq (qf_header q) + 1 \<or> slot - submitted_slot e \<ge> max_lag_slots (qf_header q)"
  obtains q1 s where
    "crank_loop run slot n processed (last_executed_seq (qf_header q)) S q = crank_loop run slot n processed s S q1" "queue_fifo_ok q1"
    "qf_events q1 = e # es" "seqs_typed q1" "seq_no e = s + 1" "entries q1 = entries q" "max_lag_slots (qf_header q1) = max_lag_slots (qf_header q)"
proof (cases "seq_no e = last_executed_seq (qf_header q) + 1")
  case True
  then show thesis using that [of "last_executed_seq (qf_header q)" q] assms(1-3) by simp
next
  case False
  with turn have "slot - submitted_slot e \<ge> max_lag_slots (qf_header q)" by simp
  from crank_loop_jump [OF assms(1-4) False this] show thesis
    using that [of "seq_no e - 1" "set_last_executed q (seq_no e - 1)"] by simp
qed

lemma crank_loop_refines:
  assumes "queue_fifo_ok q" "seqs_typed q" "n \<le> 255" "processed \<le> n"
  shows "crank_result q (crank_spec run slot (max_lag_slots (qf_header q)) (n - processed) (last_executed_seq (qf_header q)) (qf_events q) S)
           (crank_loop run slot n processed (last_executed_seq (qf_header q)) S q)"
  using assms(1,2,4)
proof (induction "n - processed" arbitrary: processed q S)
  case 0
  have "crank_loop run slot n processed (last_executed_seq (qf_header q)) S q = Some (Inr (S, q))"
    using 0 by (subst crank_loop.simps) simp
  then show ?case using 0 crank_result_refl by simp
next
  case (Suc k)
  let ?last = "last_executed_seq (qf_header q)" and ?lag = "max_lag_slots (qf_header q)"
  have p: "processed < n" and k: "k = n - (processed + 1)" "n - processed = Suc k" using Suc.hyps(2) by simp_all
  show ?case
  proof (cases "qf_events q")
    case Nil
    then have "qf_count (qf_header q) = 0" using qf_events_length [of q] by simp
    then have "crank_loop run slot n processed ?last S q = Some (Inr (S, q))" by (subst crank_loop.simps) simp
    then show ?thesis using Nil Suc.prems(1) crank_result_refl [of q S] by simp
  next
    case (Cons e es)
    note h = queue_head [OF Suc.prems(1) Cons Suc.prems(2)]
    consider (run) "seq_no e = ?last + 1 \<or> slot - submitted_slot e \<ge> ?lag"
      | (stop) "seq_no e \<noteq> ?last + 1" "\<not> slot - submitted_slot e \<ge> ?lag" by blast
    then show ?thesis
    proof cases
      case stop
      then have "crank_head slot ?last q = Inr StopCranking" using h by (auto simp: crank_head_def)
      then have "crank_loop run slot n processed ?last S q = Some (Inr (S, q))" using p h(4) by (subst crank_loop.simps) simp
      then show ?thesis using stop Cons k(2) Suc.prems(1) crank_result_refl [of q S] by simp
    next
      case run
      obtain q1 s where q1: "crank_loop run slot n processed ?last S q = crank_loop run slot n processed s S q1" "queue_fifo_ok q1"
          "qf_events q1 = e # es" "seqs_typed q1" "seq_no e = s + 1" "entries q1 = entries q" "max_lag_slots (qf_header q1) = ?lag"
        using crank_loop_turn [OF Suc.prems(1) Cons Suc.prems(2) p run] by blast
      obtain q' where q': "queue_fifo_ok q'" "qf_events q' = es" "last_executed_seq (qf_header q') = seq_no e" "entries q' = entries q1"
          "max_lag_slots (qf_header q') = max_lag_slots (qf_header q1)" "seqs_typed q'"
          "crank_loop run slot n processed s S q1 =
             (case run e S of Inl err \<Rightarrow> Some (Inl err) | Inr S' \<Rightarrow> crank_loop run slot n (processed + 1) (seq_no e) S' q')"
        using crank_loop_execute [OF q1(2-4) p assms(3) q1(5), of run slot S] by blast
      have step: "crank_result q (crank_spec run slot ?lag k (seq_no e) es S') (crank_loop run slot n (processed + 1) (seq_no e) S' q')" for S'
        using Suc.hyps(1) [OF k(1) q'(1,6), of S'] p k(1) q'(2-5) q1(6,7) crank_result_same [of q' q] by simp
      have spec: "crank_spec run slot ?lag (n - processed) ?last (qf_events q) S = rbind (run e S) (crank_spec run slot ?lag k (seq_no e) es)"
        using run by (simp add: Cons k(2))
      show ?thesis
        unfolding spec q1(1) q'(7) using step by (cases "run e S") (simp_all add: crank_result_def)
    qed
  qed
qed

text \<open>What a successful crank has executed: a part of the queue from its front, in order.\<close>

fun run_all :: "(QueueFifoEvent \<Rightarrow> PerpState \<Rightarrow> PerpState res) \<Rightarrow> QueueFifoEvent list \<Rightarrow> PerpState \<Rightarrow> PerpState res" where
  "run_all run [] S = Inr S"
| "run_all run (e # es) S = rbind (run e S) (run_all run es)"

fun in_turn :: "u64 \<Rightarrow> u32 \<Rightarrow> u64 \<Rightarrow> QueueFifoEvent list \<Rightarrow> bool" where
  "in_turn slot lag last_executed [] \<longleftrightarrow> True"
| "in_turn slot lag last_executed (e # es) \<longleftrightarrow>
     (seq_no e = last_executed + 1 \<or> slot - submitted_slot e \<ge> lag) \<and> in_turn slot lag (seq_no e) es"

lemma crank_spec_Inr:
  assumes "crank_spec run slot lag n s es S = Inr (S', rest, s')"
  shows "\<exists>executed. es = executed @ rest \<and> run_all run executed S = Inr S' \<and> in_turn slot lag s executed \<and> length executed \<le> n \<and>
    s' = last (s # map seq_no executed)"
  using assms
proof (induction run slot lag n s es S rule: crank_spec.induct)
  case (1 run slot lag n s e es S)
  show ?case
  proof (cases "seq_no e = s + 1 \<or> slot - submitted_slot e \<ge> lag")
    case True
    then obtain S1 where S1: "run e S = Inr S1" "crank_spec run slot lag n (seq_no e) es S1 = Inr (S', rest, s')"
      using 1(2) by (auto simp: rbind_eq_Inr)
    obtain executed where "es = executed @ rest" "run_all run executed S1 = Inr S'" "in_turn slot lag (seq_no e) executed" "length executed \<le> n"
        "s' = last (seq_no e # map seq_no executed)"
      using 1(1) [OF True S1] by blast
    then show ?thesis using True S1(1) by (intro exI [of _ "e # executed"]) simp
  next
    case False
    then show ?thesis using 1(2) by (intro exI [of _ "[]"]) auto
  qed
qed simp_all

lemma crank_spec_all:
  assumes "run_all run (take n es) S = Inr S'" "in_turn slot lag s (take n es)"
  shows "\<exists>s'. crank_spec run slot lag n s es S = Inr (S', drop n es, s')"
  using assms
proof (induction n arbitrary: s es S)
  case (Suc n)
  then show ?case by (cases es) (auto simp: rbind_eq_Inr)
qed (simp_all add: crank_spec.simps)

section \<open>Whole instructions\<close>

definition fifo_queue_ok :: "FifoState \<Rightarrow> bool" where
  "fifo_queue_ok FS \<longleftrightarrow> queue_fifo_ok (fs_queue FS) \<and> seqs_typed (fs_queue FS)"

definition set_queue_seq :: "PerpState \<Rightarrow> u64 \<Rightarrow> PerpState" where
  "set_queue_seq S s = S\<lparr>ps_market := (ps_market S)\<lparr>queue_last_executed_seq := s\<rparr>\<rparr>"

definition pending_ops :: "FifoState \<Rightarrow> QueueFifoEvent list" where
  "pending_ops FS = qf_events (fs_queue FS)"

definition executed_seq :: "FifoState \<Rightarrow> u64" where
  "executed_seq FS = last_executed_seq (qf_header (fs_queue FS))"

definition lag_limit :: "FifoState \<Rightarrow> u32" where
  "lag_limit FS = max_lag_slots (qf_header (fs_queue FS))"

lemmas fifo_views = pending_ops_def executed_seq_def lag_limit_def

lemma crank_refines:
  assumes "fifo_queue_ok FS" "n \<le> 255"
  shows "case crank_spec run slot (lag_limit FS) n (executed_seq FS) (pending_ops FS) (fs_perp FS) of
      Inl e \<Rightarrow> crank run slot n FS = Inl e
    | Inr (S', es, s) \<Rightarrow> \<exists>FS'. crank run slot n FS = Inr FS' \<and> fs_perp FS' = set_queue_seq S' s \<and> fifo_queue_ok FS' \<and> pending_ops FS' = es \<and>
        executed_seq FS' = s \<and> lag_limit FS' = lag_limit FS"
proof -
  have q: "queue_fifo_ok (fs_queue FS)" "seqs_typed (fs_queue FS)" using assms(1) by (simp_all add: fifo_queue_ok_def)
  show ?thesis
    using crank_loop_refines [OF q assms(2), of 0 run slot "fs_perp FS"] q(2)
    by (auto simp: crank_result_def crank_def fifo_views fifo_queue_ok_def set_queue_seq_def seqs_typed_def split: sum.splits)
qed

lemma crank_Inr:
  assumes "crank run slot n FS = Inr FS'" "fifo_queue_ok FS" "n \<le> 255"
  obtains executed S' where "pending_ops FS = executed @ pending_ops FS'" "run_all run executed (fs_perp FS) = Inr S'"
    "fs_perp FS' = set_queue_seq S' (executed_seq FS')" "in_turn slot (lag_limit FS) (executed_seq FS) executed" "length executed \<le> n"
    "executed_seq FS' = last (executed_seq FS # map seq_no executed)" "fifo_queue_ok FS'" "lag_limit FS' = lag_limit FS"
proof -
  obtain S' es s where "crank_spec run slot (lag_limit FS) n (executed_seq FS) (pending_ops FS) (fs_perp FS) = Inr (S', es, s)"
    and "fs_perp FS' = set_queue_seq S' s" "fifo_queue_ok FS'" "pending_ops FS' = es" "executed_seq FS' = s" "lag_limit FS' = lag_limit FS"
    using crank_refines [OF assms(2,3), of run slot] assms(1) by (auto split: sum.splits)
  then show thesis using crank_spec_Inr that by blast
qed

end
