(* ===== verification/Fifo_Machine.thy ===== *)
theory Fifo_Machine
  imports Crank_Effect
begin

text \<open>
  The machine of a perp market together with its FIFO queue: the steps of the market, both ways to
  enqueue and both cranks. Its invariant joins the market's invariant with that of the queue:
  sequence numbers increase, and every pending event is one that the enqueue instructions write
  for this market.
\<close>

section \<open>Running events keeps an invariant\<close>

locale event_runner =
  fixes run :: "QueueFifoEvent \<Rightarrow> PerpState \<Rightarrow> PerpState res"
    and inv :: "PerpState \<Rightarrow> bool"
    and ok :: "QueueFifoEvent \<Rightarrow> bool"
  assumes run_inv: "run e S = Inr S' \<Longrightarrow> inv S \<Longrightarrow> ok e \<Longrightarrow> inv S'"
begin

lemma run_all_inv: "run_all run es S = Inr S' \<Longrightarrow> inv S \<Longrightarrow> \<forall>e \<in> set es. ok e \<Longrightarrow> inv S'"
proof (induction es arbitrary: S)
  case (Cons e es)
  then obtain S1 where "run e S = Inr S1" "run_all run es S1 = Inr S'" by (auto simp: rbind_eq_Inr)
  then show ?case using Cons run_inv by auto
qed simp

lemma crank_inv:
  assumes "crank run slot n FS = Inr FS'" "fifo_queue_ok FS" "n \<le> 255" "inv (fs_perp FS)" "\<forall>e \<in> set (pending_ops FS). ok e"
  shows "\<exists>S'. inv S' \<and> fs_perp FS' = set_queue_seq S' (executed_seq FS') \<and> fifo_queue_ok FS' \<and> set (pending_ops FS') \<subseteq> set (pending_ops FS)"
proof (rule crank_Inr [OF assms(1-3)])
  fix executed S'
  assume r: "pending_ops FS = executed @ pending_ops FS'" "run_all run executed (fs_perp FS) = Inr S'"
    "fs_perp FS' = set_queue_seq S' (executed_seq FS')" "fifo_queue_ok FS'"
  have "inv S'" using run_all_inv [OF r(2) assms(4)] assms(5) r(1) by simp
  then show ?thesis using r by auto
qed

end

section \<open>The operations of the queue\<close>

text \<open>The ranges of the types of an event's fields.\<close>

definition params_typed :: "CompactOrderParams \<Rightarrow> bool" where
  "params_typed p \<longleftrightarrow> in_i64 (cp_price_lots p) \<and> cp_tif_offset p \<le> u16_MAX"

definition event_typed :: "QueueFifoEvent \<Rightarrow> bool" where
  "event_typed e \<longleftrightarrow> params_typed (ev_params e)"

text \<open>The market's invariant, for a fixed group and market index; \<open>ts\<close> is the clock.\<close>

definition market_at :: "i64 \<Rightarrow> Group \<Rightarrow> u16 \<Rightarrow> PerpState \<Rightarrow> bool" where
  "market_at ts g mi S \<longleftrightarrow> in_i64 ts \<and> market_inv S \<and> ps_group S = g \<and> perp_market_index (ps_market S) = mi"

lemma order_from_params_typed:
  assumes "order_from_params p = Inr (order, limit)" "params_typed p"
  shows "order_time_in_force order \<le> u16_MAX" "case params order of FixedParams px _ \<Rightarrow> in_i64 px | _ \<Rightarrow> True"
proof -
  have "case op of FixedParams px _ \<Rightarrow> in_i64 px | _ \<Rightarrow> True" if "order_params_of p ty = Inr op" for ty op
    using that assms(2) by (cases ty) (auto simp: order_params_of_def params_typed_def)
  then show "case params order of FixedParams px _ \<Rightarrow> in_i64 px | _ \<Rightarrow> True"
    using assms(1) by (auto simp: order_from_params_def rbind_eq_Inr)
  show "order_time_in_force order \<le> u16_MAX" using assms by (auto simp: order_from_params_def params_typed_def rbind_eq_Inr)
qed

lemma execute_place_inv:
  assumes "execute_place E e S = Inr S'" "market_at (ce_ts E) g mi S" "event_typed e"
  shows "market_at (ce_ts E) g mi S'"
proof -
  obtain order limit oid where o: "order_from_params (ev_params e) = Inr (order, limit)" and
    r: "perp_place_order_logic (ce_fixed E) (ce_health E S) S ((ce_keys E)\<lparr>key_owner := ev_user e\<rparr>) (ce_oracle E) (ce_ts E) (ce_slot E) order limit
        = Inr (S', oid)"
    using assms(1) by (auto simp: execute_place_def rbind_eq_Inr)
  have "0 \<le> max_base_lots order" "0 \<le> max_quote_lots order" by (rule place_parts [OF r], simp)+
  then have ok: "order_ok order" using order_from_params_typed [OF o] assms(3) by (simp add: order_ok_def event_typed_def)
  have i: "market_inv S" "in_i64 (ce_ts E)" using assms(2) by (simp_all add: market_at_def)
  show ?thesis
    using place_order_inv [OF i(1) r i(2) ok] place_group [OF r] place_market_index [OF i(1) r i(2) ok] assms(2)
    by (simp add: market_at_def)
qed

lemma execute_cancel_inv:
  assumes "execute_cancel E e S = Inr S'" "market_at (ce_ts E) g mi S"
  shows "market_at (ce_ts E) g mi S'"
  using cancel_order_inv(2) cancel_group(2) assms by (fastforce simp: execute_cancel_def market_at_def)

lemma run_event_inv:
  assumes "run_event E e S = Inr S'" "market_at (ce_ts E) g mi S" "event_typed e"
  shows "market_at (ce_ts E) g mi S'"
proof -
  obtain ty where "queue_event_type e = Inr ty" "dispatch_event E e S = Inr S'" using assms(1) by (auto simp: run_event_def dispatch_event_def rbind_eq_Inr)
  then show ?thesis
    using execute_place_inv [where E = E, OF _ _ assms(3)] execute_cancel_inv [where E = E] assms(2)
    by (cases ty) (auto simp: dispatch_event_def execute_modify_def rbind_eq_Inr)
qed

lemma fifo_run_event_inv:
  assumes "fifo_run_event E e S = Inr S'" "market_at (ce_ts E) g mi S" "event_typed e"
  shows "market_at (ce_ts E) g mi S'"
proof -
  obtain ty where "queue_event_type e = Inr ty" "fifo_dispatch_event E e S = Inr S'"
    using assms(1) by (auto simp: fifo_run_event_def fifo_dispatch_event_def rbind_eq_Inr)
  then show ?thesis
    using execute_place_inv [where E = E, OF _ _ assms(3)] execute_cancel_inv [where E = E] assms(2) by (cases ty) (auto simp: fifo_dispatch_event_def)
qed

interpretation queued: event_runner "run_event E" "market_at (ce_ts E) g mi" event_typed for E g mi
  by unfold_locales (rule run_event_inv)

interpretation fifo_queued: event_runner "fifo_run_event E" "market_at (ce_ts E) g mi" event_typed for E g mi
  by unfold_locales (rule fifo_run_event_inv)

section \<open>The machine\<close>

inductive fifo_step ::
  "fixed_ops \<Rightarrow> codec \<Rightarrow> ('w \<Rightarrow> PerpState \<Rightarrow> 'c health_ops) \<Rightarrow> FifoState \<Rightarrow> FifoState \<Rightarrow> bool" for F cd H where
  market: "perp_step F H (fs_perp FS) S' \<Longrightarrow> fifo_step F cd H FS (FS\<lparr>fs_perp := S'\<rparr>)"
| enqueue_operation: "perp_enqueue_operation cd sysvar FS K ts slot args = Inr FS' \<Longrightarrow>
    qi_seq_no (arg_queued_order_intent args) \<le> u64_MAX \<Longrightarrow> params_typed (oi_params (arg_order_intent args)) \<Longrightarrow> fifo_step F cd H FS FS'"
| enqueue_event: "enqueue_perp_event cd sysvar FS K slot args' = Inr FS' \<Longrightarrow>
    arg_seq_no args' \<le> u64_MAX \<Longrightarrow> params_typed (arg_params args') \<Longrightarrow> fifo_step F cd H FS FS'"
| crank_operations: "perp_crank_queued_operations F (H w) FS K oracle ts slot n = Inr FS' \<Longrightarrow> in_i64 ts \<Longrightarrow> fifo_step F cd H FS FS'"
| crank_fifo: "crank_fifo_queue F (H w) FS K oracle ts slot n = Inr FS' \<Longrightarrow> in_i64 ts \<Longrightarrow> n \<le> 255 \<Longrightarrow> fifo_step F cd H FS FS'"

definition fifo_inv :: "FifoState \<Rightarrow> bool" where
  "fifo_inv FS \<longleftrightarrow> market_inv (fs_perp FS) \<and> fifo_queue_ok FS \<and> (\<forall>e \<in> set (pending_ops FS). event_ok (fs_perp FS) e \<and> event_typed e)"

lemma market_inv_set_queue_seq [simp]: "market_inv (set_queue_seq S s) = market_inv S"
proof -
  have "pos_val f (set_queue_seq S s) = pos_val f S" for f
    by (rule ext) (simp add: pos_val_def position_of_def set_queue_seq_def split: option.split)
  then show ?thesis by (simp add: market_inv_def lots_match_def zero_sum_def) (simp add: set_queue_seq_def)
qed

lemma event_ok_cong:
  "ps_group S' = ps_group S \<Longrightarrow> perp_market_index (ps_market S') = perp_market_index (ps_market S) \<Longrightarrow> event_ok S' e = event_ok S e"
  by (simp add: event_ok_def)

lemma appended_inv:
  assumes "appended FS e FS'" "fifo_inv FS" "seq_no e \<le> u64_MAX" "params_typed (ev_params e)" "entries (fs_queue FS') = (entries (fs_queue FS))[i := e]"
  shows "fifo_inv FS'"
proof -
  have "seqs_typed (fs_queue FS')"
    using assms(2,3,5) set_update_subset_insert [of "entries (fs_queue FS)" i e] by (auto simp: seqs_typed_def fifo_inv_def fifo_queue_ok_def)
  then show ?thesis using assms(1,2,4) by (auto simp: appended_def fifo_inv_def fifo_queue_ok_def pending_ops_def event_typed_def)
qed

lemma qf_push_entries: "qf_push q e = Inr q' \<Longrightarrow> \<exists>i. entries q' = (entries q)[i := e]"
  by (auto simp: qf_push_def rbind_eq_Inr split: if_splits)

lemma enqueue_operation_inv:
  assumes "perp_enqueue_operation cd sysvar FS K ts slot args = Inr FS'" "fifo_inv FS"
    "qi_seq_no (arg_queued_order_intent args) \<le> u64_MAX" "params_typed (oi_params (arg_order_intent args))"
  shows "fifo_inv FS' \<and> fs_perp FS' = fs_perp FS"
proof (rule enqueue_operation_appends [OF assms(1)])
  show "queue_fifo_ok (fs_queue FS)" using assms(2) by (simp add: fifo_inv_def fifo_queue_ok_def)
  fix e assume e: "appended FS e FS'" "qf_push (fs_queue FS) e = Inr (fs_queue FS')" "seq_no e = qi_seq_no (arg_queued_order_intent args)"
    "ev_params e = oi_params (arg_order_intent args)"
  then show ?thesis using appended_inv [OF e(1) assms(2)] assms(3,4) qf_push_entries [OF e(2)] by (auto simp: appended_def)
qed

lemma enqueue_event_inv:
  assumes "enqueue_perp_event cd sysvar FS K slot args = Inr FS'" "fifo_inv FS" "arg_seq_no args \<le> u64_MAX" "params_typed (arg_params args)"
  shows "fifo_inv FS' \<and> fs_perp FS' = fs_perp FS"
proof (rule enqueue_event_appends [OF assms(1)])
  show "queue_fifo_ok (fs_queue FS)" using assms(2) by (simp add: fifo_inv_def fifo_queue_ok_def)
  fix e assume e: "appended FS e FS'" "qf_push (fs_queue FS) e = Inr (fs_queue FS')" "seq_no e = arg_seq_no args" "ev_params e = arg_params args"
  then show ?thesis using appended_inv [OF e(1) assms(2)] assms(3,4) qf_push_entries [OF e(2)] by (auto simp: appended_def)
qed

lemma crank_step_inv:
  assumes "crank run slot n FS = Inr FS'" "event_runner run (market_at ts (ps_group (fs_perp FS)) (perp_market_index (ps_market (fs_perp FS)))) event_typed"
    and "fifo_inv FS" "n \<le> 255" "in_i64 ts"
  shows "fifo_inv FS' \<and> ps_group (fs_perp FS') = ps_group (fs_perp FS)"
proof -
  let ?g = "ps_group (fs_perp FS)" and ?mi = "perp_market_index (ps_market (fs_perp FS))"
  have i: "fifo_queue_ok FS" "market_at ts ?g ?mi (fs_perp FS)" "\<forall>e \<in> set (pending_ops FS). event_typed e"
    using assms(3,5) by (simp_all add: fifo_inv_def market_at_def)
  obtain S' where S': "market_at ts ?g ?mi S'" "fs_perp FS' = set_queue_seq S' (executed_seq FS')" "fifo_queue_ok FS'"
      "set (pending_ops FS') \<subseteq> set (pending_ops FS)"
    using event_runner.crank_inv [OF assms(2) assms(1) i(1) assms(4) i(2,3)] by blast
  then have same: "ps_group (fs_perp FS') = ?g" "perp_market_index (ps_market (fs_perp FS')) = ?mi"
    by (simp_all add: market_at_def set_queue_seq_def)
  show ?thesis using S' same assms(3) event_ok_cong [OF same] by (auto simp: fifo_inv_def market_at_def)
qed

lemma fifo_step_inv:
  assumes "fifo_step F cd H FS FS'" "fixed_laws F" "fifo_inv FS" "\<not> is_testing (ps_group (fs_perp FS))"
  shows "fifo_inv FS' \<and> ps_group (fs_perp FS') = ps_group (fs_perp FS)"
  using assms(1)
proof cases
  case (market S')
  have "market_inv (fs_perp FS)" using assms(3) by (simp add: fifo_inv_def)
  note m = perp_step_inv [OF market(2) assms(2) this assms(4)]
  then have "event_ok S' = event_ok (fs_perp FS)" by (intro ext event_ok_cong) simp_all
  then show ?thesis using m assms(3) market(1) by (simp add: fifo_inv_def fifo_queue_ok_def pending_ops_def)
next
  case (enqueue_operation sysvar K ts slot args)
  then show ?thesis using enqueue_operation_inv assms(3) by fastforce
next
  case (enqueue_event sysvar K slot args)
  then show ?thesis using enqueue_event_inv assms(3) by fastforce
next
  case (crank_operations w K os ts slot n)
  let ?E = "make_env F (H w) K os ts slot"
  have ts: "ce_ts ?E = ts" by (simp add: make_env_def)
  have "crank (run_event ?E) slot (min n MAX_QUEUED_OPS_PER_CALL) FS = Inr FS'" "min n MAX_QUEUED_OPS_PER_CALL \<le> 255"
    using crank_operations(1) by (auto simp: perp_crank_queued_operations_def rbind_eq_Inr MAX_QUEUED_OPS_PER_CALL_def)
  then show ?thesis using crank_step_inv [OF _ queued.event_runner_axioms [of ?E, unfolded ts] assms(3)] crank_operations(2) by blast
next
  case (crank_fifo w K os ts slot n)
  let ?E = "make_env F (H w) K os ts slot"
  have ts: "ce_ts ?E = ts" by (simp add: make_env_def)
  have "crank (fifo_run_event ?E) slot n FS = Inr FS'"
    using crank_fifo(1) by (auto simp: crank_fifo_queue_def rbind_eq_Inr)
  then show ?thesis using crank_step_inv [OF _ fifo_queued.event_runner_axioms [of ?E, unfolded ts] assms(3)] crank_fifo(2,3) by blast
qed

interpretation fifo_machine: state_machine "fifo_step F cd H" "\<lambda>FS. fixed_laws F \<and> fifo_inv FS \<and> \<not> is_testing (ps_group (fs_perp FS))" for F cd H
  by unfold_locales (metis fifo_step_inv)

end
