(* ===== verification/Book_Side_Properties.thy ===== *)
theory Book_Side_Properties
  imports Book_Side_Queries
begin

text \<open>
  What the order trees and the book sides guarantee to the rest of the program, stated
  over the model of the code, and a book with concrete orders on which every property
  with hypotheses is instantiated.
\<close>

section \<open>A book to evaluate on\<close>

text \<open>An order of five lots at the given price.\<close>

definition sample_leaf :: "Side \<Rightarrow> i64 \<Rightarrow> i64 \<Rightarrow> LeafNode" where
  "sample_leaf side price seq =
     LeafNode_new 0 (new_node_key side (word_of_int price) (word_of_int seq)) [] 5 100 Limit 0 (- 1) 7"

lemma sample_price_data: "price_data (sample_leaf side p s) = word_of_int p"
  by (rule price_data_of_key [of _ side _ "word_of_int s"]) (simp add: sample_leaf_def LeafNode_new_def)

lemma sample_leaf_ok: "1 \<le> p \<Longrightarrow> p < 2 ^ 63 \<Longrightarrow> component_ok c (sample_leaf side p s)"
  by (simp add: component_ok_def leaf_ok_def fixed_ok_def sample_price_data uint_word_of_int)
    (simp add: sample_leaf_def LeafNode_new_def u64_MAX_def)

lemma sample_leaf_simps [simp]:
  "quantity (sample_leaf side p s) = 5" "leaf_expiry (sample_leaf side p s) = u64_MAX"
  "time_in_force (sample_leaf side p s) = 0"
  by (simp_all add: sample_leaf_def LeafNode_new_def leaf_expiry_def)

lemma sample_leaf_key_inject:
  "leaf_key (sample_leaf side p s) = leaf_key (sample_leaf side q t) \<longleftrightarrow>
     (word_of_int p :: 64 word) = word_of_int q \<and> (word_of_int s :: 64 word) = word_of_int t"
  by (simp add: sample_leaf_def LeafNode_new_def new_node_key_inject)

text \<open>One order on an otherwise empty side.\<close>

definition sample_book :: "OrderTreeType \<Rightarrow> BookSideOrderTree \<Rightarrow> LeafNode \<Rightarrow> BookSide" where
  "sample_book ty c l = (case book_insert_leaf (empty_side ty) c l of Inr (bs, _) \<Rightarrow> bs | Inl _ \<Rightarrow> empty_side ty)"

lemma sample_book_ok:
  assumes "component_ok c l"
  shows "book_ok (sample_book ty c l)" "book_map c (sample_book ty c l) = [leaf_key l \<mapsto> l]"
    "book_map (other_component c) (sample_book ty c l) = Map.empty"
    "book_side (sample_book ty c l) = order_tree_type_side ty"
    "\<not> book_is_full (sample_book ty c l)"
proof -
  obtain bs h where bs: "book_insert_leaf (empty_side ty) c l = Inr (bs, h, None)" "book_ok bs"
      "book_map c bs = [leaf_key l \<mapsto> l]" "book_map (other_component c) bs = Map.empty"
      "book_side bs = book_side (empty_side ty)"
    using book_insert_map [of "empty_side ty" c l] assms by auto
  then have eq: "sample_book ty c l = bs" by (simp add: sample_book_def)
  show "book_ok (sample_book ty c l)" "book_map c (sample_book ty c l) = [leaf_key l \<mapsto> l]"
    "book_map (other_component c) (sample_book ty c l) = Map.empty"
    using eq bs by simp_all
  show "book_side (sample_book ty c l) = order_tree_type_side ty"
    using eq bs(5) by (simp add: book_side_def empty_side_def)
  have inv: "book_inv bs (trees_of bs)" using bs(2) by (simp add: book_ok_def)
  have o: "orders (component (trees_of bs) d) = ran (book_map d bs)" for d
  proof -
    have "tree_crit (component (trees_of bs) d)" by (rule book_inv_crit [OF inv])
    then show ?thesis using order_map_eq [of "component (trees_of bs) d"]
      unfolding ran_def book_map_def by blast
  qed
  have "card (ran (book_map Fixed bs)) + card (ran (book_map OraclePegged bs)) < 511"
    using bs(3,4) by (cases c) simp_all
  then show "\<not> book_is_full (sample_book ty c l)" using book_not_full [OF inv] unfolding eq o by simp
qed

lemma book_orders_ran:
  assumes "book_ok bs"
  shows "book_orders c bs = ran (book_map c bs)"
proof -
  have "tree_crit (component (trees_of bs) c)"
    using assms by (intro book_inv_crit) (simp add: book_ok_def)
  then show ?thesis using order_map_eq [of "component (trees_of bs) c"]
    unfolding ran_def book_map_def book_orders_def by blast
qed

text \<open>A single bid at ten lots, at a fixed price.\<close>

definition one_bid :: BookSide where
  "one_bid = sample_book Bids Fixed (sample_leaf Bid 10 1)"

lemma one_bid_ok [simp]:
  "book_ok one_bid" "book_map Fixed one_bid = [leaf_key (sample_leaf Bid 10 1) \<mapsto> sample_leaf Bid 10 1]"
  "book_map OraclePegged one_bid = Map.empty" "book_side one_bid = Bid" "\<not> book_is_full one_bid"
  using sample_book_ok [OF sample_leaf_ok [of 10 Fixed Bid 1], of Bids] by (simp_all add: one_bid_def)

lemma one_bid_orders [simp]:
  "book_orders Fixed one_bid = {sample_leaf Bid 10 1}" "book_orders OraclePegged one_bid = {}"
  by (simp_all add: book_orders_ran)

lemma one_bid_items: "\<exists>h. book_items one_bid now oracle_px = [fixed_item now (h, sample_leaf Bid 10 1)]"
proof -
  have inv: "book_inv one_bid (trees_of one_bid)" using one_bid_ok(1) by (simp add: book_ok_def)
  have p: "component (trees_of one_bid) OraclePegged = None"
    using one_bid_orders(2) leaves_nonempty
    by (cases "component (trees_of one_bid) OraclePegged") (auto simp: book_orders_def)
  obtain t where t: "component (trees_of one_bid) Fixed = Some t"
    using one_bid_orders(1) by (cases "component (trees_of one_bid) Fixed") (auto simp: book_orders_def)
  have "tree_crit (Some t)" using book_inv_crit [OF inv, of Fixed] t by simp
  then have "length (leaves t) = 1"
    using orders_card [of t] one_bid_orders(1) t by (simp add: book_orders_def)
  then obtain h l where "leaves t = [(h, l)]" by (cases "leaves t") auto
  moreover from this have "l = sample_leaf Bid 10 1" using one_bid_orders(1) t by (simp add: book_orders_def)
  ultimately show ?thesis using p t
    by (auto simp: book_items_def walk_items_def best_first_def dir_leaves_def)
qed

lemma one_bid_valid: "\<exists>h. valid_items one_bid now oracle_px = [fixed_item now (h, sample_leaf Bid 10 1)]"
  using one_bid_items [of now oracle_px] by (auto simp: valid_items_def is_valid_def fixed_item_def)

lemma one_bid_bounded: "items_bounded (valid_items one_bid now oracle_px)"
  using one_bid_valid [of now oracle_px]
  by (auto simp: items_bounded_def sample_price_data i64_MAX_def)

section \<open>Each order once\<close>

lemma best_first_mset:
  assumes "tree_crit to"
  shows "mset (map snd (best_first ot to)) = mset_set (orders to)"
proof (cases to)
  case (Some t)
  have "distinct (map (leaf_key \<circ> snd) (leaves t))"
    using assms Some by (simp add: tree_crit_def leaves_distinct_keys)
  then have "distinct (map snd (leaves t))" by (metis distinct_map map_map)
  then have "mset (map snd (leaves t)) = mset_set (set (map snd (leaves t)))" by (rule mset_set_set [symmetric])
  with Some show ?thesis by (simp add: best_first_def dir_leaves_def mset_map)
qed (simp add: best_first_def)

lemma image_mset_pair: "finite A \<Longrightarrow> image_mset (Pair x) (mset_set A) = mset_set ({x} \<times> A)"
proof -
  assume "finite A"
  moreover have "inj_on (Pair x) A" by (auto simp: inj_on_def)
  ultimately have "image_mset (Pair x) (mset_set A) = mset_set (Pair x ` A)" by (simp add: image_mset_mset_set)
  moreover have "Pair x ` A = {x} \<times> A" by auto
  ultimately show ?thesis by simp
qed

lemma finite_orders [simp]: "finite (orders to)"
  by (cases to) simp_all

lemma book_items_mset:
  assumes "book_ok bs"
  shows "mset (map (\<lambda>i. (handle_order_tree (item_handle i), item_node i)) (book_items bs now oracle_px)) =
     mset_set ({Fixed} \<times> book_orders Fixed bs \<union>
       {OraclePegged} \<times> {l \<in> book_orders OraclePegged bs. fst (oracle_pegged_price oracle_px l (book_side bs)) \<noteq> Skipped})"
proof -
  let ?P = "\<lambda>l. fst (oracle_pegged_price oracle_px l (book_side bs)) \<noteq> Skipped"
  let ?f = "best_first (book_nodes bs) (component (trees_of bs) Fixed)"
  let ?p = "best_first (book_nodes bs) (component (trees_of bs) OraclePegged)"
  have crit: "tree_crit (component (trees_of bs) c)" for c
    using assms by (intro book_inv_crit) (simp add: book_ok_def)
  have f: "mset (map snd ?f) = mset_set (book_orders Fixed bs)"
    and p: "mset (map snd ?p) = mset_set (book_orders OraclePegged bs)"
    unfolding book_orders_def by (rule best_first_mset [OF crit])+
  have "mset (map snd (filter (shown (book_side bs) oracle_px) ?p)) = mset (filter ?P (map snd ?p))"
    by (simp add: filter_map comp_def shown_def)
  also have "\<dots> = filter_mset ?P (mset_set (book_orders OraclePegged bs))" using p by simp
  also have "\<dots> = mset_set {l \<in> book_orders OraclePegged bs. ?P l}"
    by (simp add: filter_mset_mset_set book_orders_def)
  finally have p': "mset (map snd (filter (shown (book_side bs) oracle_px) ?p)) =
      mset_set {l \<in> book_orders OraclePegged bs. ?P l}" .
  have "mset (map (\<lambda>i. (handle_order_tree (item_handle i), item_node i)) (book_items bs now oracle_px)) =
      image_mset (Pair Fixed) (mset (map snd ?f)) +
      image_mset (Pair OraclePegged) (mset (map snd (filter (shown (book_side bs) oracle_px) ?p)))"
    by (simp add: book_items_def walk_items_def mset_map mset_merge_items image_mset.compositionality comp_def)
  also have "\<dots> = mset_set ({Fixed} \<times> book_orders Fixed bs) +
      mset_set ({OraclePegged} \<times> {l \<in> book_orders OraclePegged bs. ?P l})"
    unfolding f p' by (simp add: image_mset_pair book_orders_def)
  also have "\<dots> = mset_set ({Fixed} \<times> book_orders Fixed bs \<union> {OraclePegged} \<times> {l \<in> book_orders OraclePegged bs. ?P l})"
    by (rule mset_set_Union [symmetric]) (auto simp: book_orders_def)
  finally show ?thesis .
qed

lemma orders_empty: "orders to = {} \<longleftrightarrow> to = None"
  using leaves_nonempty by (cases to) auto

lemma book_orders_upd:
  assumes "book_inv bs' (component_upd c to' (trees_of bs))"
  shows "book_ok bs'" "book_orders c bs' = orders to'"
    "book_orders (other_component c) bs' = book_orders (other_component c) bs"
  using book_inv_ok [OF assms] book_inv_trees [OF assms] by (simp_all add: book_orders_def)

section \<open>Properties\<close>

text \<open>
  C1. Placing an order on a book side that is not full never fails and updates the finite
  map from keys to orders at exactly the new order's key: the result returns the order
  that was replaced, if any, the other component and the side are unchanged, and the
  invariant of the crit-bit trees, the allocator and the expiry bookkeeping is kept.
\<close>

theorem insert_leaf_refines_map:
  assumes "book_ok bs" "component_ok c l" "\<not> book_is_full bs"
  shows "\<exists>bs' h. book_insert_leaf bs c l = Inr (bs', h, book_map c bs (leaf_key l)) \<and> book_ok bs' \<and>
           book_map c bs' = (book_map c bs)(leaf_key l \<mapsto> l) \<and>
           book_map (other_component c) bs' = book_map (other_component c) bs \<and>
           book_side bs' = book_side bs"
  by (rule book_insert_map [OF assms])

theorem insert_leaf_refines_map_witness:
  "\<exists>bs' h. book_insert_leaf one_bid Fixed (sample_leaf Bid 12 2) = Inr (bs', h, None) \<and> book_ok bs' \<and>
     book_map Fixed bs' (leaf_key (sample_leaf Bid 12 2)) = Some (sample_leaf Bid 12 2)"
  using insert_leaf_refines_map [of one_bid Fixed "sample_leaf Bid 12 2"] sample_leaf_ok [of 12 Fixed Bid 2]
  by (auto simp: sample_leaf_key_inject)

text \<open>
  C2. Removing by key never fails, returns the order with that key if the component has
  one and nothing otherwise, deletes exactly that key from the map, and keeps the
  invariant, the other component and the side.
\<close>

theorem remove_by_key_refines_map:
  assumes "book_ok bs"
  shows "\<exists>bs'. book_remove_by_key bs c k = Inr (bs', book_map c bs k) \<and> book_ok bs' \<and>
           book_map c bs' = (book_map c bs)(k := None) \<and>
           book_map (other_component c) bs' = book_map (other_component c) bs \<and>
           book_side bs' = book_side bs"
  by (rule book_remove_map [OF assms])

theorem remove_by_key_refines_map_witness:
  "\<exists>bs'. book_remove_by_key one_bid Fixed (leaf_key (sample_leaf Bid 10 1)) = Inr (bs', Some (sample_leaf Bid 10 1)) \<and>
     book_map Fixed bs' = Map.empty"
  using remove_by_key_refines_map [of one_bid Fixed "leaf_key (sample_leaf Bid 10 1)"] by auto

text \<open>
  C3. Round trip: inserting an order under a fresh key and removing it again returns that
  very order and restores the map of the component.
\<close>

theorem insert_then_remove:
  assumes "book_ok bs" "component_ok c l" "\<not> book_is_full bs" "book_map c bs (leaf_key l) = None"
  shows "\<exists>bs1 h bs2. book_insert_leaf bs c l = Inr (bs1, h, None) \<and>
           book_remove_by_key bs1 c (leaf_key l) = Inr (bs2, Some l) \<and>
           book_ok bs2 \<and> book_map c bs2 = book_map c bs"
  using assms fixed.ins_del [of bs l] pegged.ins_del [of bs l] by (cases c) simp_all

theorem insert_then_remove_witness:
  "\<exists>bs1 h bs2. book_insert_leaf one_bid OraclePegged (sample_leaf Bid 12 2) = Inr (bs1, h, None) \<and>
     book_remove_by_key bs1 OraclePegged (leaf_key (sample_leaf Bid 12 2)) = Inr (bs2, Some (sample_leaf Bid 12 2)) \<and>
     book_map OraclePegged bs2 = Map.empty"
  using insert_then_remove [of one_bid OraclePegged "sample_leaf Bid 12 2"] sample_leaf_ok [of 12 OraclePegged Bid 2]
  by auto

text \<open>Capacity: a book side with fewer than 511 orders in its two components together is not full,
  so an order can always be placed on it.\<close>

lemma few_orders_not_full:
  assumes "book_ok bs" "card (book_orders Fixed bs) + card (book_orders OraclePegged bs) < 511"
  shows "\<not> book_is_full bs"
  using book_not_full [of bs "trees_of bs"] assms by (simp add: book_ok_def book_orders_def)

text \<open>
  C4. Walking a book side with the merging iterator terminates without failing and yields
  every order at a fixed price and every pegged order whose current price is representable,
  each exactly once, in an order in which no later item has a better price than an earlier
  one.
\<close>

theorem book_walk_complete_sorted:
  assumes "book_ok bs"
  shows "\<exists>it xs. BookSideIter_new bs now oracle_px = Inr it \<and>
           for_loop (iter_fuel it) book_iter_next (\<lambda>i acc. Inr (Inl (acc @ [i]))) it [] = Inr (Inl xs :: _ + unit) \<and>
           sorted_wrt (\<lambda>a b. \<not> is_price_better (book_side bs) (price_lots b) (price_lots a)) xs \<and>
           mset (map (\<lambda>i. (handle_order_tree (item_handle i), item_node i)) xs) =
             mset_set ({Fixed} \<times> book_orders Fixed bs \<union>
               {OraclePegged} \<times> {l \<in> book_orders OraclePegged bs. fst (oracle_pegged_price oracle_px l (book_side bs)) \<noteq> Skipped})"
proof -
  obtain it where it: "BookSideIter_new bs now oracle_px = Inr it" "book_rest it (book_items bs now oracle_px)"
      "length (book_items bs now oracle_px) < iter_fuel it"
    using BookSideIter_new_ok [OF assms] by blast
  have "for_list (\<lambda>i acc. Inr (Inl (acc @ [i]))) xs acc = Inr (Inl (acc @ xs) :: _ + unit)" for xs acc :: "BookSideIterItem list"
    by (induction xs arbitrary: acc) simp_all
  then have "for_loop (iter_fuel it) book_iter_next (\<lambda>i acc. Inr (Inl (acc @ [i]))) it [] =
      Inr (Inl (book_items bs now oracle_px) :: _ + unit)"
    unfolding book_iter.for_loop_eq [OF it(2,3)] by simp
  then show ?thesis
    using it(1) book_items_by_price [OF assms] book_items_mset [OF assms] by blast
qed

theorem book_walk_complete_sorted_witness:
  "\<exists>it i. BookSideIter_new one_bid 50 100 = Inr it \<and>
     for_loop (iter_fuel it) book_iter_next (\<lambda>i acc. Inr (Inl (acc @ [i]))) it [] = Inr (Inl [i] :: _ + unit) \<and>
     item_node i = sample_leaf Bid 10 1"
proof -
  obtain it xs where r: "BookSideIter_new one_bid 50 100 = Inr it"
      "for_loop (iter_fuel it) book_iter_next (\<lambda>i acc. Inr (Inl (acc @ [i]))) it [] = Inr (Inl xs :: _ + unit)"
      "mset (map (\<lambda>i. (handle_order_tree (item_handle i), item_node i)) xs) = {#(Fixed, sample_leaf Bid 10 1)#}"
    using book_walk_complete_sorted [of one_bid 50 100] by auto
  then obtain i where "xs = [i]" "item_node i = sample_leaf Bid 10 1" by (cases xs; cases "tl xs") auto
  with r show ?thesis by blast
qed

text \<open>
  C5. Price-time priority of the order keys. On the ask side an order precedes another in
  key order iff its price is lower or it has the same price and the smaller sequence
  number; on the bid side, where the walk runs from the largest key down, iff its price is
  higher or it has the same price and the smaller sequence number.
\<close>

theorem node_key_price_time:
  "(if side = Bid then new_node_key side q t < new_node_key side p s else new_node_key side p s < new_node_key side q t) \<longleftrightarrow>
     (if side = Bid then q < p else p < q) \<or> (p = q \<and> s < t)"
  by (auto simp: new_node_key_less_iff)

text \<open>
  C6. \<^verbatim>\<open>best_price\<close> never fails; it is \<open>None\<close> exactly when the side has no valid order, and
  otherwise the price of a valid order that no valid order beats.
\<close>

theorem best_price_is_best:
  assumes "book_ok bs"
  shows "\<exists>r. best_price bs now oracle_px = Inr r \<and>
     (case r of None \<Rightarrow> valid_items bs now oracle_px = []
      | Some p \<Rightarrow> (\<exists>i \<in> set (valid_items bs now oracle_px). price_lots i = p) \<and>
          (\<forall>i \<in> set (valid_items bs now oracle_px). \<not> is_price_better (book_side bs) (price_lots i) p))"
  using best_price_eq [OF assms, of now oracle_px] best_price_best [OF assms, of now oracle_px]
  by (cases "valid_items bs now oracle_px") auto

theorem best_price_is_best_witness: "best_price one_bid 50 100 = Inr (Some 10)"
  using best_price_is_best [of one_bid 50 100] one_bid_valid [of 50 100]
  by (auto simp: fixed_item_def sample_price_data split: option.splits)

text \<open>
  C7. \<^verbatim>\<open>quantity_at_price\<close> is the total quantity of exactly the valid orders at the limit or
  better, as long as the quantities of the side fit the machine integers.
\<close>

theorem quantity_at_price_total:
  assumes "book_ok bs" "items_bounded (valid_items bs now oracle_px)"
  shows "quantity_at_price bs limit now oracle_px =
     Inr (sum_list (map qty (filter (\<lambda>i. \<not> is_price_better (book_side bs) limit (price_lots i)) (valid_items bs now oracle_px))))"
  by (rule quantity_at_price_eq [OF assms])

theorem quantity_at_price_total_witness:
  "quantity_at_price one_bid 9 50 100 = Inr 5 \<and> quantity_at_price one_bid 11 50 100 = Inr 0"
  using quantity_at_price_total [of one_bid 50 100 9] quantity_at_price_total [of one_bid 50 100 11]
    one_bid_valid [of 50 100] one_bid_bounded [of 50 100]
  by (auto simp: fixed_item_def sample_price_data)

text \<open>
  C8. \<^verbatim>\<open>matched_amount\<close> is what taking the requested base lots from the best orders on
  costs: all of the orders before some order, and the rest at the price of that order; it is
  \<open>None\<close> exactly when the side offers less than was asked for. \<^verbatim>\<open>impact_price\<close> is the price
  of that order.
\<close>

theorem matched_amount_and_impact_price:
  assumes "book_ok bs" "items_bounded (valid_items bs now oracle_px)" "0 < d" "in_i64 d"
  shows "if sum_list (map qty (valid_items bs now oracle_px)) < d
         then matched_amount bs d now oracle_px = Inr None \<and> impact_price bs d now oracle_px = Inr None
         else \<exists>ys y zs. valid_items bs now oracle_px = ys @ y # zs \<and>
                sum_list (map qty ys) < d \<and> d \<le> sum_list (map qty ys) + qty y \<and>
                matched_amount bs d now oracle_px =
                  Inr (Some (sum_list (map amt ys) + (d - sum_list (map qty ys)) * price_lots y)) \<and>
                impact_price bs d now oracle_px = Inr (Some (price_lots y))"
proof (cases "split_at qty d (valid_items bs now oracle_px)")
  case None
  then show ?thesis
    using assms split_at_None [of "valid_items bs now oracle_px" qty d] impact_price_eq [OF assms(1,2), of d]
    by (simp add: matched_amount_eq cost_def items_bounded_def)
next
  case (Some z)
  obtain ys y where z: "z = (ys, y)" by force
  have "\<not> sum_list (map qty (valid_items bs now oracle_px)) < d"
    using assms Some split_at_None [of "valid_items bs now oracle_px" qty d] by (simp add: items_bounded_def)
  moreover have "sum_list (map qty ys) < d" using split_at_Some [OF Some [unfolded z]] assms(3) by (cases "ys = []") auto
  ultimately show ?thesis
    using assms Some z split_at_Some [OF Some [unfolded z]] impact_price_eq [OF assms(1,2), of d]
    by (auto simp: matched_amount_eq cost_def)
qed

theorem matched_amount_and_impact_price_witness:
  "matched_amount one_bid 3 50 100 = Inr (Some 30) \<and> impact_price one_bid 3 50 100 = Inr (Some 10) \<and>
   matched_amount one_bid 6 50 100 = Inr None"
  using matched_amount_and_impact_price [of one_bid 50 100 3] matched_amount_and_impact_price [of one_bid 50 100 6]
    one_bid_valid [of 50 100] one_bid_bounded [of 50 100]
  by (auto simp: fixed_item_def sample_price_data in_i64_def i64_MAX_def i64_MIN_def Cons_eq_append_conv)

text \<open>
  C9. \<^verbatim>\<open>matched_quantity\<close> rounds down: what it returns costs at most the requested amount, and
  one lot more at the last price would cost more than it. It is \<open>None\<close> exactly when the side
  offers less than that amount. The comment on the function asks for a quantity that matches at least the requested amount, which
  the result only does when the amount is spent exactly: the code divides what is left by the last price and drops the remainder.
\<close>

theorem matched_quantity_rounds_down:
  assumes "book_ok bs" "items_bounded (valid_items bs now oracle_px)" "0 < a" "in_i64 a"
    and "\<forall>i \<in> set (valid_items bs now oracle_px). sum_list (map amt (valid_items bs now oracle_px)) + price_lots i \<le> i64_MAX"
  shows "if sum_list (map amt (valid_items bs now oracle_px)) < a then matched_quantity bs a now oracle_px = Inr None
         else \<exists>ys y zs q. valid_items bs now oracle_px = ys @ y # zs \<and> matched_quantity bs a now oracle_px = Inr (Some q) \<and>
                sum_list (map qty ys) \<le> q \<and> q \<le> sum_list (map qty ys) + qty y \<and>
                sum_list (map amt ys) + (q - sum_list (map qty ys)) * price_lots y \<le> a \<and>
                a < sum_list (map amt ys) + (q + 1 - sum_list (map qty ys)) * price_lots y"
proof (cases "split_at amt a (valid_items bs now oracle_px)")
  have pos: "\<forall>i \<in> set (valid_items bs now oracle_px). 0 < amt i" using assms(2) by (auto simp: items_bounded_def)
  note eq = matched_quantity_eq [OF assms]
  {
    case None
    then show ?thesis using split_at_None [OF pos assms(3)] eq by (simp add: affordable_def)
  next
    case (Some z)
    obtain ys y where z: "z = (ys, y)" by force
    have enough: "\<not> sum_list (map amt (valid_items bs now oracle_px)) < a"
      using split_at_None [OF pos assms(3)] Some by simp
    let ?r = "a - sum_list (map amt ys)"
    obtain zs where r: "valid_items bs now oracle_px = ys @ y # zs" "?r \<le> amt y" "0 < ?r"
      using split_at_Some [OF Some [unfolded z]] assms(3) by (cases "ys = []") auto
    have y: "1 \<le> price_lots y" "0 < qty y" using r(1) assms(2) by (auto simp: items_bounded_def)
    have "?r div price_lots y \<le> qty y"
      using zdiv_mono1 [OF r(2), of "price_lots y"] y(1) by simp
    moreover have "0 \<le> ?r div price_lots y" using r(3) y(1) by (simp add: pos_imp_zdiv_nonneg_iff)
    moreover have "?r div price_lots y * price_lots y \<le> ?r" "?r < (?r div price_lots y + 1) * price_lots y"
      using div_bounds [of "price_lots y" ?r] y(1) by simp_all
    moreover have "matched_quantity bs a now oracle_px = Inr (Some (sum_list (map qty ys) + ?r div price_lots y))"
      using eq Some z by (simp add: affordable_def)
    ultimately show ?thesis unfolding if_not_P [OF enough]
      by - (rule exI [of _ ys], rule exI [of _ y], rule exI [of _ zs],
        rule exI [of _ "sum_list (map qty ys) + ?r div price_lots y"], simp add: r(1) algebra_simps)
  }
qed

theorem matched_quantity_rounds_down_witness:
  "matched_quantity one_bid 45 50 100 = Inr (Some 4) \<and> matched_quantity one_bid 51 50 100 = Inr None"
  using matched_quantity_rounds_down [of one_bid 50 100 45] matched_quantity_rounds_down [of one_bid 50 100 51]
    one_bid_valid [of 50 100] one_bid_bounded [of 50 100]
  by (auto simp: fixed_item_def sample_price_data in_i64_def i64_MAX_def i64_MIN_def Cons_eq_append_conv)

text \<open>
  C10. \<^verbatim>\<open>remove_worst\<close> never fails; on an empty side it removes nothing, otherwise it removes
  and returns exactly one order, from either component, that is priced no better than any
  other order of the side, and keeps the invariant.
\<close>

theorem remove_worst_removes_worst:
  assumes "book_ok bs"
  shows "if book_orders Fixed bs = {} \<and> book_orders OraclePegged bs = {}
         then book_remove_worst bs now oracle_px = Inr (bs, None)
         else \<exists>bs' c l. book_remove_worst bs now oracle_px = Inr (bs', Some (l, order_price (book_side bs) oracle_px c l)) \<and>
                l \<in> book_orders c bs \<and> book_ok bs' \<and>
                book_orders c bs' = {x \<in> book_orders c bs. leaf_key x \<noteq> leaf_key l} \<and>
                book_orders (other_component c) bs' = book_orders (other_component c) bs \<and>
                (\<forall>d. \<forall>x \<in> book_orders d bs. \<not> is_price_better (book_side bs)
                   (order_price (book_side bs) oracle_px c l) (order_price (book_side bs) oracle_px d x))"
proof -
  have inv: "book_inv bs (trees_of bs)" using assms by (simp add: book_ok_def)
  note worst = book_remove_worst_ok [OF inv, of now oracle_px, folded book_orders_def]
  show ?thesis
  proof (cases "book_orders Fixed bs = {} \<and> book_orders OraclePegged bs = {}")
    case True
    with worst show ?thesis by (simp add: book_orders_def orders_empty)
  next
    case False
    then obtain bs' c l to' where r: "book_remove_worst bs now oracle_px = Inr (bs', Some (l, order_price (book_side bs) oracle_px c l))"
        "l \<in> book_orders c bs" "book_inv bs' (component_upd c to' (trees_of bs))"
        "orders to' = {x \<in> book_orders c bs. leaf_key x \<noteq> leaf_key l}"
        "\<forall>d. \<forall>x \<in> book_orders d bs. \<not> is_price_better (book_side bs)
           (order_price (book_side bs) oracle_px c l) (order_price (book_side bs) oracle_px d x)"
      using worst by (auto simp: book_orders_def orders_empty)
    show ?thesis
      unfolding if_not_P [OF False] using r(1,2,5) r(4) book_orders_upd [OF r(3)]
      by (intro exI [of _ bs'] exI [of _ c] exI [of _ l]) simp
  qed
qed

theorem remove_worst_removes_worst_witness:
  "\<exists>bs' p. book_remove_worst one_bid 50 100 = Inr (bs', Some (sample_leaf Bid 10 1, p)) \<and> book_orders Fixed bs' = {}"
proof -
  obtain bs' c l p where r: "book_remove_worst one_bid 50 100 = Inr (bs', Some (l, p))" "l \<in> book_orders c one_bid"
      "book_orders c bs' = {x \<in> book_orders c one_bid. leaf_key x \<noteq> leaf_key l}"
    using remove_worst_removes_worst [of one_bid 50 100] by auto
  then show ?thesis by (cases c) auto
qed

text \<open>
  C11. \<^verbatim>\<open>remove_one_expired\<close> never fails. Either it removes and returns an order whose expiry
  lies before the given time, the earliest of its component, and nothing else, or no order of
  either component has expired before that time and the side is unchanged.
\<close>

theorem remove_one_expired_removes_earliest:
  assumes "book_ok bs"
  shows "(\<exists>bs' l d. book_remove_one_expired bs c now = Inr (bs', Some l) \<and> l \<in> book_orders d bs \<and>
            leaf_expiry l < now \<and> (\<forall>x \<in> book_orders d bs. leaf_expiry l \<le> leaf_expiry x) \<and> book_ok bs' \<and>
            book_orders d bs' = {x \<in> book_orders d bs. leaf_key x \<noteq> leaf_key l} \<and>
            book_orders (other_component d) bs' = book_orders (other_component d) bs) \<or>
         (book_remove_one_expired bs c now = Inr (bs, None) \<and> (\<forall>d. \<forall>x \<in> book_orders d bs. now \<le> leaf_expiry x))"
proof -
  have inv: "book_inv bs (trees_of bs)" using assms by (simp add: book_ok_def)
  have m: "order_map (component (trees_of bs) d) (leaf_key l) = Some l \<Longrightarrow> l \<in> book_orders d bs" for d l
    using book_orders_ran [OF assms, of d] by (auto simp: book_map_def ran_def)
  show ?thesis
    using book_remove_one_expired_ok [OF inv, of c now]
  proof (elim disjE exE conjE)
    fix bs' l d
    assume r: "book_remove_one_expired bs c now = Inr (bs', Some l)" and e: "expired_removed bs (trees_of bs) d now bs' l"
    obtain to' where "book_inv bs' (component_upd d to' (trees_of bs))"
        "orders to' = {x \<in> book_orders d bs. leaf_key x \<noteq> leaf_key l}"
      using e by (auto simp: expired_removed_def book_orders_def)
    note upd = book_orders_upd [OF this(1)] this(2)
    show ?thesis
      by (rule disjI1, intro exI [of _ bs'] exI [of _ l] exI [of _ d])
        (use r e m [of d l] upd in \<open>simp add: expired_removed_def book_orders_def\<close>)
  qed (simp add: book_orders_def)
qed

theorem remove_one_expired_removes_earliest_witness:
  "book_remove_one_expired one_bid Fixed 50 = Inr (one_bid, None)"
proof -
  have "leaf_expiry l = u64_MAX" if "l \<in> book_orders d one_bid" for l d using that by (cases d) auto
  then show ?thesis
    using remove_one_expired_removes_earliest [of one_bid Fixed 50] by (auto simp: u64_MAX_def)
qed

end
