(* ===== verification/Order_Properties.thy ===== *)
theory Order_Properties
  imports Order_Effect Book_Side_Properties
begin

text \<open>
  Properties of a whole new order, with a market to evaluate them on: one bid of five lots at
  10 on the book, and an order to sell seven lots at 8 or better. It takes the bid and is
  posted with the other two lots.
\<close>

section \<open>A trade to evaluate on\<close>

definition sample_books :: Orderbook where
  "sample_books = \<lparr>bids = one_bid, asks = empty_side Asks\<rparr>"

definition sample_sell :: Order where
  "sample_sell = \<lparr>order_side = Ask, max_base_lots = 7, max_quote_lots = 100, order_client_order_id = 0, order_reduce_only = False,
     order_time_in_force = 0, self_trade_behavior = DecrementTake, params = FixedParams 8 Limit\<rparr>"

definition trade_market :: PerpMarket where
  "trade_market = sample_market\<lparr>pm_seq_num := 5\<rparr>"

lemma sample_price: "native_price_to_lot fixed_reference trade_market (8 * fx_one) = Inr 8"
  by (simp add: native_price_to_lot_def trade_market_def position_eval)

lemma sample_order_price: "order_price_of sample_sell 100 8 sample_books = Inr (8, 8)"
  by (simp add: order_price_of_def order_price_lots_def price_for_order_type_def sample_sell_def fixed_price_data_def)

lemma sample_order_id:
  "gen_order_id trade_market Ask 8 = Inr (trade_market\<lparr>pm_seq_num := 6\<rparr>, new_node_key Ask 8 6)"
  by (simp add: gen_order_id_def trade_market_def chk_u64_def u64_MAX_def)

lemma sample_match:
  "\<exists>f q. push_back_unwrap empty_event_queue (FillEv f) = Inr q \<and>
     match_order fixed_reference one_bid sample_sell m [2] 100 8 8 (match_start sample_sell 10 empty_event_queue) =
     Inr ((match_start sample_sell 10 empty_event_queue)\<lparr>remaining_base_lots := 2, remaining_quote_lots := 50,
       orders_to_delete := [(Fixed, leaf_key (sample_leaf Bid 10 1))], match_limit := 9, match_event_queue := q\<rparr>)"
proof -
  obtain h where h: "book_items one_bid 100 8 = [fixed_item 100 (h, sample_leaf Bid 10 1)]" using one_bid_items by blast
  obtain it where it: "BookSideIter_new one_bid 100 8 = Inr it" "book_rest it (book_items one_bid 100 8)"
      "length (book_items one_bid 100 8) < iter_fuel it"
    using BookSideIter_new_ok [OF one_bid_ok(1)] by blast
  have "\<not> eq_full empty_event_queue" by (simp add: eq_full_def empty_event_queue_def MAX_NUM_EVENTS_def)
  then have q: "\<exists>q. push_back_unwrap empty_event_queue e = Inr q" for e
    using push_back_events [of empty_event_queue e] by (auto simp: u64_MAX_def)
  let ?f = "FillEvent_new fixed_reference Ask True (owner_slot (sample_leaf Bid 10 1)) 100 7 [] (leaf_key (sample_leaf Bid 10 1))
       (leaf_client_order_id (sample_leaf Bid 10 1)) (maker_fee m) (timestamp (sample_leaf Bid 10 1)) [2] 0 (taker_fee m) 10 5"
  obtain q' where q': "push_back_unwrap empty_event_queue (FillEv ?f) = Inr q'" using q by blast
  have own: "leaf_owner (sample_leaf Bid 10 1) = []" by (simp add: sample_leaf_def LeafNode_new_def)
  show ?thesis
    by (intro exI [of _ ?f] exI [of _ q'])
      (simp add: q' own match_order_def it(1) book_iter.for_loop_eq [OF it(2,3)] h match_step_def Let_def sample_sell_def
        fixed_item_def is_valid_def sample_price_data is_post_only_def match_fill_def div_i64_def
        chk_i64_def in_i64_def i64_MIN_def i64_MAX_def require_def sub_unsigned_def)
qed

lemma sample_taken:
  "\<exists>m' a3. record_taken fixed_reference (trade_market\<lparr>pm_seq_num := 6\<rparr>) sample_account Ask 5 50 0 = Inr (m', a3) \<and>
     perp_raw_index a3 0 = Inr 0 \<and> asks_base_lots (perp_positions a3 ! 0) = 3 \<and> perp_open_orders a3 = perp_open_orders sample_account \<and> perp_market_index m' = 0 \<and>
     posting_allowed fixed_reference m' Ask 8 (8 * fx_one) 2 (Some Fixed) = Inr (Some Fixed)"
  by (simp add: record_taken_def apply_fees_def sample_raw_index trade_market_def add_taker_trade_def perp_raw_index_def
    pp_is_active_for_market_def posting_allowed_def lot_to_native_price_def inside_price_limit_def
       set_perp_position_def account_eval position_eval)

lemma sample_post:
  assumes "perp_raw_index a 0 = Inr 0" "asks_base_lots (perp_positions a ! 0) = 3" "perp_open_orders a = perp_open_orders sample_account"
  shows "\<exists>r. post_order sample_sell (empty_side Asks) q a 0 [2] Fixed (new_node_key Ask 8 6) 2 100 8 8 = Inr r"
proof -
  let ?l = "LeafNode_new 1 (new_node_key Ask 8 6) [2] 2 100 Limit 0 (- 1) 0"
  have "order_map (component (None, None) d) k = None" for d k by (cases d) (simp_all add: order_map_def)
  then have "book_remove_one_expired (empty_side Asks) Fixed 100 = Inr (empty_side Asks, None)"
    using book_remove_one_expired_ok [OF empty_side_inv, of Asks Fixed 100] by (auto simp: expired_removed_def split: if_splits)
  then have "make_room (empty_side Asks) q Ask Fixed 100 8 8 = Inr (empty_side Asks, q)" by (simp add: make_room_def)
  moreover have "price_data ?l = 8" by (rule price_data_of_key) (simp add: LeafNode_new_def)
  then have "component_ok Fixed ?l" by (simp add: component_ok_def leaf_ok_def fixed_ok_def LeafNode_new_def u64_MAX_def u16_MAX_def)
  then obtain bs h old where "book_insert_leaf (empty_side Asks) Fixed ?l = Inr (bs, h, old)"
    using book_insert_map [of "empty_side Asks" Fixed ?l] by auto
  moreover have "owner_slot ?l = 1" "quantity ?l = 2" by (simp_all add: LeafNode_new_def)
  ultimately show ?thesis
    using assms by (simp add: post_order_def sample_sell_def order_peg_limit_def perp_next_order_slot_def add_perp_order_def
       perp_position_set adjust_maker_lots_def account_eval FREE_ORDER_SLOT_def u16_MAX_def chk_i64_def in_i64_def i64_MIN_def i64_MAX_def)
qed

lemma sample_new_order:
  "\<exists>book' m' q' a' id. new_order fixed_reference sample_books sample_sell trade_market empty_event_queue (8 * fx_one) sample_account [2] 100 10 =
     Inr (book', m', q', a', Some id)"
proof -
  obtain f q where m: "match_order fixed_reference one_bid sample_sell (trade_market\<lparr>pm_seq_num := 6\<rparr>) [2] 100 8 8 (match_start sample_sell 10 empty_event_queue) =
     Inr ((match_start sample_sell 10 empty_event_queue)\<lparr>remaining_base_lots := 2, remaining_quote_lots := 50,
       orders_to_delete := [(Fixed, leaf_key (sample_leaf Bid 10 1))], match_limit := 9, match_event_queue := q\<rparr>)"
    using sample_match by blast
  obtain bs where d: "book_remove_by_key one_bid Fixed (leaf_key (sample_leaf Bid 10 1)) = Inr (bs, Some (sample_leaf Bid 10 1))"
    using book_remove_map [OF one_bid_ok(1), of Fixed "leaf_key (sample_leaf Bid 10 1)"] by auto
  obtain m' a3 where t: "record_taken fixed_reference (trade_market\<lparr>pm_seq_num := 6\<rparr>) sample_account Ask 5 50 0 = Inr (m', a3)"
      "perp_raw_index a3 0 = Inr 0" "asks_base_lots (perp_positions a3 ! 0) = 3" "perp_open_orders a3 = perp_open_orders sample_account"
      "perp_market_index m' = 0" "posting_allowed fixed_reference m' Ask 8 (8 * fx_one) 2 (Some Fixed) = Inr (Some Fixed)"
    using sample_taken by blast
  obtain bs3 q3 a4 where p: "post_order sample_sell (empty_side Asks) q a3 0 [2] Fixed (new_node_key Ask 8 6) 2 100 8 8 = Inr (bs3, q3, a4)"
    using sample_post [OF t(2-4)] by (metis prod_cases3)
  have s: "order_side sample_sell = Ask" "max_base_lots sample_sell = 7" "max_quote_lots sample_sell = 100" "needs_penalty_fee sample_sell = False"
      "post_target sample_sell = Some Fixed" "bookside sample_books Bid = one_bid" "bookside sample_books Ask = empty_side Asks"
      "perp_market_index trade_market = 0"
    by (simp_all add: sample_sell_def needs_penalty_fee_def post_target_def sample_books_def bookside_def trade_market_def
        sample_market_def default_for_tests_def)
  show ?thesis
    by (simp add: new_order_def s sample_price [simplified] sample_order_price sample_order_id sample_raw_index m [unfolded s] t(1-5) t(6) [simplified] p d
        apply_delete_def unwrap_def require_def div_i64_def chk_i64_def in_i64_def i64_MIN_def i64_MAX_def)
qed

lemma sample_books_ok:
  "book_well sample_books" "ids_below (pm_seq_num trade_market) sample_books" "order_ok sample_sell"
  "perp_market_index trade_market = 0"
  "perp_position sample_account 0 = Inr (sample_position\<lparr>asks_base_lots := 3, taker_base_lots := 3, taker_quote_lots := - 6\<rparr>)"
proof -
  have e: "book_orders c (empty_side ty) = {}" for c ty by (simp add: book_orders_ran)
  have o: "l \<in> book_orders c one_bid \<Longrightarrow> l = sample_leaf Bid 10 1" for c l by (cases c) simp_all
  have "book_side (empty_side Asks) = Ask" by (simp add: book_side_def empty_side_def)
  then show "book_well sample_books"
    using o by (fastforce simp: book_well_def all_Side sample_books_def bookside_def side_positive_def e)
  have "leaf_key (sample_leaf Bid 10 1) = new_node_key Bid 10 (word_of_nat 1)" by (simp add: sample_leaf_def LeafNode_new_def)
  then have "\<exists>pd i. i \<le> 5 \<and> k = new_node_key Bid pd (word_of_nat i)" if "k \<in> book_keys c one_bid" for c k
    using that o [of _ c] by (intro exI [of _ 10] exI [of _ 1]) (auto simp: book_keys_def)
  then show "ids_below (pm_seq_num trade_market) sample_books"
    unfolding ids_below_def all_Side sample_books_def bookside_def trade_market_def
    by (simp add: book_keys_def e)
  show "order_ok sample_sell" by (simp add: order_ok_def sample_sell_def in_i64_def i64_MIN_def i64_MAX_def)
  show "perp_market_index trade_market = 0" by (simp add: trade_market_def sample_market_def default_for_tests_def)
  show "perp_position sample_account 0 = Inr (sample_position\<lparr>asks_base_lots := 3, taker_base_lots := 3, taker_quote_lots := - 6\<rparr>)"
    by (simp add: perp_position_def sample_raw_index sample_account_simps)
qed

section \<open>Properties\<close>

text \<open>
  C26. A new order keeps the book and the event queue well formed and loses no lots. For every
  owner and side the lots on the book plus those on their way through the event queue stay the
  same, except that for the owner of the new order they grow on its side by exactly what is
  posted, which is also what the open lots of its position grow by. So whatever an order fills,
  drops as expired or pushes off a full book leaves the book with an event of the same size.
\<close>

theorem new_order_conserves_lots:
  assumes "new_order F book order m q oracle_price a pk now limit = Inr (book', m', q', a', oid)"
    and "book_well book" "event_queue_ok q" "order_ok order" "ids_below (pm_seq_num m) book" "now + u16_MAX \<le> u64_MAX"
    and "perp_position a (perp_market_index m) = Inr pp"
  shows "\<exists>pp'. perp_market_index m' = perp_market_index m \<and> perp_position a' (perp_market_index m) = Inr pp' \<and> book_well book' \<and> event_queue_ok q' \<and>
     ids_below (pm_seq_num m') book' \<and>
     (\<forall>own s. open_lots book' q' own s =
        open_lots book q own s + (if own = pk then maker_lots pp' s - maker_lots pp s else 0)) \<and>
     (\<forall>s. maker_lots pp s \<le> maker_lots pp' s) \<and> maker_lots pp' (invert_side (order_side order)) = maker_lots pp (invert_side (order_side order)) \<and>
     (oid = None \<longrightarrow> maker_lots pp' (order_side order) = maker_lots pp (order_side order))"
  by (rule new_order_effect [OF assms]; cases "order_side order") (auto simp: order_placed_def all_Side)

theorem new_order_conserves_lots_witness:
  "\<exists>book' m' q' a' id pp'.
     new_order fixed_reference sample_books sample_sell trade_market empty_event_queue (8 * fx_one) sample_account [2] 100 10 =
       Inr (book', m', q', a', Some id) \<and> perp_position a' 0 = Inr pp' \<and> book_well book' \<and> event_queue_ok q' \<and>
     open_lots book' q' [] Bid = open_lots sample_books empty_event_queue [] Bid"
proof -
  obtain book' m' q' a' id where r: "new_order fixed_reference sample_books sample_sell trade_market empty_event_queue (8 * fx_one)
      sample_account [2] 100 10 = Inr (book', m', q', a', Some id)" using sample_new_order by blast
  show ?thesis
    using r new_order_conserves_lots [OF r] sample_books_ok by (auto simp: u16_MAX_def u64_MAX_def)
qed

text \<open>
  C27. A new order stays within its limits. It takes only from orders of the opposing side, at
  their prices and never at a price worse than its own, takes nothing when it is post-only,
  makes at most \<open>limit\<close> trades, takes and posts together at most its base lots, and spends at
  most its quote lots; the position of the taker records exactly the sums of the trades.
\<close>

theorem new_order_within_limits:
  assumes "new_order F book order m q oracle_price a pk now limit = Inr (book', m', q', a', oid)"
    and "book_well book" "event_queue_ok q" "order_ok order" "ids_below (pm_seq_num m) book" "now + u16_MAX \<le> u64_MAX"
    and "perp_position a (perp_market_index m) = Inr pp"
  shows "\<exists>fills outs pp' px price pd sgn. eq_events q' = eq_events q @ fills @ outs \<and> out_events (order_side order) outs \<and>
     perp_position a' (perp_market_index m) = Inr pp' \<and>
     native_price_to_lot F m oracle_price = Inr px \<and> order_price_of order now px book = Inr (price, pd) \<and>
     (\<forall>e \<in> set fills. good_fill order pk price (book_items (bookside book (invert_side (order_side order))) now px) e) \<and>
     length (filter is_fill fills) \<le> limit \<and>
     (\<Sum>e \<leftarrow> fills. event_base e) + (maker_lots pp' (order_side order) - maker_lots pp (order_side order)) \<le> max_base_lots order \<and>
     (\<Sum>e \<leftarrow> fills. event_quote e) \<le> max_quote_lots order \<and>
     sgn = (if order_side order = Bid then 1 else - 1) \<and>
     taker_base_lots pp' = taker_base_lots pp + sgn * (\<Sum>e \<leftarrow> fills. event_base e) \<and>
     taker_quote_lots pp' = taker_quote_lots pp - sgn * (\<Sum>e \<leftarrow> fills. event_quote e) \<and>
     base_position_lots pp' = base_position_lots pp"
proof (rule new_order_effect [OF assms])
  fix fills outs pp' px price pd
  assume "order_placed order pk limit book q pp fills outs book' q' pp'" "perp_position a' (perp_market_index m) = Inr pp'"
    "native_price_to_lot F m oracle_price = Inr px" "order_price_of order now px book = Inr (price, pd)"
    "\<forall>e \<in> set fills. good_fill order pk price (book_items (bookside book (invert_side (order_side order))) now px) e"
  then show ?thesis
    unfolding order_placed_def by (intro exI [of _ fills] exI [of _ outs] exI [of _ pp'] exI [of _ px] exI [of _ price] exI [of _ pd] exI [of _ "if order_side order = Bid then 1 else - 1"]) simp
qed

theorem new_order_within_limits_witness:
  "\<exists>book' m' q' a' id fills outs pp'.
     new_order fixed_reference sample_books sample_sell trade_market empty_event_queue (8 * fx_one) sample_account [2] 100 10 =
       Inr (book', m', q', a', Some id) \<and> eq_events q' = fills @ outs \<and> (\<Sum>e \<leftarrow> fills. event_quote e) \<le> 100 \<and>
     perp_position a' 0 = Inr pp' \<and> taker_base_lots pp' = 3 - (\<Sum>e \<leftarrow> fills. event_base e)"
proof -
  obtain book' m' q' a' id where r: "new_order fixed_reference sample_books sample_sell trade_market empty_event_queue (8 * fx_one)
      sample_account [2] 100 10 = Inr (book', m', q', a', Some id)" using sample_new_order by blast
  have "order_side sample_sell = Ask" "max_quote_lots sample_sell = 100" by (simp_all add: sample_sell_def)
  then show ?thesis
    using r new_order_within_limits [OF r] sample_books_ok by (fastforce simp: u16_MAX_def u64_MAX_def)
qed

end
