(* ===== verification/Perp_Properties.thy ===== *)
theory Perp_Properties
  imports Perp_Machine Order_Properties
begin

text \<open>
  Properties of the instructions of a perp market, with a market and an account to evaluate
  them on: nobody has traded yet, and the account places a buy order for two lots at 8.
\<close>

section \<open>A market to evaluate on\<close>

definition new_trader :: MangoAccount where
  "new_trader = sample_account\<lparr>token_positions := [TokenPosition_default], perp_positions := [PerpPosition_default],
     perp_open_orders := [PerpOpenOrder_default]\<rparr>"

definition new_market :: PerpMarket where
  "new_market = sample_market\<lparr>open_interest := 0, funding_last_updated := 100\<rparr>"

definition new_state :: PerpState where
  "new_state = \<lparr>ps_group = sample_group, ps_market = new_market, ps_book = empty_book, ps_events = empty_event_queue,
     ps_accounts = [[1] \<mapsto> new_trader]\<rparr>"

definition trader_keys :: PerpKeys where
  "trader_keys = \<lparr>key_group = [], key_account = [1], key_owner = [1], key_bids = [], key_asks = [], key_event_queue = [], key_oracle = []\<rparr>"

definition no_health :: "unit health_ops" where
  "no_health = \<lparr>hc_new = \<lambda>_ _ _. Inr (), hc_token_info_index = \<lambda>_ _. Inr 0, hc_health = \<lambda>_ _. Inr 0,
     hc_recompute_perp_info = \<lambda>_ _ _. Inr ()\<rparr>"

definition oracle_at_8 :: OracleState where
  "oracle_at_8 = \<lparr>os_price = 8 * fx_one, deviation = 0, last_update_slot = 0, last_update_time = None, oracle_type = Pyth\<rparr>"

definition sample_buy :: Order where
  "sample_buy = \<lparr>order_side = Bid, max_base_lots = 2, max_quote_lots = 100, order_client_order_id = 3, order_reduce_only = False,
     order_time_in_force = 0, self_trade_behavior = DecrementTake, params = FixedParams 8 Limit\<rparr>"

definition trader_before :: MangoAccount where
  "trader_before = new_trader\<lparr>token_positions := [TokenPosition_default\<lparr>tp_token_index := 0, in_use_count := 1\<rparr>],
     perp_positions := [PerpPosition_default\<lparr>pp_market_index := 0\<rparr>]\<rparr>"

text \<open>The account with the order, and the order on the book.\<close>

definition bought_slot :: PerpOpenOrder where
  "bought_slot = PerpOpenOrder_default\<lparr>oo_market := 0, oo_side_and_tree := BidFixed, oo_id := new_node_key Bid 8 1, oo_client_id := 3, oo_quantity := 2\<rparr>"

definition trader_after :: MangoAccount where
  "trader_after = trader_before\<lparr>perp_positions := [PerpPosition_default\<lparr>pp_market_index := 0, bids_base_lots := 2\<rparr>], perp_open_orders := [bought_slot]\<rparr>"

definition bought_leaf :: LeafNode where
  "bought_leaf = LeafNode_new 0 (new_node_key Bid 8 1) [1] 2 100 Limit 0 (- 1) 3"

definition bought_state :: "BookSide \<Rightarrow> EventQueue \<Rightarrow> PerpState" where
  "bought_state bs q = (store_account new_state [1] trader_after)\<lparr>ps_market := new_market\<lparr>pm_seq_num := 1\<rparr>,
     ps_book := set_bookside (set_bookside empty_book Ask (empty_side Asks)) Bid bs, ps_events := q\<rparr>"

lemma new_state_untouched: "untouched new_state" "\<not> is_testing (ps_group new_state)"
proof -
  have e: "book_orders c (empty_side ty) = {}" for c ty by (simp add: book_orders_ran)
  have s: "book_side (empty_side Bids) = Bid" "book_side (empty_side Asks) = Ask" by (simp_all add: book_side_def empty_side_def)
  have "\<exists>x. perp_position new_trader 0 = Inl x"
    by (simp add: perp_position_def perp_raw_index_def new_trader_def PerpPosition_default_def pp_is_active_for_market_def u16_MAX_def ok_or_def)
  then have "position_of new_state k = None" for k
    by (auto simp: position_of_def new_state_def new_market_def sample_market_def default_for_tests_def)
  then show "untouched new_state"
    by (simp add: untouched_def new_state_def empty_book_def book_well_def bookside_def all_Side e s side_positive_def new_market_def)
  show "\<not> is_testing (ps_group new_state)" by (simp add: new_state_def is_testing_def sample_group_def)
qed

lemma buy_match: "match_order F (empty_side Asks) sample_buy m pk 100 8 8 st = Inr st"
proof -
  obtain it where it: "BookSideIter_new (empty_side Asks) 100 8 = Inr it" "book_rest it (book_items (empty_side Asks) 100 8)"
      "length (book_items (empty_side Asks) 100 8) < iter_fuel it"
    using BookSideIter_new_ok [of "empty_side Asks"] empty_side_ok by blast
  show ?thesis by (simp add: match_order_def it(1) book_iter.for_loop_eq [OF it(2,3)])
qed

lemma buy_post:
  "\<exists>bs q'. post_order sample_buy (empty_side Bids) q trader_before 0 [1] Fixed (new_node_key Bid 8 1) 2 100 8 8 = Inr (bs, q', trader_after) \<and>
     book_ok bs \<and> book_map Fixed bs (new_node_key Bid 8 1) = Some bought_leaf"
proof -
  have "order_map (component (None, None) d) k = None" for d k by (cases d) (simp_all add: order_map_def)
  then have "book_remove_one_expired (empty_side Bids) Fixed 100 = Inr (empty_side Bids, None)"
    using book_remove_one_expired_ok [OF empty_side_inv, of Bids Fixed 100] by (auto simp: expired_removed_def split: if_splits)
  then have room: "make_room (empty_side Bids) q Bid Fixed 100 8 8 = Inr (empty_side Bids, q)" by (simp add: make_room_def)
  have l: "owner_slot bought_leaf = 0" "quantity bought_leaf = 2" "leaf_key bought_leaf = new_node_key Bid 8 1" "leaf_client_order_id bought_leaf = 3"
    by (simp_all add: bought_leaf_def LeafNode_new_def)
  have "price_data bought_leaf = 8" by (rule price_data_of_key) (simp add: bought_leaf_def LeafNode_new_def)
  then have "component_ok Fixed bought_leaf"
    by (simp add: component_ok_def leaf_ok_def fixed_ok_def bought_leaf_def LeafNode_new_def u64_MAX_def u16_MAX_def)
  then obtain bs h old where ins: "book_insert_leaf (empty_side Bids) Fixed bought_leaf = Inr (bs, h, old)" "book_ok bs"
      "book_map Fixed bs (new_node_key Bid 8 1) = Some bought_leaf"
    using book_insert_map [of "empty_side Bids" Fixed bought_leaf] l(3) by auto
  have "post_order sample_buy (empty_side Bids) q trader_before 0 [1] Fixed (new_node_key Bid 8 1) 2 100 8 8 = Inr (bs, q, trader_after)"
    using room ins(1) l
    by (simp add: post_order_def sample_buy_def order_peg_limit_def perp_next_order_slot_def add_perp_order_def trader_before_def trader_after_def
       new_trader_def perp_raw_index_def pp_is_active_for_market_def PerpPosition_default_def set_perp_position_def set_perp_order_def bought_slot_def
       adjust_maker_lots_def account_eval FREE_ORDER_SLOT_def u16_MAX_def chk_i64_def in_i64_def i64_MIN_def i64_MAX_def bought_leaf_def [symmetric])
  then show ?thesis using ins(2,3) by blast
qed

lemma buy_new_order:
  assumes "post_order sample_buy (empty_side Bids) empty_event_queue trader_before 0 [1] Fixed (new_node_key Bid 8 1) 2 100 8 8 = Inr (bs, q', a)"
  shows "new_order fixed_reference empty_book sample_buy new_market empty_event_queue 2251799813685248 trader_before [1] 100 10 =
    Inr (set_bookside (set_bookside empty_book Ask (empty_side Asks)) Bid bs, new_market\<lparr>pm_seq_num := 1\<rparr>, q', a, Some (new_node_key Bid 8 1))"
proof -
  have m: "perp_market_index new_market = 0" by (simp add: new_market_def sample_market_def default_for_tests_def)
  have s: "order_side sample_buy = Bid" "max_base_lots sample_buy = 2" "max_quote_lots sample_buy = 100" "needs_penalty_fee sample_buy = False"
      "post_target sample_buy = Some Fixed" "bookside empty_book Bid = empty_side Bids" "bookside empty_book Ask = empty_side Asks"
    by (simp_all add: sample_buy_def needs_penalty_fee_def post_target_def empty_book_def bookside_def)
  have px: "native_price_to_lot fixed_reference new_market 2251799813685248 = Inr 8"
    by (simp add: native_price_to_lot_def new_market_def position_eval)
  have op: "order_price_of sample_buy 100 8 empty_book = Inr (8, 8)"
    by (simp add: order_price_of_def order_price_lots_def price_for_order_type_def sample_buy_def fixed_price_data_def)
  have id: "gen_order_id new_market Bid 8 = Inr (new_market\<lparr>pm_seq_num := 1\<rparr>, new_node_key Bid 8 1)"
    by (simp add: gen_order_id_def new_market_def sample_market_def default_for_tests_def chk_u64_def u64_MAX_def)
  have ix: "perp_raw_index trader_before 0 = Inr 0"
    by (simp add: perp_raw_index_def trader_before_def pp_is_active_for_market_def)
  have allowed: "posting_allowed fixed_reference (new_market\<lparr>pm_seq_num := 1\<rparr>) Bid 8 2251799813685248 2 (Some Fixed) = Inr (Some Fixed)"
    by (simp add: posting_allowed_def lot_to_native_price_def inside_price_limit_def new_market_def position_eval)
  show ?thesis
    by (simp add: new_order_def s px op id ix m buy_match allowed [simplified] assms record_taken_def Let_def require_def div_i64_def
        chk_i64_def in_i64_def i64_MIN_def i64_MAX_def)
qed

lemma new_trader_simps:
  "fixed_part trader_before = fixed_part sample_account" "fixed_part new_trader = fixed_part sample_account"
  "frozen_until (fixed_part sample_account) = 0" "ma_owner (fixed_part sample_account) = [1]" "ma_group (fixed_part sample_account) = []"
  "in_health_region_flag (fixed_part sample_account) = 0" "being_liquidated_flag (fixed_part sample_account) = 0"
  "trader_before\<lparr>fixed_part := fixed_part sample_account\<rparr> = trader_before"
  by (simp_all add: trader_before_def new_trader_def sample_account_def)

lemma new_state_simps:
  "ps_group new_state = sample_group" "ps_market new_state = new_market" "ps_book new_state = empty_book" "ps_events new_state = empty_event_queue"
  "ps_accounts new_state [1] = Some new_trader" "is_ix_enabled sample_group GatePerpPlaceOrder" "buyback_fees_expiry_interval sample_group = 0"
  "key_group trader_keys = []" "key_account trader_keys = [1]" "key_owner trader_keys = [1]" "key_bids trader_keys = []" "key_asks trader_keys = []"
  "key_event_queue trader_keys = []" "key_oracle trader_keys = []"
  by (simp_all add: new_state_def is_ix_enabled_def sample_group_def trader_keys_def)

lemma new_market_simps:
  "perp_market_index new_market = 0" "settle_token_index new_market = 0" "pm_group new_market = []" "pm_bids new_market = []"
  "pm_asks new_market = []" "pm_event_queue new_market = []" "pm_oracle new_market = []"
  "is_reduce_only new_market = False" "funding_last_updated new_market = 100"
  by (simp_all add: new_market_def sample_market_def default_for_tests_def is_reduce_only_def)

text \<open>Placing an order on that market comes down to \<^verbatim>\<open>new_order\<close>.\<close>

lemma place_on_new_state:
  assumes new: "new_order fixed_reference empty_book (order\<lparr>max_base_lots := mb\<rparr>) new_market empty_event_queue 2251799813685248 trader_before [1] 100 10 =
      Inr (book, new_market\<lparr>pm_seq_num := 1\<rparr>, q', a, oid)"
    and pp: "perp_position a 0 = Inr pp" and o: "0 \<le> max_base_lots order" "0 \<le> max_quote_lots order"
    and mb: "place_order_max_base new_market (PerpPosition_default\<lparr>pp_market_index := 0\<rparr>) order = Inr mb"
  shows "perp_place_order fixed_reference no_health new_state trader_keys (Inr oracle_at_8) 100 slot order 10 =
    Inr ((store_account new_state [1] a)\<lparr>ps_market := new_market\<lparr>pm_seq_num := 1\<rparr>, ps_book := book, ps_events := q'\<rparr>, oid)"
proof -
  have en: "ensure_perp_position new_trader 0 0 = Inr (trader_before, 0)"
    by (simp add: ensure_perp_position_def new_trader_def trader_before_def ensure_token_position_def PerpPosition_default_def
       pp_is_active_for_market_def pp_is_active_def TokenPosition_default_def is_active_for_token_def tp_is_active_def increment_in_use_def
       u16_MAX_def set_perp_position_def)
  have ix: "perp_position trader_before 0 = Inr (PerpPosition_default\<lparr>pp_market_index := 0\<rparr>)"
    by (simp add: perp_position_def perp_raw_index_def trader_before_def pp_is_active_for_market_def)
  have os: "pm_oracle_state fixed_reference new_market [] (Inr oracle_at_8) None = Inr oracle_at_8" "os_price oracle_at_8 = 2251799813685248"
    by (simp_all add: pm_oracle_state_def oracle_at_8_def check_confidence_and_maybe_staleness_def check_confidence_def new_market_def position_eval)
  have pre: "place_order_pre_health no_health trader_before 0 100 slot = Inr (trader_before, Some ((), 0))"
    by (simp add: new_trader_simps place_order_pre_health_def is_in_health_region_def no_health_def check_health_pre_def
        check_health_pre_checks_def maybe_recover_from_being_liquidated_def being_liquidated_def require_def)
  have post: "place_order_post_health fixed_reference no_health a (new_market\<lparr>pm_seq_num := 1\<rparr>) (Some ((), 0)) = Inr ()"
    by (simp add: pp new_market_simps place_order_post_health_def no_health_def check_health_post_def check_health_post_checks_def
        require_def fixed_reference_def)
  show ?thesis
    by (simp add: perp_place_order_def PerpPlaceOrder_accounts_def perp_place_order_logic_def group_constraint_def account_constraint_def
       market_has_book_def load_account_def is_operational_def clock_u64_def update_funding_and_stable_price_def is_owner_or_delegate_def
       expire_buyback_fees_def Let_def require_def new_trader_simps new_state_simps new_market_simps os o en pre mb ix new [simplified] post [simplified])
qed

lemma buy_accepted_state:
  "\<exists>bs q. perp_place_order fixed_reference no_health new_state trader_keys (Inr oracle_at_8) 100 slot sample_buy 10 =
     Inr (bought_state bs q, Some (new_node_key Bid 8 1)) \<and> book_ok bs \<and> book_map Fixed bs (new_node_key Bid 8 1) = Some bought_leaf"
proof -
  obtain bs q where p: "post_order sample_buy (empty_side Bids) empty_event_queue trader_before 0 [1] Fixed (new_node_key Bid 8 1) 2 100 8 8 =
      Inr (bs, q, trader_after)" "book_ok bs" "book_map Fixed bs (new_node_key Bid 8 1) = Some bought_leaf"
    using buy_post by blast
  have pp: "perp_position trader_after 0 = Inr (PerpPosition_default\<lparr>pp_market_index := 0, bids_base_lots := 2\<rparr>)"
    by (simp add: perp_position_def perp_raw_index_def trader_after_def pp_is_active_for_market_def)
  have s: "sample_buy\<lparr>max_base_lots := 2\<rparr> = sample_buy" by (simp add: sample_buy_def)
  have mb: "place_order_max_base new_market (PerpPosition_default\<lparr>pp_market_index := 0\<rparr>) sample_buy = Inr 2"
    by (simp add: place_order_max_base_def new_market_simps sample_buy_def effective_base_position_lots_def PerpPosition_default_def
        chk_i64_def in_i64_def i64_MIN_def i64_MAX_def)
  have "perp_place_order fixed_reference no_health new_state trader_keys (Inr oracle_at_8) 100 slot sample_buy 10 =
      Inr (bought_state bs q, Some (new_node_key Bid 8 1))"
    unfolding bought_state_def
    by (rule place_on_new_state [where order = sample_buy and mb = 2 and slot = slot, unfolded s, OF buy_new_order [OF p(1)] pp _ _ mb])
      (simp_all add: sample_buy_def)
  then show ?thesis using p(2,3) by blast
qed

lemma buy_accepted:
  "\<exists>S' id. perp_place_order fixed_reference no_health new_state trader_keys (Inr oracle_at_8) 100 slot sample_buy 10 = Inr (S', Some id)"
  using buy_accepted_state by blast

text \<open>The same order as a reduce-only order: there is no position to reduce, and nothing is traded.\<close>

definition reduce_buy :: Order where
  "reduce_buy = sample_buy\<lparr>order_reduce_only := True\<rparr>"

lemma reduce_buy_accepted:
  "\<exists>S'. perp_place_order fixed_reference no_health new_state trader_keys (Inr oracle_at_8) 100 0 reduce_buy 10 = Inr (S', None)"
proof -
  let ?o = "reduce_buy\<lparr>max_base_lots := 0\<rparr>"
  have s: "order_side ?o = Bid" "max_base_lots ?o = 0" "max_quote_lots ?o = 100" "needs_penalty_fee ?o = False"
      "post_target ?o = Some Fixed" "bookside empty_book Bid = empty_side Bids" "bookside empty_book Ask = empty_side Asks"
    by (simp_all add: reduce_buy_def sample_buy_def needs_penalty_fee_def post_target_def empty_book_def bookside_def)
  obtain it where it: "BookSideIter_new (empty_side Asks) 100 8 = Inr it" "book_rest it (book_items (empty_side Asks) 100 8)"
      "length (book_items (empty_side Asks) 100 8) < iter_fuel it"
    using BookSideIter_new_ok [of "empty_side Asks"] empty_side_ok by blast
  have m: "match_order F (empty_side Asks) ?o m pk 100 8 8 st = Inr st" for F m pk st
    by (simp add: match_order_def it(1) book_iter.for_loop_eq [OF it(2,3)])
  have px: "native_price_to_lot fixed_reference new_market 2251799813685248 = Inr 8"
    by (simp add: native_price_to_lot_def new_market_def position_eval)
  have op: "order_price_of ?o 100 8 empty_book = Inr (8, 8)"
    by (simp add: order_price_of_def order_price_lots_def price_for_order_type_def reduce_buy_def sample_buy_def fixed_price_data_def)
  have id: "gen_order_id new_market Bid 8 = Inr (new_market\<lparr>pm_seq_num := 1\<rparr>, new_node_key Bid 8 1)"
    by (simp add: gen_order_id_def new_market_def sample_market_def default_for_tests_def chk_u64_def u64_MAX_def)
  have ix: "perp_raw_index trader_before 0 = Inr 0" "perp_position trader_before 0 = Inr (PerpPosition_default\<lparr>pp_market_index := 0\<rparr>)"
    by (simp_all add: perp_position_def perp_raw_index_def trader_before_def pp_is_active_for_market_def)
  have new: "new_order fixed_reference empty_book ?o new_market empty_event_queue 2251799813685248 trader_before [1] 100 10 =
      Inr (set_bookside empty_book Ask (empty_side Asks), new_market\<lparr>pm_seq_num := 1\<rparr>, empty_event_queue, trader_before, None)"
    by (simp add: new_order_def s px op id ix new_market_simps m record_taken_def posting_allowed_def Let_def require_def div_i64_def
        chk_i64_def in_i64_def i64_MIN_def i64_MAX_def)
  have mb: "place_order_max_base new_market (PerpPosition_default\<lparr>pp_market_index := 0\<rparr>) reduce_buy = Inr 0"
    by (simp add: place_order_max_base_def reduce_only_max_base_lots_def new_market_simps reduce_buy_def sample_buy_def
        effective_base_position_lots_def PerpPosition_default_def chk_i64_def in_i64_def i64_MIN_def i64_MAX_def)
  show ?thesis using place_on_new_state [where slot = 0, OF new ix(2) _ _ mb] by (auto simp: reduce_buy_def sample_buy_def)
qed

section \<open>Properties\<close>

text \<open>
  C28. In a group that is not a testing group, in every state that a market reaches from the state in which nobody has traded, by any
  sequence of placing, cancelling and event consuming instructions: the book and the event
  queue are well formed; for every account and side the open lots in its position are exactly
  its lots on the book plus those of its fills and dropped orders that are still on the event
  queue; its pending taker trades are exactly the fills on the queue in which it is the taker;
  the base positions of all accounts add up to zero; and the open interest is the sum of their
  sizes.
\<close>

theorem perp_market_conserves:
  assumes "fixed_laws F" "untouched S0" "\<not> is_testing (ps_group S0)" "(perp_step F H)\<^sup>*\<^sup>* S0 S"
  shows "book_well (ps_book S) \<and> event_queue_ok (ps_events S) \<and>
     (\<forall>k s. pos_val (\<lambda>pp. maker_lots pp s) S k = open_lots (ps_book S) (ps_events S) k s) \<and>
     (\<forall>k. pos_val taker_base_lots S k = (\<Sum>e \<leftarrow> eq_events (ps_events S). event_taker_base k e)) \<and>
     (\<forall>k. pos_val taker_quote_lots S k = (\<Sum>e \<leftarrow> eq_events (ps_events S). event_taker_quote k e)) \<and>
     (\<Sum>k \<in> dom (ps_accounts S). pos_val base_position_lots S k) = 0 \<and>
     (\<Sum>k \<in> dom (ps_accounts S). \<bar>pos_val base_position_lots S k\<bar>) = open_interest (ps_market S)"
  using perp_machine.run_inv [OF assms(4)] assms(1,3) untouched_inv [OF assms(2)]
  by (simp add: market_inv_def lots_match_def zero_sum_def)

theorem perp_market_conserves_witness:
  "\<exists>S. (perp_step fixed_reference (\<lambda>(_ :: unit) _. no_health))\<^sup>*\<^sup>* new_state S \<and> pm_seq_num (ps_market S) = 1 \<and>
     pos_val (\<lambda>pp. maker_lots pp Bid) S [1] = open_lots (ps_book S) (ps_events S) [1] Bid"
proof -
  obtain S id where r: "perp_place_order fixed_reference no_health new_state trader_keys (Inr oracle_at_8) 100 0 sample_buy 10 = Inr (S, Some id)"
    using buy_accepted by blast
  have ok: "in_i64 100" "order_ok sample_buy" by (simp_all add: in_i64_def i64_MIN_def i64_MAX_def order_ok_def sample_buy_def)
  have run: "(perp_step fixed_reference (\<lambda>(_ :: unit) _. no_health))\<^sup>*\<^sup>* new_state S" using perp_step.place [of _ "\<lambda>(_ :: unit) _. no_health", OF r ok]
    by (rule r_into_rtranclp)
  have l: "perp_place_order_logic fixed_reference no_health new_state trader_keys (Inr oracle_at_8) 100 0 sample_buy 10 = Inr (S, Some id)"
    using r by (simp add: perp_place_order_def rbind_eq_Inr)
  have "pm_seq_num (ps_market new_state) = 0" by (simp add: new_state_def new_market_def sample_market_def default_for_tests_def)
  then have "pm_seq_num (ps_market S) = 1"
    using placed_effect [OF untouched_inv [OF new_state_untouched(1)] l ok] by (metis add_0)
  then show ?thesis
    using perp_market_conserves [OF fixed_reference_laws new_state_untouched run] run by blast
qed

text \<open>
  C29. An order that may only reduce does reduce. When the order or its market is reduce-only, the
  account's effective position, its base position together with its pending trades, neither
  changes sign nor grows in size.
\<close>

theorem reduce_only_shrinks:
  assumes "perp_place_order F H S K oracle ts slot order limit = Inr (S', oid)" "market_inv S" "in_i64 ts" "order_ok order"
    and "order_reduce_only order \<or> is_reduce_only (ps_market S)"
  defines "before \<equiv> pos_val base_position_lots S (key_account K) + pos_val taker_base_lots S (key_account K)"
    and "after \<equiv> pos_val base_position_lots S' (key_account K) + pos_val taker_base_lots S' (key_account K)"
  shows "(0 \<le> before \<longrightarrow> 0 \<le> after \<and> after \<le> before) \<and> (before \<le> 0 \<longrightarrow> before \<le> after \<and> after \<le> 0)"
proof -
  let ?k = "key_account K"
  have r: "perp_place_order_logic F H S K oracle ts slot order limit = Inr (S', oid)" using assms(1) by (simp add: perp_place_order_def rbind_eq_Inr)
  obtain m mb pp pp' fills outs price items where
    m: "is_reduce_only m = is_reduce_only (ps_market S)" "place_order_max_base m pp order = Inr mb"
    and pl: "order_placed (order\<lparr>max_base_lots := mb\<rparr>) ?k limit (ps_book S) (ps_events S) pp fills outs (ps_book S') (ps_events S') pp'"
    and g: "\<forall>e \<in> set fills. good_fill (order\<lparr>max_base_lots := mb\<rparr>) ?k price items e"
    and fields: "\<And>s. pos_val (\<lambda>pp. maker_lots pp s) S ?k = maker_lots pp s" "pos_val taker_base_lots S ?k = taker_base_lots pp"
      "pos_val base_position_lots S ?k = base_position_lots pp" "\<And>f. pos_val f S' = (pos_val f S)(?k := f pp')"
    using placed_effect [OF assms(2) r assms(3,4)] by metis
  have nn: "0 \<le> maker_lots pp s" for s using maker_lots_nonneg [OF assms(2), of s ?k] fields(1) by simp
  have mb: "0 \<le> max_base_lots order" using assms(4) by (simp add: order_ok_def)
  note allowed = reduce_only_allowed [OF m(2) assms(5) [folded m(1)] mb nn nn]
  show ?thesis
    using allowed pl good_fills_base [OF g] unfolding before_def after_def order_placed_def
    by (cases "order_side order") (auto simp: fields)
qed

theorem reduce_only_shrinks_witness:
  "\<exists>S'. perp_place_order fixed_reference no_health new_state trader_keys (Inr oracle_at_8) 100 0 reduce_buy 10 = Inr (S', None) \<and>
     pos_val base_position_lots S' [1] + pos_val taker_base_lots S' [1] = 0"
proof -
  obtain S' where r: "perp_place_order fixed_reference no_health new_state trader_keys (Inr oracle_at_8) 100 0 reduce_buy 10 = Inr (S', None)"
    using reduce_buy_accepted by blast
  have ok: "in_i64 100" "order_ok reduce_buy" "order_reduce_only reduce_buy"
    by (simp_all add: in_i64_def i64_MIN_def i64_MAX_def order_ok_def reduce_buy_def sample_buy_def)
  have "pos_val f new_state [1] = 0" for f using new_state_untouched(1) by (simp add: untouched_def pos_val_def)
  then show ?thesis
    using r reduce_only_shrinks [OF r untouched_inv [OF new_state_untouched(1)] ok(1,2)] ok(3) by (auto simp: new_state_simps)
qed

text \<open>Who may sign the instructions of a trader.\<close>

lemma signer_cases:
  assumes "is_owner_or_delegate a signer ts = Inr True"
  shows "signer = ma_owner a \<or> signer = delegate a \<or> (signer = temporary_delegate a \<and> 0 \<le> ts \<and> nat ts \<le> temporary_delegate_expiry a)"
  using assms by (auto simp: is_owner_or_delegate_def is_delegate_def clock_u64_def rbind_eq_Inr split: if_splits)

lemma account_constraint_group:
  "account_constraint b S K ts = Inr x \<Longrightarrow> ps_accounts S (key_account K) = Some a \<Longrightarrow> ma_group (fixed_part a) = key_group K"
  by (auto simp: account_constraint_def load_account_def rbind_eq_Inr require_eq_Inr ok_or_eq_Inr)

lemma place_authorised:
  assumes "perp_place_order F H S K oracle ts slot order limit = Inr (S', oid)"
  obtains a b a' where "ps_accounts S (key_account K) = Some a" "is_owner_or_delegate (fixed_part a) (key_owner K) ts = Inr True"
    "account_constraint b S K ts = Inr ()" "ps_accounts S' = (ps_accounts S)(key_account K \<mapsto> a')"
proof -
  have r: "perp_place_order_logic F H S K oracle ts slot order limit = Inr (S', oid)" and c: "account_constraint True S K ts = Inr ()"
    using assms by (auto simp: perp_place_order_def PerpPlaceOrder_accounts_def rbind_eq_Inr)
  show ?thesis by (rule place_parts [OF r]) (rule that [OF _ _ c], auto simp: store_account_def)
qed

lemma cancel_authorised:
  assumes "perp_cancel_order S K ts order_id = Inr S' \<or> perp_cancel_order_by_client_order_id S K ts client_order_id = Inr S' \<or>
    perp_cancel_all_orders S K ts n = Inr S' \<or> perp_cancel_all_orders_by_side S K ts side_opt n = Inr S'"
  obtains a b a' where "ps_accounts S (key_account K) = Some a" "is_owner_or_delegate (fixed_part a) (key_owner K) ts = Inr True"
    "account_constraint b S K ts = Inr ()" "ps_accounts S' = (ps_accounts S)(key_account K \<mapsto> a')"
proof -
  obtain ix b a r where c: "PerpCancel_accounts ix b S K ts = Inr ()" and a: "load_owned S K ts = Inr a" and S': "S' = cancelled S K r"
    using assms by (auto simp: perp_cancel_order_def perp_cancel_order_logic_def perp_cancel_order_by_client_order_id_def
        perp_cancel_order_by_client_order_id_logic_def perp_cancel_all_orders_def perp_cancel_all_orders_by_side_def
        PerpCancel_defs(2-5) rbind_eq_Inr)
  have "account_constraint b S K ts = Inr ()" using c by (auto simp: PerpCancel_defs rbind_eq_Inr)
  then show ?thesis using that load_owned_account [OF a] S' by (simp add: cancelled_def store_account_def)
qed

text \<open>
  C30. Placing an order and all four ways to cancel orders succeed only when the account belongs
  to the group of the instruction and the signer is its owner, its delegate, or its temporary
  delegate whose time has not run out; and no other account changes.
\<close>

theorem perp_orders_authorised:
  assumes "perp_place_order F H S K oracle ts slot order limit = Inr (S', oid) \<or> perp_cancel_order S K ts order_id = Inr S' \<or>
    perp_cancel_order_by_client_order_id S K ts client_order_id = Inr S' \<or> perp_cancel_all_orders S K ts n = Inr S' \<or>
    perp_cancel_all_orders_by_side S K ts side_opt n = Inr S'"
  shows "\<exists>a. ps_accounts S (key_account K) = Some a \<and> ma_group (fixed_part a) = key_group K \<and>
    (key_owner K = ma_owner (fixed_part a) \<or> key_owner K = delegate (fixed_part a) \<or>
     key_owner K = temporary_delegate (fixed_part a) \<and> 0 \<le> ts \<and> nat ts \<le> temporary_delegate_expiry (fixed_part a)) \<and>
    (\<forall>k. k \<noteq> key_account K \<longrightarrow> ps_accounts S' k = ps_accounts S k)"
proof -
  obtain a b a' where "ps_accounts S (key_account K) = Some a" "is_owner_or_delegate (fixed_part a) (key_owner K) ts = Inr True"
      "account_constraint b S K ts = Inr ()" "ps_accounts S' = (ps_accounts S)(key_account K \<mapsto> a')"
    using assms by (elim disjE) (erule place_authorised, blast, (rule cancel_authorised, blast, blast)+)
  then show ?thesis using signer_cases account_constraint_group by (intro exI [of _ a]) auto
qed

theorem perp_orders_authorised_witness:
  "\<exists>S' id. perp_place_order fixed_reference no_health new_state trader_keys (Inr oracle_at_8) 100 0 sample_buy 10 = Inr (S', Some id) \<and>
     (\<forall>k. k \<noteq> [1] \<longrightarrow> ps_accounts S' k = None)"
proof -
  obtain S' id where r: "perp_place_order fixed_reference no_health new_state trader_keys (Inr oracle_at_8) 100 0 sample_buy 10 = Inr (S', Some id)"
    using buy_accepted by blast
  show ?thesis using r perp_orders_authorised [OF disjI1 [OF r]] by (auto simp: new_state_def trader_keys_def)
qed




end
