(* ===== verification/Fifo_Properties.thy ===== *)
theory Fifo_Properties
  imports Fifo_Machine Perp_Properties
begin

text \<open>
  Properties of the FIFO queue of signed operations, with a transaction and queues to evaluate
  them on.
\<close>

section \<open>Sequence numbers only grow\<close>

text \<open>The number that the next operation has to exceed.\<close>

definition fifo_tail :: "FifoState \<Rightarrow> u64" where
  "fifo_tail FS = last (executed_seq FS # map seq_no (pending_ops FS))"

lemma appended_tail: "appended FS e FS' \<Longrightarrow> fifo_tail FS' = seq_no e"
  by (simp add: appended_def fifo_tail_def pending_ops_def)

lemma last_append_seqs:
  assumes "last_executed' = last (s # map seq_no xs)"
  shows "last (last_executed' # map seq_no ys) = last (s # map seq_no (xs @ ys))"
  using assms by (cases ys rule: rev_cases) auto

lemma crank_tail: "crank run slot n FS = Inr FS' \<Longrightarrow> fifo_queue_ok FS \<Longrightarrow> n \<le> 255 \<Longrightarrow> fifo_tail FS' = fifo_tail FS"
  by (erule crank_Inr) (auto simp: fifo_tail_def dest: last_append_seqs)

lemma appended_tail_grows:
  assumes "appended FS e FS'" "check_queue (fs_queue FS) (seq_no e) = Inr ()" "queue_fifo_ok (fs_queue FS)"
  shows "fifo_tail FS < fifo_tail FS'"
proof -
  have "fifo_tail FS \<in> set (executed_seq FS # map seq_no (pending_ops FS))" unfolding fifo_tail_def by (rule last_in_set) simp
  then show ?thesis using check_queue_Inr(2) [OF assms(2,3)] appended_tail [OF assms(1)] by (auto simp: fifo_views)
qed

lemma enqueue_operation_tail:
  assumes "perp_enqueue_operation cd sysvar FS K ts slot args = Inr FS'" "queue_fifo_ok (fs_queue FS)"
  shows "fifo_tail FS < fifo_tail FS'" "fifo_tail FS' = qi_seq_no (arg_queued_order_intent args)"
proof -
  obtain e where e: "appended FS e FS'" "seq_no e = qi_seq_no (arg_queued_order_intent args)"
    using enqueue_operation_appends [OF assms] by blast
  have c: "check_queue (fs_queue FS) (seq_no e) = Inr ()" unfolding e(2) by (rule enqueue_operation_parts [OF assms(1)])
  show "fifo_tail FS < fifo_tail FS'" by (rule appended_tail_grows [OF e(1) c assms(2)])
  show "fifo_tail FS' = qi_seq_no (arg_queued_order_intent args)" using appended_tail [OF e(1)] e(2) by simp
qed

lemma enqueue_event_tail:
  assumes "enqueue_perp_event cd sysvar FS K slot args = Inr FS'" "queue_fifo_ok (fs_queue FS)"
  shows "fifo_tail FS < fifo_tail FS'"
proof -
  obtain e where e: "appended FS e FS'" "seq_no e = arg_seq_no args"
    using enqueue_event_appends [OF assms] by blast
  have c: "check_queue (fs_queue FS) (seq_no e) = Inr ()" unfolding e(2) by (rule enqueue_event_parts [OF assms(1)])
  show ?thesis by (rule appended_tail_grows [OF e(1) c assms(2)])
qed

lemma fifo_step_tail:
  assumes "fifo_inv FS" "fifo_step F cd H FS FS'"
  shows "fifo_tail FS \<le> fifo_tail FS'"
proof -
  have q: "fifo_queue_ok FS" "queue_fifo_ok (fs_queue FS)" using assms(1) by (simp_all add: fifo_inv_def fifo_queue_ok_def)
  show ?thesis
    using assms(2)
  proof cases
    case (crank_operations w K os ts slot n)
    then have "fifo_tail FS' = fifo_tail FS"
      by (auto simp: perp_crank_queued_operations_def rbind_eq_Inr MAX_QUEUED_OPS_PER_CALL_def intro: crank_tail [OF _ q(1)])
    then show ?thesis by simp
  next
    case (crank_fifo w K os ts slot n)
    then have "fifo_tail FS' = fifo_tail FS" by (auto simp: crank_fifo_queue_def rbind_eq_Inr intro: crank_tail [OF _ q(1)])
    then show ?thesis by simp
  next
    case (market S')
    then show ?thesis by (simp add: fifo_tail_def fifo_views)
  next
    case (enqueue_operation sysvar K ts slot args)
    then show ?thesis using enqueue_operation_tail(1) [OF _ q(2)] by (simp add: less_imp_le)
  next
    case (enqueue_event sysvar K slot args)
    then show ?thesis using enqueue_event_tail [OF _ q(2)] by (simp add: less_imp_le)
  qed
qed

text \<open>Everything that is checked before the sequence number.\<close>

definition intent_accepted :: "codec \<Rightarrow> FifoState \<Rightarrow> QueueKeys \<Rightarrow> i64 \<Rightarrow> PerpEnqueueOperationArgs \<Rightarrow> bool" where
  "intent_accepted cd FS K ts args \<longleftrightarrow>
     (let oi = arg_order_intent args; qi = arg_queued_order_intent args; S = fs_perp FS in
      PerpEnqueueOperation_accounts FS K = Inr () \<and> to_perp_action (oi_event_type oi) \<noteq> None \<and>
      oi_group oi = key_group (qk_perp K) \<and> oi_account oi = key_account (qk_perp K) \<and> oi_perp_market oi = key_perp_market K \<and>
      perp_market_index (ps_market S) = cp_market_index (oi_params oi) \<and> continuum_key (ps_group S) \<noteq> None \<and>
      order_intent_hash_of cd oi = Inr (order_intent_hash qi) \<and> not_expired ts (oi_expiry_ts oi) \<and> not_expired ts (qi_expiry_ts qi))"

lemma enqueue_operation_too_low:
  assumes "qi_seq_no (arg_queued_order_intent args) \<le> fifo_tail FS" "queue_fifo_ok (fs_queue FS)"
  shows "\<exists>e. perp_enqueue_operation cd sysvar FS K ts slot args = Inl e"
    "intent_accepted cd FS K ts args \<Longrightarrow>
       perp_enqueue_operation cd sysvar FS K ts slot args =
         Inl (MangoErr (if qf_is_full (fs_queue FS) then QueueIsFull else SequenceNumberTooLow))"
proof -
  let ?c = "check_queue (fs_queue FS) (qi_seq_no (arg_queued_order_intent args))"
  have "qf_ring (fs_queue FS)" using assms(2) by (simp add: queue_fifo_ok_def)
  then have c: "?c = Inl (MangoErr (if qf_is_full (fs_queue FS) then QueueIsFull else SequenceNumberTooLow))"
    using assms(1) by (simp add: check_queue_def tail_seq_eq fifo_tail_def fifo_views)
  have False if "perp_enqueue_operation cd sysvar FS K ts slot args = Inr FS'" for FS'
    by (rule enqueue_operation_parts [OF that]) (simp add: c)
  then show "\<exists>e. perp_enqueue_operation cd sysvar FS K ts slot args = Inl e"
    by (cases "perp_enqueue_operation cd sysvar FS K ts slot args") auto
  show "intent_accepted cd FS K ts args \<Longrightarrow>
      perp_enqueue_operation cd sysvar FS K ts slot args =
        Inl (MangoErr (if qf_is_full (fs_queue FS) then QueueIsFull else SequenceNumberTooLow))"
    using c by (auto simp: intent_accepted_def perp_enqueue_operation_def Let_def)
qed

section \<open>A transaction and queues to evaluate on\<close>

text \<open>An Ed25519 instruction with two signatures. The 64 bytes from 30 on are both signatures, and
  their first half is the continuum's key; the 32 bytes from 94 on are the user's key.\<close>

definition sample_offsets :: "8 word \<Rightarrow> bytes" where
  "sample_offsets key_at = [30, 0, 255, 255, key_at, 0, 255, 255, key_at, 0, 1, 0, 255, 255]"

definition sample_ix :: Instruction where
  "sample_ix = \<lparr>program_id = [9], ix_data = [2, 0] @ sample_offsets 94 @ sample_offsets 30 @ replicate 64 7 @ replicate 32 1, ix_data_aligned = True\<rparr>"

definition sample_sysvar :: instructions_sysvar where
  "sample_sysvar = \<lparr>ed25519_program_id = [9], load_instruction_at_checked = \<lambda>i. if i = 0 then Inr sample_ix else Inl InvalidArgument\<rparr>"

definition sample_verify :: "pubkey \<Rightarrow> bytes \<Rightarrow> bytes \<Rightarrow> bool" where
  "sample_verify pk msg s \<longleftrightarrow> (pk = replicate 32 1 \<and> msg = [1] \<or> pk = replicate 32 7 \<and> msg = [7]) \<and> s = replicate 64 7"

definition sample_codec :: codec where
  "sample_codec = \<lparr>hashv = concat, bytes_of = \<lambda>_. [], borsh_order_intent = \<lambda>_. Some [1], borsh_queued_intent = \<lambda>_. Some [7]\<rparr>"

definition buy_params :: CompactOrderParams where
  "buy_params = \<lparr>cp_max_base_lots = 2, cp_max_quote_lots = 100, cp_price_lots = 8, cp_client_order_id = 3, cp_market_index = 0,
     cp_tif_offset = 0, cp_side = 0, cp_order_type = 0, cp_self_trade_behavior = 0, cp_reduce_only = 0, cp_limit = 10\<rparr>"

definition sample_intent :: OrderIntent where
  "sample_intent = \<lparr>oi_version = 1, oi_group = [], oi_account = [1], oi_owner = replicate 32 1, oi_perp_market = [],
     oi_event_type = PerpPlaceOrder, oi_params = buy_params, oi_expiry_ts = 0\<rparr>"

definition sample_args :: "u64 \<Rightarrow> PerpEnqueueOperationArgs" where
  "sample_args seq = \<lparr>arg_order_intent = sample_intent,
     arg_queued_order_intent = \<lparr>qi_version = 1, order_intent_hash = [1], qi_seq_no = seq, qi_expiry_ts = 200\<rparr>\<rparr>"

definition buy_event :: QueueFifoEvent where
  "buy_event = \<lparr>seq_no = 5, submitted_slot = 0, ev_user = [1], ev_continuum = replicate 32 7, event_type = 0, ev_params = buy_params,
     user_signature = signature_blob [], continuum_signature = signature_blob []\<rparr>"

text \<open>A queue with the given number of pending events, executed up to sequence number 0.\<close>

definition sample_fifo :: "nat \<Rightarrow> FifoState" where
  "sample_fifo n = \<lparr>fs_perp = new_state, fs_queue = \<lparr>qf_header = \<lparr>qf_head = 63, qf_count = n, last_executed_seq = 0, max_lag_slots = 10\<rparr>,
     entries = replicate 64 buy_event\<rparr>\<rparr>"

definition sample_queue_keys :: QueueKeys where
  "sample_queue_keys = \<lparr>qk_perp = trader_keys, key_queue = [], key_perp_market = []\<rparr>"

lemma sample_fifo_simps [simp]:
  "fs_perp (sample_fifo n) = new_state" "executed_seq (sample_fifo n) = 0" "lag_limit (sample_fifo n) = 10"
  "pending_ops (sample_fifo 0) = []" "pending_ops (sample_fifo 1) = [buy_event]" "pending_ops (sample_fifo (Suc 0)) = [buy_event]"
  by (simp_all add: sample_fifo_def fifo_views qf_events_def FIFO_QUEUE_CAPACITY_def)

lemma sample_fifo_ok: "n \<le> 1 \<Longrightarrow> fifo_queue_ok (sample_fifo n)"
  by (cases n) (auto simp: fifo_queue_ok_def queue_fifo_ok_def qf_ring_def seqs_typed_def sample_fifo_def qf_events_def FIFO_QUEUE_CAPACITY_def
      buy_event_def u64_MAX_def)

lemma sample_fifo_inv: "n \<le> 1 \<Longrightarrow> fifo_inv (sample_fifo n)"
proof -
  assume n: "n \<le> 1"
  have "continuum_key sample_group = Some (replicate 32 7)"
    by (simp add: continuum_key_def sample_group_def GROUP_CONTINUUM_KEY_OFFSET_def GROUP_CONTINUUM_KEY_SIZE_def)
  then have "event_ok new_state buy_event" "event_typed buy_event"
    by (simp_all add: event_ok_def event_typed_def params_typed_def buy_event_def buy_params_def queue_event_type_def queue_event_type_try_from_def
        new_state_simps new_market_simps signature_blob_def in_i64_def i64_MIN_def i64_MAX_def)
  moreover have "pending_ops (sample_fifo n) = [] \<or> pending_ops (sample_fifo n) = [buy_event]" using n by (cases n) auto
  ultimately show ?thesis using sample_fifo_ok [OF n] untouched_inv [OF new_state_untouched(1)] by (auto simp: fifo_inv_def)
qed

lemma sample_reads: "sysvar_reads sample_sysvar [sample_ix]"
  by (simp add: sysvar_reads_def sample_sysvar_def)

lemma sample_offsets_at:
  "signature_offsets sample_ix 0 = \<lparr>signature_offset = 30, signature_instruction_index = 65535, public_key_offset = 94,
     public_key_instruction_index = 65535, message_data_offset = 94, message_data_size = 1, message_instruction_index = 65535\<rparr>"
  "signature_offsets sample_ix 1 = \<lparr>signature_offset = 30, signature_instruction_index = 65535, public_key_offset = 30,
     public_key_instruction_index = 65535, message_data_offset = 30, message_data_size = 1, message_instruction_index = 65535\<rparr>"
  by (simp_all add: signature_offsets_def offsets_of_bytes_def u16_at_def slice_def sample_ix_def sample_offsets_def ed25519_sizes)

lemma sample_slices:
  "slice 30 64 (ix_data sample_ix) = replicate 64 7" "slice 94 32 (ix_data sample_ix) = replicate 32 1" "slice 94 1 (ix_data sample_ix) = [1]"
  "slice 30 32 (ix_data sample_ix) = replicate 32 7" "slice 30 1 (ix_data sample_ix) = [7]" "length (ix_data sample_ix) = 126"
  "ix_data sample_ix ! 0 = 2" "program_id sample_ix = [9]" "ix_data_aligned sample_ix"
  by (simp_all add: slice_def sample_ix_def sample_offsets_def)

lemma sample_checked: "signatures_checked sample_sysvar sample_verify [sample_ix]"
  by (simp add: signatures_checked_def less_2_cases_iff sample_slices [unfolded One_nat_def] sample_offsets_at [unfolded One_nat_def]
      sample_verify_def Let_def all_conj_distrib imp_conjR)

lemma sample_found:
  "find_two_ed25519_signatures sample_sysvar (replicate 32 1) [1] (replicate 32 7) [7] = Inr (Some (replicate 64 7), Some (replicate 64 7))"
proof -
  have p: "ed25519_program_id sample_sysvar = [9]" by (simp add: sample_sysvar_def)
  have d: "offsets_match sample_ix (signature_offsets sample_ix 0) (replicate 32 7) [7] = None"
      "offsets_match sample_ix (signature_offsets sample_ix 0) (replicate 32 1) [1] = Some (replicate 64 7)"
      "offsets_match sample_ix (signature_offsets sample_ix 1) (replicate 32 7) [7] = Some (replicate 64 7)"
    by (simp_all add: offsets_match_def sample_offsets_at sample_slices ed25519_sizes u16_MAX_def del: One_nat_def)
  have "[0..<2] = [0, 1 :: nat]" by (simp add: upt_rec)
  then have "ed25519_instruction_matches sample_sysvar sample_ix (replicate 32 1) [1] = Inr (Some (replicate 64 7))"
      "ed25519_instruction_matches sample_sysvar sample_ix (replicate 32 7) [7] = Inr (Some (replicate 64 7))"
    using d by (simp_all add: ed25519_instruction_matches_def p sample_slices ed25519_sizes del: One_nat_def)
  then show ?thesis by (simp add: find_two_ed25519_signatures_eq [OF sample_reads] or_match_def)
qed

lemma sample_enqueue:
  assumes "0 < seq"
  shows "\<exists>FS'. perp_enqueue_operation sample_codec sample_sysvar (sample_fifo 0) sample_queue_keys 100 3 (sample_args seq) = Inr FS'"
proof -
  have q: "queue_fifo_ok (fs_queue (sample_fifo 0))" "qf_ring (fs_queue (sample_fifo 0))"
    using sample_fifo_ok [of 0] by (simp_all add: fifo_queue_ok_def queue_fifo_ok_def)
  have room: "\<not> qf_is_full (fs_queue (sample_fifo 0))" by (simp add: qf_is_full_def sample_fifo_def FIFO_QUEUE_CAPACITY_def)
  have tail: "tail_seq (fs_queue (sample_fifo 0)) = Inr 0"
    using tail_seq_eq [OF q(2)] sample_fifo_simps(2,4) [unfolded fifo_views] by simp
  obtain q' where push: "qf_push (fs_queue (sample_fifo 0)) (intent_event sample_intent seq 3 (replicate 32 7) (replicate 64 7) (replicate 64 7)) = Inr q'"
    using qf_push_events [OF q(2) room] by blast
  have ck: "continuum_key sample_group = Some (replicate 32 7)"
    by (simp add: continuum_key_def sample_group_def GROUP_CONTINUUM_KEY_OFFSET_def GROUP_CONTINUUM_KEY_SIZE_def)
  have acc: "PerpEnqueueOperation_accounts (sample_fifo 0) sample_queue_keys = Inr ()"
    by (simp add: PerpEnqueueOperation_accounts_def market_has_queue_def group_constraint_def load_account_def sample_queue_keys_def
        new_state_simps new_market_simps new_trader_simps Let_def is_ix_enabled_def sample_group_def)
      (simp add: new_market_def sample_market_def default_for_tests_def)
  have args: "arg_order_intent (sample_args seq) = sample_intent" "qi_seq_no (arg_queued_order_intent (sample_args seq)) = seq"
      "order_intent_hash (arg_queued_order_intent (sample_args seq)) = [1]" "qi_expiry_ts (arg_queued_order_intent (sample_args seq)) = 200"
      "oi_event_type sample_intent = PerpPlaceOrder" "oi_group sample_intent = []" "oi_account sample_intent = [1]"
      "oi_perp_market sample_intent = []" "oi_owner sample_intent = replicate 32 1" "cp_market_index (oi_params sample_intent) = 0"
      "oi_expiry_ts sample_intent = 0" "qk_perp sample_queue_keys = trader_keys" "key_perp_market sample_queue_keys = []"
    by (simp_all add: sample_args_def sample_intent_def buy_params_def sample_queue_keys_def)
  show ?thesis
    using assms
    by (simp add: perp_enqueue_operation_def Let_def acc args new_state_simps new_market_simps ck order_intent_hash_of_def not_expired_def
        order_intent_message_bytes_def queued_intent_message_bytes_def sample_codec_def check_queue_def room tail sample_found push)
qed

text \<open>The pending event of the sample queue is the order of \<^const>\<open>sample_buy\<close>.\<close>

definition sample_env :: "unit crank_env" where
  "sample_env = make_env fixed_reference (\<lambda>_. no_health) sample_queue_keys (Inr oracle_at_8) 100 50"

lemma sample_run: "\<exists>S'. run_event sample_env buy_event new_state = Inr S'"
proof -
  obtain S' id where b: "perp_place_order fixed_reference no_health new_state trader_keys (Inr oracle_at_8) 100 50 sample_buy 10 = Inr (S', Some id)"
    using buy_accepted by blast
  have o: "order_from_params buy_params = Inr (sample_buy, 10)"
    by (simp add: order_from_params_def order_params_of_def buy_params_def sample_buy_def cp_side_of_def cp_place_order_type_def
        cp_self_trade_behavior_of_def cp_is_reduce_only_def side_try_from_def place_order_type_try_from_def self_trade_behavior_try_from_def)
  have k: "trader_keys\<lparr>key_owner := [1]\<rparr> = trader_keys" by (simp add: trader_keys_def)
  have e: "ev_params buy_event = buy_params" "ev_user buy_event = [1]" "event_type buy_event = 0" "cp_market_index buy_params = 0"
    by (simp_all add: buy_event_def buy_params_def)
  have "execute_place sample_env buy_event new_state = Inr S'"
    using b by (simp add: execute_place_def e o sample_env_def make_env_def sample_queue_keys_def k perp_place_order_def rbind_eq_Inr)
  then have "dispatch_event sample_env buy_event new_state = Inr S'"
    by (simp add: dispatch_event_def queue_event_type_def e queue_event_type_try_from_def)
  moreover have "validate_event_targets trader_keys 100 buy_event new_state = Inr ()"
    by (simp add: validate_event_targets_def load_account_def is_owner_or_delegate_def e new_state_simps new_market_simps new_trader_simps)
  ultimately show ?thesis by (simp add: run_event_def sample_env_def make_env_def sample_queue_keys_def)
qed

lemma sample_crank_accounts: "PerpCrankQueuedOperations_accounts (sample_fifo n) sample_queue_keys 100 = Inr ()"
proof -
  have "is_ix_enabled sample_group GatePerpCrankQueuedOperations" "pm_queue new_market = []"
    by (simp_all add: is_ix_enabled_def sample_group_def new_market_def sample_market_def default_for_tests_def)
  then show ?thesis
    by (simp add: PerpCrankQueuedOperations_accounts_def crank_accounts_def Let_def group_constraint_def account_constraint_def market_has_book_def
        load_account_def is_operational_def clock_u64_def sample_queue_keys_def new_state_simps new_market_simps new_trader_simps)
qed

section \<open>Properties\<close>

text \<open>
  C32. An operation on the queue has been signed by its user and by the continuum. When
  \<^verbatim>\<open>perp_enqueue_operation\<close> accepts an intent, exactly one event is appended to the queue and
  nothing else changes. The event carries the user, the parameters and the type of the intent, and
  a sequence number above all earlier ones; a signature of the user over the intent and one of the
  continuum over the queued intent, which commits to the hash of the intent, have been checked by
  the Ed25519 program, and they are the ones that are stored. The intent names the group, account and
  market of the instruction, and neither intent has expired.
\<close>

theorem enqueued_operation_signed:
  assumes "sysvar_reads sysvar ixs" "signatures_checked sysvar V ixs" "queue_fifo_ok (fs_queue FS)"
    and "perp_enqueue_operation cd sysvar FS K ts slot \<lparr>arg_order_intent = oi, arg_queued_order_intent = qi\<rparr> = Inr FS'"
  shows "\<exists>e continuum bs qbs. fs_perp FS' = fs_perp FS \<and> pending_ops FS' = pending_ops FS @ [e] \<and> executed_seq FS' = executed_seq FS \<and>
     ev_user e = oi_owner oi \<and> ev_params e = oi_params oi \<and> queue_event_type e = Inr (oi_event_type oi) \<and> seq_no e = qi_seq_no qi \<and>
     executed_seq FS < seq_no e \<and> (\<forall>e' \<in> set (pending_ops FS). seq_no e' < seq_no e) \<and>
     continuum_key (ps_group (fs_perp FS)) = Some continuum \<and>
     borsh_order_intent cd oi = Some bs \<and> V (oi_owner oi) bs (sig_bytes (user_signature e)) \<and>
     borsh_queued_intent cd qi = Some qbs \<and> V continuum qbs (sig_bytes (continuum_signature e)) \<and> order_intent_hash qi = hashv cd [bs] \<and>
     oi_group oi = key_group (qk_perp K) \<and> oi_account oi = key_account (qk_perp K) \<and> oi_perp_market oi = key_perp_market K \<and>
     (oi_expiry_ts oi \<noteq> 0 \<longrightarrow> ts \<le> int (oi_expiry_ts oi)) \<and> (qi_expiry_ts qi \<noteq> 0 \<longrightarrow> ts \<le> int (qi_expiry_ts qi))"
proof (rule enqueue_operation_parts [OF assms(4)], goal_cases)
  case (1 continuum bs qbs s1 s2 q)
  let ?e = "intent_event oi (qi_seq_no qi) slot continuum s1 s2"
  have e: "seq_no ?e = qi_seq_no qi" "ev_user ?e = oi_owner oi" "ev_params ?e = oi_params oi" "queue_event_type ?e = Inr (oi_event_type oi)"
      "sig_bytes (user_signature ?e) = s1" "sig_bytes (continuum_signature ?e) = s2"
    by (simp_all add: intent_event_def queue_event_type_def signature_blob_def)
  have c: "check_queue (fs_queue FS) (seq_no ?e) = Inr ()" using 1(12) by (simp add: e)
  have "two_matches sysvar (oi_owner oi) bs continuum qbs None None ixs = Inr (Some s1, Some s2)"
    using 1(13) find_two_ed25519_signatures_eq [OF assms(1)] by simp
  note v = two_matches_checked [OF this subset_refl assms(2)]
  have push: "qf_push (fs_queue FS) ?e = Inr q" using 1(14) by simp
  show ?case
    using v 1 qf_push_ok [OF push assms(3) c] check_queue_Inr(2) [OF c assms(3)]
    by (intro exI [of _ ?e] exI [of _ continuum] exI [of _ bs] exI [of _ qbs]) (auto simp: e fifo_views not_expired_def)
qed

theorem enqueued_operation_signed_witness:
  "\<exists>FS'. perp_enqueue_operation sample_codec sample_sysvar (sample_fifo 0) sample_queue_keys 100 3 (sample_args 4) = Inr FS' \<and>
     length (pending_ops FS') = 1 \<and> sample_verify (replicate 32 7) [7] (sig_bytes (continuum_signature (pending_ops FS' ! 0)))"
proof -
  obtain FS' where r: "perp_enqueue_operation sample_codec sample_sysvar (sample_fifo 0) sample_queue_keys 100 3 (sample_args 4) = Inr FS'"
    using sample_enqueue [of 4] by auto
  have ck: "continuum_key sample_group = Some (replicate 32 7)"
    by (simp add: continuum_key_def sample_group_def GROUP_CONTINUUM_KEY_OFFSET_def GROUP_CONTINUUM_KEY_SIZE_def)
  have q: "queue_fifo_ok (fs_queue (sample_fifo 0))" using sample_fifo_ok [of 0] by (simp add: fifo_queue_ok_def)
  show ?thesis
    using enqueued_operation_signed [OF sample_reads sample_checked q r [unfolded sample_args_def]] r
    by (auto simp: new_state_simps ck sample_codec_def)
qed

text \<open>
  C33. No operation can be replayed, in a group that is not a testing group. Once an operation with some sequence number has been accepted,
  then after any number of further steps of the market and its queue, whatever they are, an
  operation with that sequence number or a lower one is rejected; with
  \<^verbatim>\<open>SequenceNumberTooLow\<close> if the queue has room and everything else about the operation is fine.
\<close>

theorem replay_rejected:
  assumes "fixed_laws F" "fifo_inv FS" "\<not> is_testing (ps_group (fs_perp FS))"
    and "perp_enqueue_operation cd sysvar FS K ts slot args = Inr FS1"
    and "qi_seq_no (arg_queued_order_intent args) \<le> u64_MAX" "params_typed (oi_params (arg_order_intent args))"
    and "(fifo_step F cd H)\<^sup>*\<^sup>* FS1 FS2" "qi_seq_no (arg_queued_order_intent args') \<le> qi_seq_no (arg_queued_order_intent args)"
  shows "(\<exists>e. perp_enqueue_operation cd' sysvar' FS2 K' ts' slot' args' = Inl e) \<and>
    (intent_accepted cd' FS2 K' ts' args' \<longrightarrow> \<not> qf_is_full (fs_queue FS2) \<longrightarrow>
       perp_enqueue_operation cd' sysvar' FS2 K' ts' slot' args' = Inl (MangoErr SequenceNumberTooLow))"
proof -
  let ?inv = "\<lambda>FS. fixed_laws F \<and> fifo_inv FS \<and> \<not> is_testing (ps_group (fs_perp FS))"
  have i1: "?inv FS1" using enqueue_operation_inv [OF assms(4,2,5,6)] assms(1,3) by simp
  have "fifo_tail FS1 \<le> fifo_tail FS2"
    by (rule fifo_machine.run_mono [OF assms(7) i1]) (use fifo_step_tail in blast)
  moreover have "fifo_inv FS2" using fifo_machine.run_inv [OF assms(7) i1] by simp
  moreover have "fifo_tail FS1 = qi_seq_no (arg_queued_order_intent args)"
    using enqueue_operation_tail(2) [OF assms(4)] assms(2) by (simp add: fifo_inv_def fifo_queue_ok_def)
  ultimately show ?thesis
    using enqueue_operation_too_low [of args' FS2] assms(8) by (simp add: fifo_inv_def fifo_queue_ok_def)
qed

theorem replay_rejected_witness:
  "\<exists>FS1. perp_enqueue_operation sample_codec sample_sysvar (sample_fifo 0) sample_queue_keys 100 3 (sample_args 4) = Inr FS1 \<and>
     (\<exists>e. perp_enqueue_operation sample_codec sample_sysvar FS1 sample_queue_keys 100 3 (sample_args 4) = Inl e)"
proof -
  let ?H = "\<lambda>(_ :: unit) _. no_health"
  obtain FS1 where r: "perp_enqueue_operation sample_codec sample_sysvar (sample_fifo 0) sample_queue_keys 100 3 (sample_args 4) = Inr FS1"
    using sample_enqueue [of 4] by auto
  have p: "qi_seq_no (arg_queued_order_intent (sample_args 4)) \<le> u64_MAX" "params_typed (oi_params (arg_order_intent (sample_args 4)))"
    by (simp_all add: sample_args_def sample_intent_def buy_params_def params_typed_def in_i64_def i64_MIN_def i64_MAX_def u64_MAX_def)
  have "\<not> is_testing (ps_group (fs_perp (sample_fifo 0)))" using new_state_untouched(2) by simp
  from replay_rejected [OF fixed_reference_laws sample_fifo_inv this r p rtranclp.rtrancl_refl [of "fifo_step fixed_reference sample_codec ?H"] order_refl] r
  show ?thesis by blast
qed

text \<open>
  C34. The crank executes the operations of the queue in their order, each of them once. When
  \<^verbatim>\<open>perp_crank_queued_operations\<close> succeeds, it has executed some events from the front of the queue,
  at most eight and no more than it was asked to, one after the other; exactly these have left the
  queue. Each of them carries the sequence number after its predecessor's, or has waited for at
  least the allowed lag. The last executed sequence number, in the queue and in the market, is that of
  the last of them.
\<close>

theorem crank_executes_in_order:
  assumes "perp_crank_queued_operations F H FS K oracle ts slot n = Inr FS'" "fifo_queue_ok FS"
  shows "\<exists>executed S'. pending_ops FS = executed @ pending_ops FS' \<and> length executed \<le> min n 8 \<and>
     run_all (run_event (make_env F H K oracle ts slot)) executed (fs_perp FS) = Inr S' \<and>
     in_turn slot (lag_limit FS) (executed_seq FS) executed \<and>
     executed_seq FS' = last (executed_seq FS # map seq_no executed) \<and>
     fs_perp FS' = S'\<lparr>ps_market := (ps_market S')\<lparr>queue_last_executed_seq := executed_seq FS'\<rparr>\<rparr> \<and> fifo_queue_ok FS'"
proof -
  have c: "crank (run_event (make_env F H K oracle ts slot)) slot (min n 8) FS = Inr FS'" "min n 8 \<le> (255 :: nat)"
    using assms(1) by (auto simp: perp_crank_queued_operations_def rbind_eq_Inr MAX_QUEUED_OPS_PER_CALL_def)
  show ?thesis by (rule crank_Inr [OF c(1) assms(2) c(2)]) (auto simp: set_queue_seq_def)
qed

theorem crank_executes_in_order_witness:
  "\<exists>FS'. perp_crank_queued_operations fixed_reference (\<lambda>_. no_health) (sample_fifo 1) sample_queue_keys (Inr oracle_at_8) 100 50 3 = Inr FS' \<and>
     executed_seq FS' \<in> {0, 5}"
proof -
  obtain S' where "run_event sample_env buy_event new_state = Inr S'" using sample_run by blast
  then obtain FS' where r: "perp_crank_queued_operations fixed_reference (\<lambda>_. no_health) (sample_fifo 1) sample_queue_keys (Inr oracle_at_8) 100 50 3 = Inr FS'"
    using crank_refines [OF sample_fifo_ok [of 1], of 3 "run_event sample_env" 50] sample_crank_accounts [of 1]
    by (auto simp: perp_crank_queued_operations_def sample_env_def MAX_QUEUED_OPS_PER_CALL_def buy_event_def numeral_3_eq_3)
  obtain executed where "[buy_event] = executed @ pending_ops FS'" "executed_seq FS' = last (0 # map seq_no executed)"
    using crank_executes_in_order [OF r sample_fifo_ok] by auto
  then show ?thesis using r by (cases executed) (auto simp: buy_event_def)
qed

text \<open>
  C35. The crank's loop ends, on every queue, whatever its contents, and whatever executing an
  operation does: sequence numbers may be out of order, repeated or have gaps, and the head and the count
  may be anything. The only assumption is that the stored sequence numbers are 64-bit numbers.
\<close>

theorem crank_terminates:
  assumes "\<forall>e \<in> set (entries q). seq_no e \<le> u64_MAX"
  shows "\<exists>r. crank_loop run current_slot max_events processed last_executed S q = Some r"
  using crank_loop_returns assms by (simp add: seqs_typed_def)

theorem crank_terminates_witness:
  "\<exists>r. crank_loop (run_event sample_env) 50 3 0 0 new_state (fs_queue (sample_fifo 1)) = Some r"
  by (rule crank_terminates) (simp add: sample_fifo_def buy_event_def u64_MAX_def)

text \<open>
  C36. A gap in the sequence numbers cannot stop the queue for good. Once all pending operations have
  waited for the allowed lag, a crank that is allowed \<open>n\<close> operations succeeds and takes the
  first \<open>n\<close> of them off the queue (eight at most), provided that each of them can be executed after
  the ones before it; the market is then as if they had been executed one by one.
\<close>

theorem crank_drains:
  assumes "fifo_queue_ok FS" "PerpCrankQueuedOperations_accounts FS K ts = Inr ()"
    and "\<forall>e \<in> set (pending_ops FS). submitted_slot e + lag_limit FS \<le> slot"
    and "run_all (run_event (make_env F H K oracle ts slot)) (take (min n 8) (pending_ops FS)) (fs_perp FS) = Inr S'"
  shows "\<exists>FS'. perp_crank_queued_operations F H FS K oracle ts slot n = Inr FS' \<and> pending_ops FS' = drop (min n 8) (pending_ops FS) \<and>
     fs_perp FS' = S'\<lparr>ps_market := (ps_market S')\<lparr>queue_last_executed_seq := executed_seq FS'\<rparr>\<rparr>"
proof -
  have turn: "in_turn slot (lag_limit FS) s es" if "set es \<subseteq> set (pending_ops FS)" for s es
    using that assms(3) by (induction es arbitrary: s) auto
  have "in_turn slot (lag_limit FS) (executed_seq FS) (take (min n 8) (pending_ops FS))" by (rule turn) (rule set_take_subset)
  then obtain s where s: "crank_spec (run_event (make_env F H K oracle ts slot)) slot (lag_limit FS) (min n 8) (executed_seq FS) (pending_ops FS) (fs_perp FS) =
      Inr (S', drop (min n 8) (pending_ops FS), s)"
    using crank_spec_all [OF assms(4)] by blast
  have n: "min n 8 \<le> (255 :: nat)" by simp
  show ?thesis
    using crank_refines [OF assms(1) n, of "run_event (make_env F H K oracle ts slot)" slot] assms(2)
    unfolding s by (auto simp: perp_crank_queued_operations_def MAX_QUEUED_OPS_PER_CALL_def set_queue_seq_def)
qed

theorem crank_drains_witness:
  "\<exists>FS'. perp_crank_queued_operations fixed_reference (\<lambda>_. no_health) (sample_fifo 1) sample_queue_keys (Inr oracle_at_8) 100 50 3 = Inr FS' \<and>
     pending_ops FS' = []"
proof -
  obtain S' where S': "run_event sample_env buy_event new_state = Inr S'" using sample_run by blast
  have "run_all (run_event (make_env fixed_reference (\<lambda>_. no_health) sample_queue_keys (Inr oracle_at_8) 100 50))
      (take (min 3 8) (pending_ops (sample_fifo 1))) (fs_perp (sample_fifo 1)) = Inr S'"
    using S' by (simp add: sample_env_def)
  moreover have "\<forall>e \<in> set (pending_ops (sample_fifo 1)). submitted_slot e + lag_limit (sample_fifo 1) \<le> 50" by (simp add: buy_event_def)
  ultimately show ?thesis
    using crank_drains [OF sample_fifo_ok [of 1] sample_crank_accounts] by fastforce
qed

text \<open>
  C37. The queue and the market stay well formed together. In a group that is not a testing group, in every state reached, by enqueueing in
  either way, cranking in either way, and trading directly, from an untouched market with an empty
  queue: at most 64 events are pending, their sequence numbers increase and lie above the last
  executed one, and every pending event decodes to placing, cancelling or modifying an order of this
  market and carries the continuum's key and both signatures; and the base positions of all
  accounts add up to zero, with the open interest as the sum of their sizes.
\<close>

theorem fifo_system_well_formed:
  assumes "fixed_laws F" "untouched (fs_perp FS0)" "\<not> is_testing (ps_group (fs_perp FS0))" "fifo_queue_ok FS0" "pending_ops FS0 = []"
    and "(fifo_step F cd H)\<^sup>*\<^sup>* FS0 FS"
  shows "length (pending_ops FS) \<le> 64 \<and> sorted_wrt (<) (executed_seq FS # map seq_no (pending_ops FS)) \<and>
     (\<forall>e \<in> set (pending_ops FS). queue_event_type e \<in> Inr ` {PerpPlaceOrder, PerpCancelOrder, PerpModifyOrder} \<and>
        cp_market_index (ev_params e) = perp_market_index (ps_market (fs_perp FS)) \<and>
        continuum_key (ps_group (fs_perp FS)) = Some (ev_continuum e) \<and>
        is_present (user_signature e) = 1 \<and> is_present (continuum_signature e) = 1) \<and>
     (\<Sum>k \<in> dom (ps_accounts (fs_perp FS)). pos_val base_position_lots (fs_perp FS) k) = 0 \<and>
     (\<Sum>k \<in> dom (ps_accounts (fs_perp FS)). \<bar>pos_val base_position_lots (fs_perp FS) k\<bar>) = open_interest (ps_market (fs_perp FS))"
proof -
  have "fifo_inv FS0" using untouched_inv [OF assms(2)] assms(4,5) by (simp add: fifo_inv_def)
  then have inv: "fifo_inv FS" using fifo_machine.run_inv [OF assms(6)] assms(1,3) by blast
  have ty: "queue_event_type e \<in> Inr ` {PerpPlaceOrder, PerpCancelOrder, PerpModifyOrder}" if ev: "event_ok S e" for S e
  proof -
    obtain ty where "queue_event_type e = Inr ty" "to_perp_action ty \<noteq> None" using ev by (auto simp: event_ok_def)
    then show ?thesis by (cases ty) auto
  qed
  have len: "length (pending_ops FS) \<le> 64" "sorted_wrt (<) (executed_seq FS # map seq_no (pending_ops FS))"
    using inv by (simp_all add: fifo_inv_def fifo_queue_ok_def queue_fifo_ok_def qf_ring_def fifo_views FIFO_QUEUE_CAPACITY_def)
  have "zero_sum (fs_perp FS)" using inv by (simp add: fifo_inv_def market_inv_def)
  then have sums: "(\<Sum>k \<in> dom (ps_accounts (fs_perp FS)). pos_val base_position_lots (fs_perp FS) k) = 0"
    "(\<Sum>k \<in> dom (ps_accounts (fs_perp FS)). \<bar>pos_val base_position_lots (fs_perp FS) k\<bar>) = open_interest (ps_market (fs_perp FS))"
    by (simp_all add: zero_sum_def)
  have "event_ok (fs_perp FS) e" if "e \<in> set (pending_ops FS)" for e using inv that by (simp add: fifo_inv_def)
  with ty have "\<forall>e \<in> set (pending_ops FS). queue_event_type e \<in> Inr ` {PerpPlaceOrder, PerpCancelOrder, PerpModifyOrder} \<and>
      cp_market_index (ev_params e) = perp_market_index (ps_market (fs_perp FS)) \<and> continuum_key (ps_group (fs_perp FS)) = Some (ev_continuum e) \<and>
      is_present (user_signature e) = 1 \<and> is_present (continuum_signature e) = 1"
    by (meson event_ok_def)
  then show ?thesis using len sums by blast
qed

theorem fifo_system_well_formed_witness:
  "\<exists>FS. fifo_step fixed_reference sample_codec (\<lambda>(_ :: unit) _. no_health) (sample_fifo 0) FS \<and> executed_seq FS = 0 \<and>
     sorted_wrt (<) (0 # map seq_no (pending_ops FS)) \<and> length (pending_ops FS) = 1"
proof -
  let ?H = "\<lambda>(_ :: unit) _. no_health"
  obtain FS where r: "perp_enqueue_operation sample_codec sample_sysvar (sample_fifo 0) sample_queue_keys 100 3 (sample_args 4) = Inr FS"
    using sample_enqueue [of 4] by auto
  have "qi_seq_no (arg_queued_order_intent (sample_args 4)) \<le> u64_MAX" "params_typed (oi_params (arg_order_intent (sample_args 4)))"
    by (simp_all add: sample_args_def sample_intent_def buy_params_def params_typed_def in_i64_def i64_MIN_def i64_MAX_def u64_MAX_def)
  then have step: "fifo_step fixed_reference sample_codec ?H (sample_fifo 0) FS" by (rule fifo_step.enqueue_operation [OF r])
  have u: "untouched (fs_perp (sample_fifo 0))" "\<not> is_testing (ps_group (fs_perp (sample_fifo 0)))" using new_state_untouched by simp_all
  have q: "fifo_queue_ok (sample_fifo 0)" "pending_ops (sample_fifo 0) = []" using sample_fifo_ok [of 0] by simp_all
  note w = fifo_system_well_formed [OF fixed_reference_laws u q r_into_rtranclp [of "fifo_step fixed_reference sample_codec ?H", OF step]]
  obtain e where "appended (sample_fifo 0) e FS" using enqueue_operation_appends [OF r] q(1) by (auto simp: fifo_queue_ok_def)
  then have "executed_seq FS = executed_seq (sample_fifo 0)" "pending_ops FS = pending_ops (sample_fifo 0) @ [e]"
    by (simp_all add: appended_def fifo_views)
  then have s: "executed_seq FS = 0" "length (pending_ops FS) = 1" by simp_all
  show ?thesis using step w [THEN conjunct2, THEN conjunct1, unfolded s(1)] s by blast
qed

end
