(* ===== verification/Bank.thy ===== *)
theory Bank
  imports Mango_Account
begin

text \<open>
  Banks (\<^verbatim>\<open>state/bank.rs\<close>): the pool of deposits and borrows of a token. Positions and totals are
  stored in units of two indices that grow with the interest. The theory holds the bank's data and
  operations: deposits and withdrawals with their rounding, dusting and loan origination fee,
  the limits, interest and indices, and the weights. The \<^verbatim>\<open>I80F48\<close> arithmetic is the argument \<open>F\<close>.
\<close>

section \<open>Data\<close>

record Bank =
  bk_group :: pubkey
  bk_name :: "8 word list"
  bk_mint :: pubkey
  bk_vault :: pubkey
  bk_oracle :: pubkey
  bk_oracle_config :: OracleConfig
  bk_stable_price_model :: StablePriceModel
  deposit_index :: i80f48
  borrow_index :: i80f48
  indexed_deposits :: i80f48
  indexed_borrows :: i80f48
  index_last_updated :: u64
  bank_rate_last_updated :: u64
  avg_utilization :: i80f48
  adjustment_factor :: i80f48
  util0 :: i80f48
  rate0 :: i80f48
  util1 :: i80f48
  rate1 :: i80f48
  max_rate :: i80f48
  collected_fees_native :: i80f48
  loan_origination_fee_rate :: i80f48
  loan_fee_rate :: i80f48
  maint_asset_weight :: i80f48
  init_asset_weight :: i80f48
  maint_liab_weight :: i80f48
  init_liab_weight :: i80f48
  liquidation_fee :: i80f48
  dust :: i80f48
  flash_loan_token_account_initial :: u64
  flash_loan_approved_amount :: u64
  bk_token_index :: u16
  bk_bump :: u8
  bk_mint_decimals :: u8
  bank_num :: u32
  min_vault_to_deposits_ratio :: f64
  net_borrow_limit_window_size_ts :: u64
  last_net_borrows_window_start_ts :: u64
  net_borrow_limit_per_window_quote :: i64
  net_borrows_in_window :: i64
  borrow_weight_scale_start_quote :: f64
  deposit_weight_scale_start_quote :: f64
  bk_reduce_only :: u8
  bk_force_close :: u8
  disable_asset_liquidation :: u8
  force_withdraw :: u8
  bk_tier :: "8 word list"
  bk_fees_withdrawn :: u64
  token_conditional_swap_taker_fee_rate :: f32
  token_conditional_swap_maker_fee_rate :: f32
  flash_loan_swap_fee_rate :: f32
  interest_target_utilization :: f32
  interest_curve_scaling :: f64
  potential_serum_tokens :: u64
  maint_weight_shift_start :: u64
  maint_weight_shift_end :: u64
  maint_weight_shift_duration_inv :: i80f48
  maint_weight_shift_asset_target :: i80f48
  maint_weight_shift_liab_target :: i80f48
  fallback_oracle :: pubkey
  deposit_limit :: u64
  zero_util_rate :: i80f48
  bk_platform_liquidation_fee :: i80f48
  collected_liquidation_fees :: i80f48
  collected_collateral_fees :: i80f48
  collateral_fee_per_day :: f32

record WithdrawResult =
  position_is_active :: bool
  loan_origination_fee :: i80f48
  loan_amount :: i80f48

record TransferResult =
  source_is_active :: bool
  target_is_active :: bool
  tr_loan_origination_fee :: i80f48
  tr_loan_amount :: i80f48

definition withdraw_has_loan :: "WithdrawResult \<Rightarrow> bool" where
  "withdraw_has_loan r \<longleftrightarrow> loan_amount r > 0"

definition transfer_has_loan :: "TransferResult \<Rightarrow> bool" where
  "transfer_has_loan r \<longleftrightarrow> tr_loan_amount r > 0"

definition YEAR_I80F48 :: i80f48 where
  "YEAR_I80F48 = 31536000 * fx_one"

text \<open>\<^verbatim>\<open>I80F48::MAX\<close> and \<^verbatim>\<open>I80F48::DELTA\<close>, \<^verbatim>\<open>f64::MAX\<close>, and \<^verbatim>\<open>f64::max\<close> and \<^verbatim>\<open>f64::min\<close>, which prefer a number to
  NaN.\<close>

definition fx_MAX :: i80f48 where
  "fx_MAX = 2 ^ 127 - 1"

definition fx_DELTA :: i80f48 where
  "fx_DELTA = 1"

definition f64_MAX :: f64 where
  "f64_MAX = Fin False (2 ^ 53 - 1) 971"

definition fl_eq :: "ieee \<Rightarrow> ieee \<Rightarrow> bool" where
  "fl_eq x y \<longleftrightarrow> fl_le x y \<and> fl_le y x"

definition fl_max :: "ieee \<Rightarrow> ieee \<Rightarrow> ieee" where
  "fl_max x y = (if is_nan x then y else if is_nan y then x else if fl_less x y then y else x)"

definition fl_min :: "ieee \<Rightarrow> ieee \<Rightarrow> ieee" where
  "fl_min x y = (if is_nan x then y else if is_nan y then x else if fl_less y x then y else x)"

definition from_existing_bank :: "Bank \<Rightarrow> pubkey \<Rightarrow> u32 \<Rightarrow> u8 \<Rightarrow> Bank" where
  "from_existing_bank existing_bank vault num bump =
     existing_bank\<lparr>bk_vault := vault, indexed_deposits := 0, indexed_borrows := 0, collected_fees_native := 0,
       collected_liquidation_fees := 0, collected_collateral_fees := 0, bk_fees_withdrawn := 0, dust := 0,
       flash_loan_approved_amount := 0, flash_loan_token_account_initial := u64_MAX, net_borrows_in_window := 0,
       potential_serum_tokens := 0, bk_bump := bump, bank_num := num, fallback_oracle := bk_oracle existing_bank\<rparr>"

section \<open>Modes\<close>

definition are_deposits_reduce_only :: "Bank \<Rightarrow> bool" where
  "are_deposits_reduce_only b \<longleftrightarrow> bk_reduce_only b = 1"

definition are_borrows_reduce_only :: "Bank \<Rightarrow> bool" where
  "are_borrows_reduce_only b \<longleftrightarrow> bk_reduce_only b = 1 \<or> bk_reduce_only b = 2"

definition bank_is_force_close :: "Bank \<Rightarrow> bool" where
  "bank_is_force_close b \<longleftrightarrow> bk_force_close b = 1"

definition is_force_withdraw :: "Bank \<Rightarrow> bool" where
  "is_force_withdraw b \<longleftrightarrow> force_withdraw b = 1"

definition allows_asset_liquidation :: "Bank \<Rightarrow> bool" where
  "allows_asset_liquidation b \<longleftrightarrow> disable_asset_liquidation b = 0"

text \<open>The checks of \<^verbatim>\<open>verify\<close>, in order; those that use \<^verbatim>\<open>require_gte!\<close> and \<^verbatim>\<open>require_eq!\<close> carry no error code of
  the program.\<close>

definition verify_ranges :: "Bank \<Rightarrow> bool" where
  "verify_ranges b \<longleftrightarrow>
     (let zero32 = fl_of_int binary32 0; one32 = fl_of_int binary32 1; zero = fl_of_int binary64 0; one = fl_of_int binary64 1 in
      conf_filter (bk_oracle_config b) \<ge> 0 \<and> util0 b \<ge> 0 \<and> util1 b \<ge> util0 b \<and> fx_one \<ge> util1 b \<and>
      rate0 b \<ge> 0 \<and> rate1 b \<ge> 0 \<and> max_rate b \<ge> 0 \<and> adjustment_factor b \<ge> 0 \<and> loan_fee_rate b \<ge> 0 \<and>
      loan_origination_fee_rate b \<ge> 0 \<and> fl_le zero32 (delay_growth_limit (bk_stable_price_model b)) \<and>
      fl_le zero32 (stable_growth_limit (bk_stable_price_model b)) \<and> init_asset_weight b \<ge> 0 \<and>
      maint_asset_weight b \<ge> init_asset_weight b \<and> maint_liab_weight b \<ge> 0 \<and> init_liab_weight b \<ge> maint_liab_weight b \<and>
      liquidation_fee b \<ge> 0 \<and> fl_le zero (min_vault_to_deposits_ratio b) \<and> fl_le (min_vault_to_deposits_ratio b) one \<and>
      net_borrow_limit_per_window_quote b \<ge> - 1 \<and> fl_less zero (borrow_weight_scale_start_quote b) \<and>
      fl_less zero (deposit_weight_scale_start_quote b) \<and> 2 \<ge> bk_reduce_only b \<and>
      fl_le zero32 (token_conditional_swap_taker_fee_rate b) \<and> fl_le zero32 (token_conditional_swap_maker_fee_rate b) \<and>
      fl_le zero32 (flash_loan_swap_fee_rate b) \<and> fl_le one (interest_curve_scaling b) \<and>
      fl_le zero32 (interest_target_utilization b) \<and> fl_le (interest_target_utilization b) one32 \<and>
      maint_weight_shift_duration_inv b \<ge> 0 \<and> maint_weight_shift_asset_target b \<ge> 0 \<and> maint_weight_shift_liab_target b \<ge> 0 \<and>
      zero_util_rate b \<ge> 0 \<and> bk_platform_liquidation_fee b \<ge> 0)"

definition bank_verify :: "Bank \<Rightarrow> unit res" where
  "bank_verify b =
     rbind (require (verify_ranges b) RequireViolated) (\<lambda>_.
     rbind (if \<not> allows_asset_liquidation b then
              rbind (require (are_borrows_reduce_only b) (MangoErr SomeError)) (\<lambda>_.
                require (maint_asset_weight b = 0) RequireViolated)
            else Inr ()) (\<lambda>_.
     rbind (require (fl_le (fl_of_int binary32 0) (collateral_fee_per_day b)) RequireViolated) (\<lambda>_.
       if is_force_withdraw b then
         rbind (require (are_deposits_reduce_only b) (MangoErr SomeError)) (\<lambda>_.
         rbind (require (\<not> allows_asset_liquidation b) (MangoErr SomeError)) (\<lambda>_.
           require (maint_asset_weight b = 0) RequireViolated))
       else Inr ())))"

section \<open>Totals\<close>

definition native_borrows :: "fixed_ops \<Rightarrow> Bank \<Rightarrow> i80f48 res" where
  "native_borrows F b = fx_mul F (borrow_index b) (indexed_borrows b)"

definition native_deposits :: "fixed_ops \<Rightarrow> Bank \<Rightarrow> i80f48 res" where
  "native_deposits F b = fx_mul F (deposit_index b) (indexed_deposits b)"

definition shift_weight :: "fixed_ops \<Rightarrow> i80f48 \<Rightarrow> i80f48 \<Rightarrow> i80f48 \<Rightarrow> i80f48 res" where
  "shift_weight F scale w target =
     rbind (fx_sub F target w) (\<lambda>d. rbind (fx_mul F scale d) (\<lambda>m. fx_add F w m))"

definition maint_weights :: "fixed_ops \<Rightarrow> Bank \<Rightarrow> u64 \<Rightarrow> (i80f48 \<times> i80f48) res" where
  "maint_weights F b now =
     (if maint_weight_shift_duration_inv b = 0 \<or> now \<le> maint_weight_shift_start b then
        Inr (maint_asset_weight b, maint_liab_weight b)
      else if now \<ge> maint_weight_shift_end b then
        Inr (maint_weight_shift_asset_target b, maint_weight_shift_liab_target b)
      else
        rbind (fx_mul F (fx_of_int F (int (now - maint_weight_shift_start b))) (maint_weight_shift_duration_inv b)) (\<lambda>scale.
        rbind (shift_weight F scale (maint_asset_weight b) (maint_weight_shift_asset_target b)) (\<lambda>asset.
        rbind (shift_weight F scale (maint_liab_weight b) (maint_weight_shift_liab_target b)) (\<lambda>liab.
          Inr (asset, liab)))))"

definition enforce_max_utilization :: "fixed_ops \<Rightarrow> Bank \<Rightarrow> i80f48 \<Rightarrow> unit res" where
  "enforce_max_utilization F b max_utilization =
     rbind (native_deposits F b) (\<lambda>deposits.
     rbind (native_borrows F b) (\<lambda>borrows.
     rbind (fx_mul F max_utilization deposits) (\<lambda>limit.
       if borrows > limit then Inl (MangoErr BankBorrowLimitReached) else Inr ())))"

definition enforce_borrows_lte_deposits :: "fixed_ops \<Rightarrow> Bank \<Rightarrow> unit res" where
  "enforce_borrows_lte_deposits F b = enforce_max_utilization F b fx_one"

definition enforce_max_utilization_on_borrow :: "fixed_ops \<Rightarrow> Bank \<Rightarrow> unit res" where
  "enforce_max_utilization_on_borrow F b =
     rbind (fx_of_f64 F (min_vault_to_deposits_ratio b)) (\<lambda>ratio.
     rbind (fx_sub F fx_one ratio) (\<lambda>max_utilization.
       enforce_max_utilization F b max_utilization))"


section \<open>Prices and weights\<close>

text \<open>Reading the state of an oracle account is not modelled: the states of the main account and of the
  fallback account, if there is one, are arguments with the keys of the accounts.\<close>

definition is_oracle_error :: "'a res \<Rightarrow> bool" where
  "is_oracle_error r \<longleftrightarrow> r = Inl (MangoErr OracleConfidence) \<or> r = Inl (MangoErr OracleStale)"

definition bank_oracle_price ::
  "fixed_ops \<Rightarrow> Bank \<Rightarrow> pubkey \<Rightarrow> OracleState res \<Rightarrow> (pubkey \<times> OracleState res) option \<Rightarrow> (u64 \<times> u64) option \<Rightarrow> i80f48 res" where
  "bank_oracle_price F b oracle_key oracle_state_unchecked fallback_opt now =
     rbind (require (bk_oracle b = oracle_key) RequireViolated) (\<lambda>_.
     rbind oracle_state_unchecked (\<lambda>primary_state.
       let primary_ok = check_confidence_and_maybe_staleness F primary_state (bk_oracle_config b) now in
       case (is_oracle_error primary_ok, fallback_opt) of
         (True, Some (fallback_key, fallback_oracle_state_unchecked)) \<Rightarrow>
           rbind (require (fallback_oracle b = fallback_key) RequireViolated) (\<lambda>_.
           rbind fallback_oracle_state_unchecked (\<lambda>fallback_state.
           rbind (check_confidence_and_maybe_staleness F fallback_state (bk_oracle_config b) now) (\<lambda>_.
             Inr (os_price fallback_state))))
       | _ \<Rightarrow> rbind primary_ok (\<lambda>_. Inr (os_price primary_state))))"

definition bank_stable_price :: "fixed_ops \<Rightarrow> Bank \<Rightarrow> i80f48 res" where
  "bank_stable_price F b = fx_of_f64 F (sp_stable_price (bk_stable_price_model b))"

definition scaled_init_asset_weight :: "fixed_ops \<Rightarrow> Bank \<Rightarrow> i80f48 \<Rightarrow> i80f48 res" where
  "scaled_init_asset_weight F b price =
     (if fl_eq (deposit_weight_scale_start_quote b) f64_MAX then Inr (init_asset_weight b) else
      rbind (native_deposits F b) (\<lambda>deposits.
        let all_deposits = fl_add binary64 (fx_to_f64 F deposits) (fl_of_int binary64 (int (potential_serum_tokens b)));
            deposits_quote = fl_mul binary64 all_deposits (fx_to_f64 F price)
        in if fl_le deposits_quote (deposit_weight_scale_start_quote b) then Inr (init_asset_weight b)
           else rbind (fx_of_f64 F (fl_div binary64 (deposit_weight_scale_start_quote b) deposits_quote)) (\<lambda>scale.
                  fx_mul F (init_asset_weight b) scale)))"

definition scaled_init_liab_weight :: "fixed_ops \<Rightarrow> Bank \<Rightarrow> i80f48 \<Rightarrow> i80f48 res" where
  "scaled_init_liab_weight F b price =
     (if fl_eq (borrow_weight_scale_start_quote b) f64_MAX then Inr (init_liab_weight b) else
      rbind (native_borrows F b) (\<lambda>borrows.
        let borrows_quote = fl_mul binary64 (fx_to_f64 F borrows) (fx_to_f64 F price)
        in if fl_le borrows_quote (borrow_weight_scale_start_quote b) then Inr (init_liab_weight b)
           else if fl_eq (borrow_weight_scale_start_quote b) (fl_of_int binary64 0) then Inr fx_MAX
           else rbind (fx_of_f64 F (fl_div binary64 borrows_quote (borrow_weight_scale_start_quote b))) (\<lambda>scale.
                  fx_mul F (init_liab_weight b) scale)))"

definition update_potential_serum_tokens :: "Bank \<Rightarrow> u64 \<Rightarrow> u64 \<Rightarrow> Bank res" where
  "update_potential_serum_tokens b old new =
     (if new \<ge> old then
        rbind (chk_u64 (potential_serum_tokens b + (new - old))) (\<lambda>t. Inr (b\<lparr>potential_serum_tokens := t\<rparr>))
      else Inr (b\<lparr>potential_serum_tokens := potential_serum_tokens b - (old - new)\<rparr>))"

section \<open>Limits\<close>

definition update_net_borrows :: "fixed_ops \<Rightarrow> Bank \<Rightarrow> i80f48 \<Rightarrow> u64 \<Rightarrow> Bank res" where
  "update_net_borrows F b native_amount now =
     rbind (chk_u64 (last_net_borrows_window_start_ts b + net_borrow_limit_window_size_ts b)) (\<lambda>window_end.
     rbind (fx_ceil F native_amount) (\<lambda>c.
     rbind (clamp_to_i64 F c) (\<lambda>amount.
       if now \<ge> window_end then
         rbind (require (net_borrow_limit_window_size_ts b \<noteq> 0) Panic) (\<lambda>_.
           Inr (b\<lparr>last_net_borrows_window_start_ts :=
                    now div net_borrow_limit_window_size_ts b * net_borrow_limit_window_size_ts b,
                  net_borrows_in_window := amount\<rparr>))
       else
         rbind (chk_i64 (net_borrows_in_window b + amount)) (\<lambda>n. Inr (b\<lparr>net_borrows_in_window := n\<rparr>)))))"

definition remaining_net_borrows_quote :: "fixed_ops \<Rightarrow> Bank \<Rightarrow> i80f48 \<Rightarrow> i80f48 res" where
  "remaining_net_borrows_quote F b oracle_price =
     (if net_borrows_in_window b < 0 \<or> net_borrow_limit_per_window_quote b < 0 then Inr fx_MAX else
      rbind (bank_stable_price F b) (\<lambda>stable.
      rbind (unwrap (fx_checked_mul_int F (max oracle_price stable) (net_borrows_in_window b))) (\<lambda>net_borrows_quote.
        fx_sub F (fx_of_int F (net_borrow_limit_per_window_quote b)) net_borrows_quote)))"

definition check_net_borrows :: "fixed_ops \<Rightarrow> Bank \<Rightarrow> i80f48 \<Rightarrow> unit res" where
  "check_net_borrows F b oracle_price =
     rbind (remaining_net_borrows_quote F b oracle_price) (\<lambda>remaining_quote.
       if remaining_quote < 0 then Inl (MangoErr BankNetBorrowsLimitReached) else Inr ())"

definition remaining_deposits_until_limit :: "fixed_ops \<Rightarrow> Bank \<Rightarrow> i80f48 res" where
  "remaining_deposits_until_limit F b =
     (if deposit_limit b = 0 then Inr fx_MAX else
      rbind (fx_add F (indexed_deposits b) fx_DELTA) (\<lambda>indexed.
      rbind (fx_mul F (deposit_index b) indexed) (\<lambda>deposits.
      rbind (fx_add F deposits (fx_of_int F (int (potential_serum_tokens b)))) (\<lambda>total.
        fx_sub F (fx_of_int F (int (deposit_limit b))) total))))"

definition check_deposit_and_oo_limit :: "fixed_ops \<Rightarrow> Bank \<Rightarrow> unit res" where
  "check_deposit_and_oo_limit F b =
     (if deposit_limit b = 0 then Inr () else
      rbind (native_deposits F b) (\<lambda>deposits.
      rbind (fx_add F deposits (fx_of_int F (int (potential_serum_tokens b)))) (\<lambda>total.
      rbind (fx_sub F (fx_of_int F (int (deposit_limit b))) total) (\<lambda>remaining.
        if remaining < 0 then Inl (MangoErr BankDepositLimit) else Inr ()))))"

section \<open>Deposits and withdrawals\<close>

definition native :: "fixed_ops \<Rightarrow> TokenPosition \<Rightarrow> Bank \<Rightarrow> i80f48 res" where
  "native F pos b =
     (if indexed_position pos > 0 then fx_mul F (indexed_position pos) (deposit_index b)
      else fx_mul F (indexed_position pos) (borrow_index b))"

definition update_cumulative_interest :: "fixed_ops \<Rightarrow> Bank \<Rightarrow> TokenPosition \<Rightarrow> i80f48 \<Rightarrow> TokenPosition res" where
  "update_cumulative_interest F b pos opening =
     rbind (if opening > 0 then
              rbind (fx_sub F (deposit_index b) (previous_index pos)) (\<lambda>d.
              rbind (fx_mul F d opening) (\<lambda>m.
                Inr (pos\<lparr>cumulative_deposit_interest := fl_add binary64 (cumulative_deposit_interest pos) (fx_to_f64 F m)\<rparr>)))
            else
              rbind (fx_sub F (borrow_index b) (previous_index pos)) (\<lambda>d.
              rbind (fx_mul F d opening) (\<lambda>m.
                Inr (pos\<lparr>cumulative_borrow_interest := fl_sub binary64 (cumulative_borrow_interest pos) (fx_to_f64 F m)\<rparr>)))) (\<lambda>p.
       Inr (p\<lparr>previous_index := if indexed_position p > 0 then deposit_index b else borrow_index b\<rparr>))"

text \<open>The closure \<^verbatim>\<open>div_rounding_up\<close> of \<^verbatim>\<open>deposit_internal\<close>.\<close>

definition div_rounding_up :: "fixed_ops \<Rightarrow> i80f48 \<Rightarrow> i80f48 \<Rightarrow> i80f48 res" where
  "div_rounding_up F nat_amount index =
     rbind (fx_div F nat_amount index) (\<lambda>indexed.
     rbind (fx_mul F indexed index) (\<lambda>m.
       if m < nat_amount then fx_add F indexed fx_DELTA else Inr indexed))"

text \<open>The last step of \<^verbatim>\<open>deposit_internal\<close>: the rest goes to the deposits.\<close>

definition add_to_deposits :: "fixed_ops \<Rightarrow> Bank \<Rightarrow> TokenPosition \<Rightarrow> i80f48 \<Rightarrow> (Bank \<times> TokenPosition \<times> bool) res" where
  "add_to_deposits F b pos native_amount =
     rbind (div_rounding_up F native_amount (deposit_index b)) (\<lambda>indexed_change.
     rbind (fx_add F (indexed_deposits b) indexed_change) (\<lambda>d.
     rbind (fx_add F (indexed_position pos) indexed_change) (\<lambda>i.
       Inr (b\<lparr>indexed_deposits := d\<rparr>, pos\<lparr>indexed_position := i\<rparr>, True))))"

text \<open>The branch for a negative position, from its new indexed value on: pay back borrows only, zero a small
  rest, or pay back all borrows and deposit the rest.\<close>

definition repay :: "fixed_ops \<Rightarrow> Bank \<Rightarrow> TokenPosition \<Rightarrow> i80f48 \<Rightarrow> i80f48 \<Rightarrow> bool \<Rightarrow> (Bank \<times> TokenPosition \<times> bool) res" where
  "repay F b pos indexed_change new_native_position allow_dusting =
     rbind (fx_add F (indexed_position pos) indexed_change) (\<lambda>new_indexed_value.
       if new_indexed_value < 0 then
         rbind (fx_sub F (indexed_borrows b) indexed_change) (\<lambda>r.
           Inr (b\<lparr>indexed_borrows := r\<rparr>, pos\<lparr>indexed_position := new_indexed_value\<rparr>, True))
       else if new_native_position < fx_one \<and> allow_dusting then
         rbind (fx_add F (dust b) new_native_position) (\<lambda>ds.
         rbind (fx_add F (indexed_borrows b) (indexed_position pos)) (\<lambda>r.
           Inr (b\<lparr>dust := ds, indexed_borrows := r\<rparr>, pos\<lparr>indexed_position := 0\<rparr>, False)))
       else
         rbind (fx_add F (indexed_borrows b) (indexed_position pos)) (\<lambda>r.
           add_to_deposits F (b\<lparr>indexed_borrows := r\<rparr>) (pos\<lparr>indexed_position := 0\<rparr>) (max new_native_position 0)))"

definition deposit_internal ::
  "fixed_ops \<Rightarrow> Bank \<Rightarrow> TokenPosition \<Rightarrow> i80f48 \<Rightarrow> bool \<Rightarrow> u64 \<Rightarrow> (Bank \<times> TokenPosition \<times> bool) res" where
  "deposit_internal F b pos native_amount allow_dusting now =
     rbind (require (native_amount \<ge> 0) RequireViolated) (\<lambda>_.
     rbind (native F pos b) (\<lambda>native_position.
       if native_position < 0 then
         rbind (fx_neg F native_amount) (\<lambda>neg_amount.
         rbind (update_net_borrows F b (max native_position neg_amount) now) (\<lambda>b1.
         rbind (fx_add F native_position native_amount) (\<lambda>new_native_position.
         rbind (div_rounding_up F native_amount (borrow_index b1)) (\<lambda>indexed_change.
           repay F b1 pos indexed_change new_native_position allow_dusting))))
       else add_to_deposits F b pos native_amount))"

definition deposit_internal_wrapper ::
  "fixed_ops \<Rightarrow> Bank \<Rightarrow> TokenPosition \<Rightarrow> i80f48 \<Rightarrow> bool \<Rightarrow> u64 \<Rightarrow> (Bank \<times> TokenPosition \<times> bool) res" where
  "deposit_internal_wrapper F b pos native_amount allow_dusting now =
     rbind (deposit_internal F b pos native_amount allow_dusting now) (\<lambda>(b1, pos1, result).
     rbind (update_cumulative_interest F b1 pos1 (indexed_position pos)) (\<lambda>pos2.
       Inr (b1, pos2, result)))"

definition deposit :: "fixed_ops \<Rightarrow> Bank \<Rightarrow> TokenPosition \<Rightarrow> i80f48 \<Rightarrow> u64 \<Rightarrow> (Bank \<times> TokenPosition \<times> bool) res" where
  "deposit F b pos native_amount now = deposit_internal_wrapper F b pos native_amount (\<not> is_in_use pos) now"

definition deposit_with_dusting ::
  "fixed_ops \<Rightarrow> Bank \<Rightarrow> TokenPosition \<Rightarrow> i80f48 \<Rightarrow> u64 \<Rightarrow> (Bank \<times> TokenPosition \<times> bool) res" where
  "deposit_with_dusting F b pos native_amount now =
     rbind (deposit_internal_wrapper F b pos native_amount True now) (\<lambda>(b1, pos1, not_dusted).
       Inr (b1, pos1, not_dusted \<or> is_in_use pos1))"

definition no_loan :: "bool \<Rightarrow> WithdrawResult" where
  "no_loan active = \<lparr>position_is_active = active, loan_origination_fee = 0, loan_amount = 0\<rparr>"

text \<open>The last steps of \<^verbatim>\<open>withdraw_internal\<close>: the rest is borrowed.\<close>

definition add_to_borrows ::
  "fixed_ops \<Rightarrow> Bank \<Rightarrow> TokenPosition \<Rightarrow> i80f48 \<Rightarrow> bool \<Rightarrow> u64 \<Rightarrow> (Bank \<times> TokenPosition \<times> WithdrawResult) res" where
  "add_to_borrows F b pos amount with_loan_origination_fee now =
     rbind (if with_loan_origination_fee then
              rbind (fx_mul F (loan_origination_fee_rate b) amount) (\<lambda>fee.
              rbind (fx_add F (collected_fees_native b) fee) (\<lambda>c.
              rbind (fx_add F amount fee) (\<lambda>a. Inr (b\<lparr>collected_fees_native := c\<rparr>, fee, a))))
            else Inr (b, 0, amount)) (\<lambda>(b1, fee, native_amount).
     rbind (fx_div F native_amount (borrow_index b1)) (\<lambda>indexed_change.
     rbind (fx_add F (indexed_borrows b1) indexed_change) (\<lambda>r.
     rbind (fx_sub F (indexed_position pos) indexed_change) (\<lambda>i.
     rbind (update_net_borrows F (b1\<lparr>indexed_borrows := r\<rparr>) native_amount now) (\<lambda>b2.
       Inr (b2, pos\<lparr>indexed_position := i\<rparr>,
            \<lparr>position_is_active = True, loan_origination_fee = fee, loan_amount = native_amount\<rparr>))))))"

definition withdraw_internal ::
  "fixed_ops \<Rightarrow> Bank \<Rightarrow> TokenPosition \<Rightarrow> i80f48 \<Rightarrow> bool \<Rightarrow> bool \<Rightarrow> u64 \<Rightarrow> (Bank \<times> TokenPosition \<times> WithdrawResult) res" where
  "withdraw_internal F b pos native_amount with_loan_origination_fee allow_dusting now =
     rbind (require (native_amount \<ge> 0) RequireViolated) (\<lambda>_.
     rbind (native F pos b) (\<lambda>native_position.
       if \<not> native_position < 0 then
         rbind (fx_sub F native_position native_amount) (\<lambda>new_native_position.
           if \<not> new_native_position < 0 then
             if new_native_position < fx_one \<and> allow_dusting then
               rbind (fx_add F (dust b) new_native_position) (\<lambda>ds.
               rbind (fx_sub F (indexed_deposits b) (indexed_position pos)) (\<lambda>d.
                 Inr (b\<lparr>dust := ds, indexed_deposits := d\<rparr>, pos\<lparr>indexed_position := 0\<rparr>, no_loan False)))
             else
               rbind (fx_div F native_amount (deposit_index b)) (\<lambda>indexed_change.
               rbind (fx_sub F (indexed_deposits b) indexed_change) (\<lambda>d.
               rbind (fx_sub F (indexed_position pos) indexed_change) (\<lambda>i.
                 Inr (b\<lparr>indexed_deposits := d\<rparr>, pos\<lparr>indexed_position := i\<rparr>, no_loan True))))
           else
             rbind (fx_sub F (indexed_deposits b) (indexed_position pos)) (\<lambda>d.
             rbind (fx_neg F new_native_position) (\<lambda>amount.
               add_to_borrows F (b\<lparr>indexed_deposits := d\<rparr>) (pos\<lparr>indexed_position := 0\<rparr>) amount
                 with_loan_origination_fee now)))
       else add_to_borrows F b pos native_amount with_loan_origination_fee now))"

text \<open>The interest is also brought up to date when the withdrawal is refused.\<close>

definition withdraw_internal_wrapper ::
  "fixed_ops \<Rightarrow> Bank \<Rightarrow> TokenPosition \<Rightarrow> i80f48 \<Rightarrow> bool \<Rightarrow> bool \<Rightarrow> u64 \<Rightarrow> (Bank \<times> TokenPosition \<times> WithdrawResult) res" where
  "withdraw_internal_wrapper F b pos native_amount with_loan_origination_fee allow_dusting now =
     (case withdraw_internal F b pos native_amount with_loan_origination_fee allow_dusting now of
        Inr (b1, pos1, res) \<Rightarrow>
          rbind (update_cumulative_interest F b1 pos1 (indexed_position pos)) (\<lambda>pos2. Inr (b1, pos2, res))
      | Inl RequireViolated \<Rightarrow>
          rbind (update_cumulative_interest F b pos (indexed_position pos)) (\<lambda>_. Inl RequireViolated)
      | Inl e \<Rightarrow> Inl e)"

definition withdraw_without_fee ::
  "fixed_ops \<Rightarrow> Bank \<Rightarrow> TokenPosition \<Rightarrow> i80f48 \<Rightarrow> u64 \<Rightarrow> (Bank \<times> TokenPosition \<times> bool) res" where
  "withdraw_without_fee F b pos native_amount now =
     rbind (withdraw_internal_wrapper F b pos native_amount False (\<not> is_in_use pos) now) (\<lambda>(b1, pos1, res).
       Inr (b1, pos1, position_is_active res))"

definition withdraw_without_fee_with_dusting ::
  "fixed_ops \<Rightarrow> Bank \<Rightarrow> TokenPosition \<Rightarrow> i80f48 \<Rightarrow> u64 \<Rightarrow> (Bank \<times> TokenPosition \<times> bool) res" where
  "withdraw_without_fee_with_dusting F b pos native_amount now =
     rbind (withdraw_internal_wrapper F b pos native_amount False True now) (\<lambda>(b1, pos1, res).
       Inr (b1, pos1, position_is_active res \<or> is_in_use pos1))"

definition withdraw_with_fee ::
  "fixed_ops \<Rightarrow> Bank \<Rightarrow> TokenPosition \<Rightarrow> i80f48 \<Rightarrow> u64 \<Rightarrow> (Bank \<times> TokenPosition \<times> WithdrawResult) res" where
  "withdraw_with_fee F b pos native_amount now =
     withdraw_internal_wrapper F b pos native_amount True (\<not> is_in_use pos) now"

definition withdraw_loan_origination_fee ::
  "fixed_ops \<Rightarrow> Bank \<Rightarrow> TokenPosition \<Rightarrow> i80f48 \<Rightarrow> u64 \<Rightarrow> (Bank \<times> TokenPosition \<times> WithdrawResult) res" where
  "withdraw_loan_origination_fee F b pos already_borrowed_native_amount now =
     rbind (fx_mul F (loan_origination_fee_rate b) already_borrowed_native_amount) (\<lambda>fee.
     rbind (fx_add F (collected_fees_native b) fee) (\<lambda>c.
     rbind (withdraw_internal_wrapper F (b\<lparr>collected_fees_native := c\<rparr>) pos fee False (\<not> is_in_use pos) now) (\<lambda>(b1, pos1, res).
       Inr (b1, pos1, \<lparr>position_is_active = position_is_active res, loan_origination_fee = fee, loan_amount = 0\<rparr>))))"

definition dust_if_possible :: "fixed_ops \<Rightarrow> Bank \<Rightarrow> TokenPosition \<Rightarrow> u64 \<Rightarrow> (Bank \<times> TokenPosition \<times> bool) res" where
  "dust_if_possible F b pos now =
     (if is_in_use pos then Inr (b, pos, True) else
      rbind (native F pos b) (\<lambda>n.
        if n \<ge> 0 \<and> n < fx_one then withdraw_without_fee F b pos 0 now else Inr (b, pos, True)))"

definition change_without_fee ::
  "fixed_ops \<Rightarrow> Bank \<Rightarrow> TokenPosition \<Rightarrow> i80f48 \<Rightarrow> u64 \<Rightarrow> (Bank \<times> TokenPosition \<times> bool) res" where
  "change_without_fee F b pos native_amount now =
     (if native_amount \<ge> 0 then deposit F b pos native_amount now
      else rbind (fx_neg F native_amount) (\<lambda>n. withdraw_without_fee F b pos n now))"

definition change_with_fee ::
  "fixed_ops \<Rightarrow> Bank \<Rightarrow> TokenPosition \<Rightarrow> i80f48 \<Rightarrow> u64 \<Rightarrow> (Bank \<times> TokenPosition \<times> WithdrawResult) res" where
  "change_with_fee F b pos native_amount now =
     (if native_amount \<ge> 0 then
        rbind (deposit F b pos native_amount now) (\<lambda>(b1, pos1, active). Inr (b1, pos1, no_loan active))
      else rbind (fx_neg F native_amount) (\<lambda>n. withdraw_with_fee F b pos n now))"

text \<open>The two halves of \<^verbatim>\<open>checked_transfer_with_fee\<close>, and the whole of it.\<close>

definition transfer_out ::
  "fixed_ops \<Rightarrow> Bank \<Rightarrow> TokenPosition \<Rightarrow> i80f48 \<Rightarrow> u64 \<Rightarrow> (Bank \<times> TokenPosition \<times> WithdrawResult) res" where
  "transfer_out F b source source_amount now =
     (if source_amount \<noteq> 0 then
        rbind (withdraw_with_fee F b source source_amount now) (\<lambda>(b1, source1, res).
        rbind (require (indexed_position source1 \<ge> 0 \<or> \<not> are_borrows_reduce_only b1) (MangoErr TokenInReduceOnlyMode)) (\<lambda>_.
          Inr (b1, source1, res)))
      else Inr (b, source, no_loan True))"

definition transfer_in ::
  "fixed_ops \<Rightarrow> Bank \<Rightarrow> TokenPosition \<Rightarrow> i80f48 \<Rightarrow> u64 \<Rightarrow> (Bank \<times> TokenPosition \<times> bool) res" where
  "transfer_in F b target target_amount now =
     (if target_amount \<noteq> 0 then
        rbind (deposit F b target target_amount now) (\<lambda>(b1, target1, active).
        rbind (require (indexed_position target1 \<le> 0 \<or> \<not> are_deposits_reduce_only b1) (MangoErr TokenInReduceOnlyMode)) (\<lambda>_.
          Inr (b1, target1, active)))
      else Inr (b, target, True))"

definition checked_transfer_with_fee ::
  "fixed_ops \<Rightarrow> Bank \<Rightarrow> TokenPosition \<Rightarrow> i80f48 \<Rightarrow> TokenPosition \<Rightarrow> i80f48 \<Rightarrow> u64 \<Rightarrow> i80f48 \<Rightarrow>
   (Bank \<times> TokenPosition \<times> TokenPosition \<times> TransferResult) res" where
  "checked_transfer_with_fee F b source source_amount target target_amount now oracle_price =
     rbind (transfer_out F b source source_amount now) (\<lambda>(b1, source1, withdraw_result).
     rbind (transfer_in F b1 target target_amount now) (\<lambda>(b2, target1, active).
     rbind (fx_add F (indexed_borrows b) fx_DELTA) (\<lambda>borrows.
     rbind (if indexed_borrows b2 > borrows then check_net_borrows F b2 oracle_price else Inr ()) (\<lambda>_.
     rbind (fx_add F (indexed_deposits b) fx_DELTA) (\<lambda>deposits.
     rbind (if indexed_deposits b2 > deposits then check_deposit_and_oo_limit F b2 else Inr ()) (\<lambda>_.
       Inr (b2, source1, target1,
            \<lparr>source_is_active = position_is_active withdraw_result, target_is_active = active,
             tr_loan_origination_fee = loan_origination_fee withdraw_result,
             tr_loan_amount = loan_amount withdraw_result\<rparr>)))))))"

section \<open>Interest\<close>

definition instantaneous_utilization :: "fixed_ops \<Rightarrow> i80f48 \<Rightarrow> i80f48 \<Rightarrow> i80f48 res" where
  "instantaneous_utilization F native_total_deposits native_total_borrows =
     (if native_total_deposits = 0 then Inr 0
      else rbind (fx_div F native_total_borrows native_total_deposits) (\<lambda>q. Inr (min (max q 0) fx_one)))"

text \<open>A piece of the interest curve: the line from the rate \<open>r\<close> at \<open>u\<close> to \<open>r'\<close> at \<open>u'\<close>.\<close>

definition curve_piece :: "fixed_ops \<Rightarrow> i80f48 \<Rightarrow> i80f48 \<Rightarrow> i80f48 \<Rightarrow> i80f48 \<Rightarrow> i80f48 \<Rightarrow> i80f48 res" where
  "curve_piece F r r' u u' utilization =
     rbind (fx_sub F utilization u) (\<lambda>extra_util.
     rbind (fx_sub F r' r) (\<lambda>dr.
     rbind (fx_sub F u' u) (\<lambda>du.
     rbind (fx_div F dr du) (\<lambda>slope.
     rbind (fx_mul F slope extra_util) (\<lambda>m.
       fx_add F r m)))))"

definition interest_rate_curve_calculator ::
  "fixed_ops \<Rightarrow> i80f48 \<Rightarrow> i80f48 \<Rightarrow> i80f48 \<Rightarrow> i80f48 \<Rightarrow> i80f48 \<Rightarrow> i80f48 \<Rightarrow> i80f48 \<Rightarrow> f64 \<Rightarrow> i80f48 res" where
  "interest_rate_curve_calculator F unclamped zero_rate u0 r0 u1 r1 mx scaling =
     (let utilization = min (max unclamped 0) fx_one in
      rbind (if utilization \<le> u0 then
               rbind (fx_sub F r0 zero_rate) (\<lambda>dr.
               rbind (fx_div F dr u0) (\<lambda>slope.
               rbind (fx_mul F slope utilization) (\<lambda>m.
                 fx_add F zero_rate m)))
             else if utilization \<le> u1 then curve_piece F r0 r1 u0 u1 utilization
             else curve_piece F r1 mx u1 fx_one utilization) (\<lambda>v.
        if fl_eq scaling (fl_of_int binary64 0) then Inr v
        else rbind (fx_of_f64 F scaling) (\<lambda>s. fx_mul F v s)))"

definition compute_interest_rate :: "fixed_ops \<Rightarrow> Bank \<Rightarrow> i80f48 \<Rightarrow> i80f48 res" where
  "compute_interest_rate F b utilization =
     interest_rate_curve_calculator F utilization (zero_util_rate b) (util0 b) (rate0 b) (util1 b) (rate1 b) (max_rate b)
       (interest_curve_scaling b)"

text \<open>An index after the rate has applied for \<open>diff\<close> seconds, and the fees of that time.\<close>

definition accrue :: "fixed_ops \<Rightarrow> i80f48 \<Rightarrow> i80f48 \<Rightarrow> i80f48 \<Rightarrow> i80f48 res" where
  "accrue F x rate diff = rbind (fx_mul F x rate) (\<lambda>m. rbind (fx_mul F m diff) (\<lambda>n. fx_div F n YEAR_I80F48))"

definition compute_index ::
  "fixed_ops \<Rightarrow> Bank \<Rightarrow> i80f48 \<Rightarrow> i80f48 \<Rightarrow> i80f48 \<Rightarrow> (i80f48 \<times> i80f48 \<times> i80f48 \<times> i80f48 \<times> i80f48) res" where
  "compute_index F b indexed_total_deposits indexed_total_borrows diff =
     rbind (fx_mul F (deposit_index b) indexed_total_deposits) (\<lambda>native_total_deposits.
     rbind (fx_mul F (borrow_index b) indexed_total_borrows) (\<lambda>native_total_borrows.
     rbind (instantaneous_utilization F native_total_deposits native_total_borrows) (\<lambda>util.
     rbind (compute_interest_rate F b util) (\<lambda>borrow_rate.
     rbind (fx_mul F borrow_rate util) (\<lambda>deposit_rate.
     rbind (fx_add F borrow_rate (loan_fee_rate b)) (\<lambda>borrow_rate_with_fees.
     rbind (accrue F native_total_borrows (loan_fee_rate b) diff) (\<lambda>borrow_fees.
     rbind (accrue F (borrow_index b) borrow_rate_with_fees diff) (\<lambda>bi.
     rbind (fx_add F bi (borrow_index b)) (\<lambda>new_borrow_index.
     rbind (accrue F (deposit_index b) deposit_rate diff) (\<lambda>di.
     rbind (fx_add F di (deposit_index b)) (\<lambda>new_deposit_index.
       Inr (new_deposit_index, new_borrow_index, borrow_fees, borrow_rate, deposit_rate))))))))))))"

definition compute_new_avg_utilization :: "fixed_ops \<Rightarrow> Bank \<Rightarrow> i80f48 \<Rightarrow> i80f48 \<Rightarrow> u64 \<Rightarrow> i80f48 res" where
  "compute_new_avg_utilization F b indexed_total_deposits indexed_total_borrows now =
     (if now = 0 then Inr 0 else
      rbind (fx_mul F (deposit_index b) indexed_total_deposits) (\<lambda>native_total_deposits.
      rbind (fx_mul F (borrow_index b) indexed_total_borrows) (\<lambda>native_total_borrows.
      rbind (instantaneous_utilization F native_total_deposits native_total_borrows) (\<lambda>util.
      rbind (sub_unsigned (index_last_updated b) (bank_rate_last_updated b)) (\<lambda>previous_avg_time.
      rbind (sub_unsigned now (index_last_updated b)) (\<lambda>diff.
      rbind (sub_unsigned now (bank_rate_last_updated b)) (\<lambda>new_avg_time.
        if new_avg_time = 0 then Inr util else
        rbind (fx_mul F (avg_utilization b) (fx_of_int F (int previous_avg_time))) (\<lambda>old.
        rbind (fx_mul F util (fx_of_int F (int diff))) (\<lambda>new.
        rbind (fx_add F old new) (\<lambda>total.
          fx_div F total (fx_of_int F (int new_avg_time))))))))))))"

definition update_interest_rate_scaling :: "fixed_ops \<Rightarrow> Bank \<Rightarrow> Bank" where
  "update_interest_rate_scaling F b =
     (let zero = fl_of_int binary64 0; one = fl_of_int binary64 1;
          target_util = fl_cast binary64 (interest_target_utilization b);
          avg_util = fl_min (fl_max (fx_to_f64 F (avg_utilization b)) zero) one;
          util_factor = (if fl_less target_util avg_util
                         then fl_div binary64 (fl_sub binary64 avg_util target_util) (fl_sub binary64 one target_util)
                         else fl_div binary64 (fl_sub binary64 avg_util target_util) target_util);
          adjustment = fl_add binary64 one (fl_mul binary64 (fx_to_f64 F (adjustment_factor b)) util_factor)
      in b\<lparr>interest_curve_scaling := fl_max (fl_mul binary64 (interest_curve_scaling b) adjustment) one\<rparr>)"

end
