(* ===== verification/Bank_Effect.thy ===== *)
theory Bank_Effect
  imports Bank
begin

text \<open>
  The effect of the operations of a bank on its totals and on a position, for positive indices.
  Every operation moves the totals of the bank by exactly what it moves the position: the positive part of the
  position is part of the deposits, the negative part of the borrows. Rounding is in favour of the position, by at
  most one unit of the index.
\<close>

section \<open>Indexed amounts\<close>

definition indices_ok :: "Bank \<Rightarrow> bool" where
  "indices_ok b \<longleftrightarrow> 0 < deposit_index b \<and> 0 < borrow_index b \<and> 0 \<le> loan_origination_fee_rate b"

lemma fixed_div_lawD: "fixed_div_law F \<Longrightarrow> 0 \<le> a \<Longrightarrow> 0 < b \<Longrightarrow> fx_div F a b = chk_i128 (a * fx_one div b)"
  by (simp add: fixed_div_law_def)

lemma scaled_up:
  fixes a idx :: int
  assumes "0 < idx"
  shows "a \<le> (a * fx_one div idx + 1) * idx div fx_one"
proof -
  have "a * fx_one < (a * fx_one div idx + 1) * idx"
    using pos_mod_bound [OF assms, of "a * fx_one"] div_mult_mod_eq [of "a * fx_one" idx] unfolding distrib_right by linarith
  then have "a * fx_one div fx_one \<le> (a * fx_one div idx + 1) * idx div fx_one" by (intro zdiv_mono1) auto
  then show ?thesis by simp
qed

lemma scaled_down:
  fixes a idx p :: int
  assumes "0 < idx" "a \<le> p * idx div fx_one"
  shows "a * fx_one div idx \<le> p"
proof -
  have "a * fx_one \<le> (p * idx div fx_one) * fx_one" using assms(2) by simp
  also have "\<dots> \<le> p * idx" by (metis div_mult_mod_eq le_add_same_cancel1 pos_mod_sign zero_less_numeral zero_less_power)
  finally show ?thesis using zdiv_mono1 [of "a * fx_one" "p * idx" idx] assms(1) by simp
qed

lemma mul_index_sign:
  fixes p idx :: int
  assumes "0 < idx"
  shows "p * idx div fx_one < 0 \<longleftrightarrow> p < 0"
  using assms by (simp add: neg_imp_zdiv_neg_iff pos_imp_zdiv_neg_iff mult_less_0_iff)

lemma native_sign:
  assumes "fixed_laws F" "indices_ok b" "native F pos b = Inr n"
  shows "n < 0 \<longleftrightarrow> indexed_position pos < 0"
  using assms mul_index_sign [of "deposit_index b" "indexed_position pos"] mul_index_sign [of "borrow_index b" "indexed_position pos"]
  by (auto simp: native_def fixed_lawsD chk_i128_eq_Inr indices_ok_def split: if_splits)

lemma native_of_deposit:
  assumes "fixed_laws F" "native F pos b = Inr n" "0 \<le> indexed_position pos"
  shows "n = indexed_position pos * deposit_index b div fx_one"
  using assms by (auto simp: native_def fixed_lawsD chk_i128_eq_Inr split: if_splits)

text \<open>The rounded quotient covers the amount and exceeds the exact one by less than a unit.\<close>

lemma div_rounding_up_bounds:
  assumes "fixed_laws F" "fixed_div_law F" "div_rounding_up F a idx = Inr c" "0 \<le> a" "0 < idx"
  shows "a * fx_one div idx \<le> c" "c \<le> a * fx_one div idx + 1" "a \<le> c * idx div fx_one" "0 \<le> c"
proof -
  let ?q = "a * fx_one div idx"
  have "c = ?q \<and> a \<le> ?q * idx div fx_one \<or> c = ?q + 1"
    using assms by (auto simp: div_rounding_up_def rbind_eq_Inr fixed_lawsD fixed_div_lawD chk_i128_eq_Inr fx_DELTA_def split: if_splits)
  moreover have "0 \<le> ?q" using assms by (simp add: pos_imp_zdiv_nonneg_iff)
  ultimately show "?q \<le> c" "c \<le> ?q + 1" "a \<le> c * idx div fx_one" "0 \<le> c" using scaled_up [OF assms(5), of a] by auto
qed

section \<open>Totals\<close>

text \<open>The rest of the bank: everything but the totals, the dust, the fees and the net borrows.\<close>

definition bank_core :: "Bank \<Rightarrow> Bank" where
  "bank_core b = b\<lparr>indexed_deposits := 0, indexed_borrows := 0, dust := 0, collected_fees_native := 0,
                   net_borrows_in_window := 0, last_net_borrows_window_start_ts := 0\<rparr>"

definition same_bank :: "Bank \<Rightarrow> Bank \<Rightarrow> bool" where
  "same_bank b b' \<longleftrightarrow> bank_core b' = bank_core b"

text \<open>The totals move with the position.\<close>

definition moves :: "Bank \<Rightarrow> i80f48 \<Rightarrow> Bank \<Rightarrow> i80f48 \<Rightarrow> bool" where
  "moves b p b' p' \<longleftrightarrow> same_bank b b' \<and>
     indexed_deposits b' - max p' 0 = indexed_deposits b - max p 0 \<and>
     indexed_borrows b' - max (- p') 0 = indexed_borrows b - max (- p) 0"

lemma bank_core_field:
  assumes "same_bank b b'" "\<And>b. f (bank_core b) = f b"
  shows "f b' = f b"
  using assms unfolding same_bank_def by metis

lemma same_bank_fields:
  assumes "same_bank b b'"
  shows "deposit_index b' = deposit_index b"
    "borrow_index b' = borrow_index b"
    "loan_origination_fee_rate b' = loan_origination_fee_rate b"
    "bk_reduce_only b' = bk_reduce_only b"
    "deposit_limit b' = deposit_limit b"
    "potential_serum_tokens b' = potential_serum_tokens b"
    "net_borrow_limit_per_window_quote b' = net_borrow_limit_per_window_quote b"
    "bk_stable_price_model b' = bk_stable_price_model b"
  by (rule bank_core_field [OF assms]; simp add: bank_core_def)+

lemma same_bank_refl: "same_bank b b"
  by (simp add: same_bank_def)

lemma same_bank_trans: "same_bank b b' \<Longrightarrow> same_bank b' b'' \<Longrightarrow> same_bank b b''"
  by (simp add: same_bank_def)

lemma moves_refl: "moves b p b p"
  by (simp add: moves_def same_bank_refl)

lemma moves_trans: "moves b p b' p' \<Longrightarrow> moves b' p' b'' p'' \<Longrightarrow> moves b p b'' p''"
  using same_bank_trans [of b b' b''] unfolding moves_def by auto

lemma update_net_borrows_form:
  assumes "update_net_borrows F b a now = Inr b'"
  obtains l n where "b' = b\<lparr>last_net_borrows_window_start_ts := l, net_borrows_in_window := n\<rparr>"
proof -
  obtain c m where "fx_ceil F a = Inr c" "clamp_to_i64 F c = Inr m"
    "b' = b\<lparr>last_net_borrows_window_start_ts := now div net_borrow_limit_window_size_ts b * net_borrow_limit_window_size_ts b,
            net_borrows_in_window := m\<rparr> \<or>
     (\<exists>n. b' = b\<lparr>net_borrows_in_window := n\<rparr>)"
    using assms unfolding update_net_borrows_def by (elim rbind_InrE) (auto elim!: rbind_InrE split: if_splits)
  moreover have "b\<lparr>net_borrows_in_window := n\<rparr> =
      b\<lparr>last_net_borrows_window_start_ts := last_net_borrows_window_start_ts b, net_borrows_in_window := n\<rparr>" for n by simp
  ultimately show thesis using that by metis
qed

lemma update_net_borrows_same:
  assumes "update_net_borrows F b a now = Inr b'"
  shows "same_bank b b'" "indexed_deposits b' = indexed_deposits b" "indexed_borrows b' = indexed_borrows b"
    "dust b' = dust b" "collected_fees_native b' = collected_fees_native b"
  using assms by (rule update_net_borrows_form; simp add: same_bank_def bank_core_def)+

lemma update_cumulative_interest_keeps:
  assumes "update_cumulative_interest F b pos opening = Inr pos'"
  shows "indexed_position pos' = indexed_position pos" "in_use_count pos' = in_use_count pos"
    "tp_token_index pos' = tp_token_index pos"
  using assms by (auto simp: update_cumulative_interest_def rbind_eq_Inr split: if_splits)

section \<open>Deposits\<close>

lemma add_to_deposits_parts:
  assumes "add_to_deposits F b pos a = Inr (b', pos', r)" "fixed_laws F"
  obtains c where "div_rounding_up F a (deposit_index b) = Inr c" "b' = b\<lparr>indexed_deposits := indexed_deposits b + c\<rparr>"
    "pos' = pos\<lparr>indexed_position := indexed_position pos + c\<rparr>" "r"
proof -
  obtain c where "div_rounding_up F a (deposit_index b) = Inr c" "b' = b\<lparr>indexed_deposits := indexed_deposits b + c\<rparr>"
    "pos' = pos\<lparr>indexed_position := indexed_position pos + c\<rparr> \<and> r"
    using assms(1) unfolding add_to_deposits_def fixed_lawsD [OF assms(2)] by (elim rbind_InrE) (auto simp: chk_i128_eq_Inr)
  then show thesis using that by blast
qed

lemma add_to_deposits_moves:
  assumes "add_to_deposits F b pos a = Inr (b', pos', r)" "fixed_laws F" "fixed_div_law F" "indices_ok b" "0 \<le> a"
    "0 \<le> indexed_position pos"
  shows "moves b (indexed_position pos) b' (indexed_position pos')"
proof -
  obtain c where c: "div_rounding_up F a (deposit_index b) = Inr c" "b' = b\<lparr>indexed_deposits := indexed_deposits b + c\<rparr>"
    "pos' = pos\<lparr>indexed_position := indexed_position pos + c\<rparr>" by (rule add_to_deposits_parts [OF assms(1,2)])
  have "0 \<le> c" using assms c(1) by (auto intro: div_rounding_up_bounds(4) simp: indices_ok_def)
  then show ?thesis using assms(6) by (simp add: c moves_def same_bank_def bank_core_def)
qed

lemma repay_moves:
  assumes "indexed_borrows b1 = r" "p < 0" "p + c < 0"
  shows "moves b1 p (b1\<lparr>indexed_borrows := r - c\<rparr>) (p + c)"
  using assms by (simp add: moves_def same_bank_def bank_core_def)

lemma close_borrow_moves:
  assumes "p < 0"
  shows "moves b1 p (b1\<lparr>indexed_borrows := indexed_borrows b1 + p\<rparr>) 0"
    "moves b1 p (b1\<lparr>dust := ds, indexed_borrows := indexed_borrows b1 + p\<rparr>) 0"
  using assms by (simp_all add: moves_def same_bank_def bank_core_def)

lemma close_deposit_moves:
  assumes "0 \<le> p"
  shows "moves b p (b\<lparr>indexed_deposits := indexed_deposits b - p\<rparr>) 0"
    "moves b p (b\<lparr>dust := ds, indexed_deposits := indexed_deposits b - p\<rparr>) 0"
  using assms by (simp_all add: moves_def same_bank_def bank_core_def)

lemma update_net_borrows_moves: "update_net_borrows F b a now = Inr b' \<Longrightarrow> moves b p b' p"
  by (simp add: moves_def update_net_borrows_same)

lemma moves_indices: "moves b p b' p' \<Longrightarrow> indices_ok b' = indices_ok b"
  using same_bank_fields [of b b'] by (simp add: moves_def indices_ok_def)

lemma repay_moves_all:
  assumes "repay F b pos c n dusting = Inr (b', pos', r)" "fixed_laws F" "fixed_div_law F" "indices_ok b" "indexed_position pos < 0"
  shows "moves b (indexed_position pos) b' (indexed_position pos')"
proof -
  let ?p = "indexed_position pos" and ?b2 = "b\<lparr>indexed_borrows := indexed_borrows b + indexed_position pos\<rparr>"
  note d = assms(1) [unfolded repay_def fixed_lawsD [OF assms(2)]]
  consider "?p + c < 0" | "\<not> ?p + c < 0" "n < fx_one \<and> dusting" | "\<not> ?p + c < 0" "\<not> (n < fx_one \<and> dusting)" by blast
  then show ?thesis
  proof cases
    case 1
    then have "b' = b\<lparr>indexed_borrows := indexed_borrows b - c\<rparr>" "indexed_position pos' = ?p + c"
      using d by (auto elim!: rbind_InrE simp: chk_i128_eq_Inr)
    then show ?thesis using 1 assms(5) by (simp add: repay_moves)
  next
    case 2
    then have "b' = b\<lparr>dust := dust b + n, indexed_borrows := indexed_borrows b + ?p\<rparr>" "indexed_position pos' = 0"
      using d by (auto elim!: rbind_InrE simp: chk_i128_eq_Inr)
    then show ?thesis using assms(5) by (simp add: close_borrow_moves)
  next
    case 3
    then have "add_to_deposits F ?b2 (pos\<lparr>indexed_position := 0\<rparr>) (max n 0) = Inr (b', pos', r)"
      using d by (auto elim!: rbind_InrE simp: chk_i128_eq_Inr)
    moreover note m = close_borrow_moves(1) [OF assms(5), of b]
    ultimately have "moves ?b2 (indexed_position (pos\<lparr>indexed_position := 0\<rparr>)) b' (indexed_position pos')"
      using assms(2-4) moves_indices [OF m] by (intro add_to_deposits_moves) auto
    then show ?thesis using m moves_trans by simp
  qed
qed

text \<open>The two ways through a deposit.\<close>

lemma deposit_internal_cases:
  assumes "deposit_internal F b pos a dusting now = Inr (b', pos', r)" "fixed_laws F"
  obtains n where "0 \<le> a" "native F pos b = Inr n" "0 \<le> n" "add_to_deposits F b pos a = Inr (b', pos', r)"
  | n b1 c where "0 \<le> a" "native F pos b = Inr n" "n < 0" "update_net_borrows F b (max n (- a)) now = Inr b1"
      "div_rounding_up F a (borrow_index b1) = Inr c" "repay F b1 pos c (n + a) dusting = Inr (b', pos', r)"
proof -
  have "\<exists>n. 0 \<le> a \<and> native F pos b = Inr n" using assms(1) unfolding deposit_internal_def by (elim rbind_InrE) simp
  then obtain n where n: "0 \<le> a" "native F pos b = Inr n" by blast
  show thesis
  proof (cases "n < 0")
    case False
    then show ?thesis using assms(1) n that(1) by (simp add: deposit_internal_def)
  next
    case True
    have "\<exists>b1 c. update_net_borrows F b (max n (- a)) now = Inr b1 \<and> div_rounding_up F a (borrow_index b1) = Inr c \<and>
        repay F b1 pos c (n + a) dusting = Inr (b', pos', r)"
      using assms(1) n True unfolding deposit_internal_def fixed_lawsD [OF assms(2)]
      by (auto elim!: rbind_InrE simp: chk_i128_eq_Inr)
    then show ?thesis using that(2) [OF n True] by blast
  qed
qed

lemma deposit_internal_moves:
  assumes "deposit_internal F b pos a dusting now = Inr (b', pos', r)" "fixed_laws F" "fixed_div_law F" "indices_ok b"
  shows "moves b (indexed_position pos) b' (indexed_position pos')"
  using assms(1,2)
proof (cases rule: deposit_internal_cases)
  case (1 n)
  then show ?thesis using assms native_sign [OF assms(2,4) 1(2)] by (intro add_to_deposits_moves) auto
next
  case (2 n b1 c)
  note m = update_net_borrows_moves [OF 2(4), of "indexed_position pos"]
  have "moves b1 (indexed_position pos) b' (indexed_position pos')"
    using assms(2-4) moves_indices [OF m] native_sign [OF assms(2,4) 2(2)] 2(3) by (intro repay_moves_all [OF 2(6)]) auto
  then show ?thesis using m moves_trans by blast
qed

section \<open>Withdrawals\<close>

lemma add_to_borrows_parts:
  assumes "add_to_borrows F b pos a fee now = Inr (b', pos', r)" "fixed_laws F"
  obtains f c where "f = (if fee then loan_origination_fee_rate b * a div fx_one else 0)"
    "fx_div F (a + f) (borrow_index b) = Inr c"
    "update_net_borrows F (b\<lparr>collected_fees_native := collected_fees_native b + f, indexed_borrows := indexed_borrows b + c\<rparr>) (a + f) now = Inr b'"
    "pos' = pos\<lparr>indexed_position := indexed_position pos - c\<rparr>"
    "r = \<lparr>position_is_active = True, loan_origination_fee = f, loan_amount = a + f\<rparr>"
proof (cases fee)
  case True
  then show ?thesis using assms(1) that [of "loan_origination_fee_rate b * a div fx_one"] unfolding add_to_borrows_def
    by (auto elim!: rbind_InrE simp: fixed_lawsD [OF assms(2)] chk_i128_eq_Inr)
next
  case False
  then show ?thesis using assms(1) that [of 0] unfolding add_to_borrows_def
    by (auto elim!: rbind_InrE simp: fixed_lawsD [OF assms(2)] chk_i128_eq_Inr)
qed

lemma add_to_borrows_moves:
  assumes "add_to_borrows F b pos a fee now = Inr (b', pos', r)" "fixed_laws F" "fixed_div_law F" "indices_ok b" "0 \<le> a"
    "indexed_position pos \<le> 0"
  shows "moves b (indexed_position pos) b' (indexed_position pos')"
proof -
  obtain f c where f: "f = (if fee then loan_origination_fee_rate b * a div fx_one else 0)"
    "fx_div F (a + f) (borrow_index b) = Inr c"
    "update_net_borrows F (b\<lparr>collected_fees_native := collected_fees_native b + f, indexed_borrows := indexed_borrows b + c\<rparr>) (a + f) now = Inr b'"
    "pos' = pos\<lparr>indexed_position := indexed_position pos - c\<rparr>" by (rule add_to_borrows_parts [OF assms(1,2)])
  have "0 \<le> f" using assms(4,5) f(1) by (simp add: indices_ok_def pos_imp_zdiv_nonneg_iff)
  then have c: "c = (a + f) * fx_one div borrow_index b" "0 \<le> a + f" "0 < borrow_index b"
    using f(2) assms(3-5) fixed_div_lawD [of F "a + f" "borrow_index b"] chk_i128_eq_Inr [of "(a + f) * fx_one div borrow_index b" c]
    by (simp_all add: indices_ok_def)
  then have "0 \<le> c" by (simp add: pos_imp_zdiv_nonneg_iff)
  then have "moves b (indexed_position pos)
      (b\<lparr>collected_fees_native := collected_fees_native b + f, indexed_borrows := indexed_borrows b + c\<rparr>) (indexed_position pos')"
    using assms(6) by (simp add: f(4) moves_def same_bank_def bank_core_def)
  then show ?thesis using update_net_borrows_moves [OF f(3)] moves_trans by blast
qed

text \<open>The ways in which a withdrawal ends.\<close>

lemma withdraw_internal_cases:
  assumes "withdraw_internal F b pos a fee dusting now = Inr (b', pos', r)" "fixed_laws F"
  obtains n where "0 \<le> a" "native F pos b = Inr n" "n < 0" "add_to_borrows F b pos a fee now = Inr (b', pos', r)"
  | n where "0 \<le> a" "native F pos b = Inr n" "a \<le> n" "n - a < fx_one" "dusting" "r = no_loan False"
      "b' = b\<lparr>dust := dust b + (n - a), indexed_deposits := indexed_deposits b - indexed_position pos\<rparr>"
      "pos' = pos\<lparr>indexed_position := 0\<rparr>"
  | n c where "0 \<le> a" "native F pos b = Inr n" "a \<le> n" "\<not> (n - a < fx_one \<and> dusting)" "r = no_loan True"
      "fx_div F a (deposit_index b) = Inr c" "b' = b\<lparr>indexed_deposits := indexed_deposits b - c\<rparr>"
      "pos' = pos\<lparr>indexed_position := indexed_position pos - c\<rparr>"
  | n where "0 \<le> a" "native F pos b = Inr n" "0 \<le> n" "n < a"
      "add_to_borrows F (b\<lparr>indexed_deposits := indexed_deposits b - indexed_position pos\<rparr>) (pos\<lparr>indexed_position := 0\<rparr>)
         (a - n) fee now = Inr (b', pos', r)"
proof -
  have "\<exists>n. 0 \<le> a \<and> native F pos b = Inr n" using assms(1) unfolding withdraw_internal_def by (elim rbind_InrE) simp
  then obtain n where n: "0 \<le> a" "native F pos b = Inr n" by blast
  note d = assms(1) [unfolded withdraw_internal_def n(2) rbind_Inr fixed_lawsD [OF assms(2)]]
  show thesis
  proof (cases "n < 0")
    case True
    then show ?thesis using d n that(1) by simp
  next
    case False
    note e = d [unfolded if_P [OF False]]
    consider "n < a" | "a \<le> n" "n - a < fx_one \<and> dusting" | "a \<le> n" "\<not> (n - a < fx_one \<and> dusting)" by linarith
    then show ?thesis
    proof cases
      case 1
      then have "add_to_borrows F (b\<lparr>indexed_deposits := indexed_deposits b - indexed_position pos\<rparr>) (pos\<lparr>indexed_position := 0\<rparr>)
         (a - n) fee now = Inr (b', pos', r)" using e by (auto elim!: rbind_InrE simp: chk_i128_eq_Inr)
      then show ?thesis using that(4) [OF n] False 1 by simp
    next
      case 2
      then have "r = no_loan False \<and> pos' = pos\<lparr>indexed_position := 0\<rparr> \<and>
          b' = b\<lparr>dust := dust b + (n - a), indexed_deposits := indexed_deposits b - indexed_position pos\<rparr>"
        using e by (auto elim!: rbind_InrE simp: chk_i128_eq_Inr)
      then show ?thesis using that(2) [OF n] 2 by blast
    next
      case 3
      then have "\<exists>c. fx_div F a (deposit_index b) = Inr c \<and> r = no_loan True \<and> b' = b\<lparr>indexed_deposits := indexed_deposits b - c\<rparr> \<and>
          pos' = pos\<lparr>indexed_position := indexed_position pos - c\<rparr>"
        using e by (auto elim!: rbind_InrE simp: chk_i128_eq_Inr)
      then show ?thesis using that(3) [OF n] 3 by blast
    qed
  qed
qed

lemma withdraw_change:
  assumes "fixed_div_law F" "indices_ok b" "fx_div F a (deposit_index b) = Inr c" "0 \<le> a"
  shows "c = a * fx_one div deposit_index b" "0 \<le> c"
  using assms fixed_div_lawD [of F a "deposit_index b"] chk_i128_eq_Inr [of "a * fx_one div deposit_index b" c]
  by (simp_all add: indices_ok_def pos_imp_zdiv_nonneg_iff)

lemma withdraw_internal_moves:
  assumes "withdraw_internal F b pos a fee dusting now = Inr (b', pos', r)" "fixed_laws F" "fixed_div_law F" "indices_ok b"
  shows "moves b (indexed_position pos) b' (indexed_position pos')"
  using assms(1,2)
proof (cases rule: withdraw_internal_cases)
  case (1 n)
  then show ?thesis using assms native_sign [OF assms(2,4) 1(2)] by (intro add_to_borrows_moves [OF 1(4)]) auto
next
  case (2 n)
  then show ?thesis using native_sign [OF assms(2,4) 2(2)] by (simp add: close_deposit_moves)
next
  case (3 n c)
  have p: "0 \<le> indexed_position pos" using native_sign [OF assms(2,4) 3(2)] 3(1,3) by linarith
  then have "c \<le> indexed_position pos"
    using withdraw_change(1) [OF assms(3,4) 3(6,1)] native_of_deposit [OF assms(2) 3(2) p] 3(3) assms(4)
      scaled_down [of "deposit_index b" a "indexed_position pos"] by (simp only: indices_ok_def)
  then show ?thesis using p 3(7,8) by (simp add: moves_def same_bank_def bank_core_def)
next
  case (4 n)
  let ?b1 = "b\<lparr>indexed_deposits := indexed_deposits b - indexed_position pos\<rparr>"
  have m: "moves b (indexed_position pos) ?b1 0"
    using native_sign [OF assms(2,4) 4(2)] 4(3) by (intro close_deposit_moves(1)) linarith
  have "moves ?b1 (indexed_position (pos\<lparr>indexed_position := 0\<rparr>)) b' (indexed_position pos')"
    using assms(2-4) 4(4) moves_indices [OF m] by (intro add_to_borrows_moves [OF 4(5)]) auto
  then show ?thesis using m moves_trans by simp
qed

section \<open>The operations of the bank\<close>

text \<open>An operation on a position has an effect that the totals of the bank follow.\<close>

definition tracks :: "Bank \<Rightarrow> TokenPosition \<Rightarrow> (Bank \<times> TokenPosition \<times> 'r) res \<Rightarrow> bool" where
  "tracks b pos res \<longleftrightarrow>
     (\<forall>b' pos' r. res = Inr (b', pos', r) \<longrightarrow> moves b (indexed_position pos) b' (indexed_position pos'))"

lemma tracksD: "tracks b pos res \<Longrightarrow> res = Inr (b', pos', r) \<Longrightarrow> moves b (indexed_position pos) b' (indexed_position pos')"
  by (simp add: tracks_def)

lemma tracksI:
  "(\<And>b' pos' r. res = Inr (b', pos', r) \<Longrightarrow> moves b (indexed_position pos) b' (indexed_position pos')) \<Longrightarrow> tracks b pos res"
  by (simp add: tracks_def)

text \<open>What follows an operation may only look at its result.\<close>

lemma tracks_rbind:
  assumes "tracks b pos res" and f: "\<And>b' pos' r x. f (b', pos', r) = Inr x \<Longrightarrow> \<exists>r'. x = (b', pos', r')"
  shows "tracks b pos (rbind res f)"
proof (rule tracksI)
  fix b' pos' r
  assume "rbind res f = Inr (b', pos', r)"
  then obtain b1 pos1 r1 where 1: "res = Inr (b1, pos1, r1)" "f (b1, pos1, r1) = Inr (b', pos', r)"
    by (elim rbind_InrE) (metis prod_cases3)
  then show "moves b (indexed_position pos) b' (indexed_position pos')" using f [OF 1(2)] tracksD [OF assms(1) 1(1)] by simp
qed

lemma deposit_wrapped:
  assumes "deposit_internal_wrapper F b pos a dusting now = Inr (b', pos', r)"
  obtains pos1 where "deposit_internal F b pos a dusting now = Inr (b', pos1, r)" "indexed_position pos' = indexed_position pos1"
    "in_use_count pos' = in_use_count pos1"
proof -
  have "\<exists>pos1. deposit_internal F b pos a dusting now = Inr (b', pos1, r) \<and> update_cumulative_interest F b' pos1 (indexed_position pos) = Inr pos'"
    using assms unfolding deposit_internal_wrapper_def by (elim rbind_InrE) (auto split: prod.splits elim!: rbind_InrE)
  then show thesis using that update_cumulative_interest_keeps by metis
qed

lemma withdraw_wrapped:
  assumes "withdraw_internal_wrapper F b pos a fee dusting now = Inr (b', pos', r)"
  obtains pos1 where "withdraw_internal F b pos a fee dusting now = Inr (b', pos1, r)" "indexed_position pos' = indexed_position pos1"
    "in_use_count pos' = in_use_count pos1"
proof -
  have "\<exists>pos1. withdraw_internal F b pos a fee dusting now = Inr (b', pos1, r) \<and> update_cumulative_interest F b' pos1 (indexed_position pos) = Inr pos'"
  proof (cases "withdraw_internal F b pos a fee dusting now")
    case (Inl e)
    then show ?thesis using assms by (cases e) (auto simp: withdraw_internal_wrapper_def elim!: rbind_InrE)
  next
    case (Inr x)
    then show ?thesis using assms by (cases x) (auto simp: withdraw_internal_wrapper_def elim!: rbind_InrE)
  qed
  then show thesis using that update_cumulative_interest_keeps by metis
qed

lemma wrappers_track:
  assumes "fixed_laws F" "fixed_div_law F" "indices_ok b"
  shows "tracks b pos (deposit_internal_wrapper F b pos a dusting now)"
    "tracks b pos (withdraw_internal_wrapper F b pos a fee dusting now)"
proof -
  show "tracks b pos (deposit_internal_wrapper F b pos a dusting now)"
    by (rule tracksI) (metis assms deposit_wrapped deposit_internal_moves)
  show "tracks b pos (withdraw_internal_wrapper F b pos a fee dusting now)"
    by (rule tracksI) (metis assms withdraw_wrapped withdraw_internal_moves)
qed

lemma tracks_same: "tracks b pos (Inr (b, pos, r))" "tracks b pos (Inl e)"
  by (simp_all add: tracks_def moves_refl)

lemma deposits_track:
  assumes "fixed_laws F" "fixed_div_law F" "indices_ok b"
  shows "tracks b pos (deposit F b pos a now)" "tracks b pos (deposit_with_dusting F b pos a now)"
    "tracks b pos (withdraw_without_fee F b pos a now)" "tracks b pos (withdraw_without_fee_with_dusting F b pos a now)"
    "tracks b pos (withdraw_with_fee F b pos a now)"
  unfolding deposit_def deposit_with_dusting_def withdraw_without_fee_def withdraw_without_fee_with_dusting_def withdraw_with_fee_def
  by (rule wrappers_track [OF assms] | (rule tracks_rbind, rule wrappers_track [OF assms], force))+

lemma tracks_collect:
  assumes "tracks (b\<lparr>collected_fees_native := c\<rparr>) pos res"
  shows "tracks b pos res"
proof (rule tracksI)
  fix b' pos' r
  assume "res = Inr (b', pos', r)"
  then have "moves (b\<lparr>collected_fees_native := c\<rparr>) (indexed_position pos) b' (indexed_position pos')" by (rule tracksD [OF assms])
  then show "moves b (indexed_position pos) b' (indexed_position pos')"
    by (simp add: moves_def same_bank_def bank_core_def)
qed

lemma withdraw_loan_origination_fee_tracks:
  assumes "fixed_laws F" "fixed_div_law F" "indices_ok b"
  shows "tracks b pos (withdraw_loan_origination_fee F b pos a now)"
proof (cases "fx_mul F (loan_origination_fee_rate b) a")
  case (Inr fee)
  show ?thesis
  proof (cases "fx_add F (collected_fees_native b) fee")
    case c: (Inr c)
    have "indices_ok (b\<lparr>collected_fees_native := c\<rparr>)" using assms(3) by (simp add: indices_ok_def)
    then have "tracks b pos (withdraw_internal_wrapper F (b\<lparr>collected_fees_native := c\<rparr>) pos fee False (\<not> is_in_use pos) now)"
      using tracks_collect wrappers_track(2) [OF assms(1,2)] by blast
    then show ?thesis unfolding withdraw_loan_origination_fee_def Inr c rbind_Inr by (rule tracks_rbind) force
  qed (simp add: withdraw_loan_origination_fee_def Inr tracks_same)
qed (simp add: withdraw_loan_origination_fee_def tracks_same)

lemma changes_track:
  assumes "fixed_laws F" "fixed_div_law F" "indices_ok b"
  shows "tracks b pos (dust_if_possible F b pos now)" "tracks b pos (change_without_fee F b pos a now)"
    "tracks b pos (change_with_fee F b pos a now)"
proof -
  note ops = deposits_track [OF assms]
  show "tracks b pos (dust_if_possible F b pos now)"
    by (cases "native F pos b") (auto simp: dust_if_possible_def tracks_same intro: ops)
  show "tracks b pos (change_without_fee F b pos a now)"
    by (cases "fx_neg F a") (auto simp: change_without_fee_def tracks_same intro: ops)
  have "tracks b pos (rbind (deposit F b pos a now) (\<lambda>(b1, pos1, active). Inr (b1, pos1, no_loan active)))"
    by (rule tracks_rbind [OF ops(1)]) force
  then show "tracks b pos (change_with_fee F b pos a now)"
    by (cases "fx_neg F a") (auto simp: change_with_fee_def tracks_same intro: ops)
qed

lemma transfers_track:
  assumes "fixed_laws F" "fixed_div_law F" "indices_ok b"
  shows "tracks b source (transfer_out F b source a now)" "tracks b target (transfer_in F b target a now)"
proof -
  have r: "tracks b p res \<Longrightarrow> tracks b p (rbind res (\<lambda>(b1, p1, r). rbind (require (Q b1 p1) e) (\<lambda>_. Inr (b1, p1, r))))"
    for p and res :: "(Bank \<times> TokenPosition \<times> 'x) res" and Q e
    by (erule tracks_rbind) (auto elim!: rbind_InrE)
  show "tracks b source (transfer_out F b source a now)" "tracks b target (transfer_in F b target a now)"
    unfolding transfer_out_def transfer_in_def by (auto intro!: r deposits_track assms simp: tracks_same)
qed

end
