(* ===== verification/Token_Index.thy ===== *)
theory Token_Index
  imports Bank_Effect Ed25519
begin

text \<open>
  The banks of a token: the list of them in the mint info (\<^verbatim>\<open>state/mint_info.rs\<close>), adding a bank
  (\<^verbatim>\<open>instructions/token_add_bank.rs\<close>), updating the indices and the interest rates of all of them
  (\<^verbatim>\<open>instructions/token_update_index_and_rate.rs\<close>), and socializing a loss over them
  (\<^verbatim>\<open>instructions/token_liq_bankruptcy.rs\<close>).

  The banks are the remaining accounts of the instruction, a list of keys and banks in the order of the
  mint info; their keys are different accounts. The ids of the programs and the discriminators of the two
  instructions, which Anchor generates, are arguments.
\<close>

section \<open>Mint info\<close>

definition MAX_BANKS :: nat where
  "MAX_BANKS = 6"

record MintInfo =
  mi_group :: pubkey
  mi_token_index :: u16
  group_insurance_fund :: u8
  mi_mint :: pubkey
  mi_banks :: "pubkey list"
  mi_vaults :: "pubkey list"
  mi_oracle :: pubkey
  registration_time :: u64
  mi_fallback_oracle :: pubkey

definition pubkey_default :: pubkey where
  "pubkey_default = replicate 32 0"

definition num_banks :: "MintInfo \<Rightarrow> nat" where
  "num_banks mi = (case position (\<lambda>b. b = pubkey_default) (mi_banks mi) of Some i \<Rightarrow> i | None \<Rightarrow> MAX_BANKS)"

definition banks_of :: "MintInfo \<Rightarrow> pubkey list" where
  "banks_of mi = take (num_banks mi) (mi_banks mi)"

definition verify_banks_ais :: "MintInfo \<Rightarrow> pubkey list \<Rightarrow> unit res" where
  "verify_banks_ais mi all_bank_ais = require (all_bank_ais = banks_of mi) (MangoErr SomeError)"

definition mint_info_elligible :: "MintInfo \<Rightarrow> bool" where
  "mint_info_elligible mi \<longleftrightarrow> group_insurance_fund mi = 1"

section \<open>Adding a bank\<close>

definition TokenAddBank_accounts :: "Group \<Rightarrow> pubkey \<Rightarrow> pubkey \<Rightarrow> pubkey \<Rightarrow> Bank \<Rightarrow> MintInfo \<Rightarrow> u16 \<Rightarrow> unit res" where
  "TokenAddBank_accounts grp group_key signer mint existing_bank mi token_index =
     rbind (require (admin grp = signer) RequireViolated) (\<lambda>_.
     rbind (require (is_ix_enabled grp GateTokenAddBank) (MangoErr IxIsDisabled)) (\<lambda>_.
     rbind (require (multiple_banks_supported grp) RequireViolated) (\<lambda>_.
     rbind (require (is_testing grp) RequireViolated) (\<lambda>_.
     rbind (require (bk_token_index existing_bank = token_index \<and> bk_group existing_bank = group_key \<and>
                     bk_mint existing_bank = mint) RequireViolated) (\<lambda>_.
       require (mi_token_index mi = token_index \<and> mi_group mi = group_key \<and> mi_mint mi = mint) RequireViolated)))))"

definition token_add_bank ::
  "Bank \<Rightarrow> MintInfo \<Rightarrow> pubkey \<Rightarrow> pubkey \<Rightarrow> u8 \<Rightarrow> u32 \<Rightarrow> (MintInfo \<times> Bank) res" where
  "token_add_bank existing_bank mi bank_key vault_key bump num =
     rbind (unwrap (position (\<lambda>b. b = pubkey_default) (mi_banks mi))) (\<lambda>free_slot.
     rbind (require (num = free_slot) RequireViolated) (\<lambda>_.
     rbind (require (free_slot < length (mi_vaults mi)) Panic) (\<lambda>_.
       Inr (mi\<lparr>mi_banks := (mi_banks mi)[free_slot := bank_key], mi_vaults := (mi_vaults mi)[free_slot := vault_key]\<rparr>,
            from_existing_bank existing_bank vault_key num bump))))"

section \<open>Updating the index\<close>

record update_ids =
  mango_program_id :: pubkey
  compute_budget_id :: pubkey
  update_discriminator :: bytes
  resilient_discriminator :: bytes

definition whitelisted :: "update_ids \<Rightarrow> Instruction \<Rightarrow> bool res" where
  "whitelisted ids ix =
     (if program_id ix = mango_program_id ids then
        rbind (require (8 \<le> length (ix_data ix)) Panic) (\<lambda>_.
          Inr (take 8 (ix_data ix) = update_discriminator ids \<or> take 8 (ix_data ix) = resilient_discriminator ids \<or>
               program_id ix = compute_budget_id ids))
      else Inr (program_id ix = compute_budget_id ids))"

partial_function (option) whitelist_loop :: "update_ids \<Rightarrow> instructions_sysvar \<Rightarrow> nat \<Rightarrow> unit res option" where
  "whitelist_loop ids sysvar index =
     (case load_instruction_at_checked sysvar index of
        Inr ix \<Rightarrow>
          (case whitelisted ids ix of
             Inl e \<Rightarrow> Some (Inl e)
           | Inr ok \<Rightarrow> if ok then whitelist_loop ids sysvar (index + 1) else Some (Inl (MangoErr SomeError)))
      | Inl InvalidArgument \<Rightarrow> Some (Inr ())
      | Inl OtherProgramError \<Rightarrow> Some (Inl RuntimeError))"

declare whitelist_loop.simps [code]

fun sum_fx :: "fixed_ops \<Rightarrow> i80f48 \<Rightarrow> i80f48 list \<Rightarrow> i80f48 res" where
  "sum_fx F acc [] = Inr acc"
| "sum_fx F acc (x # xs) = rbind (fx_add F acc x) (\<lambda>s. sum_fx F s xs)"

definition set_index :: "u64 \<Rightarrow> i80f48 \<Rightarrow> i80f48 \<Rightarrow> i80f48 \<Rightarrow> StablePriceModel \<Rightarrow> bool \<Rightarrow> Bank \<Rightarrow> Bank" where
  "set_index now di bi util spm maint_shift_done b =
     (let b1 = b\<lparr>index_last_updated := now, deposit_index := di, borrow_index := bi, avg_utilization := util,
                 bk_stable_price_model := spm\<rparr>
      in if maint_shift_done then
           b1\<lparr>maint_asset_weight := maint_weight_shift_asset_target b1, maint_liab_weight := maint_weight_shift_liab_target b1,
              maint_weight_shift_duration_inv := 0, maint_weight_shift_asset_target := 0, maint_weight_shift_liab_target := 0,
              maint_weight_shift_start := 0, maint_weight_shift_end := 0\<rparr>
         else b1)"

text \<open>The first block: the new index and average utilization for every bank. The collected fees go to the first
  bank. The values that are only logged can overflow, too.\<close>

definition update_index :: "fixed_ops \<Rightarrow> Bank \<Rightarrow> Bank list \<Rightarrow> i80f48 \<Rightarrow> i80f48 \<Rightarrow> i80f48 \<Rightarrow> u64 \<Rightarrow> Bank list res" where
  "update_index F some_bank rest total_deposits total_borrows price now =
     rbind (sub_unsigned now (index_last_updated some_bank)) (\<lambda>dt.
     rbind (compute_index F some_bank total_deposits total_borrows (fx_of_int F (int (min dt 3600)))) (\<lambda>(di, bi, borrow_fees, _, _).
     rbind (fx_add F (collected_fees_native some_bank) borrow_fees) (\<lambda>fees.
     rbind (compute_new_avg_utilization F some_bank total_deposits total_borrows now) (\<lambda>util.
     rbind (stable_price_update (bk_stable_price_model some_bank) now (fx_to_f64 F price)) (\<lambda>spm.
     rbind (fx_of_f64 F (sp_stable_price spm)) (\<lambda>_.
     rbind (fx_mul F di total_deposits) (\<lambda>_.
     rbind (fx_mul F bi total_borrows) (\<lambda>_.
       let maint_shift_done = maint_weight_shift_duration_inv some_bank > 0 \<and> now \<ge> maint_weight_shift_end some_bank
       in Inr (map (set_index now di bi util spm maint_shift_done) (some_bank\<lparr>collected_fees_native := fees\<rparr> # rest))))))))))"

text \<open>The setup of the scaling of the interest curve, once.\<close>

definition introduce_scaling :: "fixed_ops \<Rightarrow> Bank \<Rightarrow> Bank res" where
  "introduce_scaling F b =
     (if fl_eq (interest_curve_scaling b) (fl_of_int binary64 0) then
        let scaling = fl_div binary64 (fx_to_f64 F (max_rate b)) (fl_lit binary64 1 2) in
        rbind (fx_of_f64 F (fl_div binary64 (fl_of_int binary64 1) scaling)) (\<lambda>descale_factor.
        rbind (fx_mul F (rate0 b) descale_factor) (\<lambda>r0.
        rbind (fx_mul F (rate1 b) descale_factor) (\<lambda>r1.
        rbind (fx_mul F (max_rate b) descale_factor) (\<lambda>mr.
          Inr (b\<lparr>interest_curve_scaling := scaling, interest_target_utilization := fx_to_f32 F (util0 b),
                 rate0 := r0, rate1 := r1, max_rate := mr\<rparr>)))))
      else Inr b)"

definition set_rates :: "u64 \<Rightarrow> Bank \<Rightarrow> Bank \<Rightarrow> Bank" where
  "set_rates now some_bank b =
     b\<lparr>bank_rate_last_updated := now, interest_curve_scaling := interest_curve_scaling some_bank,
       interest_target_utilization := interest_target_utilization some_bank, rate0 := rate0 some_bank,
       rate1 := rate1 some_bank, max_rate := max_rate some_bank\<rparr>"

text \<open>The second block: new rates, once an hour.\<close>

definition update_rate :: "fixed_ops \<Rightarrow> Bank list \<Rightarrow> u64 \<Rightarrow> Bank list res" where
  "update_rate F banks now =
     (case banks of
        [] \<Rightarrow> Inl Panic
      | some_bank # rest \<Rightarrow>
          rbind (sub_unsigned now (bank_rate_last_updated some_bank)) (\<lambda>dt.
            if dt > 3600 then
              rbind (introduce_scaling F some_bank) (\<lambda>b1.
                let b2 = update_interest_rate_scaling F b1 in Inr (map (set_rates now b2) (b2 # rest)))
            else Inr banks))"

definition TokenUpdateIndexAndRate_accounts :: "Group \<Rightarrow> pubkey \<Rightarrow> MintInfo \<Rightarrow> pubkey \<Rightarrow> unit res" where
  "TokenUpdateIndexAndRate_accounts grp group_key mi oracle_key =
     rbind (require (is_ix_enabled grp GateTokenUpdateIndexAndRate) (MangoErr IxIsDisabled)) (\<lambda>_.
     rbind (require (mi_oracle mi = oracle_key) RequireViolated) (\<lambda>_.
       require (mi_group mi = group_key) RequireViolated))"

text \<open>A panic is not an error that the early exit could catch.\<close>

definition token_update_index_and_rate ::
  "fixed_ops \<Rightarrow> update_ids \<Rightarrow> instructions_sysvar \<Rightarrow> Group \<Rightarrow> pubkey \<Rightarrow> MintInfo \<Rightarrow> pubkey \<Rightarrow> OracleState res \<Rightarrow> bool \<Rightarrow> i64 \<Rightarrow> u64 \<Rightarrow>
   (pubkey \<times> Bank) list \<Rightarrow> Bank list res" where
  "token_update_index_and_rate F ids sysvar grp group_key mi oracle_key oracle_state early_exit_on_invalid_oracle ts slot accounts =
     (let banks = map snd accounts in
      rbind (TokenUpdateIndexAndRate_accounts grp group_key mi oracle_key) (\<lambda>_.
      rbind (case whitelist_loop ids sysvar 0 of None \<Rightarrow> Inl RuntimeError | Some r \<Rightarrow> r) (\<lambda>_.
      rbind (verify_banks_ais mi (map fst accounts)) (\<lambda>_.
      rbind (clock_u64 ts) (\<lambda>now.
      rbind (sum_fx F 0 (map indexed_deposits banks)) (\<lambda>total_deposits.
      rbind (sum_fx F 0 (map indexed_borrows banks)) (\<lambda>total_borrows.
        case banks of
          [] \<Rightarrow> Inl Panic
        | some_bank # rest \<Rightarrow>
            (case bank_oracle_price F some_bank oracle_key oracle_state None (Some (now, slot)) of
               Inr price \<Rightarrow>
                 rbind (update_index F some_bank rest total_deposits total_borrows price now) (\<lambda>banks1.
                   update_rate F banks1 now)
             | Inl e \<Rightarrow> if early_exit_on_invalid_oracle \<and> e \<noteq> Panic then Inr banks else Inl e))))))))"

section \<open>Socializing a loss\<close>

text \<open>The part of \<^verbatim>\<open>token_liq_bankruptcy\<close> that runs when the insurance fund is exhausted and a loss is left: the deposit index
  falls by the loss, and the bankrupt position is credited on the banks one after the other. The loop ends as soon as the
  loss is credited, which leaves the banks behind with the old index.\<close>

fun credit_banks ::
  "fixed_ops \<Rightarrow> i80f48 \<Rightarrow> u64 \<Rightarrow> i80f48 \<Rightarrow> TokenPosition \<Rightarrow> bool \<Rightarrow> Bank list \<Rightarrow> (Bank list \<times> TokenPosition \<times> bool) res" where
  "credit_banks F new_deposit_index now amount_to_credit pos active [] = Inr ([], pos, active)"
| "credit_banks F new_deposit_index now amount_to_credit pos active (bank # banks) =
     (let b = bank\<lparr>deposit_index := new_deposit_index\<rparr> in
      rbind (native_borrows F b) (\<lambda>borrows.
        let amount_for_bank = min amount_to_credit borrows in
        if amount_for_bank > 0 then
          rbind (deposit_with_dusting F b pos amount_for_bank now) (\<lambda>(b', pos', active').
          rbind (fx_sub F amount_to_credit amount_for_bank) (\<lambda>rest.
            if rest \<le> 0 then Inr (b' # banks, pos', active')
            else
              rbind (credit_banks F new_deposit_index now rest pos' active' banks) (\<lambda>(bs, p, act).
                Inr (b' # bs, p, act))))
        else
          rbind (credit_banks F new_deposit_index now amount_to_credit pos active banks) (\<lambda>(bs, p, act).
            Inr (b # bs, p, act))))"

definition socialize_token_loss ::
  "fixed_ops \<Rightarrow> Bank list \<Rightarrow> TokenPosition \<Rightarrow> bool \<Rightarrow> i80f48 \<Rightarrow> i80f48 \<Rightarrow> u64 \<Rightarrow> (i80f48 \<times> Bank list \<times> TokenPosition \<times> bool) res" where
  "socialize_token_loss F banks liqee_liab liqee_liab_active liab_deposit_index remaining_liab_loss now =
     rbind (sum_fx F 0 (map indexed_deposits banks)) (\<lambda>indexed_total_deposits.
     rbind (fx_div F remaining_liab_loss indexed_total_deposits) (\<lambda>per_deposit.
     rbind (fx_sub F liab_deposit_index per_deposit) (\<lambda>new_deposit_index.
     rbind (credit_banks F new_deposit_index now remaining_liab_loss liqee_liab liqee_liab_active banks) (\<lambda>(banks', pos, active).
     rbind (require (indexed_position pos = 0) RequireViolated) (\<lambda>_.
       Inr (new_deposit_index, banks', pos, active))))))"

text \<open>A first bank with enough borrows takes the whole credit, and the other banks keep the index they had.\<close>

lemma credit_banks_stale_index:
  assumes "credit_banks F new_deposit_index now a pos active (bank # banks) = Inr (bs, pos', active')" "fixed_laws F" "0 < a"
    "native_borrows F (bank\<lparr>deposit_index := new_deposit_index\<rparr>) = Inr borrows" "a \<le> borrows"
  shows "tl bs = banks"
  using assms by (auto simp: Let_def min_def fixed_lawsD chk_i128_eq_Inr elim!: rbind_InrE split: prod.splits if_splits)

end
