(* ===== verification/Index_Growth.thy ===== *)
theory Index_Growth
  imports Token_Index
begin

text \<open>
  When an update of the indices cannot lower them: the banks of the token agree on the indices, and the interest curve
  of the first bank rises from a rate that is not negative. The checks of \<^verbatim>\<open>verify\<close> do not ask for a rising
  curve, so this is a hypothesis here and not an invariant of a token.
\<close>

section \<open>Rising curves\<close>

definition curve_ok :: "Bank \<Rightarrow> bool" where
  "curve_ok b \<longleftrightarrow> 0 < util0 b \<and> util0 b < util1 b \<and> util1 b < fx_one \<and> 0 \<le> zero_util_rate b \<and> zero_util_rate b \<le> rate0 b \<and>
     rate0 b \<le> rate1 b \<and> rate1 b \<le> max_rate b \<and> 0 \<le> loan_fee_rate b \<and> fl_le (fl_of_int binary64 1) (interest_curve_scaling b)"

definition agree :: "Bank list \<Rightarrow> bool" where
  "agree bs \<longleftrightarrow> bs \<noteq> [] \<and> curve_ok (hd bs) \<and>
     (\<forall>b \<in> set bs. indices_ok b \<and> deposit_index b = deposit_index (hd bs) \<and> borrow_index b = borrow_index (hd bs))"

section \<open>The indices grow\<close>

text \<open>A number that is not negative converts to one that is not negative.\<close>

definition fixed_float_law :: "fixed_ops \<Rightarrow> bool" where
  "fixed_float_law F \<longleftrightarrow> (\<forall>x a. fl_le (fl_of_int binary64 0) x \<longrightarrow> fx_of_f64 F x = Inr a \<longrightarrow> 0 \<le> a)"

lemma fl_zero_one: "fl_of_int binary64 0 = Fin False 0 (- 1074)" "fl_of_int binary64 1 = Fin False (2 ^ 52) (- 52)"
  by (simp_all add: fl_eval)

lemma signed_pos: "\<not> fl_less (Fin s m e) (Fin False (2 ^ 52) g) \<Longrightarrow> 0 < signed_of s m"
proof (rule ccontr)
  assume a: "\<not> fl_less (Fin s m e) (Fin False (2 ^ 52) g)" "\<not> 0 < signed_of s m"
  then have "signed_of s m * 2 ^ nat (e - min e g) \<le> 0" by (simp add: mult_le_0_iff)
  also have "0 < signed_of False (2 ^ 52) * 2 ^ nat (g - min e g)" by (simp add: signed_of_def)
  finally show False using a(1) unfolding fl_less.simps by blast
qed

lemma fl_ge_one:
  assumes "fl_le (fl_of_int binary64 1) x"
  shows "fl_le (fl_of_int binary64 0) x" "\<not> fl_eq x (fl_of_int binary64 0)"
proof -
  have "fl_le (Fin False 0 g) x \<and> \<not> fl_eq x (Fin False 0 g)" for g
  proof (cases x)
    case (Fin s m e)
    then have "0 < signed_of s m" using assms signed_pos unfolding fl_zero_one fl_le_def by blast
    then show ?thesis using mult_pos_pos [of "signed_of s m" "2 ^ nat (e - min e g)"]
      by (simp add: Fin fl_eq_def fl_le_def signed_of_def [of False] min.commute mult_less_0_iff)
  next
    case (Infty s)
    then show ?thesis using assms by (auto simp: fl_zero_one fl_eq_def fl_le_def)
  next
    case NaN
    then show ?thesis using assms by (simp add: fl_le_def)
  qed
  then show "fl_le (fl_of_int binary64 0) x" "\<not> fl_eq x (fl_of_int binary64 0)" by (simp_all add: fl_zero_one)
qed

lemma fl_max_ge: "\<not> is_nan y \<Longrightarrow> fl_le y (fl_max x y)"
  by (simp add: fl_max_def fl_le_def)

lemma scaling_ge_one: "fl_le (fl_of_int binary64 1) (interest_curve_scaling (update_interest_rate_scaling F b))"
  by (simp add: update_interest_rate_scaling_def Let_def fl_max_ge fl_zero_one)

text \<open>The curve is not negative.\<close>

lemma fx_div_nonneg: "fixed_div_law F \<Longrightarrow> 0 \<le> a \<Longrightarrow> 0 < b \<Longrightarrow> fx_div F a b = Inr c \<Longrightarrow> 0 \<le> c"
  using chk_i128_eq_Inr [of "a * fx_one div b" c] by (simp add: fixed_div_lawD pos_imp_zdiv_nonneg_iff)

lemma fx_mul_nonneg: "fixed_laws F \<Longrightarrow> 0 \<le> a \<Longrightarrow> 0 \<le> b \<Longrightarrow> fx_mul F a b = Inr c \<Longrightarrow> 0 \<le> c"
  using chk_i128_eq_Inr [of "a * b div fx_one" c] by (simp add: fixed_lawsD pos_imp_zdiv_nonneg_iff)

lemma curve_piece_nonneg:
  assumes "curve_piece F r r' u u' x = Inr v" "fixed_laws F" "fixed_div_law F" "0 \<le> r" "r \<le> r'" "u < u'" "u \<le> x"
  shows "0 \<le> v"
proof -
  obtain slope m where "fx_div F (r' - r) (u' - u) = Inr slope" "fx_mul F slope (x - u) = Inr m" "v = r + m"
    using assms(1) unfolding curve_piece_def fixed_lawsD(1,2) [OF assms(2)] by (elim rbind_InrE) (simp add: chk_i128_eq_Inr)
  moreover have "0 \<le> slope" using fx_div_nonneg [OF assms(3)] calculation(1) assms(5,6) by (simp add: fx_div_nonneg [OF assms(3), of "r' - r" "u' - u"])
  moreover have "0 \<le> m" using fx_mul_nonneg [OF assms(2) calculation(4) _ calculation(2)] assms(7) by simp
  ultimately show ?thesis using assms(4) by simp
qed

lemma first_piece_nonneg:
  assumes "rbind (fx_sub F r' r) (\<lambda>dr. rbind (fx_div F dr u) (\<lambda>slope. rbind (fx_mul F slope x) (\<lambda>m. fx_add F r m))) = Inr v"
    "fixed_laws F" "fixed_div_law F" "0 \<le> r" "r \<le> r'" "0 < u" "0 \<le> x"
  shows "0 \<le> v"
proof -
  obtain slope m where "fx_div F (r' - r) u = Inr slope" "fx_mul F slope x = Inr m" "v = r + m"
    using assms(1) unfolding fixed_lawsD(1,2) [OF assms(2)] by (elim rbind_InrE) (simp add: chk_i128_eq_Inr)
  moreover have "0 \<le> slope" using fx_div_nonneg [OF assms(3) _ assms(6) calculation(1)] assms(5) by simp
  moreover have "0 \<le> m" using fx_mul_nonneg [OF assms(2) calculation(4) assms(7) calculation(2)] .
  ultimately show ?thesis using assms(4) by simp
qed

lemma interest_rate_nonneg:
  assumes "compute_interest_rate F b x = Inr rate" "fixed_laws F" "fixed_div_law F" "fixed_float_law F" "curve_ok b"
  shows "0 \<le> rate"
proof -
  let ?u = "min (max x 0) fx_one"
  have c: "0 < util0 b" "util0 b < util1 b" "util1 b < fx_one" "0 \<le> zero_util_rate b" "zero_util_rate b \<le> rate0 b"
    "rate0 b \<le> rate1 b" "rate1 b \<le> max_rate b" "0 \<le> loan_fee_rate b" "fl_le (fl_of_int binary64 1) (interest_curve_scaling b)"
    using assms(5) by (simp_all add: curve_ok_def)
  obtain v where v: "(if ?u \<le> util0 b then
               rbind (fx_sub F (rate0 b) (zero_util_rate b)) (\<lambda>dr.
               rbind (fx_div F dr (util0 b)) (\<lambda>slope.
               rbind (fx_mul F slope ?u) (\<lambda>m.
                 fx_add F (zero_util_rate b) m)))
             else if ?u \<le> util1 b then curve_piece F (rate0 b) (rate1 b) (util0 b) (util1 b) ?u
             else curve_piece F (rate1 b) (max_rate b) (util1 b) fx_one ?u) = Inr v"
    and r: "(if fl_eq (interest_curve_scaling b) (fl_of_int binary64 0) then Inr v
         else rbind (fx_of_f64 F (interest_curve_scaling b)) (\<lambda>s. fx_mul F v s)) = Inr rate"
    using assms(1) unfolding compute_interest_rate_def interest_rate_curve_calculator_def Let_def by (elim rbind_InrE)
  obtain s where s: "fx_of_f64 F (interest_curve_scaling b) = Inr s" "fx_mul F v s = Inr rate"
    using r [unfolded if_not_P [OF fl_ge_one(2) [OF c(9)]]] by (elim rbind_InrE)
  have "0 \<le> v"
  proof (cases "?u \<le> util0 b")
    case True
    have u: "0 \<le> ?u" by simp
    show ?thesis by (rule first_piece_nonneg [OF v [unfolded if_P [OF True]] assms(2,3) _ _ _ u]) (use c in linarith)+
  next
    case False
    note v1 = v [unfolded if_not_P [OF False]]
    show ?thesis
    proof (cases "?u \<le> util1 b")
      case True
      show ?thesis by (rule curve_piece_nonneg [OF v1 [unfolded if_P [OF True]] assms(2,3)]) (use c False in linarith)+
    next
      case upper: False
      show ?thesis by (rule curve_piece_nonneg [OF v1 [unfolded if_not_P [OF upper]] assms(2,3)]) (use c upper in linarith)+
    qed
  qed
  moreover have "0 \<le> s" using assms(4) s(1) fl_ge_one(1) c unfolding fixed_float_law_def by blast
  ultimately show ?thesis using fx_mul_nonneg [OF assms(2)] s(2) by blast
qed

lemma YEAR_pos: "0 < YEAR_I80F48"
  by (simp add: YEAR_I80F48_def)

lemma accrue_nonneg:
  assumes "accrue F x rate d = Inr y" "fixed_laws F" "fixed_div_law F" "0 \<le> x" "0 \<le> rate" "0 \<le> d"
  shows "0 \<le> y"
proof -
  obtain m n where "fx_mul F x rate = Inr m" "fx_mul F m d = Inr n" "fx_div F n YEAR_I80F48 = Inr y"
    using assms(1) unfolding accrue_def by (elim rbind_InrE)
  then show ?thesis using fx_mul_nonneg [OF assms(2)] fx_div_nonneg [OF assms(3)] assms(4-6) by (meson YEAR_pos)
qed

lemma utilization_nonneg: "instantaneous_utilization F d r = Inr u \<Longrightarrow> 0 \<le> u"
  by (auto simp: instantaneous_utilization_def elim!: rbind_InrE split: if_splits)

lemma compute_index_grows:
  assumes "compute_index F b deposits borrows d = Inr (di, bi, fees, rates)" "fixed_laws F" "fixed_div_law F" "fixed_float_law F"
    "curve_ok b" "indices_ok b" "0 \<le> d"
  shows "deposit_index b \<le> di" "borrow_index b \<le> bi"
proof -
  obtain nd nb u rate dr x y where 1: "instantaneous_utilization F nd nb = Inr u" "compute_interest_rate F b u = Inr rate"
    "fx_mul F rate u = Inr dr" "accrue F (borrow_index b) (rate + loan_fee_rate b) d = Inr x" "accrue F (deposit_index b) dr d = Inr y"
    "bi = x + borrow_index b" "di = y + deposit_index b"
    using assms(1) unfolding compute_index_def fixed_lawsD(1) [OF assms(2)] by (elim rbind_InrE) (simp add: chk_i128_eq_Inr)
  have r: "0 \<le> rate" using interest_rate_nonneg [OF 1(2) assms(2-5)] .
  have "0 \<le> dr" using fx_mul_nonneg [OF assms(2) r utilization_nonneg [OF 1(1)] 1(3)] .
  then have "0 \<le> x" "0 \<le> y"
    using accrue_nonneg [OF 1(4) assms(2,3)] accrue_nonneg [OF 1(5) assms(2,3)] r assms(5-7) by (auto simp: curve_ok_def indices_ok_def)
  then show "deposit_index b \<le> di" "borrow_index b \<le> bi" using 1 by auto
qed

section \<open>The update\<close>

text \<open>What an update keeps of the banks, and that the indices do not fall.\<close>

definition updated :: "Bank list \<Rightarrow> Bank list \<Rightarrow> bool" where
  "updated bs bs' \<longleftrightarrow> agree bs' \<and> map indexed_deposits bs' = map indexed_deposits bs \<and> map indexed_borrows bs' = map indexed_borrows bs \<and>
     deposit_index (hd bs) \<le> deposit_index (hd bs') \<and> borrow_index (hd bs) \<le> borrow_index (hd bs')"

lemma updated_refl: "agree bs \<Longrightarrow> updated bs bs"
  by (simp add: updated_def)

lemma updated_trans: "updated bs bs' \<Longrightarrow> updated bs' bs'' \<Longrightarrow> updated bs bs''"
  by (auto simp: updated_def)

lemma set_index_fields:
  "deposit_index (set_index now di bi util spm sd b) = di" "borrow_index (set_index now di bi util spm sd b) = bi"
  "indexed_deposits (set_index now di bi util spm sd b) = indexed_deposits b"
  "indexed_borrows (set_index now di bi util spm sd b) = indexed_borrows b"
  "indices_ok (set_index now di bi util spm sd b) \<longleftrightarrow> 0 < di \<and> 0 < bi \<and> 0 \<le> loan_origination_fee_rate b"
  "curve_ok (set_index now di bi util spm sd b) = curve_ok b"
  by (simp_all add: set_index_def Let_def indices_ok_def curve_ok_def)

lemma update_index_updated:
  assumes "update_index F b rest deposits borrows price now = Inr bs'" "fixed_laws F" "fixed_div_law F" "fixed_float_law F" "agree (b # rest)"
  shows "updated (b # rest) bs'"
proof -
  obtain dt di bi fees rates c util spm sd where 1: "compute_index F b deposits borrows (fx_of_int F (int (min dt 3600))) = Inr (di, bi, fees, rates)"
    and bs': "bs' = map (set_index now di bi util spm sd) (b\<lparr>collected_fees_native := c\<rparr> # rest)"
    using assms(1) unfolding update_index_def Let_def
    by (elim rbind_InrE) (clarsimp split: prod.splits simp del: list.map, elim rbind_InrE, simp del: list.map, blast)
  have ok: "curve_ok b" "\<And>b'. b' \<in> set (b # rest) \<Longrightarrow> indices_ok b'" using assms(5) by (auto simp: agree_def)
  have "0 \<le> fx_of_int F (int (min dt 3600))" using fixed_lawsD(6) [OF assms(2)] by simp
  then have g: "deposit_index b \<le> di" "borrow_index b \<le> bi" using compute_index_grows [OF 1 assms(2-4) ok(1)] ok(2) by simp_all
  then have "0 < di" "0 < bi" using ok(2) [of b] by (simp_all add: indices_ok_def)
  moreover have "curve_ok (b\<lparr>collected_fees_native := c\<rparr>)" using ok(1) by (simp add: curve_ok_def)
  moreover have "\<And>b'. b' \<in> set (b # rest) \<Longrightarrow> 0 \<le> loan_origination_fee_rate b'" using ok(2) by (simp add: indices_ok_def)
  ultimately have "agree bs'" by (auto simp: bs' agree_def set_index_fields)
  then show ?thesis using g by (simp add: updated_def bs' set_index_fields)
qed

lemma introduce_scaling_id: "curve_ok b \<Longrightarrow> introduce_scaling F b = Inr b"
  using fl_ge_one(2) by (simp add: introduce_scaling_def curve_ok_def)

lemma set_rates_fields:
  "deposit_index (set_rates now sb b) = deposit_index b" "borrow_index (set_rates now sb b) = borrow_index b"
  "indexed_deposits (set_rates now sb b) = indexed_deposits b" "indexed_borrows (set_rates now sb b) = indexed_borrows b"
  "indices_ok (set_rates now sb b) = indices_ok b"
  by (simp_all add: set_rates_def indices_ok_def)

lemma update_scaling_fields:
  "deposit_index (update_interest_rate_scaling F b) = deposit_index b" "borrow_index (update_interest_rate_scaling F b) = borrow_index b"
  "indexed_deposits (update_interest_rate_scaling F b) = indexed_deposits b"
  "indexed_borrows (update_interest_rate_scaling F b) = indexed_borrows b"
  "indices_ok (update_interest_rate_scaling F b) = indices_ok b"
  "curve_ok b \<Longrightarrow> curve_ok (update_interest_rate_scaling F b)"
  using scaling_ge_one [of F b] by (simp_all add: update_interest_rate_scaling_def Let_def indices_ok_def curve_ok_def)

lemma update_rate_updated:
  assumes "update_rate F bs now = Inr bs'" "agree bs"
  shows "updated bs bs'"
proof (cases bs)
  case Nil
  then show ?thesis using assms(2) by (simp add: agree_def)
next
  case (Cons b rest)
  let ?b = "update_interest_rate_scaling F b"
  have ok: "curve_ok b" "curve_ok ?b" using assms(2) update_scaling_fields(6) by (simp_all add: Cons agree_def)
  have "bs' = bs \<or> bs' = map (set_rates now ?b) (?b # rest)"
    using assms(1) by (auto simp: update_rate_def Cons introduce_scaling_id [OF ok(1)] Let_def elim!: rbind_InrE split: if_splits)
  moreover have "curve_ok (set_rates now ?b ?b)" using ok(2) by (simp add: set_rates_def curve_ok_def)
  then have "updated bs (map (set_rates now ?b) (?b # rest))"
    using assms(2) by (simp add: Cons updated_def agree_def set_rates_fields update_scaling_fields)
  ultimately show ?thesis using updated_refl [OF assms(2)] by auto
qed

lemma token_update_updated:
  assumes "token_update_index_and_rate F ids sysvar grp group_key mi oracle_key oracle_state early ts slot accounts = Inr bs'"
    "fixed_laws F" "fixed_div_law F" "fixed_float_law F" "agree (map snd accounts)"
  shows "updated (map snd accounts) bs'"
proof -
  obtain b rest where bs: "map snd accounts = b # rest" using assms(5) by (cases "map snd accounts") (auto simp: agree_def)
  obtain now d r where c: "(case bank_oracle_price F b oracle_key oracle_state None (Some (now, slot)) of
               Inr price \<Rightarrow> rbind (update_index F b rest d r price now) (\<lambda>banks1. update_rate F banks1 now)
             | Inl e \<Rightarrow> if early \<and> e \<noteq> Panic then Inr (b # rest) else Inl e) = Inr bs'"
    using assms(1) unfolding token_update_index_and_rate_def Let_def bs list.case by (elim rbind_InrE)
  show ?thesis
  proof (cases "bank_oracle_price F b oracle_key oracle_state None (Some (now, slot))")
    case (Inl e)
    then show ?thesis using c updated_refl [OF assms(5)] by (simp add: bs split: if_splits)
  next
    case (Inr price)
    then obtain bs1 where 1: "update_index F b rest d r price now = Inr bs1" "update_rate F bs1 now = Inr bs'"
      using c by (auto elim!: rbind_InrE)
    have u: "updated (b # rest) bs1" using update_index_updated [OF 1(1) assms(2-4)] assms(5) by (simp add: bs)
    then have "updated bs1 bs'" using update_rate_updated [OF 1(2)] by (simp add: updated_def)
    then show ?thesis unfolding bs by (rule updated_trans [OF u])
  qed
qed

lemma fixed_reference_float_law: "fixed_float_law fixed_reference"
proof -
  have "0 \<le> signed_of s (if e \<ge> - 48 then m * 2 ^ nat (e + 48) else round_half_even m (2 ^ nat (- 48 - e)))"
    if "fl_le (Fin False 0 (- 1074)) (Fin s m e)" for s m e
  proof (cases "s \<and> m \<noteq> 0")
    case True
    then have "signed_of s m * 2 ^ nat (e - min e (- 1074)) < 0" by (simp add: signed_of_def mult_less_0_iff)
    then show ?thesis using that by (simp add: fl_le_def signed_of_def [of False])
  qed (auto simp: signed_of_def round_half_even_def)
  then show ?thesis unfolding fixed_float_law_def fl_zero_one
    by (auto simp: fixed_reference_def chk_i128_eq_Inr split: ieee.splits)
qed

end
