(* ===== verification/Token_Machine.thy ===== *)
theory Token_Machine
  imports Index_Growth State_Machine
begin

text \<open>
  A token as a state machine: its banks, and the positions in it. A step is an operation of a bank on a position, a
  transfer between two positions, an update of the indices and rates, a loss that is socialized over the deposits, a new
  bank, a change of the parameters of the banks, or a position that is opened or closed. The invariant says that the totals over
  the banks are the totals over the positions. It needs positive indices, which the two steps that set an index
  have as a premise.
\<close>

section \<open>Steps\<close>

record TokenState =
  tk_mint_info :: MintInfo
  tk_banks :: "(pubkey \<times> Bank) list"
  tk_positions :: "TokenPosition list"

inductive bank_op :: "fixed_ops \<Rightarrow> Bank \<Rightarrow> TokenPosition \<Rightarrow> Bank \<Rightarrow> TokenPosition \<Rightarrow> bool" for F b pos where
  deposit: "deposit F b pos a now = Inr (b', pos', r) \<Longrightarrow> bank_op F b pos b' pos'"
| deposit_with_dusting: "deposit_with_dusting F b pos a now = Inr (b', pos', r) \<Longrightarrow> bank_op F b pos b' pos'"
| withdraw_without_fee: "withdraw_without_fee F b pos a now = Inr (b', pos', r) \<Longrightarrow> bank_op F b pos b' pos'"
| withdraw_without_fee_with_dusting: "withdraw_without_fee_with_dusting F b pos a now = Inr (b', pos', r) \<Longrightarrow> bank_op F b pos b' pos'"
| withdraw_with_fee: "withdraw_with_fee F b pos a now = Inr (b', pos', w) \<Longrightarrow> bank_op F b pos b' pos'"
| withdraw_loan_origination_fee: "withdraw_loan_origination_fee F b pos a now = Inr (b', pos', w) \<Longrightarrow> bank_op F b pos b' pos'"
| dust_if_possible: "dust_if_possible F b pos now = Inr (b', pos', r) \<Longrightarrow> bank_op F b pos b' pos'"
| change_without_fee: "change_without_fee F b pos a now = Inr (b', pos', r) \<Longrightarrow> bank_op F b pos b' pos'"
| change_with_fee: "change_with_fee F b pos a now = Inr (b', pos', w) \<Longrightarrow> bank_op F b pos b' pos'"

text \<open>Bank \<open>i\<close> becomes \<open>b\<close>, and position \<open>j\<close> becomes \<open>pos\<close>.\<close>

definition set_bank :: "TokenState \<Rightarrow> nat \<Rightarrow> Bank \<Rightarrow> TokenState" where
  "set_bank S i b = S\<lparr>tk_banks := (tk_banks S)[i := (fst (tk_banks S ! i), b)]\<rparr>"

definition set_position :: "TokenState \<Rightarrow> nat \<Rightarrow> TokenPosition \<Rightarrow> TokenState" where
  "set_position S j pos = S\<lparr>tk_positions := (tk_positions S)[j := pos]\<rparr>"

abbreviation bank_at :: "TokenState \<Rightarrow> nat \<Rightarrow> Bank" where
  "bank_at S i \<equiv> snd (tk_banks S ! i)"

text \<open>A change of parameters that \<^verbatim>\<open>verify\<close> accepts, as by \<^verbatim>\<open>token_edit\<close>, keeps the indices and the totals.\<close>

definition edited :: "Bank \<Rightarrow> Bank \<Rightarrow> bool" where
  "edited b b' \<longleftrightarrow> bank_verify b' = Inr () \<and> deposit_index b' = deposit_index b \<and> borrow_index b' = borrow_index b \<and>
     indexed_deposits b' = indexed_deposits b \<and> indexed_borrows b' = indexed_borrows b"

inductive token_step :: "fixed_ops \<Rightarrow> update_ids \<Rightarrow> TokenState \<Rightarrow> TokenState \<Rightarrow> bool" for F ids where
  operate: "i < length (tk_banks S) \<Longrightarrow> j < length (tk_positions S) \<Longrightarrow> bank_op F (bank_at S i) (tk_positions S ! j) b' pos' \<Longrightarrow>
     token_step F ids S (set_position (set_bank S i b') j pos')"
| transfer: "i < length (tk_banks S) \<Longrightarrow> j < length (tk_positions S) \<Longrightarrow> k < length (tk_positions S) \<Longrightarrow> j \<noteq> k \<Longrightarrow>
     checked_transfer_with_fee F (bank_at S i) (tk_positions S ! j) a (tk_positions S ! k) a' now price = Inr (b', source, target, r) \<Longrightarrow>
     token_step F ids S (set_position (set_position (set_bank S i b') j source) k target)"
| update: "token_update_index_and_rate F ids sysvar grp group_key (tk_mint_info S) oracle_key oracle_state early ts slot (tk_banks S) = Inr banks \<Longrightarrow>
     (\<forall>b \<in> set banks. 0 < deposit_index b \<and> 0 < borrow_index b) \<Longrightarrow>
     token_step F ids S (S\<lparr>tk_banks := zip (map fst (tk_banks S)) banks\<rparr>)"
| socialize: "j < length (tk_positions S) \<Longrightarrow>
     socialize_token_loss F (map snd (tk_banks S)) (tk_positions S ! j) active di loss now = Inr (di', banks, pos', active') \<Longrightarrow> 0 < di' \<Longrightarrow>
     token_step F ids S (set_position (S\<lparr>tk_banks := zip (map fst (tk_banks S)) banks\<rparr>) j pos')"
| edit: "list_all2 edited (map snd (tk_banks S)) banks \<Longrightarrow> token_step F ids S (S\<lparr>tk_banks := zip (map fst (tk_banks S)) banks\<rparr>)"
| add_bank: "i < length (tk_banks S) \<Longrightarrow> TokenAddBank_accounts grp group_key signer mint (bank_at S i) (tk_mint_info S) token_index = Inr () \<Longrightarrow>
     token_add_bank (bank_at S i) (tk_mint_info S) bank_key vault_key bump num = Inr (mi', b) \<Longrightarrow>
     token_step F ids S (S\<lparr>tk_mint_info := mi', tk_banks := tk_banks S @ [(bank_key, b)]\<rparr>)"
| open_position: "token_step F ids S (S\<lparr>tk_positions := tk_positions S @ [TokenPosition_default\<lparr>tp_token_index := token_index\<rparr>]\<rparr>)"
| close_position: "j < length (tk_positions S) \<Longrightarrow> indexed_position (tk_positions S ! j) = 0 \<Longrightarrow>
     token_step F ids S (S\<lparr>tk_positions := take j (tk_positions S) @ drop (Suc j) (tk_positions S)\<rparr>)"

section \<open>The invariant\<close>

text \<open>Sums over lists.\<close>

lemma sum_list_set:
  fixes f :: "'a \<Rightarrow> int"
  shows "i < length xs \<Longrightarrow> sum_list (map f (xs[i := x])) = sum_list (map f xs) - f (xs ! i) + f x"
  by (induction xs arbitrary: i) (auto split: nat.split)

lemma sum_list_remove:
  fixes f :: "'a \<Rightarrow> int"
  shows "j < length xs \<Longrightarrow> sum_list (map f (take j xs @ drop (Suc j) xs)) = sum_list (map f xs) - f (xs ! j)"
  by (induction xs arbitrary: j) (auto simp: less_Suc_eq_0_disj)

definition deposits_of :: "TokenPosition \<Rightarrow> int" where
  "deposits_of pos = max (indexed_position pos) 0"

definition borrows_of :: "TokenPosition \<Rightarrow> int" where
  "borrows_of pos = max (- indexed_position pos) 0"

definition totals_match :: "TokenState \<Rightarrow> bool" where
  "totals_match S \<longleftrightarrow>
     sum_list (map (indexed_deposits \<circ> snd) (tk_banks S)) = sum_list (map deposits_of (tk_positions S)) \<and>
     sum_list (map (indexed_borrows \<circ> snd) (tk_banks S)) = sum_list (map borrows_of (tk_positions S))"

definition token_inv :: "TokenState \<Rightarrow> bool" where
  "token_inv S \<longleftrightarrow> totals_match S \<and> (\<forall>b \<in> snd ` set (tk_banks S). indices_ok b)"

section \<open>Steps on a bank\<close>

lemma bank_op_moves:
  assumes "bank_op F b pos b' pos'" "fixed_laws F" "fixed_div_law F" "indices_ok b"
  shows "moves b (indexed_position pos) b' (indexed_position pos')"
  using assms(1)
  by cases (blast dest: tracksD [OF deposits_track(1) [OF assms(2-4)]] tracksD [OF deposits_track(2) [OF assms(2-4)]]
      tracksD [OF deposits_track(3) [OF assms(2-4)]] tracksD [OF deposits_track(4) [OF assms(2-4)]]
      tracksD [OF deposits_track(5) [OF assms(2-4)]] tracksD [OF withdraw_loan_origination_fee_tracks [OF assms(2-4)]]
      tracksD [OF changes_track(1) [OF assms(2-4)]] tracksD [OF changes_track(2) [OF assms(2-4)]] tracksD [OF changes_track(3) [OF assms(2-4)]])+


lemma transfer_parts:
  assumes "checked_transfer_with_fee F b source a target a' now price = Inr (b', source', target', r)" "fixed_laws F"
  obtains b1 w active where "transfer_out F b source a now = Inr (b1, source', w)" "transfer_in F b1 target a' now = Inr (b', target', active)"
    "indexed_borrows b + 1 < indexed_borrows b' \<longrightarrow> check_net_borrows F b' price = Inr ()"
    "indexed_deposits b + 1 < indexed_deposits b' \<longrightarrow> check_deposit_and_oo_limit F b' = Inr ()"
proof -
  have "\<exists>b1 w active. transfer_out F b source a now = Inr (b1, source', w) \<and> transfer_in F b1 target a' now = Inr (b', target', active) \<and>
      (indexed_borrows b + 1 < indexed_borrows b' \<longrightarrow> check_net_borrows F b' price = Inr ()) \<and>
      (indexed_deposits b + 1 < indexed_deposits b' \<longrightarrow> check_deposit_and_oo_limit F b' = Inr ())"
    using assms(1) unfolding checked_transfer_with_fee_def fixed_lawsD [OF assms(2)]
    by (elim rbind_InrE) (auto split: prod.splits elim!: rbind_InrE simp: chk_i128_eq_Inr fx_DELTA_def)
  then show thesis using that by blast
qed

lemma transfer_moves:
  assumes "checked_transfer_with_fee F b source a target a' now price = Inr (b', source', target', r)" "fixed_laws F" "fixed_div_law F" "indices_ok b"
  obtains b1 where "moves b (indexed_position source) b1 (indexed_position source')"
    "moves b1 (indexed_position target) b' (indexed_position target')"
proof -
  obtain b1 w active where 1: "transfer_out F b source a now = Inr (b1, source', w)" "transfer_in F b1 target a' now = Inr (b', target', active)"
    by (rule transfer_parts [OF assms(1,2)])
  have m: "moves b (indexed_position source) b1 (indexed_position source')" by (rule tracksD [OF transfers_track(1) [OF assms(2-4)] 1(1)])
  then have "indices_ok b1" using assms(4) by (simp add: moves_indices)
  then show thesis using that m tracksD [OF transfers_track(2) [OF assms(2,3)] 1(2)] by blast
qed

section \<open>Steps on the state\<close>

text \<open>The totals of the banks over those of the positions, as integers that steps have to keep.\<close>

definition excess :: "TokenState \<Rightarrow> int \<times> int" where
  "excess S =
     (sum_list (map (indexed_deposits \<circ> snd) (tk_banks S)) - sum_list (map deposits_of (tk_positions S)),
      sum_list (map (indexed_borrows \<circ> snd) (tk_banks S)) - sum_list (map borrows_of (tk_positions S)))"

lemma totals_match_excess: "totals_match S \<longleftrightarrow> excess S = (0, 0)"
  by (simp add: totals_match_def excess_def)

lemma set_excess:
  assumes "i < length (tk_banks S)" "j < length (tk_positions S)" "moves (bank_at S i) (indexed_position (tk_positions S ! j)) b' (indexed_position pos')"
  shows "excess (set_position (set_bank S i b') j pos') = excess S"
  using assms by (simp add: excess_def set_position_def set_bank_def sum_list_set moves_def deposits_of_def borrows_of_def)

lemma set_bank_twice: "i < length (tk_banks S) \<Longrightarrow> set_bank (set_bank S i b) i b' = set_bank S i b'"
  by (simp add: set_bank_def)

lemma set_bank_position: "set_bank (set_position S j pos) i b = set_position (set_bank S i b) j pos"
  by (simp add: set_bank_def set_position_def)

lemma transfer_excess:
  assumes "i < length (tk_banks S)" "j < length (tk_positions S)" "k < length (tk_positions S)" "j \<noteq> k"
    "moves (bank_at S i) (indexed_position (tk_positions S ! j)) b1 (indexed_position source)"
    "moves b1 (indexed_position (tk_positions S ! k)) b' (indexed_position target)"
  shows "excess (set_position (set_position (set_bank S i b') j source) k target) = excess S"
proof -
  let ?S = "set_position (set_bank S i b1) j source"
  have "excess (set_position (set_bank ?S i b') k target) = excess ?S"
    using assms by (intro set_excess) (simp_all add: set_position_def set_bank_def)
  also have "\<dots> = excess S" by (rule set_excess [OF assms(1,2,5)])
  finally show ?thesis by (simp add: set_bank_position set_bank_twice assms(1))
qed

section \<open>Steps on all banks\<close>

text \<open>The parts of a bank that the totals rest on.\<close>

definition bank_books :: "Bank \<Rightarrow> int \<times> int \<times> int" where
  "bank_books b = (indexed_deposits b, indexed_borrows b, loan_origination_fee_rate b)"

lemma update_index_books:
  assumes "update_index F b rest d r price now = Inr bs'"
  shows "map bank_books bs' = map bank_books (b # rest)"
proof -
  obtain di bi util spm sd c where "bs' = map (set_index now di bi util spm sd) (b\<lparr>collected_fees_native := c\<rparr> # rest)"
    using assms unfolding update_index_def Let_def
    by (elim rbind_InrE) (clarsimp split: prod.splits simp del: list.map, elim rbind_InrE, simp del: list.map, blast)
  then show ?thesis by (simp add: bank_books_def set_index_def Let_def)
qed

lemma introduce_scaling_books: "introduce_scaling F b = Inr b' \<Longrightarrow> bank_books b' = bank_books b"
  by (auto simp: introduce_scaling_def Let_def bank_books_def elim!: rbind_InrE split: if_splits)

lemma update_rate_books:
  assumes "update_rate F bs now = Inr bs'"
  shows "map bank_books bs' = map bank_books bs"
proof (cases bs)
  case (Cons b rest)
  have "bs' = bs \<or> (\<exists>b1 b2. introduce_scaling F b = Inr b1 \<and> b2 = update_interest_rate_scaling F b1 \<and> bs' = map (set_rates now b2) (b2 # rest))"
    using assms by (auto simp: update_rate_def Cons Let_def elim!: rbind_InrE split: if_splits)
  then show ?thesis
    using introduce_scaling_books by (auto simp: Cons bank_books_def set_rates_def update_interest_rate_scaling_def Let_def)
qed (use assms in \<open>simp add: update_rate_def\<close>)

lemma token_update_books:
  assumes "token_update_index_and_rate F ids sysvar grp group_key mi oracle_key oracle_state early ts slot accounts = Inr bs'"
  shows "map bank_books bs' = map bank_books (map snd accounts)"
proof (cases "map snd accounts")
  case Nil
  then show ?thesis using assms by (auto simp: token_update_index_and_rate_def Let_def elim!: rbind_InrE)
next
  case (Cons b rest)
  obtain now d r where c: "(case bank_oracle_price F b oracle_key oracle_state None (Some (now, slot)) of
               Inr price \<Rightarrow> rbind (update_index F b rest d r price now) (\<lambda>banks1. update_rate F banks1 now)
             | Inl e \<Rightarrow> if early \<and> e \<noteq> Panic then Inr (b # rest) else Inl e) = Inr bs'"
    using assms unfolding token_update_index_and_rate_def Let_def Cons list.case by (elim rbind_InrE)
  show ?thesis
  proof (cases "bank_oracle_price F b oracle_key oracle_state None (Some (now, slot))")
    case (Inl e)
    then show ?thesis using c by (auto simp: Cons split: if_splits)
  next
    case (Inr price)
    then obtain bs1 where "update_index F b rest d r price now = Inr bs1" "update_rate F bs1 now = Inr bs'"
      using c by (auto elim!: rbind_InrE)
    then show ?thesis using update_index_books update_rate_books by (simp add: Cons)
  qed
qed

text \<open>Crediting a position on several banks moves their totals by what it moves the position.\<close>

definition moves_all :: "Bank list \<Rightarrow> i80f48 \<Rightarrow> Bank list \<Rightarrow> i80f48 \<Rightarrow> bool" where
  "moves_all bs p bs' p' \<longleftrightarrow> length bs' = length bs \<and>
     sum_list (map indexed_deposits bs') - max p' 0 = sum_list (map indexed_deposits bs) - max p 0 \<and>
     sum_list (map indexed_borrows bs') - max (- p') 0 = sum_list (map indexed_borrows bs) - max (- p) 0 \<and>
     (\<forall>b \<in> set bs'. indices_ok b)"

lemma moves_all_Cons:
  assumes "moves b p b' p1" "moves_all bs p1 bs' p'" "indices_ok b"
  shows "moves_all (b # bs) p (b' # bs') p'"
  using assms moves_indices [OF assms(1)] by (auto simp: moves_all_def moves_def)

lemma moves_all_set_index:
  "moves_all (b\<lparr>deposit_index := di\<rparr> # bs) p bs' p' \<Longrightarrow> moves_all (b # bs) p bs' p'"
  by (simp add: moves_all_def)

lemma credit_banks_step:
  assumes "credit_banks F di now a pos active (bank # bs) = Inr (bs', pos', active')"
  shows "(\<exists>bs1. credit_banks F di now a pos active bs = Inr (bs1, pos', active') \<and> bs' = bank\<lparr>deposit_index := di\<rparr> # bs1) \<or>
    (\<exists>m b1 pos1 act1 rest bs1. deposit_with_dusting F (bank\<lparr>deposit_index := di\<rparr>) pos m now = Inr (b1, pos1, act1) \<and> bs' = b1 # bs1 \<and>
       (bs1 = bs \<and> pos' = pos1 \<or> credit_banks F di now rest pos1 act1 bs = Inr (bs1, pos', active')))"
proof -
  let ?b = "bank\<lparr>deposit_index := di\<rparr>"
  obtain borrows where nb: "native_borrows F ?b = Inr borrows" using assms by (auto simp: Let_def elim!: rbind_InrE)
  note d = assms [unfolded credit_banks.simps Let_def nb rbind_Inr]
  show ?thesis
  proof (cases "0 < min a borrows")
    case True
    obtain r where r: "deposit_with_dusting F ?b pos (min a borrows) now = Inr r"
      using d unfolding if_P [OF True] by (elim rbind_InrE)
    obtain b1 pos1 act1 where "r = (b1, pos1, act1)" by (cases r)
    with r have dep: "deposit_with_dusting F ?b pos (min a borrows) now = Inr (b1, pos1, act1)" by simp
    note e = d [unfolded if_P [OF True] dep rbind_Inr case_prod_conv]
    have "\<exists>rest bs1. bs' = b1 # bs1 \<and> (bs1 = bs \<and> pos' = pos1 \<or> credit_banks F di now rest pos1 act1 bs = Inr (bs1, pos', active'))"
      using e by (elim rbind_InrE) (auto elim!: rbind_InrE split: prod.splits if_splits)
    then show ?thesis using dep by blast
  next
    case False
    show ?thesis using d unfolding if_not_P [OF False] by (elim rbind_InrE) (auto split: prod.splits)
  qed
qed

lemma credit_banks_moves:
  "credit_banks F di now a pos active bs = Inr (bs', pos', active') \<Longrightarrow> fixed_laws F \<Longrightarrow> fixed_div_law F \<Longrightarrow> 0 < di \<Longrightarrow>
     (\<forall>b \<in> set bs. indices_ok b) \<Longrightarrow> moves_all bs (indexed_position pos) bs' (indexed_position pos')"
proof (induction bs arbitrary: a pos active bs')
  case Nil
  then show ?case by (simp add: moves_all_def)
next
  case (Cons bank bs)
  let ?b = "bank\<lparr>deposit_index := di\<rparr>"
  have ok: "indices_ok ?b" "\<forall>b \<in> set bs. indices_ok b" using Cons.prems(4,5) by (simp_all add: indices_ok_def)
  note IH = Cons.IH [OF _ Cons.prems(2-4) ok(2)]
  show ?case using credit_banks_step [OF Cons.prems(1)]
  proof (elim disjE exE conjE)
    fix bs1 assume c: "credit_banks F di now a pos active bs = Inr (bs1, pos', active')" "bs' = ?b # bs1"
    show ?thesis unfolding c(2) by (rule moves_all_set_index [where di = di], rule moves_all_Cons [OF moves_refl IH [OF c(1)] ok(1)])
  next
    fix m b1 pos1 act1 bs1
    assume dep: "deposit_with_dusting F ?b pos m now = Inr (b1, pos1, act1)" and bs': "bs' = b1 # bs1" and "bs1 = bs" "pos' = pos1"
    then have m: "moves_all bs (indexed_position pos1) bs1 (indexed_position pos')" using ok(2) by (simp add: moves_all_def)
    show ?thesis unfolding bs'
      by (rule moves_all_set_index [where di = di], rule moves_all_Cons [OF tracksD [OF deposits_track(2) [OF Cons.prems(2,3) ok(1)] dep] m ok(1)])
  next
    fix m b1 pos1 act1 rest bs1
    assume dep: "deposit_with_dusting F ?b pos m now = Inr (b1, pos1, act1)" and bs': "bs' = b1 # bs1"
      and c: "credit_banks F di now rest pos1 act1 bs = Inr (bs1, pos', active')"
    show ?thesis unfolding bs'
      by (rule moves_all_set_index [where di = di], rule moves_all_Cons [OF tracksD [OF deposits_track(2) [OF Cons.prems(2,3) ok(1)] dep] IH [OF c] ok(1)])
  qed
qed

section \<open>The machine\<close>

lemma bank_at_ok: "token_inv S \<Longrightarrow> i < length (tk_banks S) \<Longrightarrow> indices_ok (bank_at S i)"
  by (simp add: token_inv_def)

lemma set_bank_inv:
  assumes "token_inv S" "i < length (tk_banks S)" "same_bank (bank_at S i) b'" "excess S' = excess S" "tk_banks S' = tk_banks (set_bank S i b')"
  shows "token_inv S'"
proof -
  have "indices_ok b'" using bank_at_ok [OF assms(1,2)] same_bank_fields [OF assms(3)] by (simp add: indices_ok_def)
  then have "\<forall>b \<in> snd ` set (tk_banks S'). indices_ok b"
    using assms(1) set_update_subset_insert [of "tk_banks S" i "(fst (tk_banks S ! i), b')"]
    unfolding assms(5) set_bank_def by (auto simp: token_inv_def)
  then show ?thesis using assms(1,4) by (simp add: token_inv_def totals_match_excess)
qed

lemma set_banks_inv:
  assumes "token_inv S" "map (\<lambda>b. (indexed_deposits b, indexed_borrows b)) bs = map (\<lambda>b. (indexed_deposits b, indexed_borrows b)) (map snd (tk_banks S))"
    "\<forall>b \<in> set bs. indices_ok b"
  shows "token_inv (S\<lparr>tk_banks := zip (map fst (tk_banks S)) bs\<rparr>)"
proof -
  let ?S = "S\<lparr>tk_banks := zip (map fst (tk_banks S)) bs\<rparr>"
  have l: "length bs = length (tk_banks S)" using assms(2) by (auto dest: map_eq_imp_length_eq)
  then have b: "map snd (tk_banks ?S) = bs" by simp
  have "map indexed_deposits bs = map indexed_deposits (map snd (tk_banks S))" "map indexed_borrows bs = map indexed_borrows (map snd (tk_banks S))"
    using arg_cong [OF assms(2), of "map fst"] arg_cong [OF assms(2), of "map snd"] by (simp_all add: o_def)
  then have "excess ?S = excess S" unfolding excess_def map_map [symmetric] b by simp
  moreover have "\<forall>b \<in> snd ` set (tk_banks ?S). indices_ok b" using assms(3) b by (metis list.set_map)
  ultimately show ?thesis using assms(1) by (simp add: token_inv_def totals_match_excess)
qed

lemma positions_inv:
  assumes "token_inv S" "sum_list (map deposits_of ps) = sum_list (map deposits_of (tk_positions S))"
    "sum_list (map borrows_of ps) = sum_list (map borrows_of (tk_positions S))"
  shows "token_inv (S\<lparr>tk_positions := ps\<rparr>)"
  using assms by (simp add: token_inv_def totals_match_def)

lemma update_inv:
  assumes "token_inv S" "map bank_books bs = map bank_books (map snd (tk_banks S))" "\<forall>b \<in> set bs. 0 < deposit_index b \<and> 0 < borrow_index b"
  shows "token_inv (S\<lparr>tk_banks := zip (map fst (tk_banks S)) bs\<rparr>)"
proof (rule set_banks_inv [OF assms(1)])
  have m: "map (f \<circ> bank_books) bs = map (f \<circ> bank_books) (map snd (tk_banks S))" for f :: "int \<times> int \<times> int \<Rightarrow> 'x"
    using arg_cong [OF assms(2), of "map f"] by simp
  show "map (\<lambda>b. (indexed_deposits b, indexed_borrows b)) bs = map (\<lambda>b. (indexed_deposits b, indexed_borrows b)) (map snd (tk_banks S))"
    using m [of "\<lambda>(d, r, _). (d, r)"] by (simp add: o_def bank_books_def)
  have "set (map loan_origination_fee_rate bs) = set (map loan_origination_fee_rate (map snd (tk_banks S)))"
    using m [of "\<lambda>(_, _, f). f"] by (simp only: o_def bank_books_def case_prod_conv)
  moreover have "\<forall>x \<in> set (map loan_origination_fee_rate (map snd (tk_banks S))). 0 \<le> x"
    using assms(1) by (auto simp: token_inv_def indices_ok_def)
  ultimately show "\<forall>b \<in> set bs. indices_ok b" using assms(3) unfolding indices_ok_def by (metis imageI list.set_map)
qed

lemma edit_inv:
  assumes "token_inv S" "list_all2 edited (map snd (tk_banks S)) bs"
  shows "token_inv (S\<lparr>tk_banks := zip (map fst (tk_banks S)) bs\<rparr>)"
proof (rule set_banks_inv [OF assms(1)])
  have l: "length bs = length (tk_banks S)" and e: "\<And>i. i < length bs \<Longrightarrow> edited (bank_at S i) (bs ! i)"
    using assms(2) by (auto simp: list_all2_conv_all_nth)
  show "map (\<lambda>b. (indexed_deposits b, indexed_borrows b)) bs = map (\<lambda>b. (indexed_deposits b, indexed_borrows b)) (map snd (tk_banks S))"
    using l e by (auto intro!: nth_equalityI simp: edited_def)
  have "indices_ok (bs ! i)" if "i < length bs" for i
    using e [OF that] bank_at_ok [OF assms(1)] that l
    by (auto simp: edited_def indices_ok_def bank_verify_def verify_ranges_def Let_def rbind_eq_Inr)
  then show "\<forall>b \<in> set bs. indices_ok b" by (auto simp: in_set_conv_nth)
qed

lemma socialize_inv:
  assumes "token_inv S" "j < length (tk_positions S)" "fixed_laws F" "fixed_div_law F" "0 < di'"
    "socialize_token_loss F (map snd (tk_banks S)) (tk_positions S ! j) active di loss now = Inr (di', bs, pos', active')"
  shows "token_inv (set_position (S\<lparr>tk_banks := zip (map fst (tk_banks S)) bs\<rparr>) j pos')"
proof -
  let ?S = "set_position (S\<lparr>tk_banks := zip (map fst (tk_banks S)) bs\<rparr>) j pos'"
  have "\<exists>act. credit_banks F di' now loss (tk_positions S ! j) active (map snd (tk_banks S)) = Inr (bs, pos', act)"
    using assms(6) unfolding socialize_token_loss_def by (elim rbind_InrE) (auto split: prod.splits elim!: rbind_InrE)
  then have m: "moves_all (map snd (tk_banks S)) (indexed_position (tk_positions S ! j)) bs (indexed_position pos')"
    using credit_banks_moves assms(1,3-5) by (force simp: token_inv_def)
  then have b: "map snd (tk_banks ?S) = bs" by (simp add: moves_all_def set_position_def)
  have "excess ?S = excess S"
    unfolding excess_def map_map [symmetric] b using m assms(2)
    by (simp add: set_position_def sum_list_set moves_all_def deposits_of_def borrows_of_def)
  moreover have "\<forall>b \<in> snd ` set (tk_banks ?S). indices_ok b" using m b unfolding moves_all_def by (metis list.set_map)
  ultimately show ?thesis using assms(1) by (simp add: token_inv_def totals_match_excess)
qed

lemma add_bank_inv:
  assumes "token_inv S" "i < length (tk_banks S)" "b = from_existing_bank (bank_at S i) v n bump"
  shows "token_inv (S\<lparr>tk_mint_info := mi', tk_banks := tk_banks S @ [(key, b)]\<rparr>)"
proof -
  have "indices_ok b" "indexed_deposits b = 0" "indexed_borrows b = 0"
    using bank_at_ok [OF assms(1,2)] by (simp_all add: assms(3) from_existing_bank_def indices_ok_def)
  then show ?thesis using assms(1) by (auto simp: token_inv_def totals_match_def)
qed

lemma token_step_inv:
  assumes "token_step F ids S S'" "fixed_laws F" "fixed_div_law F" "token_inv S"
  shows "token_inv S'"
  using assms(1)
proof cases
  case (operate i j b' pos')
  have m: "moves (bank_at S i) (indexed_position (tk_positions S ! j)) b' (indexed_position pos')"
    using bank_op_moves [OF operate(4) assms(2,3) bank_at_ok [OF assms(4) operate(2)]] .
  then have "same_bank (bank_at S i) b'" by (simp add: moves_def)
  then show ?thesis unfolding operate(1)
    by (rule set_bank_inv [OF assms(4) operate(2)]) (simp_all add: set_excess [OF operate(2,3) m], simp add: set_position_def)
next
  case (transfer i j k a a' now price b' source target r)
  obtain b1 where m: "moves (bank_at S i) (indexed_position (tk_positions S ! j)) b1 (indexed_position source)"
    "moves b1 (indexed_position (tk_positions S ! k)) b' (indexed_position target)"
    by (rule transfer_moves [OF transfer(6) assms(2,3) bank_at_ok [OF assms(4) transfer(2)]])
  then have "same_bank (bank_at S i) b'" using same_bank_trans by (auto simp: moves_def)
  then show ?thesis unfolding transfer(1)
    by (rule set_bank_inv [OF assms(4) transfer(2)]) (simp_all add: transfer_excess [OF transfer(2-5) m], simp add: set_position_def)
next
  case (update sysvar grp group_key oracle_key oracle_state early ts slot banks)
  then show ?thesis using token_update_books [OF update(2)] update_inv [OF assms(4)] by simp
next
  case (socialize j active di loss now di' banks pos' active')
  then show ?thesis using socialize_inv [OF assms(4) socialize(2) assms(2,3) socialize(4,3)] by simp
next
  case (edit banks)
  then show ?thesis using edit_inv [OF assms(4)] by simp
next
  case (add_bank i grp group_key signer mint token_index bank_key vault_key bump num mi' b)
  have "b = from_existing_bank (bank_at S i) vault_key num bump"
    using add_bank(4) unfolding token_add_bank_def by (elim rbind_InrE) simp
  then show ?thesis unfolding add_bank(1) by (rule add_bank_inv [OF assms(4) add_bank(2)])
next
  case (open_position token_index)
  then show ?thesis using assms(4) by (simp add: positions_inv deposits_of_def borrows_of_def TokenPosition_default_def)
next
  case (close_position j)
  then have "deposits_of (tk_positions S ! j) = 0" "borrows_of (tk_positions S ! j) = 0" by (simp_all add: deposits_of_def borrows_of_def)
  then show ?thesis unfolding close_position(1)
    using sum_list_remove [OF close_position(2), of deposits_of] sum_list_remove [OF close_position(2), of borrows_of]
    by (intro positions_inv [OF assms(4)]) linarith+
qed

interpretation token_machine: state_machine "token_step F ids" "\<lambda>S. fixed_laws F \<and> fixed_div_law F \<and> token_inv S" for F ids
  by unfold_locales (use token_step_inv in blast)

end
