(* ===== verification/Token_Properties.thy ===== *)
theory Token_Properties
  imports Token_Machine
begin

text \<open>
  Properties of banks and of the tokens they make up, with a bank and a token to evaluate them on.
\<close>

section \<open>A sample\<close>

definition sample_bank :: Bank where
  "sample_bank =
     \<lparr>bk_group = [], bk_name = [], bk_mint = [], bk_vault = [], bk_oracle = [],
      bk_oracle_config = sample_oracle_config,
      bk_stable_price_model = \<lparr>sp_stable_price = Fin False 0 (- 1074), last_update_timestamp = 0, delay_prices = [], delay_accumulator_price = Fin False 0 (- 1074),
        delay_accumulator_time = 0, delay_interval_seconds = 60, delay_growth_limit = Fin False 0 (- 149), stable_growth_limit = Fin False 0 (- 149),
        last_delay_interval_index = 0, reset_on_nonzero_price = 0\<rparr>,
      deposit_index = 3 * fx_one, borrow_index = 4 * fx_one, indexed_deposits = 0, indexed_borrows = 0, index_last_updated = 0,
      bank_rate_last_updated = 0, avg_utilization = 0, adjustment_factor = 0, util0 = fx_one div 2, rate0 = fx_one div 16,
      util1 = fx_one * 3 div 4, rate1 = fx_one div 8, max_rate = fx_one, collected_fees_native = 0,
      loan_origination_fee_rate = fx_one div 1024, loan_fee_rate = 0, maint_asset_weight = fx_one, init_asset_weight = fx_one,
      maint_liab_weight = fx_one, init_liab_weight = fx_one, liquidation_fee = 0, dust = 0, flash_loan_token_account_initial = u64_MAX,
      flash_loan_approved_amount = 0, bk_token_index = 1, bk_bump = 0, bk_mint_decimals = 6, bank_num = 0,
      min_vault_to_deposits_ratio = Fin False 0 (- 1074), net_borrow_limit_window_size_ts = 1000, last_net_borrows_window_start_ts = 0,
      net_borrow_limit_per_window_quote = 500, net_borrows_in_window = 0, borrow_weight_scale_start_quote = f64_MAX,
      deposit_weight_scale_start_quote = f64_MAX, bk_reduce_only = 0, bk_force_close = 0, disable_asset_liquidation = 0, force_withdraw = 0,
      bk_tier = [], bk_fees_withdrawn = 0, token_conditional_swap_taker_fee_rate = Fin False 0 (- 149),
      token_conditional_swap_maker_fee_rate = Fin False 0 (- 149), flash_loan_swap_fee_rate = Fin False 0 (- 149),
      interest_target_utilization = Fin False (2 ^ 23) (- 24), interest_curve_scaling = Fin False (2 ^ 52) (- 51), potential_serum_tokens = 5,
      maint_weight_shift_start = 0, maint_weight_shift_end = 0, maint_weight_shift_duration_inv = 0, maint_weight_shift_asset_target = 0,
      maint_weight_shift_liab_target = 0, fallback_oracle = [], deposit_limit = 1000, zero_util_rate = 0, bk_platform_liquidation_fee = 0,
      collected_liquidation_fees = 0, collected_collateral_fees = 0, collateral_fee_per_day = Fin False 0 (- 149)\<rparr>"

definition sample_position :: TokenPosition where
  "sample_position = TokenPosition_default\<lparr>tp_token_index := 1\<rparr>"

lemmas bank_eval = deposit_def deposit_internal_wrapper_def deposit_internal_def add_to_deposits_def div_rounding_up_def native_def
  update_cumulative_interest_def withdraw_with_fee_def withdraw_internal_wrapper_def withdraw_internal_def add_to_borrows_def
  update_net_borrows_def clamp_to_i64_def no_loan_def is_in_use_def fixed_reference_def chk_i128_def in_i128_def trunc_div_def
  sample_bank_def sample_position_def TokenPosition_default_def fx_DELTA_def chk_u64_def chk_i64_def in_i64_def i64_MIN_def i64_MAX_def u64_MAX_def

text \<open>Ten tokens of deposit are not a multiple of the index, so the indexed position is rounded up.\<close>

lemma sample_deposit:
  "\<exists>b1 pos1. deposit fixed_reference sample_bank sample_position (10 * fx_one) 5 = Inr (b1, pos1, True) \<and>
     indexed_position pos1 = 938249922368854 \<and> indexed_deposits b1 = 938249922368854"
  by (simp add: bank_eval)

section \<open>What is deposited can be withdrawn\<close>

text \<open>A deposit to a position that owes nothing: what is credited, and that its index is brought up to date.\<close>

lemma deposit_effect:
  assumes "deposit F b pos a now = Inr (b1, pos1, r)" "fixed_laws F" "indices_ok b" "0 \<le> indexed_position pos"
  obtains c where "div_rounding_up F a (deposit_index b) = Inr c" "b1 = b\<lparr>indexed_deposits := indexed_deposits b + c\<rparr>"
    "indexed_position pos1 = indexed_position pos + c" "0 \<le> a" "in_i128 (indexed_deposits b + c)" "in_i128 (indexed_position pos + c)"
    "in_use_count pos1 = in_use_count pos"
    "previous_index pos1 = (if 0 < indexed_position pos1 then deposit_index b else borrow_index b)"
proof -
  have "\<exists>pos'. deposit_internal F b pos a (\<not> is_in_use pos) now = Inr (b1, pos', r) \<and> update_cumulative_interest F b1 pos' (indexed_position pos) = Inr pos1"
    using assms(1) unfolding deposit_def deposit_internal_wrapper_def by (elim rbind_InrE) (auto split: prod.splits elim!: rbind_InrE)
  then obtain pos' where 1: "deposit_internal F b pos a (\<not> is_in_use pos) now = Inr (b1, pos', r)"
    "update_cumulative_interest F b1 pos' (indexed_position pos) = Inr pos1" by blast
  have "0 \<le> a \<and> add_to_deposits F b pos a = Inr (b1, pos', r)" using 1(1) assms(2)
  proof (cases rule: deposit_internal_cases)
    case (2 n b1 c)
    then show ?thesis using native_sign [OF assms(2,3) 2(2)] assms(4) by simp
  qed simp
  then have d: "0 \<le> a" "add_to_deposits F b pos a = Inr (b1, pos', r)" by simp_all
  obtain c where c: "div_rounding_up F a (deposit_index b) = Inr c" "b1 = b\<lparr>indexed_deposits := indexed_deposits b + c\<rparr>"
    "pos' = pos\<lparr>indexed_position := indexed_position pos + c\<rparr>" by (rule add_to_deposits_parts [OF d(2) assms(2)])
  have "in_i128 (indexed_deposits b + c) \<and> in_i128 (indexed_position pos + c)"
    using d(2) by (simp add: add_to_deposits_def c(1) fixed_lawsD [OF assms(2)] rbind_eq_Inr chk_i128_eq_Inr)
  moreover have "previous_index pos1 = (if 0 < indexed_position pos1 then deposit_index b else borrow_index b)"
    using 1(2) unfolding update_cumulative_interest_def c(2) by (elim rbind_InrE) (auto)
  ultimately show thesis using that [OF c(1,2)] d(1) update_cumulative_interest_keeps [OF 1(2)] c(3) by simp
qed

text \<open>A position whose index is up to date has no interest to account for.\<close>

lemma no_interest:
  assumes "fixed_laws F" "previous_index pos = (if 0 < opening then deposit_index b else borrow_index b)"
  shows "\<exists>pos'. update_cumulative_interest F b pos opening = Inr pos' \<and> indexed_position pos' = indexed_position pos"
  using assms(2) by (cases "0 < opening") (simp_all add: update_cumulative_interest_def fixed_lawsD [OF assms(1)] chk_i128_def in_i128_def)

lemma withdraw_wraps:
  assumes "fixed_laws F" "previous_index pos = (if 0 < indexed_position pos then deposit_index b else borrow_index b)"
    "withdraw_internal F b pos a True (\<not> is_in_use pos) now = Inr (b', pos\<lparr>indexed_position := i\<rparr>, w)"
    "deposit_index b' = deposit_index b" "borrow_index b' = borrow_index b"
  shows "\<exists>pos'. withdraw_with_fee F b pos a now = Inr (b', pos', w) \<and> indexed_position pos' = i"
proof -
  have "\<exists>pos'. update_cumulative_interest F b' (pos\<lparr>indexed_position := i\<rparr>) (indexed_position pos) = Inr pos' \<and> indexed_position pos' = i"
    using no_interest [OF assms(1), of "pos\<lparr>indexed_position := i\<rparr>"] assms(2,4,5) by simp
  then show ?thesis using assms(3) by (auto simp: withdraw_with_fee_def withdraw_internal_wrapper_def)
qed

text \<open>A withdrawal that the position covers succeeds, and is paid from the deposits.\<close>

lemma withdraw_covered:
  assumes "fixed_laws F" "previous_index pos = (if 0 < indexed_position pos then deposit_index b else borrow_index b)"
    and "native F pos b = Inr n" "0 \<le> a" "a \<le> n" "in_i128 n" "fx_div F a (deposit_index b) = Inr q" "in_i128 (dust b + fx_one)" "in_i128 (dust b)"
    and "in_i128 (indexed_deposits b - q)" "in_i128 (indexed_position pos - q)" "in_i128 (indexed_deposits b - indexed_position pos)"
  shows "\<exists>b' pos' w. withdraw_with_fee F b pos a now = Inr (b', pos', w) \<and> loan_amount w = 0 \<and> loan_origination_fee w = 0 \<and>
    (if n - a < fx_one \<and> \<not> is_in_use pos
     then \<not> position_is_active w \<and> indexed_position pos' = 0 \<and>
       b' = b\<lparr>dust := dust b + (n - a), indexed_deposits := indexed_deposits b - indexed_position pos\<rparr>
     else position_is_active w \<and> indexed_position pos' = indexed_position pos - q \<and> b' = b\<lparr>indexed_deposits := indexed_deposits b - q\<rparr>)"
proof (cases "n - a < fx_one \<and> \<not> is_in_use pos")
  case True
  have "in_i128 (n - a)" "in_i128 (dust b + (n - a))" using assms(4-9) True unfolding in_i128_def by linarith+
  then have "withdraw_internal F b pos a True (\<not> is_in_use pos) now =
      Inr (b\<lparr>dust := dust b + (n - a), indexed_deposits := indexed_deposits b - indexed_position pos\<rparr>, pos\<lparr>indexed_position := 0\<rparr>, no_loan False)"
    using assms(3-5,12) True by (simp add: withdraw_internal_def fixed_lawsD [OF assms(1)] chk_i128_def)
  then show ?thesis unfolding if_P [OF True] using withdraw_wraps [OF assms(1,2)] by (fastforce simp: no_loan_def)
next
  case False
  have "in_i128 (n - a)" using assms(4-6) unfolding in_i128_def by linarith
  then have "withdraw_internal F b pos a True (\<not> is_in_use pos) now =
      Inr (b\<lparr>indexed_deposits := indexed_deposits b - q\<rparr>, pos\<lparr>indexed_position := indexed_position pos - q\<rparr>, no_loan True)"
    using assms(3-5,7,10,11) False by (auto simp: withdraw_internal_def fixed_lawsD [OF assms(1)] chk_i128_def)
  then show ?thesis unfolding if_not_P [OF False] using withdraw_wraps [OF assms(1,2)] by (fastforce simp: no_loan_def)
qed

lemma sum_scaled:
  fixes p c idx :: int
  assumes "0 \<le> p" "0 < idx" "a \<le> c * idx div fx_one"
  shows "a \<le> (p + c) * idx div fx_one"
proof -
  have "c * idx \<le> (p + c) * idx" using assms(1,2) by simp
  then have "c * idx div fx_one \<le> (p + c) * idx div fx_one" by (rule zdiv_mono1) simp
  then show ?thesis using assms(3) by linarith
qed

text \<open>
  C39. What was deposited can be withdrawn again without a loan. After a deposit to a position that owes nothing, and that is
  part of the deposits of the bank, a withdrawal of the same amount succeeds, takes no loan and no fee, and leaves the borrows, the
  fees and the deposits of all other positions as they were before the deposit. The position keeps what it had before, plus at most one unit
  of the index (\<open>2\<^sup>-\<^sup>4\<^sup>8\<close> of an indexed token). Only when less than one token is left, and no open order uses the position, it is closed instead
  and the rest goes to the dust of the bank. The hypotheses on the ranges say that the native value of the position and one more token of dust are
  representable.
\<close>

theorem deposit_withdraw_round_trip:
  assumes "fixed_laws F" "fixed_div_law F" "indices_ok b" "0 \<le> indexed_position pos" "indexed_position pos \<le> indexed_deposits b"
    and "deposit F b pos a now = Inr (b1, pos1, r)" "native F pos1 b1 = Inr n" "in_i128 (dust b)" "in_i128 (dust b + fx_one)"
  shows "\<exists>b2 pos2 w. withdraw_with_fee F b1 pos1 a now' = Inr (b2, pos2, w) \<and> loan_amount w = 0 \<and> loan_origination_fee w = 0 \<and>
         indexed_borrows b2 = indexed_borrows b \<and> collected_fees_native b2 = collected_fees_native b \<and>
         indexed_deposits b2 - indexed_position pos2 = indexed_deposits b - indexed_position pos \<and>
         (if n - a < fx_one \<and> \<not> is_in_use pos then \<not> position_is_active w \<and> indexed_position pos2 = 0 \<and> dust b2 = dust b + (n - a)
          else position_is_active w \<and> indexed_position pos2 \<in> {indexed_position pos .. indexed_position pos + 1} \<and> dust b2 = dust b)"
proof -
  obtain c where c: "div_rounding_up F a (deposit_index b) = Inr c" "b1 = b\<lparr>indexed_deposits := indexed_deposits b + c\<rparr>"
    "indexed_position pos1 = indexed_position pos + c" "0 \<le> a" "in_i128 (indexed_deposits b + c)" "in_i128 (indexed_position pos + c)"
    "in_use_count pos1 = in_use_count pos" "previous_index pos1 = (if 0 < indexed_position pos1 then deposit_index b else borrow_index b)"
    by (rule deposit_effect [OF assms(6,1,3,4)])
  let ?q = "a * fx_one div deposit_index b"
  have di: "0 < deposit_index b" using assms(3) by (simp add: indices_ok_def)
  note d = div_rounding_up_bounds [OF assms(1,2) c(1,4) di]
  have q: "fx_div F a (deposit_index b1) = Inr ?q" "0 \<le> ?q"
    using c(1,2,4) di by (auto simp: div_rounding_up_def fixed_div_lawD [OF assms(2)] rbind_eq_Inr chk_i128_eq_Inr pos_imp_zdiv_nonneg_iff)
  have n: "n = (indexed_position pos + c) * deposit_index b div fx_one"
    using native_of_deposit [OF assms(1,7)] assms(4) d(4) by (simp add: c(2,3))
  have i: "in_i128 n" using assms(7) by (auto simp: native_def fixed_lawsD [OF assms(1)] chk_i128_eq_Inr split: if_splits)
  have an: "a \<le> n" unfolding n by (rule sum_scaled [OF assms(4) di d(3)])
  have r: "in_i128 (indexed_deposits b1 - ?q)" "in_i128 (indexed_position pos1 - ?q)" "in_i128 (indexed_deposits b1 - indexed_position pos1)"
    using c(5,6) d(1,2,4) q(2) assms(4,5) unfolding in_i128_def c(2,3) by simp_all
  have u: "is_in_use pos1 = is_in_use pos" by (simp add: is_in_use_def c(7))
  have p: "previous_index pos1 = (if 0 < indexed_position pos1 then deposit_index b1 else borrow_index b1)"
    and ds: "in_i128 (dust b1 + fx_one)" "in_i128 (dust b1)" using c(8) assms(8,9) by (simp_all add: c(2))
  obtain b2 pos2 w where w: "withdraw_with_fee F b1 pos1 a now' = Inr (b2, pos2, w)" "loan_amount w = 0" "loan_origination_fee w = 0"
    "if n - a < fx_one \<and> \<not> is_in_use pos
     then \<not> position_is_active w \<and> indexed_position pos2 = 0 \<and>
       b2 = b1\<lparr>dust := dust b1 + (n - a), indexed_deposits := indexed_deposits b1 - indexed_position pos1\<rparr>
     else position_is_active w \<and> indexed_position pos2 = indexed_position pos1 - ?q \<and> b2 = b1\<lparr>indexed_deposits := indexed_deposits b1 - ?q\<rparr>"
    using withdraw_covered [OF assms(1) p assms(7) c(4) an i q(1) ds r, of now'] unfolding u by blast
  then show ?thesis using d(1,2) c(2,3) by (intro exI [of _ b2] exI [of _ pos2] exI [of _ w]) (auto split: if_splits)
qed

definition used_position :: TokenPosition where
  "used_position = sample_position\<lparr>in_use_count := 1\<rparr>"

text \<open>Ten tokens are deposited and withdrawn. The position that an order uses is left with one unit of the index.\<close>

theorem deposit_withdraw_round_trip_witness:
  "\<exists>b1 pos1 b2 pos2 w. deposit fixed_reference sample_bank used_position (10 * fx_one) 5 = Inr (b1, pos1, True) \<and>
     withdraw_with_fee fixed_reference b1 pos1 (10 * fx_one) 6 = Inr (b2, pos2, w) \<and> position_is_active w \<and> loan_amount w = 0 \<and>
     indexed_position pos2 \<in> {0..1} \<and> dust b2 = 0"
proof -
  have "\<exists>b1 pos1 n. deposit fixed_reference sample_bank used_position (10 * fx_one) 5 = Inr (b1, pos1, True) \<and> native fixed_reference pos1 b1 = Inr n"
    by (simp add: bank_eval used_position_def)
  then obtain b1 pos1 n where 1: "deposit fixed_reference sample_bank used_position (10 * fx_one) 5 = Inr (b1, pos1, True)"
    "native fixed_reference pos1 b1 = Inr n" by blast
  have "indices_ok sample_bank" "indexed_position used_position = 0" "indexed_deposits sample_bank = 0" "dust sample_bank = 0" "is_in_use used_position"
    "in_i128 (0::int)" "in_i128 fx_one"
    by (simp_all add: indices_ok_def sample_bank_def used_position_def sample_position_def TokenPosition_default_def is_in_use_def in_i128_def)
  then show ?thesis
    using deposit_withdraw_round_trip [OF fixed_reference_laws fixed_reference_div_law _ _ _ 1(1,2), where now' = 6] 1(1) by fastforce
qed

section \<open>Transfers respect the limits\<close>

lemma transfer_out_reduce:
  assumes "transfer_out F b source a now = Inr (b1, source', w)" "a \<noteq> 0" "are_borrows_reduce_only b1"
  shows "0 \<le> indexed_position source'"
  using assms unfolding transfer_out_def by (auto elim!: rbind_InrE split: prod.splits)

lemma transfer_in_reduce:
  assumes "transfer_in F b target a now = Inr (b1, target', active)" "a \<noteq> 0" "are_deposits_reduce_only b1"
  shows "indexed_position target' \<le> 0"
  using assms unfolding transfer_in_def by (auto elim!: rbind_InrE split: prod.splits)

lemma check_net_borrows_bound:
  assumes "check_net_borrows F b price = Inr ()" "fixed_laws F" "0 \<le> net_borrows_in_window b" "0 \<le> net_borrow_limit_per_window_quote b"
  obtains stable x where "bank_stable_price F b = Inr stable" "fx_checked_mul_int F (max price stable) (net_borrows_in_window b) = Some x"
    "x \<le> net_borrow_limit_per_window_quote b * fx_one"
proof -
  have "\<exists>stable x. bank_stable_price F b = Inr stable \<and> fx_checked_mul_int F (max price stable) (net_borrows_in_window b) = Some x \<and>
      x \<le> net_borrow_limit_per_window_quote b * fx_one"
    using assms by (auto simp: check_net_borrows_def remaining_net_borrows_quote_def fixed_lawsD [OF assms(2)] chk_i128_eq_Inr unwrap_eq_Inr
        elim!: rbind_InrE split: if_splits)
  then show thesis using that by blast
qed

lemma check_deposit_bound:
  assumes "check_deposit_and_oo_limit F b = Inr ()" "fixed_laws F" "deposit_limit b \<noteq> 0"
  obtains d where "native_deposits F b = Inr d" "d + int (potential_serum_tokens b) * fx_one \<le> int (deposit_limit b) * fx_one"
proof -
  have "\<exists>d. native_deposits F b = Inr d \<and> d + int (potential_serum_tokens b) * fx_one \<le> int (deposit_limit b) * fx_one"
    using assms by (auto simp: check_deposit_and_oo_limit_def fixed_lawsD [OF assms(2)] chk_i128_eq_Inr elim!: rbind_InrE split: if_splits)
  then show thesis using that by blast
qed

text \<open>
  C40. A checked transfer respects the limits of the bank. A source that paid does not owe tokens of a bank whose borrows may
  only be reduced, and a target that received holds none of a bank whose deposits may only be reduced. When the transfer grew
  the borrows (by more than the one unit that rounding can add), the net borrows of the window are worth no more than the limit,
  at the higher of the oracle price and the stable price. When it grew the deposits, the deposits and the tokens that open orders
  may still add are within the deposit limit.
\<close>

theorem transfer_respects_limits:
  assumes "fixed_laws F" "fixed_div_law F" "indices_ok b"
    and "checked_transfer_with_fee F b source a target a' now price = Inr (b', source', target', r)"
  shows "(a \<noteq> 0 \<longrightarrow> are_borrows_reduce_only b \<longrightarrow> 0 \<le> indexed_position source') \<and>
         (a' \<noteq> 0 \<longrightarrow> are_deposits_reduce_only b \<longrightarrow> indexed_position target' \<le> 0) \<and>
         (indexed_borrows b + 1 < indexed_borrows b' \<longrightarrow> 0 \<le> net_borrows_in_window b' \<longrightarrow> 0 \<le> net_borrow_limit_per_window_quote b \<longrightarrow>
           (\<exists>stable x. bank_stable_price F b = Inr stable \<and> fx_checked_mul_int F (max price stable) (net_borrows_in_window b') = Some x \<and>
              x \<le> net_borrow_limit_per_window_quote b * fx_one)) \<and>
         (indexed_deposits b + 1 < indexed_deposits b' \<longrightarrow> deposit_limit b \<noteq> 0 \<longrightarrow>
           (\<exists>d. native_deposits F b' = Inr d \<and> d + int (potential_serum_tokens b) * fx_one \<le> int (deposit_limit b) * fx_one))"
proof -
  obtain b1 w active where p: "transfer_out F b source a now = Inr (b1, source', w)" "transfer_in F b1 target a' now = Inr (b', target', active)"
    and c: "indexed_borrows b + 1 < indexed_borrows b' \<longrightarrow> check_net_borrows F b' price = Inr ()"
    "indexed_deposits b + 1 < indexed_deposits b' \<longrightarrow> check_deposit_and_oo_limit F b' = Inr ()" by (rule transfer_parts [OF assms(4,1)])
  have m: "moves b (indexed_position source) b1 (indexed_position source')" by (rule tracksD [OF transfers_track(1) [OF assms(1-3)] p(1)])
  then have "moves b1 (indexed_position target) b' (indexed_position target')"
    using tracksD [OF transfers_track(2) [OF assms(1,2)] p(2)] assms(3) moves_indices [OF m] by simp
  then have s: "same_bank b b1" "same_bank b b'" using m same_bank_trans by (auto simp: moves_def)
  note f = same_bank_fields [OF s(1)] same_bank_fields [OF s(2)]
  have "a \<noteq> 0 \<longrightarrow> are_borrows_reduce_only b \<longrightarrow> 0 \<le> indexed_position source'"
    using transfer_out_reduce [OF p(1)] by (simp add: are_borrows_reduce_only_def f)
  moreover have "a' \<noteq> 0 \<longrightarrow> are_deposits_reduce_only b \<longrightarrow> indexed_position target' \<le> 0"
    using transfer_in_reduce [OF p(2)] by (simp add: are_deposits_reduce_only_def f)
  moreover have "bank_stable_price F b' = bank_stable_price F b" by (simp add: bank_stable_price_def f)
  ultimately show ?thesis using c check_net_borrows_bound [OF _ assms(1), of b' price] check_deposit_bound [OF _ assms(1), of b'] by (metis f(13-15))
qed

lemmas transfer_eval = checked_transfer_with_fee_def transfer_out_def transfer_in_def check_net_borrows_def remaining_net_borrows_quote_def
  bank_stable_price_def check_deposit_and_oo_limit_def native_deposits_def are_borrows_reduce_only_def are_deposits_reduce_only_def unwrap_def

text \<open>A transfer of ten tokens from a position that borrows them.\<close>

theorem transfer_respects_limits_witness:
  "\<exists>b' source' target' r. checked_transfer_with_fee fixed_reference sample_bank used_position (10 * fx_one) used_position (10 * fx_one) 5 (2 * fx_one) =
       Inr (b', source', target', r) \<and> indexed_borrows sample_bank + 1 < indexed_borrows b' \<and> net_borrows_in_window b' = 11 \<and>
     (\<exists>stable x. bank_stable_price fixed_reference sample_bank = Inr stable \<and>
        fx_checked_mul_int fixed_reference (max (2 * fx_one) stable) 11 = Some x \<and> x \<le> 500 * fx_one) \<and>
     (\<exists>d. native_deposits fixed_reference b' = Inr d \<and> d \<le> 995 * fx_one)"
proof -
  have "\<exists>b' source' target' r. checked_transfer_with_fee fixed_reference sample_bank used_position (10 * fx_one) used_position (10 * fx_one) 5 (2 * fx_one) =
       Inr (b', source', target', r) \<and> indexed_borrows sample_bank + 1 < indexed_borrows b' \<and> net_borrows_in_window b' = 11 \<and>
       indexed_deposits sample_bank + 1 < indexed_deposits b'"
    by (simp add: bank_eval used_position_def transfer_eval signed_of_def round_half_even_def)
  then obtain b' source' target' r where 1: "checked_transfer_with_fee fixed_reference sample_bank used_position (10 * fx_one) used_position (10 * fx_one) 5
      (2 * fx_one) = Inr (b', source', target', r)" "indexed_borrows sample_bank + 1 < indexed_borrows b'" "net_borrows_in_window b' = 11"
    "indexed_deposits sample_bank + 1 < indexed_deposits b'" by blast
  have "indices_ok sample_bank" "net_borrow_limit_per_window_quote sample_bank = 500" "deposit_limit sample_bank = 1000"
    "potential_serum_tokens sample_bank = 5" by (simp_all add: indices_ok_def sample_bank_def)
  then show ?thesis using transfer_respects_limits [OF fixed_reference_laws fixed_reference_div_law _ 1(1)] 1 by simp
qed

section \<open>The totals of a token\<close>

text \<open>A token with one bank that nobody has used yet.\<close>

definition new_token :: "TokenState \<Rightarrow> bool" where
  "new_token S \<longleftrightarrow> tk_positions S = [] \<and>
     (\<exists>key b. tk_banks S = [(key, b)] \<and> indexed_deposits b = 0 \<and> indexed_borrows b = 0 \<and> indices_ok b)"

lemma new_token_inv: "new_token S \<Longrightarrow> token_inv S"
  by (auto simp: new_token_def token_inv_def totals_match_def)

text \<open>
  C38. The books of a token balance. In every state that a new token reaches by deposits, withdrawals, transfers, dusting,
  updates of the indices and rates, losses socialized over the depositors, changes of parameters, new banks and positions opened and closed,
  the indexed deposits of all its banks together are exactly the sum of the positions that hold the token, and the indexed borrows
  exactly the sum of the positions that owe it. The steps that set an index are those that leave it positive: \<^verbatim>\<open>verify\<close> accepts
  curves with negative rates, and a loss may exceed the deposits, so this is a condition on the run.
\<close>

theorem token_books_balance:
  assumes "fixed_laws F" "fixed_div_law F" "new_token S" "(token_step F ids)\<^sup>*\<^sup>* S S'"
  shows "sum_list (map (indexed_deposits \<circ> snd) (tk_banks S')) = sum_list (map (\<lambda>pos. max (indexed_position pos) 0) (tk_positions S')) \<and>
         sum_list (map (indexed_borrows \<circ> snd) (tk_banks S')) = sum_list (map (\<lambda>pos. max (- indexed_position pos) 0) (tk_positions S'))"
proof -
  have "token_inv S'" using token_machine.run_inv [OF assms(4)] assms(1,2) new_token_inv [OF assms(3)] by blast
  moreover have "deposits_of = (\<lambda>pos. max (indexed_position pos) 0)" "borrows_of = (\<lambda>pos. max (- indexed_position pos) 0)"
    by (simp_all add: deposits_of_def borrows_of_def fun_eq_iff)
  ultimately show ?thesis by (simp add: token_inv_def totals_match_def)
qed

definition sample_token :: TokenState where
  "sample_token =
     \<lparr>tk_mint_info = \<lparr>mi_group = [], mi_token_index = 1, group_insurance_fund = 1, mi_mint = [], mi_banks = [[1]], mi_vaults = [[2]], mi_oracle = [],
        registration_time = 0, mi_fallback_oracle = []\<rparr>,
      tk_banks = [([1], sample_bank)], tk_positions = []\<rparr>"

definition sample_ids :: update_ids where
  "sample_ids = \<lparr>mango_program_id = [1], compute_budget_id = [2], update_discriminator = [], resilient_discriminator = []\<rparr>"

lemma sample_token_new: "new_token sample_token"
  by (simp add: new_token_def sample_token_def indices_ok_def sample_bank_def)

lemma sample_token_run:
  "\<exists>S. (token_step fixed_reference sample_ids)\<^sup>*\<^sup>* sample_token S \<and> indexed_deposits (bank_at S 0) = 938249922368854 \<and> length (tk_banks S) = 1"
proof -
  let ?S = "sample_token\<lparr>tk_positions := [sample_position]\<rparr>"
  obtain b1 pos1 where d: "deposit fixed_reference sample_bank sample_position (10 * fx_one) 5 = Inr (b1, pos1, True)"
    "indexed_deposits b1 = 938249922368854" using sample_deposit by blast
  have "token_step fixed_reference sample_ids sample_token ?S"
    using open_position [of fixed_reference sample_ids sample_token 1] by (simp add: sample_position_def sample_token_def)
  moreover have "token_step fixed_reference sample_ids ?S (set_position (set_bank ?S 0 b1) 0 pos1)"
    using d(1) by (intro operate bank_op.deposit) (simp_all add: sample_token_def)
  ultimately have "(token_step fixed_reference sample_ids)\<^sup>*\<^sup>* sample_token (set_position (set_bank ?S 0 b1) 0 pos1)" by simp
  moreover have "indexed_deposits (bank_at (set_position (set_bank ?S 0 b1) 0 pos1) 0) = 938249922368854"
    "length (tk_banks (set_position (set_bank ?S 0 b1) 0 pos1)) = 1"
    using d(2) by (simp_all add: set_position_def set_bank_def sample_token_def)
  ultimately show ?thesis by blast
qed

theorem token_books_balance_witness:
  "\<exists>S. (token_step fixed_reference sample_ids)\<^sup>*\<^sup>* sample_token S \<and>
     sum_list (map (\<lambda>pos. max (indexed_position pos) 0) (tk_positions S)) = 938249922368854"
proof -
  obtain S where S: "(token_step fixed_reference sample_ids)\<^sup>*\<^sup>* sample_token S" "indexed_deposits (bank_at S 0) = 938249922368854"
    "length (tk_banks S) = 1" using sample_token_run by blast
  then have "sum_list (map (indexed_deposits \<circ> snd) (tk_banks S)) = 938249922368854" by (cases "tk_banks S") simp_all
  then show ?thesis
    using token_books_balance [OF fixed_reference_laws fixed_reference_div_law sample_token_new S(1)] S(1) by metis
qed

end
