(* ===== verification/Spec2Isabelle.thy ===== *)
theory Spec2Isabelle
  imports Fifo_Properties Token_Properties
begin

text \<open>
  A verification library of the Mango v4 program, as it is in \<^verbatim>\<open>src/programs/mango-v4\<close>. All file names below are
  relative to the \<^verbatim>\<open>src\<close> directory of that program.

  \<^bold>\<open>The program.\<close> A group holds tokens and perp markets. Users have accounts with positions in both. A perp market has an order
  book of two sides, each side with two crit-bit trees in one array of nodes, for orders at a fixed price and for orders pegged to the
  oracle. Placing an order matches it against the other side and posts the rest; what it traded is put on an event queue, and a later
  instruction applies the events to the accounts of the makers and takers. Next to this direct way, operations that a user and a
  sequencer (the continuum) have signed are put on a FIFO queue of the market with a sequence number, and cranks execute them in that order.
  A token has one or more banks, in which positions are kept as multiples of a deposit index or a borrow index, so that interest is paid by
  moving the indices.

  \<^bold>\<open>The model.\<close> Structs are records, enumerations are datatypes with the constructors of the source, and every operation is a function of
  the same name over them. An operation that may fail returns \<open>'a res\<close>, which is \<open>error + 'a\<close>: the error codes of the program
  (\<open>MangoErr\<close>), a failed \<^verbatim>\<open>require\<close> without a code (\<open>RequireViolated\<close>), and \<open>Panic\<close> for
  what aborts the transaction: an overflow, an index out of range, an \<^verbatim>\<open>unwrap\<close> of nothing. An instruction that returns an error changes nothing,
  as the runtime rolls it back, so a handler maps a state to a state or an error. Machine integers are \<open>nat\<close> or \<open>int\<close> with the range
  check written at every operation, because the program is built with overflow checks; order keys, where bits matter, are \<open>128 word\<close>.
  Fixed point numbers are their bits as an \<open>int\<close>, with \<open>fx_one\<close> for 1. Floats are modelled exactly, with rounding to nearest even.

  \<^bold>\<open>Arguments of the model.\<close> Code outside the program is an argument of the definitions that use it. The \<^verbatim>\<open>fixed\<close> crate is the record
  \<open>fixed_ops\<close>, with its documented behaviour as the hypotheses \<open>fixed_laws\<close> (exact results or an overflow), \<open>fixed_div_law\<close>
  (quotients of non-negative numbers round down), \<open>fixed_div_near\<close> (a quotient is less than a unit off) and \<open>fixed_float_law\<close>; \<open>fixed_reference\<close>
  is an instance that has all of them, and the witnesses are evaluated on it. The health computation is the record \<open>health_ops\<close>,
  on which no theorem has a hypothesis. Hashes, Borsh and the instructions of the transaction are the arguments of the signature search. The state
  read from an oracle account is an argument of the instructions.

  \<^bold>\<open>Foundations.\<close> \<open>Mango_Prelude\<close> has the errors, the result type, range checks, \<open>for\<close> loops over an iterator, shared lemmas, and the
  interface \<open>yields\<close> of iterators. \<open>Floats\<close> and \<open>Fixed_Point\<close> have the numbers (\<^verbatim>\<open>i80f48.rs\<close>). \<open>State_Machine\<close> is
  the interface of a step relation with an invariant, interpreted for perp markets, for markets with their queue, and for tokens.

  \<^bold>\<open>Order book trees and sides\<close> (\<^verbatim>\<open>state/orderbook/nodes.rs\<close>, \<^verbatim>\<open>ordertree.rs\<close>, \<^verbatim>\<open>ordertree_iterator.rs\<close>, \<^verbatim>\<open>bookside.rs\<close>,
  \<^verbatim>\<open>bookside_iterator.rs\<close>, \<^verbatim>\<open>order_type.rs\<close>). \<open>Order_Types\<close>, \<open>Nodes\<close>, \<open>Key_Bits\<close> and \<open>Order_Tree\<close> model the array of nodes
  with its free list and every operation on it; \<open>Crit_Tree\<close> is the abstract tree it represents, and \<open>Order_Tree_Inv\<close>, \<open>_Insert\<close>,
  \<open>_Remove\<close> and \<open>_Iter\<close> prove that the operations refine those of a finite map and keep the tree, the allocator and the expiry hints well formed.
  \<open>Book_Side\<close> models a side and its merging iterator; \<open>Book_Side_Inv\<close> (the interface \<open>order_store\<close>, interpreted for both
  trees), \<open>_Order\<close> and \<open>_Queries\<close> carry \<open>Book_Side_Properties\<close>: C1 to C11, a book side is a map that is walked in price-time order,
  and its queries return what the walk says.

  \<^bold>\<open>Event queue\<close> (\<^verbatim>\<open>state/orderbook/queue.rs\<close>). \<open>Event_Queue\<close>: C12 and C13, the ring buffer is a FIFO list, and pushes can be taken
  back. The interface is the locale \<open>fifo_queue\<close>.

  \<^bold>\<open>Prices, markets, positions, accounts, group\<close> (\<^verbatim>\<open>state/stable_price.rs\<close>, \<^verbatim>\<open>oracle.rs\<close>, \<^verbatim>\<open>perp_market.rs\<close>, \<^verbatim>\<open>mango_account_components.rs\<close>,
  \<^verbatim>\<open>mango_account.rs\<close>, \<^verbatim>\<open>group.rs\<close>, \<^verbatim>\<open>instructions/ix_gate_set.rs\<close>). \<open>Stable_Price\<close>, \<open>Oracle\<close>, \<open>Perp_Market\<close>, \<open>Perp_Position\<close>,
  \<open>Mango_Account\<close> and \<open>Group\<close>, with C14 to C25: funding is symmetric and bounded, a socialized loss is spread over the open lots, the
  stable price moves slowly, accepted oracle readings are fresh and precise, trades and funding are booked exactly and fills are zero sum, settlement limits
  only shrink, order slots are freed for their own order only, a passing health check bounds what an instruction cost, and only the admin
  enables instructions.

  \<^bold>\<open>Matching\<close> (\<^verbatim>\<open>state/orderbook/order.rs\<close>, \<^verbatim>\<open>book.rs\<close>). \<open>Orders\<close> and \<open>Matching\<close> have the operations; \<open>Matching_Book\<close>, \<open>Matching_Loop\<close>,
  \<open>New_Order\<close>, \<open>Order_Effect\<close> and \<open>Cancel_Effect\<close> say what they do to the book, the event queue and the account. \<open>Order_Properties\<close> has C26 and
  C27: no lots appear or vanish, and an order stays within its limits.

  \<^bold>\<open>Perp instructions\<close> (\<^verbatim>\<open>instructions/perp_place_order.rs\<close>, \<^verbatim>\<open>perp_cancel_*.rs\<close>, \<^verbatim>\<open>perp_consume_events.rs\<close> and their account constraints in
  \<^verbatim>\<open>accounts_ix\<close>). \<open>Perp_Instructions\<close> has the handlers over \<open>PerpState\<close>: group, market, book, event queue and all accounts by key.
  \<open>Perp_Machine\<close> has the step relation and its invariant, \<open>Perp_Properties\<close> C28 to C31: conservation in every reachable state, reduce-only,
  authorisation, and complete cancelling.

  \<^bold>\<open>FIFO queue\<close> (\<^verbatim>\<open>state/queue_fifo.rs\<close>, \<^verbatim>\<open>order_intent.rs\<close>, \<^verbatim>\<open>instructions/ed25519_helpers.rs\<close>, \<^verbatim>\<open>perp_enqueue_operation.rs\<close>,
  \<^verbatim>\<open>enqueue_perp_event.rs\<close>, \<^verbatim>\<open>perp_crank_queued_operations.rs\<close>, \<^verbatim>\<open>crank_fifo_queue.rs\<close>). \<open>Queue_Fifo\<close>, \<open>Ed25519\<close>, \<open>Enqueue\<close> and \<open>Crank\<close> have the
  operations, \<open>Crank_Effect\<close> refines the loop of the cranks to a function on the list of pending events, \<open>Fifo_Machine\<close> adds the queue to the
  market's steps (the interface \<open>event_runner\<close> is what both cranks ask of the execution of an event). \<open>Fifo_Properties\<close> has C32 to C37:
  only signed operations enter, none twice, they run in order, and the cranks end and make progress.

  \<^bold>\<open>Banks and tokens\<close> (\<^verbatim>\<open>state/bank.rs\<close>, \<^verbatim>\<open>mint_info.rs\<close>, \<^verbatim>\<open>instructions/token_add_bank.rs\<close>, \<^verbatim>\<open>token_update_index_and_rate.rs\<close>, the
  socialization in \<^verbatim>\<open>token_liq_bankruptcy.rs\<close>). \<open>Bank\<close> and \<open>Token_Index\<close> have the operations, \<open>Bank_Effect\<close> their effect on
  totals and positions, \<open>Index_Growth\<close> that a rising curve never lowers the indices, \<open>Token_Machine\<close> the steps of a token.
  \<open>Token_Properties\<close> has C38 to C40: the books balance, a deposit can be withdrawn again, and transfers respect the limits.

  \<^bold>\<open>Loops.\<close> Loops over the node array take fuel, \<open>walk_fuel\<close>, one more than the number of slots, or twice that for the merged iterator; the
  invariant of a side implies that it is never exhausted, and the theorems state that the operations return. The loop of the cranks and the searches through the
  instructions of a transaction are \<^verbatim>\<open>partial_function (option)\<close>; C35 shows that the cranks return on every queue. All other
  loops are structural recursion.

  \<^bold>\<open>Not modelled.\<close> The health cache and the account retriever, and with them liquidation; the instructions that only wrap the modelled
  operations in token transfers or account creation; Serum, OpenBook and token conditional swaps, which work on other programs or on separate state; the byte layout of
  accounts, logs and the dispatch of instructions; the clients and services outside the program. Accounts that one instruction loads twice
  are one entry of the state, so borrow errors at run time do not occur.
\<close>

end
